(* ===== verification/PyData.thy ===== *)
theory PyData
  imports Prelude
begin

text \<open>
  \<open>pyavd/_utils\<close>: the functions on untyped input data. Data loaded from YAML is the datatype
  \<open>pv\<close> (floats are left out, the keys of a mapping are texts); a dictionary is an association
  list and \<open>py_eq\<close> is Python's \<open>==\<close>, for which True equals 1 and the order of a dictionary
  does not count. After the operations come the lemmas on them: lookups by path, stripping of
  empty values, and lists of dictionaries kept unique by a primary key.
\<close>

section \<open>Values\<close>

datatype pv =
    PNone
  | PBool bool
  | PInt int
  | PStr string
  | PList "pv list"
  | PDict "(string \<times> pv) list"

text \<open>\<open>d.get(k)\<close>: None for a missing key.\<close>

definition pget :: "(string \<times> pv) list \<Rightarrow> string \<Rightarrow> pv" where
  "pget d k = (case map_of d k of None \<Rightarrow> PNone | Some v \<Rightarrow> v)"

lemma size_mem_dict [termination_simp]:
  "(k, v) \<in> set d \<Longrightarrow> size v < Suc (size_list (\<lambda>p. Suc (size (snd p))) d)"
  by (induction d) auto

lemma size_pget [termination_simp]:
  "pget d k \<noteq> PNone \<Longrightarrow> size (pget d k) < Suc (size_list (\<lambda>p. Suc (size (snd p))) d)"
  by (auto simp: pget_def split: option.splits dest: map_of_SomeD size_mem_dict)

text \<open>\<open>a == b\<close>\<close>

fun py_eq :: "pv \<Rightarrow> pv \<Rightarrow> bool" where
  "py_eq PNone b = (b = PNone)"
| "py_eq (PBool x) b = (case b of PBool y \<Rightarrow> x = y | PInt j \<Rightarrow> j = of_bool x | _ \<Rightarrow> False)"
| "py_eq (PInt i) b = (case b of PBool y \<Rightarrow> i = of_bool y | PInt j \<Rightarrow> i = j | _ \<Rightarrow> False)"
| "py_eq (PStr s) b = (b = PStr s)"
| "py_eq (PList xs) b =
     (case b of
        PList ys \<Rightarrow> length xs = length ys \<and> list_all (\<lambda>(x, y). py_eq x y) (zip xs ys)
      | _ \<Rightarrow> False)"
| "py_eq (PDict d) b =
     (case b of
        PDict e \<Rightarrow> length d = length e \<and>
          list_all (\<lambda>(k, v). case map_of e k of None \<Rightarrow> False | Some w \<Rightarrow> py_eq v w) d
      | _ \<Rightarrow> False)"

text \<open>\<open>v in values\<close>\<close>

definition py_in :: "pv \<Rightarrow> pv list \<Rightarrow> bool" where
  "py_in v vs \<longleftrightarrow> list_ex (py_eq v) vs"

text \<open>Every dictionary inside a value has distinct keys: the values Python can build.\<close>

fun pv_wf :: "pv \<Rightarrow> bool" where
  "pv_wf (PList xs) = list_all pv_wf xs"
| "pv_wf (PDict d) = (dict_wf d \<and> list_all (\<lambda>(k, v). pv_wf v) d)"
| "pv_wf _ = True"

text \<open>\<open>bool(v)\<close>\<close>

fun pv_truth :: "pv \<Rightarrow> bool" where
  "pv_truth PNone = False"
| "pv_truth (PBool b) = b"
| "pv_truth (PInt i) = (i \<noteq> 0)"
| "pv_truth (PStr s) = (s \<noteq> [])"
| "pv_truth (PList xs) = (xs \<noteq> [])"
| "pv_truth (PDict d) = (d \<noteq> [])"

text \<open>\<open>str(v)\<close>, with \<open>repr\<close> for what is inside a list or a dictionary\<close>

definition char_repr :: "char \<Rightarrow> char \<Rightarrow> string" where
  "char_repr q c =
     (let n = of_char c :: nat
      in if c = q \<or> n = 92 then [char_of (92 :: nat), c]
         else if n = 10 then [char_of (92 :: nat), CHR ''n'']
         else if n = 9 then [char_of (92 :: nat), CHR ''t'']
         else if n = 13 then [char_of (92 :: nat), CHR ''r'']
         else if n < 32 \<or> n = 127 then [char_of (92 :: nat), CHR ''x'', hex_digit (n div 16), hex_digit (n mod 16)]
         else [c])"

definition str_repr :: "string \<Rightarrow> string" where
  "str_repr s =
     (let single = char_of (39 :: nat); double = char_of (34 :: nat);
          q = (if single \<in> set s \<and> double \<notin> set s then double else single)
      in [q] @ concat (map (char_repr q) s) @ [q])"

fun pv_repr :: "pv \<Rightarrow> string" where
  "pv_repr PNone = ''None''"
| "pv_repr (PBool b) = (if b then ''True'' else ''False'')"
| "pv_repr (PInt i) = int_str i"
| "pv_repr (PStr s) = str_repr s"
| "pv_repr (PList xs) = ''['' @ join '', '' (map pv_repr xs) @ '']''"
| "pv_repr (PDict d) = ''{'' @ join '', '' (map (\<lambda>(k, v). str_repr k @ '': '' @ pv_repr v) d) @ ''}''"

definition pv_str :: "pv \<Rightarrow> string" where
  "pv_str v = (case v of PStr s \<Rightarrow> s | _ \<Rightarrow> pv_repr v)"

section \<open>Lookup by path\<close>

text \<open>
  \<open>get\<close>: the key split at the separator, one level per piece. \<open>org_key\<close> is the whole key, for
  the error; \<open>custom\<close> says whether a non-empty custom error message was given. A value on
  the way that is not a dictionary has no \<open>.get\<close>.
\<close>

fun get_path :: "string list \<Rightarrow> pv \<Rightarrow> pv \<Rightarrow> bool \<Rightarrow> string \<Rightarrow> bool \<Rightarrow> (py_exn, pv) result" where
  "get_path [] v dflt required org_key custom = Inr v"
| "get_path (k # ks) v dflt required org_key custom =
     (case v of
        PDict d \<Rightarrow>
          (if pget d k = PNone then
             (if required then
                (if custom then Inl AristaAvdInvalidInputsError
                 else Inl (AristaAvdMissingVariableError org_key))
              else Inr dflt)
           else if ks \<noteq> [] then get_path ks (pget d k) dflt required org_key custom
           else Inr (pget d k))
      | _ \<Rightarrow> Inl AttributeError)"

definition get :: "pv \<Rightarrow> string \<Rightarrow> pv \<Rightarrow> bool \<Rightarrow> string option \<Rightarrow> char \<Rightarrow> bool \<Rightarrow> (py_exn, pv) result" where
  "get dictionary key dflt required org_key separator custom =
     get_path (split_on separator key) dictionary dflt required
       (case org_key of None \<Rightarrow> key | Some k \<Rightarrow> k) custom"

text \<open>\<open>get_all\<close>: lists are unpacked at every level. \<open>attr\<close> is \<open>getattr(data, name, None)\<close> on the
  values that are neither lists nor mappings; an attribute is not followed further.\<close>

fun get_all_path ::
  "(pv \<Rightarrow> string \<Rightarrow> pv) \<Rightarrow> string \<Rightarrow> bool \<Rightarrow> string list \<Rightarrow> pv \<Rightarrow> (py_exn, pv list) result" where
  "get_all_path attr org_path required path (PList xs) =
     rbind (rmap (get_all_path attr org_path required path) xs) (\<lambda>yss. Inr (concat yss))"
| "get_all_path attr org_path required (p # ps) (PDict d) =
     (if pget d p = PNone then
        (if required then Inl (AristaAvdMissingVariableError org_path) else Inr [])
      else if ps \<noteq> [] then get_all_path attr org_path required ps (pget d p)
      else Inr [pget d p])"
| "get_all_path attr org_path required (p # ps) data =
     (if attr data p = PNone then
        (if required then Inl (AristaAvdMissingVariableError org_path) else Inr [])
      else if ps \<noteq> [] then get_all_path attr org_path required ps (attr data p)
      else Inr [attr data p])"
| "get_all_path attr org_path required [] data = Inr []"

definition get_all ::
  "(pv \<Rightarrow> string \<Rightarrow> pv) \<Rightarrow> pv \<Rightarrow> string \<Rightarrow> bool \<Rightarrow> (py_exn, pv list) result" where
  "get_all attr data path required = get_all_path attr path required (split_on CHR ''.'' path) data"

text \<open>\<open>get_all_with_path\<close>: the values at a path of keys with the place they were found at, where
  a place is a list of keys and list indices.\<close>

datatype step = SKey string | SIndex nat

fun get_all_with_path ::
  "string list \<Rightarrow> step list \<Rightarrow> pv \<Rightarrow> (py_exn, (step list \<times> pv) list) result" where
  "get_all_with_path path cur (PList xs) =
     rbind (rmap (\<lambda>(x, i). get_all_with_path path (cur @ [SIndex i]) x) (zip xs [0 ..< length xs]))
       (\<lambda>yss. Inr (concat yss))"
| "get_all_with_path (p # ps) cur (PDict d) =
     (if pget d p = PNone then Inr []
      else if ps \<noteq> [] then get_all_with_path ps (cur @ [SKey p]) (pget d p)
      else Inr [(cur, pget d p)])"
| "get_all_with_path [] cur (PDict d) = Inl IndexError"
| "get_all_with_path path cur data = Inr []"

section \<open>Stripping empty values\<close>

text \<open>\<open>strip_empties_from_list\<close> and \<open>strip_empties_from_dict\<close> call each other on the containers
  inside; any other value is kept as it is.\<close>

fun strip_value :: "pv list \<Rightarrow> pv \<Rightarrow> pv" where
  "strip_value svt (PDict d) =
     PDict (filter (\<lambda>(k, v). \<not> py_in v svt) (map (\<lambda>(k, v). (k, strip_value svt v)) d))"
| "strip_value svt (PList xs) =
     PList (filter (\<lambda>v. \<not> py_in v svt) (map (strip_value svt) xs))"
| "strip_value svt v = v"

definition strip_empties_from_list :: "pv list \<Rightarrow> pv list \<Rightarrow> pv list" where
  "strip_empties_from_list xs svt = filter (\<lambda>v. \<not> py_in v svt) (map (strip_value svt) xs)"

definition strip_empties_from_dict ::
  "(string \<times> pv) list \<Rightarrow> pv list \<Rightarrow> (string \<times> pv) list" where
  "strip_empties_from_dict d svt =
     filter (\<lambda>(k, v). \<not> py_in v svt) (map (\<lambda>(k, v). (k, strip_value svt v)) d)"

definition strip_null_from_data :: "pv \<Rightarrow> pv list \<Rightarrow> pv" where
  "strip_null_from_data data svt =
     (case data of
        PDict d \<Rightarrow> PDict (strip_empties_from_dict d svt)
      | PList xs \<Rightarrow> PList (strip_empties_from_list xs svt)
      | _ \<Rightarrow> data)"

abbreviation default_strip_values :: "pv list" where
  "default_strip_values \<equiv> [PNone, PStr [], PList [], PDict []]"

section \<open>Lists of dictionaries\<close>

text \<open>\<open>compare_dicts\<close>: whether two dictionaries agree outside the ignored keys, and the set of
  differing keys in the order of the first dictionary (the source's set has no order).\<close>

definition compare_dicts ::
  "(string \<times> pv) list \<Rightarrow> (string \<times> pv) list \<Rightarrow> string list option \<Rightarrow> bool \<times> string list" where
  "compare_dicts dict1 dict2 ignore_keys =
     (let ignored = (case ignore_keys of None \<Rightarrow> [] | Some ks \<Rightarrow> ks);
          keys1 = filter (\<lambda>k. k \<notin> set ignored) (dict_keys dict1);
          keys2 = filter (\<lambda>k. k \<notin> set ignored) (dict_keys dict2);
          res = set keys1 = set keys2 \<and> list_all (\<lambda>k. py_eq (pget dict1 k) (pget dict2 k)) keys1
      in if res then (True, [])
         else (False, filter (\<lambda>k. k \<notin> set keys2 \<or> \<not> py_eq (pget dict1 k) (pget dict2 k)) keys1))"

text \<open>\<open>get_item\<close>: the first dictionary of a list whose value at \<open>key\<close> equals \<open>value\<close>.\<close>

fun find_item :: "string \<Rightarrow> pv \<Rightarrow> pv list \<Rightarrow> pv option" where
  "find_item key value [] = None"
| "find_item key value (PDict d # items) =
     (if py_eq (pget d key) value then Some (PDict d) else find_item key value items)"
| "find_item key value (_ # items) = find_item key value items"

definition get_item ::
  "pv \<Rightarrow> string option \<Rightarrow> pv \<Rightarrow> pv \<Rightarrow> bool \<Rightarrow> string option \<Rightarrow> bool \<Rightarrow> (py_exn, pv) result" where
  "get_item list_of_dicts key value dflt required var_name custom =
     (let missing =
        (if required then
           (if custom then Inl AristaAvdInvalidInputsError
            else Inl (AristaAvdMissingVariableError
                        (case var_name of Some n \<Rightarrow> n | None \<Rightarrow> (case key of Some k \<Rightarrow> k | None \<Rightarrow> ''None''))))
         else Inr dflt)
      in case (list_of_dicts, key) of
           (PList items, Some k) \<Rightarrow>
             (if items = [] \<or> value = PNone then missing
              else (case find_item k value items of Some d \<Rightarrow> Inr d | None \<Rightarrow> missing))
         | _ \<Rightarrow> missing)"

text \<open>\<open>append_if_not_duplicate\<close> works on the list in place: the result is the new list, or the
  exception with the list unchanged. The context keys of the error message are looked up with
  \<open>get\<close> in both dictionaries, which raises AttributeError of its own when a dotted key runs
  through a value that is no dictionary.\<close>

definition append_if_not_duplicate ::
  "pv list \<Rightarrow> string \<Rightarrow> (string \<times> pv) list \<Rightarrow> string list \<Rightarrow> bool \<Rightarrow> string list option
     \<Rightarrow> (py_exn, pv list) result" where
  "append_if_not_duplicate list_of_dicts primary_key new_dict context_keys ignore_same_dict ignore_keys =
     (case map_of new_dict primary_key of
        None \<Rightarrow> Inl KeyError
      | Some value \<Rightarrow>
          rbind (get_item (PList list_of_dicts) (Some primary_key) value PNone False None False) (\<lambda>found.
            case found of
              PDict found_dict \<Rightarrow>
                (let cmp = compare_dicts new_dict found_dict ignore_keys
                 in if fst cmp \<and> ignore_same_dict then Inr list_of_dicts
                    else
                      (let context_keys = context_keys @ sort (snd cmp);
                           item = (\<lambda>d. rmap (\<lambda>k. get (PDict d) k PNone False None CHR ''.'' False) context_keys)
                       in rbind (item new_dict) (\<lambda>_. rbind (item found_dict) (\<lambda>_.
                            Inl AristaAvdDuplicateDataError))))
            | _ \<Rightarrow> Inr (list_of_dicts @ [PDict new_dict])))"

text \<open>\<open>replace_or_append_item\<close>: the changed list and the index of the entry.\<close>

fun item_index :: "string \<Rightarrow> pv \<Rightarrow> pv list \<Rightarrow> nat option" where
  "item_index key value [] = None"
| "item_index key value (PDict d # items) =
     (if py_eq (pget d key) value then Some 0 else map_option Suc (item_index key value items))"
| "item_index key value (_ # items) = map_option Suc (item_index key value items)"

definition replace_or_append_item ::
  "pv list \<Rightarrow> string \<Rightarrow> (string \<times> pv) list \<Rightarrow> (py_exn, pv list \<times> nat) result" where
  "replace_or_append_item list_of_dicts key replacement_dict =
     (case map_of replacement_dict key of
        None \<Rightarrow> Inl ValueError
      | Some value \<Rightarrow>
          (case item_index key value list_of_dicts of
             Some i \<Rightarrow> Inr (list_of_dicts[i := PDict replacement_dict], i)
           | None \<Rightarrow> Inr (list_of_dicts @ [PDict replacement_dict], length list_of_dicts)))"

section \<open>Small list functions\<close>

text \<open>\<open>default(*values)\<close>\<close>

fun first_not_none :: "pv list \<Rightarrow> pv" where
  "first_not_none [] = PNone"
| "first_not_none (v # vs) = (if v \<noteq> PNone then v else first_not_none vs)"

text \<open>The duplicated values with the indices they stand at, in the order of first occurrence.\<close>

definition get_indices_of_duplicate_items :: "'a list \<Rightarrow> ('a \<times> nat list) list" where
  "get_indices_of_duplicate_items values =
     (let counters = fold (\<lambda>(item, index) c.
              AList.update item ((case map_of c item of None \<Rightarrow> [] | Some is \<Rightarrow> is) @ [index]) c)
            (zip values [0 ..< length values]) []
      in filter (\<lambda>(value, indices). 1 < length indices) counters)"

text \<open>\<open>batch\<close>: \<open>islice\<close> rejects a negative size; with size 0 the first slice is already empty and
  the generator ends.\<close>

fun batch_from :: "nat \<Rightarrow> 'a list \<Rightarrow> 'a list list" where
  "batch_from n xs =
     (if n = 0 \<or> xs = [] then [] else take n xs # batch_from n (drop n xs))"

declare batch_from.simps [simp del]

definition batch :: "'a list \<Rightarrow> int \<Rightarrow> (py_exn, 'a list list) result" where
  "batch xs n = (if n < 0 then Inl ValueError else Inr (batch_from (nat n) xs))"

text \<open>\<open>itertools.groupby\<close>: runs of equal keys.\<close>

fun itergroupby :: "('a \<Rightarrow> 'k) \<Rightarrow> 'a list \<Rightarrow> ('k \<times> 'a list) list" where
  "itergroupby key [] = []"
| "itergroupby key (x # xs) =
     (case itergroupby key xs of
        (k, ys) # rest \<Rightarrow> (if key x = k then (k, x # ys) # rest else (key x, [x]) # (k, ys) # rest)
      | [] \<Rightarrow> [(key x, [x])])"

text \<open>\<open>groupby\<close> and \<open>groupby_obj\<close>, on keys that have an order.\<close>

definition groupby :: "('a \<Rightarrow> 'k :: linorder) \<Rightarrow> 'a list \<Rightarrow> ('k \<times> 'a list) list" where
  "groupby getkey xs = itergroupby getkey (sort_key getkey xs)"

definition groupby_obj :: "('a \<Rightarrow> 'k :: linorder) \<Rightarrow> 'a list \<Rightarrow> bool \<Rightarrow> ('k \<times> 'a list) list" where
  "groupby_obj getkey xs skip_singles =
     (let groups = itergroupby getkey (sort_key getkey xs)
      in if skip_singles then filter (\<lambda>(k, g). 1 < length g) groups else groups)"

section \<open>Equality\<close>

lemma py_eq_PList: "py_eq (PList xs) (PList ys) \<longleftrightarrow> list_all2 py_eq xs ys"
  by (simp add: list_all2_iff list_all_iff)

lemma py_eq_None_right [simp]: "py_eq v PNone \<longleftrightarrow> v = PNone"
  by (cases v) auto

lemma py_eq_refl [simp]: "pv_wf v \<Longrightarrow> py_eq v v"
proof (induction v rule: pv_wf.induct)
  case (1 xs)
  then have "\<forall>x \<in> set xs. py_eq x x" by (simp add: list_all_iff)
  then show ?case unfolding py_eq_PList by (simp add: list_all2_same)
next
  case (2 d)
  have "case map_of d k of None \<Rightarrow> False | Some w \<Rightarrow> py_eq v w" if "(k, v) \<in> set d" for k v
  proof -
    have "map_of d k = Some v" using 2(2) that by simp
    moreover have "py_eq v v" using 2 that by (fastforce simp: list_all_iff)
    ultimately show ?thesis by simp
  qed
  then show ?case by (auto simp: list_all_iff)
qed auto

section \<open>Stripping\<close>

text \<open>No stripped value is left inside a value, at any depth.\<close>

fun stripped :: "pv list \<Rightarrow> pv \<Rightarrow> bool" where
  "stripped svt (PDict d) = list_all (\<lambda>(k, v). \<not> py_in v svt \<and> stripped svt v) d"
| "stripped svt (PList xs) = list_all (\<lambda>v. \<not> py_in v svt \<and> stripped svt v) xs"
| "stripped svt v = True"

lemma strip_value_stripped [simp]: "stripped svt (strip_value svt v)"
proof (induction v rule: stripped.induct)
  case (1 svt d)
  then show ?case by (fastforce simp: list_all_iff)
next
  case (2 svt xs)
  then show ?case by (auto simp: list_all_iff)
qed auto

lemma strip_value_id: "stripped svt v \<Longrightarrow> strip_value svt v = v"
proof (induction v rule: stripped.induct)
  case (1 svt d)
  then have "map (\<lambda>(k, v). (k, strip_value svt v)) d = d"
    by (intro map_idI) (fastforce simp: list_all_iff)
  moreover have "filter (\<lambda>(k, v). \<not> py_in v svt) d = d"
    using 1 by (fastforce simp: list_all_iff intro: filter_True)
  ultimately show ?case by simp
next
  case (2 svt xs)
  then have "map (strip_value svt) xs = xs"
    by (intro map_idI) (fastforce simp: list_all_iff)
  moreover have "filter (\<lambda>v. \<not> py_in v svt) xs = xs"
    using 2 by (fastforce simp: list_all_iff intro: filter_True)
  ultimately show ?case by simp
qed auto

lemma strip_null_from_data_eq: "strip_null_from_data data svt = strip_value svt data"
  by (cases data)
     (simp_all add: strip_null_from_data_def strip_empties_from_dict_def strip_empties_from_list_def)

text \<open>The values a container is left with are those of the original whose own stripped form
  remains: nothing is invented and nothing else dropped.\<close>

lemma strip_empties_from_dict_get:
  "dict_wf d \<Longrightarrow> map_of (strip_empties_from_dict d svt) k
     = (case map_of d k of None \<Rightarrow> None
        | Some v \<Rightarrow> if py_in (strip_value svt v) svt then None else Some (strip_value svt v))"
proof (induction d)
  case (Cons p d)
  obtain k' v where p: "p = (k', v)" by (cases p)
  have "map_of (strip_empties_from_dict d svt) k' = None" if "k' \<notin> set (dict_keys d)"
    using that by (force simp: strip_empties_from_dict_def map_of_eq_None_iff)
  with Cons show ?case
    unfolding p by (cases "k = k'") (simp_all add: strip_empties_from_dict_def dict_get_None)
qed (simp add: strip_empties_from_dict_def)

text \<open>
  Stripping leaves no value of the strip tuple at any depth of the data, and stripping again
  changes nothing.
\<close>

theorem strip_null_from_data_clean:
  "stripped svt (strip_null_from_data data svt)
     \<and> strip_null_from_data (strip_null_from_data data svt) svt = strip_null_from_data data svt"
  by (simp add: strip_null_from_data_eq strip_value_id)

section \<open>Lookups agree\<close>

lemma get_path_get_all_path:
  "ks \<noteq> [] \<Longrightarrow> get_path ks v PNone False ok c = Inr x \<Longrightarrow> x \<noteq> PNone \<Longrightarrow>
     get_all_path attr op req ks v = Inr [x]"
proof (induction ks arbitrary: v)
  case (Cons k ks)
  then show ?case by (cases v) (auto split: if_splits)
qed simp

text \<open>
  \<open>get_all\<close> extends \<open>get\<close>: where \<open>get\<close> finds a value at a dotted path, \<open>get_all\<close>
  returns exactly that one, whether or not it is required and whatever attributes objects have.
\<close>

theorem get_all_extends_get:
  assumes "get data path PNone False None CHR ''.'' False = Inr x" and "x \<noteq> PNone"
  shows "get_all attr data path required = Inr [x]"
  using assms by (simp add: get_def get_all_def get_path_get_all_path)

theorem get_all_extends_get_witness:
  "get_all (\<lambda>_ _. PNone) (PDict [(''a'', PDict [(''b'', PInt 7)])]) ''a.b'' True = Inr [PInt 7]"
  by (rule get_all_extends_get) (simp_all add: get_def pget_def)

section \<open>Lists unique by a key\<close>

text \<open>No two dictionaries of the list have equal values at the key, None values apart.\<close>

fun item_key :: "string \<Rightarrow> pv \<Rightarrow> pv" where
  "item_key key (PDict d) = pget d key"
| "item_key key _ = PNone"

definition unique_by :: "string \<Rightarrow> pv list \<Rightarrow> bool" where
  "unique_by key items \<longleftrightarrow>
     sorted_wrt (\<lambda>a b. item_key key a \<noteq> PNone \<longrightarrow> \<not> py_eq (item_key key a) (item_key key b)) items"

lemma find_item_None:
  "w \<noteq> PNone \<Longrightarrow>
     find_item key w items = None \<longleftrightarrow> (\<forall>i \<in> set items. \<not> py_eq (item_key key i) w)"
  by (induction key w items rule: find_item.induct) auto

lemma find_item_Some:
  "find_item key w items = Some x \<Longrightarrow>
     \<exists>d. x = PDict d \<and> x \<in> set items \<and> py_eq (pget d key) w"
  by (induction key w items rule: find_item.induct) (auto split: if_splits)

lemma find_item_append:
  "find_item key w (xs @ ys) =
     (case find_item key w xs of Some d \<Rightarrow> Some d | None \<Rightarrow> find_item key w ys)"
  by (induction key w xs rule: find_item.induct) auto

lemma get_item_find:
  "w \<noteq> PNone \<Longrightarrow> get_item (PList items) (Some key) w PNone False None False
     = Inr (case find_item key w items of Some d \<Rightarrow> d | None \<Rightarrow> PNone)"
  by (auto simp: get_item_def Let_def split: option.splits)

lemma compare_dicts_self: "pv_wf (PDict d) \<Longrightarrow> fst (compare_dicts d d ig)"
proof -
  assume wf: "pv_wf (PDict d)"
  have "pv_wf (pget d k)" for k
    using wf by (auto simp: pget_def list_all_iff split: option.splits dest!: map_of_SomeD)
  then show ?thesis by (simp add: compare_dicts_def Let_def list_all_iff)
qed

lemma append_if_not_duplicate_cases:
  assumes "append_if_not_duplicate items key d ck same ig = Inr items'"
  obtains w where "map_of d key = Some w" "items' = items @ [PDict d]"
      "w = PNone \<or> find_item key w items = None"
    | w found where "map_of d key = Some w" "items' = items" "same" "w \<noteq> PNone"
      "find_item key w items = Some (PDict found)" "fst (compare_dicts d found ig)"
proof (cases "map_of d key")
  case None
  with assms show thesis by (simp add: append_if_not_duplicate_def)
next
  case (Some w)
  show thesis
  proof (cases "w = PNone \<or> find_item key w items = None")
    case True
    then have "get_item (PList items) (Some key) w PNone False None False = Inr PNone"
      by (auto simp: get_item_def Let_def)
    with Some assms have "items' = items @ [PDict d]" by (simp add: append_if_not_duplicate_def)
    with Some True that(1) show thesis by blast
  next
    case False
    then obtain found where f: "find_item key w items = Some (PDict found)"
      using find_item_Some by blast
    with False Some assms have "items' = items \<and> same \<and> fst (compare_dicts d found ig)"
      by (simp add: append_if_not_duplicate_def get_item_find Let_def split: if_splits)
    with False Some f that(2) show thesis by blast
  qed
qed

text \<open>
  \<open>append_if_not_duplicate\<close> keeps a list unique by its primary key; on success the list
  is unchanged or has the new dictionary at its end, and with \<open>ignore_same_dict\<close> adding the same
  dictionary once more changes nothing.
\<close>

theorem append_if_not_duplicate_unique:
  assumes "append_if_not_duplicate items key d ck same ig = Inr items'"
    and "unique_by key items"
  shows "unique_by key items' \<and> (items' = items \<or> items' = items @ [PDict d]) \<and>
     (same \<and> pv_wf (PDict d) \<and> pget d key \<noteq> PNone \<longrightarrow>
        append_if_not_duplicate items' key d ck same ig = Inr items')"
  using assms(1)
proof (cases rule: append_if_not_duplicate_cases)
  case (1 w)
  have "unique_by key items'"
  proof (cases "w = PNone")
    case True
    with 1 assms(2) show ?thesis
      by (auto simp: unique_by_def sorted_wrt_append pget_def)
  next
    case False
    with 1 have "\<forall>i \<in> set items. \<not> py_eq (item_key key i) w" by (auto simp: find_item_None)
    with 1 assms(2) show ?thesis by (auto simp: unique_by_def sorted_wrt_append pget_def)
  qed
  moreover have "append_if_not_duplicate items' key d ck same ig = Inr items'"
    if a: "same" "pv_wf (PDict d)" "pget d key \<noteq> PNone"
  proof -
    have v: "w \<noteq> PNone" "pget d key = w" using 1 a by (auto simp: pget_def)
    have "(key, w) \<in> set d" using 1(1) by (rule map_of_SomeD)
    then have "pv_wf w" using a(2) by (auto simp: list_all_iff)
    then have "find_item key w items' = Some (PDict d)"
      using 1 v by (simp add: find_item_append)
    then show ?thesis
      using 1(1) v a compare_dicts_self [OF a(2), of ig]
      by (simp add: append_if_not_duplicate_def get_item_find)
  qed
  ultimately show ?thesis using 1 by simp
next
  case (2 w found)
  with assms show ?thesis by simp
qed

theorem append_if_not_duplicate_unique_witness:
  "append_if_not_duplicate [PDict [(''name'', PStr ''a''), (''x'', PInt 1)]] ''name''
      [(''name'', PStr ''b''), (''x'', PInt 1)] [''name''] True None
     = Inr [PDict [(''name'', PStr ''a''), (''x'', PInt 1)], PDict [(''name'', PStr ''b''), (''x'', PInt 1)]]
   \<and> unique_by ''name'' [PDict [(''name'', PStr ''a''), (''x'', PInt 1)],
        PDict [(''name'', PStr ''b''), (''x'', PInt 1)]]"
proof -
  let ?r = "append_if_not_duplicate [PDict [(''name'', PStr ''a''), (''x'', PInt 1)]] ''name''
      [(''name'', PStr ''b''), (''x'', PInt 1)] [''name''] True None"
  have r: "?r = Inr [PDict [(''name'', PStr ''a''), (''x'', PInt 1)], PDict [(''name'', PStr ''b''), (''x'', PInt 1)]]"
    by (simp add: append_if_not_duplicate_def get_item_def pget_def)
  moreover have "unique_by ''name'' [PDict [(''name'', PStr ''a''), (''x'', PInt 1)]]"
    by (simp add: unique_by_def)
  ultimately show ?thesis using append_if_not_duplicate_unique by blast
qed

lemma item_index_Some:
  "item_index key w items = Some i \<Longrightarrow> w \<noteq> PNone \<Longrightarrow>
     i < length items \<and> py_eq (item_key key (items ! i)) w
       \<and> (\<forall>j < i. \<not> py_eq (item_key key (items ! j)) w)"
  by (induction key w items arbitrary: i rule: item_index.induct)
     (auto simp: less_Suc_eq_0_disj split: if_splits)

lemma item_index_None:
  "w \<noteq> PNone \<Longrightarrow>
     item_index key w items = None \<longleftrightarrow> (\<forall>i \<in> set items. \<not> py_eq (item_key key i) w)"
  by (induction key w items rule: item_index.induct) auto

lemma find_item_first:
  "i < length items \<Longrightarrow> items ! i = PDict d \<Longrightarrow> py_eq (pget d key) w \<Longrightarrow> w \<noteq> PNone \<Longrightarrow>
     \<forall>j < i. \<not> py_eq (item_key key (items ! j)) w \<Longrightarrow> find_item key w items = Some (PDict d)"
proof -
  assume i: "i < length items" "items ! i = PDict d" "py_eq (pget d key) w" "w \<noteq> PNone"
    and first: "\<forall>j < i. \<not> py_eq (item_key key (items ! j)) w"
  have "\<forall>x \<in> set (take i items). \<not> py_eq (item_key key x) w"
    using first i(1) by (auto simp: in_set_conv_nth)
  then have "find_item key w (take i items) = None" using i(4) by (simp add: find_item_None)
  then have "find_item key w (take i items @ PDict d # drop (Suc i) items) = Some (PDict d)"
    using i(3) by (simp add: find_item_append)
  then show ?thesis using id_take_nth_drop [OF i(1)] i(2) by simp
qed

text \<open>
  C7. \<open>replace_or_append_item\<close> puts the dictionary at the index it returns and touches no other
  entry; looking its key up afterwards with \<open>get_item\<close> finds it, for every dictionary whose key
  holds a value.
\<close>

theorem replace_or_append_item_get:
  assumes "replace_or_append_item items key d = Inr (items', i)"
    and "pv_wf (PDict d)" and "pget d key \<noteq> PNone"
  shows "i < length items' \<and> items' ! i = PDict d \<and> length items' = max (length items) (Suc i)
     \<and> (\<forall>j < length items. j \<noteq> i \<longrightarrow> items' ! j = items ! j)
     \<and> get_item (PList items') (Some key) (pget d key) PNone True None False = Inr (PDict d)"
proof -
  let ?w = "pget d key"
  have w: "map_of d key = Some ?w" using assms(3) by (auto simp: pget_def split: option.splits)
  have eq: "py_eq ?w ?w"
    using assms(2) w by (auto simp: list_all_iff dest!: map_of_SomeD)
  have res: "i < length items' \<and> items' ! i = PDict d \<and> length items' = max (length items) (Suc i)
     \<and> (\<forall>j < length items. j \<noteq> i \<longrightarrow> items' ! j = items ! j)
     \<and> (\<forall>j < i. \<not> py_eq (item_key key (items' ! j)) ?w)"
  proof (cases "item_index key ?w items")
    case None
    then have "\<forall>x \<in> set items. \<not> py_eq (item_key key x) ?w"
      using assms(3) by (simp add: item_index_None)
    with None assms(1) w show ?thesis
      by (auto simp: replace_or_append_item_def nth_append)
  next
    case (Some k)
    from item_index_Some [OF this assms(3)] Some assms(1) w show ?thesis
      by (auto simp: replace_or_append_item_def)
  qed
  then have "find_item key ?w items' = Some (PDict d)"
    using eq assms(3) by (intro find_item_first [of i]) auto
  then have "get_item (PList items') (Some key) ?w PNone True None False = Inr (PDict d)"
    using res assms(3) by (auto simp: get_item_def Let_def)
  with res show ?thesis by blast
qed

theorem replace_or_append_item_get_witness:
  "get_item (PList [PNone, PDict [(''n'', PInt 1), (''v'', PInt 2)]]) (Some ''n'') (PInt 1) PNone True None False
     = Inr (PDict [(''n'', PInt 1), (''v'', PInt 2)])"
  using replace_or_append_item_get
    [of "[PNone, PDict [(''n'', PInt 1)]]" "''n''" "[(''n'', PInt 1), (''v'', PInt 2)]"
        "[PNone, PDict [(''n'', PInt 1), (''v'', PInt 2)]]" 1]
  by (simp add: replace_or_append_item_def pget_def)

section \<open>Batches and groups\<close>

lemma batch_from_props:
  "0 < n \<Longrightarrow> concat (batch_from n xs) = xs \<and>
     (\<forall>i < length (batch_from n xs). batch_from n xs ! i \<noteq> [] \<and> length (batch_from n xs ! i) \<le> n \<and>
        (Suc i < length (batch_from n xs) \<longrightarrow> length (batch_from n xs ! i) = n))"
proof (induction n xs rule: batch_from.induct)
  case (1 n xs)
  show ?case
  proof (cases "xs = []")
    case True
    then show ?thesis by (simp add: batch_from.simps)
  next
    case False
    let ?rest = "batch_from n (drop n xs)"
    have eq: "batch_from n xs = take n xs # ?rest"
      using False 1(2) by (simp add: batch_from.simps [of n xs])
    have full: "length (take n xs) = n" if "?rest \<noteq> []"
    proof -
      have "drop n xs \<noteq> []" using that by (auto simp: batch_from.simps [of n "drop n xs"])
      then show ?thesis by simp
    qed
    show ?thesis
      using 1 False full unfolding eq by (auto simp: nth_Cons split: nat.splits)
  qed
qed

text \<open>
  The batches of a positive size put together are the input, none is empty, all but the last
  have exactly the size asked for and the last has at most that.
\<close>

theorem batch_splits:
  assumes "0 < n"
  shows "\<exists>bs. batch xs n = Inr bs \<and> concat bs = xs \<and>
     (\<forall>i < length bs. bs ! i \<noteq> [] \<and> int (length (bs ! i)) \<le> n \<and>
        (Suc i < length bs \<longrightarrow> int (length (bs ! i)) = n))"
  using batch_from_props [of "nat n" xs] assms by (auto simp: batch_def)

theorem batch_splits_witness:
  "\<exists>bs. batch [1, 2, 3, 4, 5 :: int] 2 = Inr bs \<and> concat bs = [1, 2, 3, 4, 5]"
  using batch_splits [of 2 "[1, 2, 3, 4, 5 :: int]"] by auto

lemma itergroupby_key: "(k, g) \<in> set (itergroupby key xs) \<Longrightarrow> g \<noteq> [] \<and> (\<forall>x \<in> set g. key x = k)"
  by (induction xs arbitrary: k g) (auto split: list.splits prod.splits if_splits, blast+)

lemma itergroupby_concat: "concat (map snd (itergroupby key xs)) = xs"
  by (induction xs) (auto split: list.splits)

lemma itergroupby_keys_set: "fst ` set (itergroupby key xs) = key ` set xs"
proof (induction xs)
  case (Cons x xs)
  have "key ` set (x # xs) = insert (key x) (fst ` set (itergroupby key xs))"
    unfolding Cons.IH by simp
  then show ?case by (auto split: list.split prod.split)
qed simp

lemma itergroupby_keys_sorted:
  "sorted (map key xs) \<Longrightarrow> sorted_wrt (<) (map fst (itergroupby key xs))"
proof (induction xs)
  case (Cons x xs)
  show ?case
  proof (cases "itergroupby key xs")
    case (Cons p rest)
    obtain k g where p: "p = (k, g)" by (cases p)
    have "k \<in> key ` set xs" using itergroupby_keys_set [of key xs] Cons p by (metis fst_conv imageI list.set_intros(1))
    then have "key x \<le> k" using Cons.prems by auto
    with Cons.IH Cons.prems show ?thesis
      by (auto simp: Cons p intro: order.strict_trans1)
  qed auto
qed simp

lemma itergroupby_filter:
  "sorted_wrt (<) (map fst (itergroupby key xs)) \<Longrightarrow> (k, g) \<in> set (itergroupby key xs) \<Longrightarrow>
     g = filter (\<lambda>x. key x = (k :: 'k :: linorder)) xs"
proof -
  assume s: "sorted_wrt (<) (map fst (itergroupby key xs))" and m: "(k, g) \<in> set (itergroupby key xs)"
  obtain as bs where split: "itergroupby key xs = as @ (k, g) # bs"
    using m by (meson split_list)
  have fst_ne: "k' \<noteq> k" if "(k', g') \<in> set as \<union> set bs" for k' g'
    using s that unfolding split by (fastforce simp: sorted_wrt_append)
  have other: "filter (\<lambda>x. key x = k) (concat (map snd gs)) = []"
    if "set gs \<subseteq> set as \<union> set bs" for gs
  proof -
    have "key x \<noteq> k" if p: "p \<in> set gs" and x: "x \<in> set (snd p)" for p x
    proof -
      have "p \<in> set as \<union> set bs" using \<open>set gs \<subseteq> set as \<union> set bs\<close> p by (rule subsetD)
      then have "(fst p, snd p) \<in> set (itergroupby key xs)" and ne: "fst p \<noteq> k"
        using fst_ne [of "fst p" "snd p"] by (auto simp: split)
      then show ?thesis using itergroupby_key [of "fst p" "snd p" key xs] x by auto
    qed
    then show ?thesis by (simp add: filter_empty_conv)
  qed
  have "filter (\<lambda>x. key x = k) g = g"
    using itergroupby_key [OF m] by simp
  moreover have "xs = concat (map snd as) @ g @ concat (map snd bs)"
    using itergroupby_concat [of key xs] unfolding split by simp
  ultimately show ?thesis using other [of as] other [of bs] by (metis append_Nil append_Nil2 filter_append sup_ge1 sup_ge2)
qed

text \<open>
  \<open>groupby_obj\<close> returns one group per key in increasing order of the keys, and the group of a
  key holds exactly the objects with that key in their original order; with \<open>skip_singles\<close>
  exactly the groups of one object are left out.
\<close>

theorem groupby_obj_groups:
  "sorted_wrt (<) (map fst (groupby_obj getkey xs skip_singles)) \<and>
   (\<forall>k g. (k, g) \<in> set (groupby_obj getkey xs skip_singles) \<longleftrightarrow>
      g = filter (\<lambda>x. getkey x = k) xs \<and> (if skip_singles then 1 else 0) < length g)"
proof -
  let ?gs = "itergroupby getkey (sort_key getkey xs)"
  have s: "sorted_wrt (<) (map fst ?gs)" by (rule itergroupby_keys_sorted) simp
  then have s': "sorted_wrt (<) (map fst (filter P ?gs))" for P
    by (simp add: sorted_wrt_map sorted_wrt_filter)
  have g: "g = filter (\<lambda>x. getkey x = k) xs" if "(k, g) \<in> set ?gs" for k g
    using itergroupby_filter [OF s that] by (simp add: sort_key_stable)
  have ex: "(k, filter (\<lambda>x. getkey x = k) xs) \<in> set ?gs" if "filter (\<lambda>x. getkey x = k) xs \<noteq> []" for k
  proof -
    have "k \<in> getkey ` set (sort_key getkey xs)" using that by (auto simp: filter_empty_conv)
    then obtain g' where "(k, g') \<in> set ?gs"
      using itergroupby_keys_set [of getkey "sort_key getkey xs"] by force
    with g show ?thesis by metis
  qed
  have all: "(k, g) \<in> set ?gs \<longleftrightarrow> g = filter (\<lambda>x. getkey x = k) xs \<and> g \<noteq> []" for k g
    using g ex itergroupby_key [of k g getkey] by blast
  show ?thesis
    using s s' all by (auto simp: groupby_obj_def Let_def)
qed

end
