(* ===== verification/NaturalSort.thy ===== *)
theory NaturalSort
  imports Prelude "HOL-Library.Multiset"
begin

text \<open>
  \<open>pyavd/j2filters/natural_sort.py\<close>: sorting by the numbers and words of a text. A key is the
  text split at its runs of digits, the runs read as integers. Python compares such lists
  element by element and raises TypeError when an integer meets a string; the lemmas show that
  keys alternate between the two kinds, so this cannot happen, and that the filter is a stable
  sort by the order in which numbers compare by value. Texts are ASCII.
\<close>

section \<open>Keys\<close>

text \<open>One element of a sort key: the value \<open>_convert\<close> returns.\<close>

datatype keypart = KInt nat | KStr string

text \<open>Integers and strings are not comparable in Python; any order between the two kinds
  makes the type a linear order for the library.\<close>

instantiation keypart :: linorder
begin

fun less_eq_keypart :: "keypart \<Rightarrow> keypart \<Rightarrow> bool" where
  "less_eq_keypart (KInt m) (KInt n) = (m \<le> n)"
| "less_eq_keypart (KStr s) (KStr t) = (s \<le> t)"
| "less_eq_keypart (KInt _) (KStr _) = True"
| "less_eq_keypart (KStr _) (KInt _) = False"

definition less_keypart :: "keypart \<Rightarrow> keypart \<Rightarrow> bool" where
  "less_keypart a b \<longleftrightarrow> a \<le> b \<and> \<not> b \<le> (a :: keypart)"

instance
proof
  fix a b c :: keypart
  show "(a < b) = (a \<le> b \<and> \<not> b \<le> a)" by (rule less_keypart_def)
  show "a \<le> a" by (cases a) auto
  show "a \<le> b \<Longrightarrow> b \<le> c \<Longrightarrow> a \<le> c" by (cases a; cases b; cases c) auto
  show "a \<le> b \<Longrightarrow> b \<le> a \<Longrightarrow> a = b" by (cases a; cases b) auto
  show "a \<le> b \<or> b \<le> a" by (cases a; cases b) auto
qed

end

lemma keypart_less_simps [simp]:
  "KInt m < KInt n \<longleftrightarrow> m < n"
  "KStr s < KStr t \<longleftrightarrow> s < t"
  by (auto simp: less_keypart_def)

text \<open>\<open>re.split(r"(\d+)", s)\<close>: the texts between the digit runs and the runs themselves, in turn;
  the first and the last piece are texts and may be empty.\<close>

function re_split_digits :: "string \<Rightarrow> string list" where
  "re_split_digits s =
     (let pre = takeWhile (\<lambda>c. \<not> is_digit c) s;
          rest = dropWhile (\<lambda>c. \<not> is_digit c) s
      in if rest = [] then [pre]
         else pre # takeWhile is_digit rest # re_split_digits (dropWhile is_digit rest))"
  by pat_completeness auto
termination
proof (relation "measure length")
  fix s :: string and pre rest
  assume rest: "rest = dropWhile (\<lambda>c. \<not> is_digit c) s" and ne: "rest \<noteq> []"
  have hd: "is_digit (hd rest)"
    using hd_dropWhile [of "\<lambda>c. \<not> is_digit c" s] ne unfolding rest by simp
  obtain c cs where cs: "rest = c # cs" using ne by (cases rest) auto
  have "length (dropWhile is_digit rest) < length rest"
    using hd unfolding cs by (simp add: less_Suc_eq_le length_dropWhile_le)
  also have "\<dots> \<le> length s" unfolding rest by (rule length_dropWhile_le)
  finally show "(dropWhile is_digit rest, s) \<in> measure length" by simp
qed simp

declare re_split_digits.simps [simp del]

definition lower_char :: "char \<Rightarrow> char" where
  "lower_char c =
     (let n = (of_char c :: nat) in if 65 \<le> n \<and> n \<le> 90 then char_of (n + 32) else c)"

definition isdigit :: "string \<Rightarrow> bool" where
  "isdigit s \<longleftrightarrow> s \<noteq> [] \<and> list_all is_digit s"

definition natural_convert :: "string \<Rightarrow> bool \<Rightarrow> keypart" where
  "natural_convert text ignore_case =
     (if isdigit text then KInt (nat_of_str text)
      else KStr (if ignore_case then map lower_char text else text))"

definition text_key :: "bool \<Rightarrow> string \<Rightarrow> keypart list" where
  "text_key ignore_case s = map (\<lambda>c. natural_convert c ignore_case) (re_split_digits s)"

text \<open>
  What can be sorted: a mapping or a Jinja namespace (attribute name to value, \<open>None\<close> for a
  Python None), or any other object, sorted by its own text. The texts \<open>str(v)\<close> of the
  values and \<open>str(item)\<close> of the containers come from the objects' classes: \<open>str_val\<close> and
  \<open>str_item\<close> are parameters.
\<close>

datatype 'v item =
    Mapping "(string \<times> 'v option) list"
  | Namespace "(string \<times> 'v option) list"
  | Other 'v

fun lstrip_lt :: "string \<Rightarrow> string" where
  "lstrip_lt (c # s) = (if c = CHR ''<'' then lstrip_lt s else c # s)"
| "lstrip_lt [] = []"

fun alphanum_key ::
  "('v \<Rightarrow> string) \<Rightarrow> ('v item \<Rightarrow> string) \<Rightarrow> 'v item \<Rightarrow> string option \<Rightarrow> bool \<Rightarrow> bool \<Rightarrow> 'v option
     \<Rightarrow> (py_exn, keypart list) result" where
  "alphanum_key str_val str_item (Mapping m) skey strict ignore_case default_value =
     (case skey of
        None \<Rightarrow> Inl ValueError
      | Some k \<Rightarrow>
          (case map_of m k of
             Some (Some val) \<Rightarrow> Inr (text_key ignore_case (str_val val))
           | found \<Rightarrow>
               if strict \<and> Option.is_none default_value \<and> Option.is_none found then Inl KeyError
               else Inr (text_key ignore_case
                 (case default_value of Some d \<Rightarrow> str_val d | None \<Rightarrow> str_item (Mapping m)))))"
| "alphanum_key str_val str_item (Namespace m) skey strict ignore_case default_value =
     (case skey of
        None \<Rightarrow> Inl ValueError
      | Some k \<Rightarrow>
          (case map_of m k of
             Some (Some val) \<Rightarrow> Inr (text_key ignore_case (str_val val))
           | found \<Rightarrow>
               if strict \<and> Option.is_none default_value \<and> Option.is_none found then Inl KeyError
               else Inr (text_key ignore_case
                 (case default_value of
                    Some d \<Rightarrow> str_val d
                  | None \<Rightarrow> CHR ''~'' # lstrip_lt (str_item (Namespace m))))))"
| "alphanum_key str_val str_item (Other v) skey strict ignore_case default_value =
     Inr (text_key ignore_case (str_val v))"

section \<open>Sorting\<close>

text \<open>Python's \<open><\<close> on two keys: the first position where they differ decides; an integer against
  a string raises.\<close>

fun key_less :: "keypart list \<Rightarrow> keypart list \<Rightarrow> (py_exn, bool) result" where
  "key_less xs [] = Inr False"
| "key_less [] (y # ys) = Inr True"
| "key_less (x # xs) (y # ys) =
     (if x = y then key_less xs ys
      else (case (x, y) of
              (KInt m, KInt n) \<Rightarrow> Inr (m < n)
            | (KStr s, KStr t) \<Rightarrow> Inr (s < t)
            | _ \<Rightarrow> Inl TypeError))"

text \<open>\<open>sorted\<close> with computed keys: a stable sort that calls \<open><\<close> only. The insertion point of an
  item is before the first element that is greater.\<close>

fun insert_by_key ::
  "keypart list \<times> 'a \<Rightarrow> (keypart list \<times> 'a) list \<Rightarrow> (py_exn, (keypart list \<times> 'a) list) result" where
  "insert_by_key x [] = Inr [x]"
| "insert_by_key x (y # ys) =
     rbind (key_less (fst y) (fst x)) (\<lambda>lt.
       if lt then rbind (insert_by_key x ys) (\<lambda>zs. Inr (y # zs)) else Inr (x # y # ys))"

fun sorted_pairs :: "(keypart list \<times> 'a) list \<Rightarrow> (py_exn, (keypart list \<times> 'a) list) result" where
  "sorted_pairs [] = Inr []"
| "sorted_pairs (x # xs) = rbind (sorted_pairs xs) (insert_by_key x)"

text \<open>\<open>None\<close> as the iterable stands for Python's None and for Jinja's Undefined.\<close>

definition natural_sort ::
  "('v \<Rightarrow> string) \<Rightarrow> ('v item \<Rightarrow> string) \<Rightarrow> 'v item list option \<Rightarrow> string option \<Rightarrow> bool \<Rightarrow> bool
     \<Rightarrow> 'v option \<Rightarrow> (py_exn, 'v item list) result" where
  "natural_sort str_val str_item iterable skey strict ignore_case default_value =
     (case iterable of
        None \<Rightarrow> Inr []
      | Some items \<Rightarrow>
          rbind (rmap (\<lambda>i. rbind (alphanum_key str_val str_item i skey strict ignore_case default_value)
                                 (\<lambda>k. Inr (k, i))) items)
                (\<lambda>pairs. rbind (sorted_pairs pairs) (\<lambda>sorted. Inr (map snd sorted))))"

section \<open>Keys never mix kinds\<close>

text \<open>Texts at the even positions, numbers at the odd ones.\<close>

fun alternates :: "bool \<Rightarrow> keypart list \<Rightarrow> bool" where
  "alternates txt [] = True"
| "alternates txt (KStr _ # ks) = (txt \<and> alternates False ks)"
| "alternates txt (KInt _ # ks) = (\<not> txt \<and> alternates True ks)"

lemma text_key_unfold:
  "text_key ic s =
     (let pre = takeWhile (\<lambda>c. \<not> is_digit c) s;
          rest = dropWhile (\<lambda>c. \<not> is_digit c) s
      in if rest = [] then [natural_convert pre ic]
         else natural_convert pre ic # natural_convert (takeWhile is_digit rest) ic
                # text_key ic (dropWhile is_digit rest))"
  by (simp add: text_key_def re_split_digits.simps [of s] Let_def)

lemma natural_convert_text:
  "list_all (\<lambda>c. \<not> is_digit c) t \<Longrightarrow>
     natural_convert t ic = KStr (if ic then map lower_char t else t)"
  by (cases t) (auto simp: natural_convert_def isdigit_def)

lemma natural_convert_digits:
  "t \<noteq> [] \<Longrightarrow> list_all is_digit t \<Longrightarrow> natural_convert t ic = KInt (nat_of_str t)"
  by (simp add: natural_convert_def isdigit_def)

lemma digits_after_dropWhile:
  "dropWhile (\<lambda>c. \<not> is_digit c) s \<noteq> [] \<Longrightarrow>
     takeWhile is_digit (dropWhile (\<lambda>c. \<not> is_digit c) s) \<noteq> []"
  using hd_dropWhile [of "\<lambda>c. \<not> is_digit c" s]
  by (cases "dropWhile (\<lambda>c. \<not> is_digit c) s") auto

lemma text_key_alternates [simp]: "alternates True (text_key ic s)"
proof (induction s rule: re_split_digits.induct)
  case (1 s)
  show ?case
    by (subst text_key_unfold)
       (simp add: Let_def natural_convert_text natural_convert_digits digits_after_dropWhile "1.IH")
qed

lemma key_less_alternates:
  "alternates b xs \<Longrightarrow> alternates b ys \<Longrightarrow> key_less xs ys = Inr (xs < ys)"
proof (induction xs ys arbitrary: b rule: key_less.induct)
  case (3 x xs y ys)
  then show ?case by (cases x; cases y) (auto split: if_splits)
qed auto

section \<open>The filter is a stable sort\<close>

lemma sorted_pairs_insort:
  assumes "list_all (\<lambda>p. alternates True (fst p)) ps"
  shows "sorted_pairs ps = Inr (sort_key fst ps)"
  using assms
proof (induction ps)
  case Nil
  then show ?case by simp
next
  case (Cons p ps)
  have ins: "insert_by_key p qs = Inr (insort_key fst p qs)"
    if "list_all (\<lambda>p. alternates True (fst p)) qs" for qs
    using that Cons.prems
    by (induction qs) (auto simp: key_less_alternates [where b = True] dest: leD)
  have "list_all (\<lambda>p. alternates True (fst p)) (sort_key fst ps)"
    using Cons.prems by (simp add: list_all_iff)
  with Cons show ?case by (simp add: ins)
qed

lemma alphanum_key_alternates:
  "alphanum_key sv si i sk st ic dv = Inr k \<Longrightarrow> alternates True k"
  by (cases i) (auto split: option.splits if_splits)

text \<open>The key of an item that has one.\<close>

definition key_of ::
  "('v \<Rightarrow> string) \<Rightarrow> ('v item \<Rightarrow> string) \<Rightarrow> string option \<Rightarrow> bool \<Rightarrow> bool \<Rightarrow> 'v option \<Rightarrow> 'v item
     \<Rightarrow> keypart list" where
  "key_of sv si sk st ic dv i = (case alphanum_key sv si i sk st ic dv of Inr k \<Rightarrow> k | Inl _ \<Rightarrow> [])"

lemma map_snd_sort_key_pairs:
  "map snd (sort_key fst (map (\<lambda>i. (f i, i)) xs)) = sort_key f xs"
proof -
  have pairs: "sort_key fst (map (\<lambda>i. (f i, i)) xs) = map (\<lambda>i. (f i, i)) (sort_key f xs)"
  proof (induction xs)
    case (Cons x xs)
    have "insort_key fst (f x, x) (map (\<lambda>i. (f i, i)) ys) = map (\<lambda>i. (f i, i)) (insort_key f x ys)" for ys
      by (induction ys) auto
    with Cons show ?case by simp
  qed simp
  show ?thesis by (simp add: pairs comp_def)
qed

lemma natural_sort_eq:
  assumes "\<And>i. i \<in> set items \<Longrightarrow> \<exists>k. alphanum_key sv si i sk st ic dv = Inr k"
  shows "natural_sort sv si (Some items) sk st ic dv = Inr (sort_key (key_of sv si sk st ic dv) items)"
proof -
  let ?k = "key_of sv si sk st ic dv"
  have key: "alphanum_key sv si i sk st ic dv = Inr (?k i)" if "i \<in> set items" for i
    using assms [OF that] by (auto simp: key_of_def)
  then have "rmap (\<lambda>i. rbind (alphanum_key sv si i sk st ic dv) (\<lambda>k. Inr (k, i))) items
      = Inr (map (\<lambda>i. (?k i, i)) items)"
    by (intro rmap_total) simp
  moreover have "sorted_pairs (map (\<lambda>i. (?k i, i)) items)
      = Inr (sort_key fst (map (\<lambda>i. (?k i, i)) items))"
    using key by (intro sorted_pairs_insort) (auto simp: list_all_iff dest: alphanum_key_alternates)
  ultimately show ?thesis
    by (simp add: natural_sort_def map_snd_sort_key_pairs)
qed

lemma rmap_pair:
  "rmap (\<lambda>i. rbind (f i) (\<lambda>k. Inr (k, i))) xs
     = (case rmap f xs of Inl e \<Rightarrow> Inl e | Inr ks \<Rightarrow> Inr (zip ks xs))"
proof (induction xs)
  case (Cons x xs)
  then show ?case by (cases "f x"; cases "rmap f xs") auto
qed simp

text \<open>A text after a separator that is no digit, followed by a number: the number is a piece of
  its own.\<close>

lemma re_split_digits_append_number:
  assumes "p = [] \<or> \<not> is_digit (last p)" and s: "s \<noteq> []" "list_all is_digit s"
  shows "re_split_digits (p @ s) = re_split_digits p @ [s, []]"
  using assms(1)
proof (induction p rule: re_split_digits.induct)
  case (1 p)
  let ?nd = "\<lambda>c. \<not> is_digit c"
  have tw_s: "takeWhile is_digit s = s" and dw_s: "dropWhile is_digit s = []"
    using s by (auto simp: list_all_iff)
  have hs: "is_digit (hd s)" using s by (cases s) auto
  show ?case
  proof (cases "dropWhile ?nd p = []")
    case True
    then have all: "\<forall>c \<in> set p. ?nd c" by (simp add: dropWhile_eq_Nil_conv)
    have nd: "takeWhile ?nd (p @ s) = p" "dropWhile ?nd (p @ s) = s"
      using all s hs by (cases s; auto simp: takeWhile_append2 dropWhile_append2)+
    have "re_split_digits p = [p]"
      using True all by (simp add: re_split_digits.simps [of p])
    moreover have "re_split_digits (dropWhile is_digit s) = [[]]"
      unfolding dw_s by (simp add: re_split_digits.simps)
    ultimately show ?thesis
      using nd s tw_s by (simp add: re_split_digits.simps [of "p @ s"])
  next
    case False
    let ?r = "dropWhile ?nd p"
    let ?q = "dropWhile is_digit ?r"
    have last_p: "\<not> is_digit (last p)" using "1.prems" False by (cases p) auto
    have last_r: "last p = last ?r"
      by (rule last_dropWhile [OF False, symmetric])
    have q: "?q \<noteq> []"
    proof
      assume "?q = []"
      then have "\<forall>c \<in> set ?r. is_digit c" by (rule dropWhile_eq_Nil_conv [THEN iffD1])
      then have "is_digit (last ?r)" using last_in_set [OF False] by (rule bspec)
      then show False using last_p unfolding last_r by (rule notE [rotated])
    qed
    have last_q: "last ?q = last p"
      by (rule trans [OF last_dropWhile [OF q] last_r [symmetric]])
    have IH: "re_split_digits (?q @ s) = re_split_digits ?q @ [s, []]"
      using "1.IH" False last_p last_q by simp
    have dw: "dropWhile ?nd (p @ s) = ?r @ s" "takeWhile ?nd (p @ s) = takeWhile ?nd p"
      by (rule dropWhile_append_ne [OF False], rule takeWhile_append_ne [OF False])
    have dw2: "takeWhile is_digit (?r @ s) = takeWhile is_digit ?r"
        "dropWhile is_digit (?r @ s) = ?q @ s"
      by (rule takeWhile_append_ne [OF q], rule dropWhile_append_ne [OF q])
    show ?thesis
      unfolding re_split_digits.simps [of "p @ s"] re_split_digits.simps [of p] Let_def dw dw2 IH
      using False by simp
  qed
qed

lemma text_key_number:
  "p = [] \<or> \<not> is_digit (last p) \<Longrightarrow>
     text_key ic (p @ nat_str n) = text_key ic p @ [KInt n, KStr []]"
  by (simp add: text_key_def re_split_digits_append_number natural_convert_digits)
     (simp add: natural_convert_def isdigit_def)

lemma append_less_cancel: "xs @ ys < xs @ zs \<longleftrightarrow> ys < (zs :: 'a :: linorder list)"
  by (induction xs) auto

lemma natural_sort_stable:
  "natural_sort sv si (Some items) sk st ic dv
     = rbind (rmap (\<lambda>i. alphanum_key sv si i sk st ic dv) items)
         (\<lambda>_. Inr (sort_key (key_of sv si sk st ic dv) items))"
proof (cases "rmap (\<lambda>i. alphanum_key sv si i sk st ic dv) items")
  case (Inl e)
  then show ?thesis by (simp add: natural_sort_def rmap_pair)
next
  case (Inr ks)
  then have "\<exists>k. alphanum_key sv si i sk st ic dv = Inr k" if "i \<in> set items" for i
    using that by (auto simp: rmap_Inr_iff list_all2_conv_all_nth in_set_conv_nth)
  with Inr show ?thesis by (simp add: natural_sort_eq)
qed

lemma natural_sort_perm:
  assumes "\<And>i. i \<in> set items \<Longrightarrow> \<exists>k. alphanum_key sv si i sk st ic dv = Inr k"
  obtains sorted where "natural_sort sv si (Some items) sk st ic dv = Inr sorted"
    and "mset sorted = mset items"
  using natural_sort_eq [OF assms] that by fastforce

section \<open>Properties\<close>


text \<open>
  Numbers compare by value, not by their digits: of two texts that agree up to a
  non-digit and end in a number, the one with the smaller number comes first, whatever the
  digits before it and whether or not case is ignored.
\<close>

theorem natural_sort_by_number:
  assumes "p = [] \<or> \<not> is_digit (last p)" and "m < n"
  shows "natural_sort (\<lambda>v. v) si (Some [Other (p @ nat_str n), Other (p @ nat_str m)]) sk st ic dv
           = Inr [Other (p @ nat_str m), Other (p @ nat_str n)]"
proof -
  have "\<not> (text_key ic p @ [KInt n, KStr []] \<le> text_key ic p @ [KInt m, KStr []])"
    using assms(2) by (simp add: not_le append_less_cancel)
  then show ?thesis
    using assms(1)
    by (simp add: natural_sort_stable key_of_def text_key_number)
qed

theorem natural_sort_by_number_witness:
  "natural_sort (\<lambda>v. v) (\<lambda>_. [])
      (Some [Other (''Ethernet1/'' @ nat_str 10), Other (''Ethernet1/'' @ nat_str 9)]) None True True None
     = Inr [Other (''Ethernet1/'' @ nat_str 9), Other (''Ethernet1/'' @ nat_str 10)]"
  by (rule natural_sort_by_number) (simp_all add: is_digit_def)

end
