(* ===== verification/FormatString.thy ===== *)
theory FormatString
  imports NaturalSort
begin

text \<open>
  \<open>pyavd/_utils/format_string.py\<close>: the template formatter \<open>AvdStringFormatter\<close>, with the parts of
  Python's \<open>string.Formatter\<close> it builds on (\<open>parse\<close>, which splits a template into literal text
  and replacement fields, and \<open>get_field\<close>, which follows a dotted and indexed field name). Texts
  are ASCII. What an object does on \<open>str\<close>, \<open>format\<close>, attribute and item access belongs to its
  class: it is the record \<open>py_ops\<close>, a parameter. The lemmas show that no name with a leading
  underscore ever reaches an object, and that literal text comes out as it went in.
\<close>

section \<open>Templates\<close>

text \<open>A replacement field as \<open>Formatter.parse\<close> yields it; a field always has a format spec, maybe
  empty, and the conversion is one character.\<close>

record markup_field =
  field_name :: string
  format_spec :: string
  conversion :: "char option"

text \<open>The end of a field name: \<open>}\<close>, \<open>:\<close> or \<open>!\<close> outside of square brackets; the result is the
  name, the character that ended it and the text after that.\<close>

fun scan_name :: "bool \<Rightarrow> string \<Rightarrow> (py_exn, string \<times> char \<times> string) result" where
  "scan_name in_bracket [] = Inl ValueError"
| "scan_name in_bracket (c # s) =
     (if in_bracket then
        rbind (scan_name (c \<noteq> CHR '']'') s) (\<lambda>(n, r). Inr (c # n, r))
      else if c = CHR ''{'' then Inl ValueError
      else if c = CHR ''}'' \<or> c = CHR '':'' \<or> c = CHR ''!'' then Inr ([], c, s)
      else rbind (scan_name (c = CHR ''['') s) (\<lambda>(n, r). Inr (c # n, r)))"

text \<open>The format spec ends at the brace that closes the field; braces inside are counted.\<close>

fun scan_spec :: "nat \<Rightarrow> string \<Rightarrow> (py_exn, string \<times> string) result" where
  "scan_spec depth [] = Inl ValueError"
| "scan_spec depth (c # s) =
     (if c = CHR ''}'' \<and> depth = 1 then Inr ([], s)
      else rbind (scan_spec (if c = CHR ''{'' then Suc depth
                             else if c = CHR ''}'' then depth - 1 else depth) s)
             (\<lambda>(p, r). Inr (c # p, r)))"

definition parse_field :: "string \<Rightarrow> (py_exn, markup_field \<times> string) result" where
  "parse_field s =
     rbind (scan_name False s) (\<lambda>(name, c, rest).
       let with_spec = (\<lambda>conv r. rbind (scan_spec 1 r) (\<lambda>(spec, r').
             Inr (\<lparr>field_name = name, format_spec = spec, conversion = conv\<rparr>, r')))
       in if c = CHR ''}'' then
            Inr (\<lparr>field_name = name, format_spec = [], conversion = None\<rparr>, rest)
          else if c = CHR '':'' then with_spec None rest
          else (case rest of
                  [] \<Rightarrow> Inl ValueError
                | [conv] \<Rightarrow> with_spec (Some conv) []
                | conv # d # rest' \<Rightarrow>
                    if d = CHR ''}'' then
                      Inr (\<lparr>field_name = name, format_spec = [], conversion = Some conv\<rparr>, rest')
                    else if d = CHR '':'' then with_spec (Some conv) rest'
                    else Inl ValueError))"

text \<open>One element of \<open>parse\<close>: the text up to the next brace, then a field, or one brace of a
  doubled pair that belongs to the text.\<close>

definition is_brace :: "char \<Rightarrow> bool" where
  "is_brace c \<longleftrightarrow> c = CHR ''{'' \<or> c = CHR ''}''"

definition markup_next :: "string \<Rightarrow> (py_exn, (string \<times> markup_field option) \<times> string) result" where
  "markup_next s =
     (let lit = takeWhile (\<lambda>c. \<not> is_brace c) s
      in case dropWhile (\<lambda>c. \<not> is_brace c) s of
           [] \<Rightarrow> Inr ((lit, None), [])
         | [c] \<Rightarrow> Inl ValueError
         | c # d # rest \<Rightarrow>
             if c = d then Inr ((lit @ [c], None), rest)
             else if c = CHR ''}'' then Inl ValueError
             else rbind (parse_field (d # rest)) (\<lambda>(f, r). Inr ((lit, Some f), r)))"

lemma scan_name_length: "scan_name b s = Inr (n, c, r) \<Longrightarrow> length r < length s"
  by (induction b s arbitrary: n c r rule: scan_name.induct)
     (fastforce split: if_splits prod.splits)+

lemma scan_spec_length: "scan_spec k s = Inr (p, r) \<Longrightarrow> length r < length s"
  by (induction k s arbitrary: p r rule: scan_spec.induct)
     (fastforce split: if_splits prod.splits)+

lemma parse_field_length: "parse_field s = Inr (f, r) \<Longrightarrow> length r < length s"
  by (auto simp: parse_field_def Let_def split: if_splits list.splits
        dest!: scan_name_length scan_spec_length)

lemma markup_next_length:
  assumes "markup_next s = Inr (i, r)" and "s \<noteq> []" shows "length r < length s"
proof (cases "dropWhile (\<lambda>c. \<not> is_brace c) s")
  case Nil
  with assms show ?thesis by (simp add: markup_next_def Let_def)
next
  case (Cons c rest)
  have "length (c # rest) \<le> length s"
    using length_dropWhile_le [of "\<lambda>c. \<not> is_brace c" s] unfolding Cons .
  with assms(1) show ?thesis
    by (auto simp: markup_next_def Let_def Cons split: list.splits if_splits dest!: parse_field_length)
qed

text \<open>All elements up to the first error, and the error: \<open>parse\<close> is a generator, so the fields
  before a malformed part are formatted before the error is raised.\<close>

function parse_template :: "string \<Rightarrow> (string \<times> markup_field option) list \<times> py_exn option" where
  "parse_template s =
     (if s = [] then ([], None)
      else case markup_next s of
             Inl e \<Rightarrow> ([], Some e)
           | Inr (item, rest) \<Rightarrow>
               (let (items, e) = parse_template rest in (item # items, e)))"
  by pat_completeness auto
termination by (relation "measure length") (auto dest: markup_next_length)

declare parse_template.simps [simp del]

section \<open>Optional fields, prefixes and suffixes\<close>

record avd_field =
  af_name :: string
  af_spec :: string
  af_conversion :: "char option"
  af_optional :: bool
  af_prefix :: string
  af_suffix :: string

text \<open>\<open>s.split(c, maxsplit=1)\<close> for a text that contains \<open>c\<close>\<close>

definition split_once :: "char \<Rightarrow> string \<Rightarrow> string \<times> string" where
  "split_once c s = (takeWhile (\<lambda>x. x \<noteq> c) s, tl (dropWhile (\<lambda>x. x \<noteq> c) s))"

text \<open>\<open>enhanced_parse\<close> on one field. A missing prefix or suffix is the empty text: the formatter
  prints neither.\<close>

definition enhanced_field :: "markup_field \<Rightarrow> avd_field" where
  "enhanced_field f =
     (let name0 = field_name f;
          (name1, suffix) = (if CHR ''>'' \<in> set name0 then split_once CHR ''>'' name0 else (name0, []));
          (name2, prefix) = (if CHR ''<'' \<in> set name1 then split_once CHR ''<'' name1 else (name1, []));
          optional = (name2 \<noteq> [] \<and> last name2 = CHR ''?'')
      in \<lparr>af_name = (if optional then butlast name2 else name2), af_spec = format_spec f,
          af_conversion = conversion f, af_optional = optional, af_prefix = prefix, af_suffix = suffix\<rparr>)"

section \<open>Objects and field names\<close>

text \<open>An index of a field name is an integer when it is written in digits.\<close>

datatype fkey = FInt nat | FStr string

record 'o py_ops =
  op_str :: "'o \<Rightarrow> string"
  op_of_str :: "string \<Rightarrow> 'o"
  op_is_none :: "'o \<Rightarrow> bool"
  op_getattr :: "'o \<Rightarrow> string \<Rightarrow> (py_exn, 'o) result"
  op_getitem :: "'o \<Rightarrow> fkey \<Rightarrow> (py_exn, 'o) result"
  op_format :: "'o \<Rightarrow> string \<Rightarrow> (py_exn, string) result"

definition ssize_max :: nat where
  "ssize_max = 9223372036854775807"

definition fkey_of :: "string \<Rightarrow> (py_exn, fkey) result" where
  "fkey_of s =
     (if isdigit s then (if nat_of_str s > ssize_max then Inl ValueError else Inr (FInt (nat_of_str s)))
      else Inr (FStr s))"

text \<open>The accessors after the first name, followed one at a time: \<open>.attr\<close> runs to the next \<open>.\<close> or
  \<open>[\<close>, \<open>[key]\<close> to the closing bracket.\<close>

definition name_end :: "char \<Rightarrow> bool" where
  "name_end c \<longleftrightarrow> c = CHR ''.'' \<or> c = CHR ''[''"

function follow :: "'o py_ops \<Rightarrow> 'o \<Rightarrow> string \<Rightarrow> (py_exn, 'o) result" where
  "follow ops obj [] = Inr obj"
| "follow ops obj (c # s) =
     (if c = CHR ''.'' then
        (let attr = takeWhile (\<lambda>x. \<not> name_end x) s
         in if attr = [] then Inl ValueError
            else rbind (op_getattr ops obj attr)
                   (\<lambda>obj'. follow ops obj' (dropWhile (\<lambda>x. \<not> name_end x) s)))
      else if c = CHR ''['' then
        (if CHR '']'' \<notin> set s then Inl ValueError
         else (let (key, rest) = split_once CHR '']'' s
               in rbind (fkey_of key) (\<lambda>k.
                    if key = [] then Inl ValueError
                    else rbind (op_getitem ops obj k) (\<lambda>obj'. follow ops obj' rest))))
      else Inl ValueError)"
  by pat_completeness auto
termination
proof (relation "measure (\<lambda>(_, _, s). length s)", goal_cases)
  case (3 ops obj c s key_rest key rest k obj')
  then have "rest = tl (dropWhile (\<lambda>x. x \<noteq> CHR '']'') s)" by (simp add: split_once_def)
  then have "length rest \<le> length s"
    using length_dropWhile_le [of "\<lambda>x. x \<noteq> CHR '']''" s] by simp
  then show ?case by simp
qed (auto simp: length_dropWhile_le less_Suc_eq_le)

definition base_get_field ::
  "'o py_ops \<Rightarrow> string \<Rightarrow> 'o list \<Rightarrow> (string, 'o) dict \<Rightarrow> (py_exn, 'o) result" where
  "base_get_field ops name args kwargs =
     rbind (fkey_of (takeWhile (\<lambda>x. \<not> name_end x) name)) (\<lambda>first.
       rbind (case first of
                FInt i \<Rightarrow> (if i < length args then Inr (args ! i) else Inl IndexError)
              | FStr k \<Rightarrow> (case map_of kwargs k of Some v \<Rightarrow> Inr v | None \<Rightarrow> Inl KeyError))
         (\<lambda>obj. follow ops obj (dropWhile (\<lambda>x. \<not> name_end x) name)))"

definition get_field ::
  "'o py_ops \<Rightarrow> string \<Rightarrow> 'o list \<Rightarrow> (string, 'o) dict \<Rightarrow> (py_exn, 'o) result" where
  "get_field ops name args kwargs =
     (if name = [] \<or> CHR ''_'' \<notin> set name then base_get_field ops name args kwargs
      else if list_ex (\<lambda>attr. startswith attr ''_'') (split_on CHR ''.'' name) then Inl ValueError
      else if list_ex (\<lambda>k. startswith k ''_'') (split_on CHR ''['' name) then Inl ValueError
      else base_get_field ops name args kwargs)"

section \<open>Conversions\<close>

definition upper_char :: "char \<Rightarrow> char" where
  "upper_char c =
     (let n = (of_char c :: nat) in if 97 \<le> n \<and> n \<le> 122 then char_of (n - 32) else c)"

definition is_alpha :: "char \<Rightarrow> bool" where
  "is_alpha c \<longleftrightarrow>
     (let n = (of_char c :: nat) in (65 \<le> n \<and> n \<le> 90) \<or> (97 \<le> n \<and> n \<le> 122))"

text \<open>\<open>str.title()\<close>: the first letter of every run of letters in upper case, the others in
  lower case. The flag says whether the previous character was a letter.\<close>

fun title_from :: "bool \<Rightarrow> string \<Rightarrow> string" where
  "title_from in_word [] = []"
| "title_from in_word (c # s) =
     (if in_word then lower_char c else upper_char c) # title_from (is_alpha c) s"

definition is_space :: "char \<Rightarrow> bool" where
  "is_space c \<longleftrightarrow>
     (let n = (of_char c :: nat) in n = 32 \<or> (9 \<le> n \<and> n \<le> 13) \<or> (28 \<le> n \<and> n \<le> 31))"

text \<open>\<open>c\d+\<close> at the start of a text, if it is there: what it matches and the rest.\<close>

definition sep_digits :: "char \<Rightarrow> string \<Rightarrow> string \<times> string" where
  "sep_digits c s =
     (case s of
        x # t \<Rightarrow> (if x = c \<and> takeWhile is_digit t \<noteq> [] then (c # takeWhile is_digit t, dropWhile is_digit t)
                 else ([], s))
      | [] \<Rightarrow> ([], []))"

text \<open>The number part of an interface name: \<open>\d+((/\d+){1,2})?(\.\d+)?\<close> up to the end, where \<open>$\<close>
  also matches before a final newline.\<close>

definition interface_number :: "string \<Rightarrow> string option" where
  "interface_number s =
     (let d = takeWhile is_digit s; r0 = dropWhile is_digit s;
          (p1, r1) = sep_digits (CHR ''/'') r0;
          (p2, r2) = (if p1 = [] then ([], r1) else sep_digits (CHR ''/'') r1);
          (p3, r3) = sep_digits (CHR ''.'') r2
      in if d \<noteq> [] \<and> (r3 = [] \<or> r3 = [char_of (10 :: nat)]) then Some (d @ p1 @ p2 @ p3) else None)"

definition interface_match :: "string \<Rightarrow> string option" where
  "interface_match s =
     (case find (startswith s) [''port-channel'', ''ethernet'', ''vlan'', ''loopback'', ''tunnel''] of
        None \<Rightarrow> None
      | Some p \<Rightarrow>
          (case drop (length p) s of
             c # r \<Rightarrow> interface_number (if is_space c then r else c # r)
           | [] \<Rightarrow> None))"

definition convert_field :: "'o py_ops \<Rightarrow> 'o \<Rightarrow> char option \<Rightarrow> (py_exn, 'o) result" where
  "convert_field ops v conv =
     (case conv of
        None \<Rightarrow> Inr v
      | Some c \<Rightarrow>
          (if c = CHR ''l'' then Inr (op_of_str ops (map lower_char (op_str ops v)))
           else if c = CHR ''t'' then Inr (op_of_str ops (title_from False (op_str ops v)))
           else if c = CHR ''u'' then Inr (op_of_str ops (map upper_char (op_str ops v)))
           else if c = CHR ''c'' then
             Inr (op_of_str ops
               (case interface_match (map lower_char (op_str ops v)) of
                  Some number \<Rightarrow> take 2 (title_from False (map lower_char (op_str ops v))) @ number
                | None \<Rightarrow> op_str ops v))
           else Inl ValueError))"

section \<open>Formatting\<close>

text \<open>The automatic argument index: \<open>None\<close> is the source's False, after a numbered field.\<close>

definition field_ref :: "string \<Rightarrow> nat option \<Rightarrow> (py_exn, string \<times> nat option) result" where
  "field_ref name auto_arg_index =
     (if name = [] then
        (case auto_arg_index of None \<Rightarrow> Inl ValueError | Some n \<Rightarrow> Inr (nat_str n, Some (Suc n)))
      else if isdigit name then
        (case auto_arg_index of Some (Suc n) \<Rightarrow> Inl ValueError | _ \<Rightarrow> Inr (name, None))
      else Inr (name, auto_arg_index))"

text \<open>The object of a field; \<open>None\<close> when an optional field is missing or None.\<close>

definition field_object ::
  "'o py_ops \<Rightarrow> avd_field \<Rightarrow> string \<Rightarrow> 'o list \<Rightarrow> (string, 'o) dict \<Rightarrow> (py_exn, 'o option) result" where
  "field_object ops f name args kwargs =
     (if af_optional f then
        (case get_field ops name args kwargs of
           Inl IndexError \<Rightarrow> Inr None
         | Inl KeyError \<Rightarrow> Inr None
         | Inl e \<Rightarrow> Inl e
         | Inr obj \<Rightarrow> Inr (if op_is_none ops obj then None else Some obj))
      else rbind (get_field ops name args kwargs) (\<lambda>obj. Inr (Some obj)))"

text \<open>The loop over the parsed template; \<open>sub\<close> formats a format spec.\<close>

fun format_items ::
  "(string \<Rightarrow> nat option \<Rightarrow> (py_exn, string \<times> nat option) result) \<Rightarrow> 'o py_ops \<Rightarrow> 'o list
     \<Rightarrow> (string, 'o) dict \<Rightarrow> (string \<times> markup_field option) list \<Rightarrow> nat option
     \<Rightarrow> (py_exn, string \<times> nat option) result" where
  "format_items sub ops args kwargs [] auto = Inr ([], auto)"
| "format_items sub ops args kwargs ((lit, None) # items) auto =
     rbind (format_items sub ops args kwargs items auto) (\<lambda>(s, a). Inr (lit @ s, a))"
| "format_items sub ops args kwargs ((lit, Some field) # items) auto =
     (let f = enhanced_field field in
      rbind (field_ref (af_name f) auto) (\<lambda>(name, auto1).
      rbind (field_object ops f name args kwargs) (\<lambda>found.
        case found of
          None \<Rightarrow>
            rbind (format_items sub ops args kwargs items auto1) (\<lambda>(s, a). Inr (lit @ s, a))
        | Some obj \<Rightarrow>
            rbind (convert_field ops obj (af_conversion f)) (\<lambda>obj'.
            rbind (sub (af_spec f) auto1) (\<lambda>(spec, auto2).
            rbind (op_format ops obj' spec) (\<lambda>text.
            rbind (format_items sub ops args kwargs items auto2) (\<lambda>(s, a).
              Inr (lit @ af_prefix f @ text @ af_suffix f @ s, a))))))))"

text \<open>The first argument is the number of levels left: \<open>recursion_depth + 1\<close>.\<close>

primrec vformat_levels ::
  "nat \<Rightarrow> 'o py_ops \<Rightarrow> 'o list \<Rightarrow> (string, 'o) dict \<Rightarrow> string \<Rightarrow> nat option
     \<Rightarrow> (py_exn, string \<times> nat option) result" where
  "vformat_levels 0 ops args kwargs s auto = Inl ValueError"
| "vformat_levels (Suc depth) ops args kwargs s auto =
     (let (items, err) = parse_template s in
      rbind (format_items (vformat_levels depth ops args kwargs) ops args kwargs items auto) (\<lambda>r.
        case err of Some e \<Rightarrow> Inl e | None \<Rightarrow> Inr r))"

text \<open>\<open>AvdStringFormatter().format(template, *args, **kwargs)\<close>: \<open>Formatter.vformat\<close> starts at depth
  2.\<close>

definition avd_format ::
  "'o py_ops \<Rightarrow> string \<Rightarrow> 'o list \<Rightarrow> (string, 'o) dict \<Rightarrow> (py_exn, string) result" where
  "avd_format ops s args kwargs =
     rbind (vformat_levels 3 ops args kwargs s (Some 0)) (\<lambda>(text, _). Inr text)"

section \<open>No access to private names\<close>

text \<open>Two environments that agree on everything but the names with a leading underscore.\<close>

abbreviation is_private :: "string \<Rightarrow> bool" where
  "is_private s \<equiv> startswith s ''_''"

definition same_public ::
  "'o py_ops \<Rightarrow> (string, 'o) dict \<Rightarrow> 'o py_ops \<Rightarrow> (string, 'o) dict \<Rightarrow> bool" where
  "same_public ops kw ops' kw' \<longleftrightarrow>
     op_str ops' = op_str ops \<and> op_of_str ops' = op_of_str ops \<and> op_is_none ops' = op_is_none ops
     \<and> op_format ops' = op_format ops
     \<and> (\<forall>obj a. \<not> is_private a \<longrightarrow> op_getattr ops' obj a = op_getattr ops obj a)
     \<and> (\<forall>obj i. op_getitem ops' obj (FInt i) = op_getitem ops obj (FInt i))
     \<and> (\<forall>obj a. \<not> is_private a \<longrightarrow> op_getitem ops' obj (FStr a) = op_getitem ops obj (FStr a))
     \<and> (\<forall>a. \<not> is_private a \<longrightarrow> map_of kw' a = map_of kw a)"

text \<open>What the guard of \<open>get_field\<close> gives: nothing private follows a dot or an opening bracket.\<close>

definition guarded :: "string \<Rightarrow> bool" where
  "guarded s \<longleftrightarrow> (\<forall>p c r. s = p @ c # r \<longrightarrow> name_end c \<longrightarrow> \<not> is_private r)"

lemma guarded_suffix: "guarded (p @ s) \<Longrightarrow> guarded s"
  unfolding guarded_def by (metis append_assoc)

lemma guarded_dropWhile: "guarded s \<Longrightarrow> guarded (dropWhile P s)"
  by (metis guarded_suffix takeWhile_dropWhile_id)

lemma guarded_Cons: "guarded (c # s) \<Longrightarrow> guarded s"
  by (metis guarded_suffix append_Cons append_Nil)

lemma guarded_tl: "guarded s \<Longrightarrow> guarded (tl s)"
  by (cases s) (auto dest: guarded_Cons)

lemma private_takeWhile: "is_private (takeWhile P s) \<Longrightarrow> is_private s"
  by (cases s) (auto simp: startswith_def split: if_splits)

lemma split_on_first: "hd (split_on c s) = takeWhile (\<lambda>x. x \<noteq> c) s"
  by (induction s) (auto split: list.splits)

lemma split_on_after:
  "\<exists>y ys. split_on c (p @ c # r) = y # ys \<and> takeWhile (\<lambda>x. x \<noteq> c) r \<in> set ys"
proof (induction p)
  case Nil
  have "takeWhile (\<lambda>x. x \<noteq> c) r \<in> set (split_on c r)"
    by (metis split_on_first hd_in_set split_on_not_Nil)
  then show ?case by simp
next
  case (Cons x p)
  then show ?case by auto
qed

lemma is_private_piece: "is_private r \<Longrightarrow> c \<noteq> CHR ''_'' \<Longrightarrow> is_private (takeWhile (\<lambda>x. x \<noteq> c) r)"
  by (cases r) (auto simp: startswith_def split: if_splits)

lemma split_on_private:
  assumes "is_private r" "c \<noteq> CHR ''_''" shows "list_ex is_private (split_on c (p @ c # r))"
proof -
  obtain y ys where "split_on c (p @ c # r) = y # ys" "takeWhile (\<lambda>x. x \<noteq> c) r \<in> set ys"
    using split_on_after by blast
  then show ?thesis using is_private_piece [OF assms] by (auto simp: list_ex_iff)
qed

lemma guard_guarded:
  assumes "CHR ''_'' \<notin> set name \<or>
      (\<not> list_ex is_private (split_on CHR ''.'' name) \<and> \<not> list_ex is_private (split_on CHR ''['' name))"
  shows "guarded name \<and> \<not> is_private (takeWhile (\<lambda>x. \<not> name_end x) name)"
proof -
  have no: "\<not> is_private r" if "CHR ''_'' \<notin> set r" for r
    using that by (cases r) (auto simp: startswith_def)
  have pieces: "\<not> is_private r" if "name = p @ c # r" "name_end c"
      "\<not> list_ex is_private (split_on CHR ''.'' name)" "\<not> list_ex is_private (split_on CHR ''['' name)" for p c r
  proof
    assume "is_private r"
    moreover have "c = CHR ''.'' \<or> c = CHR ''[''" using that(2) by (simp add: name_end_def)
    ultimately show False
      using that(3,4) split_on_private [of r c p] unfolding that(1) by auto
  qed
  have first: "\<not> is_private (takeWhile (\<lambda>x. \<not> name_end x) name)"
    if "\<not> list_ex is_private (split_on CHR ''.'' name)"
  proof
    assume "is_private (takeWhile (\<lambda>x. \<not> name_end x) name)"
    then have "is_private (takeWhile (\<lambda>x. x \<noteq> CHR ''.'') name)"
      by (intro is_private_piece) (auto dest: private_takeWhile)
    then have "is_private (hd (split_on CHR ''.'' name))" by (simp add: split_on_first)
    moreover have "hd (split_on CHR ''.'' name) \<in> set (split_on CHR ''.'' name)" by simp
    ultimately show False using that by (auto simp: list_ex_iff)
  qed
  from assms show ?thesis
  proof
    assume "CHR ''_'' \<notin> set name"
    then show ?thesis
      using no by (auto simp: guarded_def dest: private_takeWhile)
  next
    assume "\<not> list_ex is_private (split_on CHR ''.'' name) \<and> \<not> list_ex is_private (split_on CHR ''['' name)"
    then show ?thesis using pieces first by (auto simp: guarded_def)
  qed
qed

lemma guarded_key: "guarded (c # s) \<Longrightarrow> name_end c \<Longrightarrow> \<not> is_private s"
  by (auto simp: guarded_def)

lemma fkey_of_FStr: "fkey_of s = Inr (FStr k) \<Longrightarrow> k = s"
  by (auto simp: fkey_of_def split: if_splits)

lemma follow_same:
  "same_public ops kw ops' kw' \<Longrightarrow> guarded s \<Longrightarrow> follow ops' obj s = follow ops obj s"
proof (induction ops obj s rule: follow.induct)
  case (2 ops obj c s)
  have np: "name_end c \<Longrightarrow> \<not> is_private s"
    using 2(4) by (rule guarded_key)
  show ?case
  proof (cases "c = CHR ''.''")
    case True
    let ?a = "takeWhile (\<lambda>x. \<not> name_end x) s"
    have "\<not> is_private ?a" using np True by (auto simp: name_end_def dest: private_takeWhile)
    then have "op_getattr ops' obj ?a = op_getattr ops obj ?a" using 2(3) by (simp add: same_public_def)
    moreover have "guarded (dropWhile (\<lambda>x. \<not> name_end x) s)"
      using 2(4) by (auto intro: guarded_dropWhile guarded_Cons)
    ultimately show ?thesis
      using True 2(1) [OF True refl] 2(3)
      by (cases "op_getattr ops obj ?a") (auto simp: Let_def)
  next
    case False
    show ?thesis
    proof (cases "c = CHR ''['' \<and> CHR '']'' \<in> set s")
      case True
      obtain key rest where sp: "split_once CHR '']'' s = (key, rest)" by (cases "split_once CHR '']'' s")
      have key: "\<not> is_private key"
        using sp np True by (auto simp: name_end_def split_once_def dest: private_takeWhile)
      have "guarded rest"
        using sp 2(4) by (auto simp: split_once_def intro: guarded_tl guarded_dropWhile guarded_Cons)
      moreover have "op_getitem ops' obj k = op_getitem ops obj k" if "fkey_of key = Inr k" for k
        using that key 2(3) by (cases k) (auto simp: same_public_def dest: fkey_of_FStr)
      ultimately have step: "key \<noteq> [] \<Longrightarrow> fkey_of key = Inr k \<Longrightarrow>
          rbind (op_getitem ops' obj k) (\<lambda>obj'. follow ops' obj' rest)
            = rbind (op_getitem ops obj k) (\<lambda>obj'. follow ops obj' rest)" for k
        using True 2(2) [OF False, of "(key, rest)" key rest k] 2(3) sp
        by (cases "op_getitem ops obj k") auto
      show ?thesis
        using True sp step by (cases "fkey_of key") auto
    next
      case outer: False
      with False show ?thesis by auto
    qed
  qed
qed simp

lemma get_field_same:
  assumes "same_public ops kw ops' kw'"
  shows "get_field ops' name args kw' = get_field ops name args kw"
proof -
  have base: "base_get_field ops' name args kw' = base_get_field ops name args kw"
    if g: "guarded name" and p: "\<not> is_private (takeWhile (\<lambda>x. \<not> name_end x) name)"
  proof (cases "fkey_of (takeWhile (\<lambda>x. \<not> name_end x) name)")
    case (Inr k)
    have f: "follow ops' obj (dropWhile (\<lambda>x. \<not> name_end x) name)
        = follow ops obj (dropWhile (\<lambda>x. \<not> name_end x) name)" for obj
      using assms g by (intro follow_same guarded_dropWhile)
    show ?thesis
    proof (cases k)
      case (FStr a)
      then have "a = takeWhile (\<lambda>x. \<not> name_end x) name" using Inr fkey_of_FStr by blast
      then have "map_of kw' a = map_of kw a"
        using assms p unfolding same_public_def by blast
      with Inr FStr f show ?thesis
        unfolding base_get_field_def by (cases "map_of kw a") simp_all
    qed (use Inr f in \<open>simp add: base_get_field_def\<close>)
  qed (simp add: base_get_field_def)
  show ?thesis
    using base guard_guarded [of name] by (auto simp: get_field_def)
qed

lemma same_public_ops:
  assumes "same_public ops kw ops' kw'"
  shows "op_str ops' = op_str ops" "op_of_str ops' = op_of_str ops"
    "op_is_none ops' = op_is_none ops" "op_format ops' = op_format ops"
  using assms by (auto simp: same_public_def)

lemma convert_field_same:
  "same_public ops kw ops' kw' \<Longrightarrow> convert_field ops' v c = convert_field ops v c"
  unfolding convert_field_def by (simp only: same_public_ops [of ops kw ops' kw'])

lemma field_object_same:
  "same_public ops kw ops' kw' \<Longrightarrow>
     field_object ops' f name args kw' = field_object ops f name args kw"
  unfolding field_object_def
  by (simp only: get_field_same [of ops kw ops' kw'] same_public_ops [of ops kw ops' kw'])

lemma format_items_same:
  assumes "same_public ops kw ops' kw'"
  shows "format_items sub ops' args kw' items auto = format_items sub ops args kw items auto"
proof (induction items arbitrary: auto)
  case (Cons item items)
  obtain lit field where item: "item = (lit, field)" by (cases item)
  have fmt: "op_format ops' = op_format ops" by (rule same_public_ops [OF assms(1)])
  show ?case
  proof (cases field)
    case (Some f)
    show ?thesis
      unfolding item Some format_items.simps field_object_same [OF assms(1)]
        convert_field_same [OF assms(1)] fmt Cons.IH ..
  qed (simp add: item Cons.IH)
qed simp

lemma vformat_levels_same:
  "same_public ops kw ops' kw' \<Longrightarrow>
     vformat_levels n ops' args kw' s auto = vformat_levels n ops args kw s auto"
proof (induction n arbitrary: s auto)
  case (Suc n)
  then have "vformat_levels n ops' args kw' = vformat_levels n ops args kw" by blast
  then show ?case by (simp only: vformat_levels.simps format_items_same [OF Suc.prems])
qed simp

text \<open>Texts and None as the objects of a template.\<close>

definition str_ops :: "string option py_ops" where
  "str_ops =
     \<lparr>op_str = (\<lambda>v. case v of None \<Rightarrow> ''None'' | Some s \<Rightarrow> s),
      op_of_str = Some,
      op_is_none = Option.is_none,
      op_getattr = (\<lambda>v a. Inl AttributeError),
      op_getitem = (\<lambda>v k. Inl TypeError),
      op_format = (\<lambda>v spec. case v of
        None \<Rightarrow> if spec = [] then Inr ''None'' else Inl TypeError
      | Some s \<Rightarrow> if spec = [] then Inr s else Inl ValueError)\<rparr>"

text \<open>
  C3. A template can read nothing private: the result of formatting, error or text, is the same in
  any two environments that differ only in arguments, attributes and items whose name starts with
  an underscore, also through fields nested in format specs.
\<close>

theorem avd_format_no_private_access:
  assumes "same_public ops kwargs ops' kwargs'"
  shows "avd_format ops' s args kwargs' = avd_format ops s args kwargs"
  using assms by (simp add: avd_format_def vformat_levels_same)

theorem avd_format_no_private_access_witness:
  "avd_format str_ops ''{name}-{_key}'' [] [(''name'', Some ''a''), (''_key'', Some ''secret'')]
     = avd_format str_ops ''{name}-{_key}'' [] [(''name'', Some ''a'')]"
  by (rule avd_format_no_private_access) (auto simp: same_public_def startswith_def)

section \<open>Literal text\<close>

fun escape :: "string \<Rightarrow> string" where
  "escape [] = []"
| "escape (c # s) = (if is_brace c then c # c # escape s else c # escape s)"

lemma markup_next_Cons:
  assumes "\<not> is_brace c"
  shows "markup_next (c # t) = rbind (markup_next t) (\<lambda>((l, f), r). Inr ((c # l, f), r))"
proof (cases "dropWhile (\<lambda>c. \<not> is_brace c) t")
  case Nil
  with assms show ?thesis by (simp add: markup_next_def Let_def del: dropWhile_eq_Nil_conv)
next
  case (Cons d r)
  show ?thesis
  proof (cases r)
    case Nil
    with Cons assms show ?thesis by (simp add: markup_next_def Let_def)
  next
    case (Cons e r')
    show ?thesis
      using assms \<open>dropWhile (\<lambda>c. \<not> is_brace c) t = d # r\<close> Cons
      by (cases "parse_field (e # r')") (auto simp: markup_next_def Let_def)
  qed
qed

lemma markup_next_escape_step:
  "s \<noteq> [] \<Longrightarrow> \<exists>lit s'. markup_next (escape s) = Inr ((lit, None), escape s') \<and> s = lit @ s'"
proof (induction s)
  case (Cons c s)
  show ?case
  proof (cases "is_brace c")
    case True
    then have "markup_next (escape (c # s)) = Inr (([c], None), escape s)"
      by (simp add: markup_next_def Let_def)
    then show ?thesis by (intro exI [of _ "[c]"] exI [of _ s]) simp
  next
    case False
    show ?thesis
    proof (cases "s = []")
      case True
      with False show ?thesis
        by (intro exI [of _ "[c]"] exI [of _ "[]"]) (simp add: markup_next_def Let_def)
    next
      case ne: False
      obtain lit s' where "markup_next (escape s) = Inr ((lit, None), escape s')" "s = lit @ s'"
        using Cons.IH [OF ne] by blast
      with False show ?thesis
        by (intro exI [of _ "c # lit"] exI [of _ s']) (simp add: markup_next_Cons)
    qed
  qed
qed simp

text \<open>Formatting a template with a given formatter for the specs, as one step of \<open>_vformat\<close>.\<close>

definition fmt ::
  "(string \<Rightarrow> nat option \<Rightarrow> (py_exn, string \<times> nat option) result) \<Rightarrow> 'o py_ops \<Rightarrow> 'o list
     \<Rightarrow> (string, 'o) dict \<Rightarrow> string \<Rightarrow> nat option \<Rightarrow> (py_exn, string \<times> nat option) result" where
  "fmt sub ops args kwargs s auto =
     (let (items, err) = parse_template s in
      rbind (format_items sub ops args kwargs items auto) (\<lambda>r.
        case err of Some e \<Rightarrow> Inl e | None \<Rightarrow> Inr r))"

lemma vformat_levels_fmt:
  "vformat_levels (Suc n) ops args kwargs s auto
     = fmt (vformat_levels n ops args kwargs) ops args kwargs s auto"
  by (simp add: fmt_def)

definition put_char :: "char \<Rightarrow> string \<times> nat option \<Rightarrow> (py_exn, string \<times> nat option) result" where
  "put_char c r = Inr (c # fst r, snd r)"

lemma fmt_Nil [simp]: "fmt sub ops args kw [] auto = Inr ([], auto)"
  by (simp add: fmt_def parse_template.simps)

lemma format_items_put_char:
  "format_items sub ops args kw ((c # l, f) # items) auto
     = rbind (format_items sub ops args kw ((l, f) # items) auto) (put_char c)"
proof (cases f)
  case None
  then show ?thesis
    by (cases "format_items sub ops args kw items auto") (auto simp: put_char_def)
next
  case (Some field)
  have opt: "rbind (case x of None \<Rightarrow> r | Some y \<Rightarrow> h y) g
      = (case x of None \<Rightarrow> rbind r g | Some y \<Rightarrow> rbind (h y) g)" for x r h and g :: "_ \<Rightarrow> (py_exn, string \<times> nat option) result"
    by (cases x) auto
  show ?thesis
    by (simp add: Some Let_def rbind_assoc case_prod_unfold opt put_char_def cong: option.case_cong)
qed

lemma fmt_step:
  "s \<noteq> [] \<Longrightarrow> fmt sub ops args kw s auto =
     (case markup_next s of
        Inl e \<Rightarrow> Inl e
      | Inr (item, rest) \<Rightarrow>
          rbind (format_items sub ops args kw (item # fst (parse_template rest)) auto) (\<lambda>r.
            case snd (parse_template rest) of Some e \<Rightarrow> Inl e | None \<Rightarrow> Inr r))"
  by (auto simp: fmt_def parse_template.simps [of s] split: sum.splits prod.splits)

lemma put_char_swap:
  "rbind (rbind r (put_char c)) (\<lambda>r. case e of Some x \<Rightarrow> Inl x | None \<Rightarrow> Inr r)
     = rbind (rbind r (\<lambda>r. case e of Some x \<Rightarrow> Inl x | None \<Rightarrow> Inr r)) (put_char c)"
  by (cases r; cases e) (auto simp: put_char_def)

lemma fmt_literal:
  assumes "\<not> is_brace c"
  shows "fmt sub ops args kw (c # t) auto = rbind (fmt sub ops args kw t auto) (put_char c)"
proof (cases "t = []")
  case True
  with assms show ?thesis
    by (simp add: fmt_step markup_next_def Let_def parse_template.simps put_char_def)
next
  case False
  show ?thesis
  proof (cases "markup_next t")
    case (Inl e)
    with False assms show ?thesis by (simp add: fmt_step markup_next_Cons)
  next
    case (Inr x)
    obtain l f rest where "x = ((l, f), rest)" by (cases x) auto
    with Inr False assms show ?thesis
      by (simp add: fmt_step markup_next_Cons format_items_put_char put_char_swap)
  qed
qed

lemma fmt_brace:
  assumes "is_brace c"
  shows "fmt sub ops args kw (c # c # t) auto = rbind (fmt sub ops args kw t auto) (put_char c)"
proof -
  have "fmt sub ops args kw (c # c # t) auto
      = rbind (format_items sub ops args kw (([c], None) # fst (parse_template t)) auto) (\<lambda>r.
          case snd (parse_template t) of Some e \<Rightarrow> Inl e | None \<Rightarrow> Inr r)"
    using assms by (simp add: fmt_step markup_next_def Let_def)
  then show ?thesis
    by (cases "format_items sub ops args kw (fst (parse_template t)) auto";
        cases "snd (parse_template t)")
       (simp_all add: fmt_def case_prod_beta put_char_def)
qed

definition put_text :: "string \<Rightarrow> string \<times> nat option \<Rightarrow> (py_exn, string \<times> nat option) result" where
  "put_text s r = Inr (s @ fst r, snd r)"

lemma put_text_Nil [simp]: "put_text [] = Inr"
  by (rule ext) (simp add: put_text_def)

lemma fmt_escape:
  "fmt sub ops args kw (escape s @ t) auto = rbind (fmt sub ops args kw t auto) (put_text s)"
proof (induction s)
  case Nil
  then show ?case by (cases "fmt sub ops args kw t auto") (auto simp: put_text_def)
next
  case (Cons c s)
  then show ?case
    by (cases "fmt sub ops args kw t auto")
       (auto simp: fmt_literal fmt_brace put_text_def put_char_def)
qed

section \<open>The template language\<close>

text \<open>Templates as a list of segments: text, and named fields with the extensions of the formatter.\<close>

datatype segment =
    Lit string
  | Fld string bool string string "char option"

definition plain_name :: "string \<Rightarrow> bool" where
  "plain_name n \<longleftrightarrow> n \<noteq> [] \<and> is_alpha (hd n) \<and>
     list_all (\<lambda>c. is_alpha c \<or> is_digit c \<or> c = CHR ''_'') n"

definition plain_affix :: "string \<Rightarrow> bool" where
  "plain_affix s \<longleftrightarrow> list_all (\<lambda>c. c \<notin> set ''{}[<>!:'') s"

fun segment_ok :: "segment \<Rightarrow> bool" where
  "segment_ok (Lit s) = True"
| "segment_ok (Fld n opt p q conv) = (plain_name n \<and> plain_affix p \<and> plain_affix q)"

fun field_text :: "segment \<Rightarrow> string" where
  "field_text (Lit s) = []"
| "field_text (Fld n opt p q conv) =
     n @ (if opt then ''?'' else []) @ (if p = [] then [] else CHR ''<'' # p)
       @ (if q = [] then [] else CHR ''>'' # q)"

fun print_segment :: "segment \<Rightarrow> string" where
  "print_segment (Lit s) = escape s"
| "print_segment (Fld n opt p q conv) =
     CHR ''{'' # field_text (Fld n opt p q conv)
       @ (case conv of None \<Rightarrow> [] | Some c \<Rightarrow> [CHR ''!'', c]) @ ''}''"

text \<open>What a segment stands for.\<close>

fun segment_value :: "'o py_ops \<Rightarrow> (string, 'o) dict \<Rightarrow> segment \<Rightarrow> (py_exn, string) result" where
  "segment_value ops kwargs (Lit s) = Inr s"
| "segment_value ops kwargs (Fld n opt p q conv) =
     (case map_of kwargs n of
        None \<Rightarrow> if opt then Inr [] else Inl KeyError
      | Some v \<Rightarrow>
          if opt \<and> op_is_none ops v then Inr []
          else rbind (convert_field ops v conv) (\<lambda>v'.
               rbind (op_format ops v' []) (\<lambda>t. Inr (p @ t @ q))))"

lemma plain_name_chars:
  assumes "plain_name n" and "c \<in> set n"
  shows "c \<notin> set ''{}[]<>!:.?''"
proof -
  have "is_alpha c \<or> is_digit c \<or> c = CHR ''_''" using assms by (simp add: plain_name_def list_all_iff)
  moreover have "list_all (\<lambda>d. \<not> (is_alpha d \<or> is_digit d \<or> d = CHR ''_'')) ''{}[]<>!:.?''"
    by (simp add: is_alpha_def is_digit_def)
  ultimately show ?thesis by (auto simp only: list_all_iff)
qed

lemma scan_name_plain:
  "list_all (\<lambda>c. c \<notin> set ''{}[!:'') n \<Longrightarrow> c = CHR ''}'' \<or> c = CHR ''!'' \<Longrightarrow>
     scan_name False (n @ c # r) = Inr (n, c, r)"
  by (induction n) auto

lemma field_text_chars:
  assumes "segment_ok (Fld n opt p q conv)"
  shows "list_all (\<lambda>c. c \<notin> set ''{}[!:'') (field_text (Fld n opt p q conv))"
proof -
  have n: "list_all (\<lambda>c. c \<notin> set ''{}[!:'') n"
  proof -
    have "set ''{}[!:'' \<subseteq> set ''{}[]<>!:.?''" by simp
    then show ?thesis
      unfolding list_all_iff using plain_name_chars [of n] assms segment_ok.simps(2) by blast
  qed
  have affix: "list_all (\<lambda>c. c \<notin> set ''{}[!:'') s" if "plain_affix s" for s
  proof -
    have "set ''{}[!:'' \<subseteq> set ''{}[<>!:''" by simp
    then show ?thesis using that unfolding list_all_iff plain_affix_def by blast
  qed
  have "list_all (\<lambda>c. c \<notin> set ''{}[!:'') ''?<>''" by simp
  with n affix [of p] affix [of q] assms show ?thesis by simp
qed

lemma parse_field_print:
  assumes "segment_ok (Fld n opt p q conv)"
  shows "markup_next (print_segment (Fld n opt p q conv) @ t)
     = Inr (([], Some \<lparr>field_name = field_text (Fld n opt p q conv), format_spec = [], conversion = conv\<rparr>), t)"
proof -
  let ?f = "field_text (Fld n opt p q conv)"
  have f: "list_all (\<lambda>c. c \<notin> set ''{}[!:'') ?f" by (rule field_text_chars [OF assms])
  have "n \<noteq> []" "hd n \<in> set n" using assms by (auto simp: plain_name_def)
  then have hd: "hd n \<noteq> CHR ''{''" using plain_name_chars [of n "hd n"] assms by auto
  obtain d rest where fd: "?f = d # rest" "d = hd n" using \<open>n \<noteq> []\<close> by (cases n) auto
  have "parse_field (?f @ (case conv of None \<Rightarrow> [] | Some c \<Rightarrow> [CHR ''!'', c]) @ CHR ''}'' # t)
      = Inr (\<lparr>field_name = ?f, format_spec = [], conversion = conv\<rparr>, t)"
    using scan_name_plain [OF f] by (cases conv) (simp_all add: parse_field_def Let_def del: field_text.simps)
  with hd fd show ?thesis
    by (simp add: markup_next_def Let_def is_brace_def del: field_text.simps)
qed

lemma split_once_append: "c \<notin> set xs \<Longrightarrow> split_once c (xs @ c # ys) = (xs, ys)"
  by (induction xs) (auto simp: split_once_def)

lemma enhanced_field_print:
  assumes "segment_ok (Fld n opt p q conv)"
  shows "enhanced_field \<lparr>field_name = field_text (Fld n opt p q conv), format_spec = [], conversion = conv\<rparr>
     = \<lparr>af_name = n, af_spec = [], af_conversion = conv, af_optional = opt, af_prefix = p, af_suffix = q\<rparr>"
proof -
  have n: "CHR ''>'' \<notin> set n" "CHR ''<'' \<notin> set n" "CHR ''?'' \<notin> set n" "n \<noteq> []"
    using assms plain_name_chars [of n] by (auto simp: plain_name_def)
  have p: "CHR ''>'' \<notin> set p" using assms by (auto simp: plain_affix_def list_all_iff)
  have ln: "last n \<noteq> CHR ''?''" using n last_in_set [of n] by metis
  let ?o = "if opt then ''?'' else []" and ?l = "if p = [] then [] else CHR ''<'' # p"
  let ?no = "n @ ?o"
  have o: "CHR ''>'' \<notin> set (?no @ ?l)" "CHR ''<'' \<notin> set ?no" using n p by auto
  have ft: "field_text (Fld n opt p q conv) = (?no @ ?l) @ (if q = [] then [] else CHR ''>'' # q)"
    by simp
  have sfx: "(if CHR ''>'' \<in> set (field_text (Fld n opt p q conv))
      then split_once CHR ''>'' (field_text (Fld n opt p q conv)) else (field_text (Fld n opt p q conv), []))
      = (?no @ ?l, q)"
    unfolding ft using split_once_append [OF o(1), of q] o(1) by auto
  have pfx: "(if CHR ''<'' \<in> set (?no @ ?l) then split_once CHR ''<'' (?no @ ?l) else (?no @ ?l, []))
      = (?no, p)"
    using split_once_append [OF o(2), of p] o(2) by auto
  show ?thesis
    unfolding enhanced_field_def markup_field.simps Let_def sfx prod.case pfx
    using n ln by auto
qed

lemma field_object_plain:
  assumes "plain_name n"
  shows "get_field ops n args kwargs = (case map_of kwargs n of None \<Rightarrow> Inl KeyError | Some v \<Rightarrow> Inr v)"
    and "field_ref n auto = Inr (n, auto)"
proof -
  have chars: "CHR ''.'' \<notin> set n" "CHR ''['' \<notin> set n" "n \<noteq> []"
    using assms plain_name_chars [of n] by (auto simp: plain_name_def)
  have alpha: "is_alpha (hd n)" using assms by (simp add: plain_name_def)
  then have nd: "\<not> is_digit (hd n)" "hd n \<noteq> CHR ''_''"
    by (auto simp: is_alpha_def is_digit_def Let_def)
  have np: "\<not> is_private n" using nd chars by (cases n) (auto simp: startswith_def)
  have ndig: "\<not> isdigit n" using nd chars by (cases n) (auto simp: isdigit_def)
  have all: "\<forall>x \<in> set n. \<not> name_end x" using chars by (auto simp: name_end_def)
  have tw: "takeWhile (\<lambda>x. \<not> name_end x) n = n" and dw: "dropWhile (\<lambda>x. \<not> name_end x) n = []"
    using all by (simp_all add: takeWhile_eq_all_conv dropWhile_eq_Nil_conv)
  then have "base_get_field ops n args kwargs = (case map_of kwargs n of None \<Rightarrow> Inl KeyError | Some v \<Rightarrow> Inr v)"
    unfolding base_get_field_def tw dw using ndig by (simp add: fkey_of_def split: option.splits)
  then show "get_field ops n args kwargs = (case map_of kwargs n of None \<Rightarrow> Inl KeyError | Some v \<Rightarrow> Inr v)"
    using chars np by (simp add: get_field_def split_on_no_sep)
  show "field_ref n auto = Inr (n, auto)" using ndig chars by (simp add: field_ref_def)
qed

lemma fmt_segment:
  assumes "segment_ok seg" and "\<And>a. sub [] a = Inr ([], a)"
  shows "fmt sub ops args kwargs (print_segment seg @ t) auto
     = rbind (segment_value ops kwargs seg) (\<lambda>s. rbind (fmt sub ops args kwargs t auto) (put_text s))"
proof (cases seg)
  case (Lit s)
  then show ?thesis by (simp add: fmt_escape)
next
  case (Fld n opt p q conv)
  have ok: "segment_ok (Fld n opt p q conv)" using assms(1) Fld by simp
  have ne: "print_segment (Fld n opt p q conv) @ t \<noteq> []" by simp
  let ?f = "\<lparr>field_name = field_text (Fld n opt p q conv), format_spec = [], conversion = conv\<rparr>"
  have *: "fmt sub ops args kwargs (print_segment seg @ t) auto
      = rbind (format_items sub ops args kwargs (([], Some ?f) # fst (parse_template t)) auto) (\<lambda>r.
            case snd (parse_template t) of Some e \<Rightarrow> Inl e | None \<Rightarrow> Inr r)"
    unfolding Fld fmt_step [OF ne] parse_field_print [OF ok] by simp
  have pn: "plain_name n" using ok by simp
  show ?thesis
  proof (cases "map_of kwargs n")
    case None
    then show ?thesis
      unfolding * unfolding Fld
      by (simp add: enhanced_field_print [OF ok] field_object_plain [OF pn] field_object_def
            fmt_def case_prod_beta rbind_assoc del: field_text.simps)
  next
    case (Some v)
    then show ?thesis
      unfolding * unfolding Fld
      by (cases "convert_field ops v conv"; cases "snd (parse_template t)")
         (simp_all add: enhanced_field_print [OF ok] field_object_plain [OF pn] field_object_def assms(2)
            fmt_def case_prod_unfold rbind_assoc put_text_def [abs_def] del: field_text.simps)
  qed
qed

text \<open>
  C4. Formatting a template made of text (braces doubled) and named fields, each with an optional
  mark, prefix, suffix and conversion, gives the texts of its segments in order; the first segment
  that raises decides the exception. A missing or None value of an optional field leaves out the
  prefix and the suffix too.
\<close>

theorem avd_format_segments:
  assumes "list_all segment_ok segs"
  shows "avd_format ops (concat (map print_segment segs)) [] kwargs
     = rbind (rmap (segment_value ops kwargs) segs) (\<lambda>texts. Inr (concat texts))"
proof -
  let ?sub = "vformat_levels 2 ops [] kwargs"
  have sub: "?sub [] a = Inr ([], a)" for a
    by (simp add: numeral_2_eq_2 parse_template.simps)
  have "fmt ?sub ops [] kwargs (concat (map print_segment segs)) a
      = rbind (rmap (segment_value ops kwargs) segs) (\<lambda>texts. Inr (concat texts, a))" for a
    using assms
  proof (induction segs)
    case (Cons seg segs)
    then show ?case
      by (simp add: fmt_segment sub rbind_assoc put_text_def)
  qed simp
  then show ?thesis
    by (simp add: avd_format_def eval_nat_numeral vformat_levels_fmt rbind_assoc
          del: vformat_levels.simps)
qed

theorem avd_format_segments_witness:
  "avd_format str_ops ''fabric={fabric}{dc?</dc=}{pod?</pod=}''
      [] [(''fabric'', Some ''F1''), (''dc'', None), (''pod'', Some ''P2'')]
     = Inr ''fabric=F1/pod=P2''"
  using avd_format_segments
    [of "[Lit ''fabric='', Fld ''fabric'' False [] [] None, Fld ''dc'' True ''/dc='' [] None,
          Fld ''pod'' True ''/pod='' [] None]" str_ops
        "[(''fabric'', Some ''F1''), (''dc'', None), (''pod'', Some ''P2'')]"]
  by (simp add: plain_name_def plain_affix_def is_alpha_def is_digit_def is_brace_def
      convert_field_def str_ops_def)

end
