(* ===== verification/PoolManager.thy ===== *)
theory PoolManager
  imports NaturalSort FormatString
begin

text \<open>
  \<open>pyavd/api/pool_manager\<close>: node ids allocated from pools that persist in YAML files. A pool maps
  assignment keys to integers, a collection holds the pools of one file, the manager the
  collections of a run. Aliasing is resolved by passing the owner explicitly: an operation of a
  pool that sets \<open>collection.changed\<close> returns the changed collection. The YAML library, the file
  system's failures and the text of YAML values are the record \<open>pool_env\<close>, a parameter. Booleans
  read from a file where an integer is expected are the integers 0 and 1.

  The lemmas show that every sequence of operations keeps the ids of a pool distinct and in range,
  that the id handed out is the least free one, that ids are stable, and that saving and loading
  gives the same assignments.
\<close>

section \<open>State\<close>

datatype yv = YNull | YBool bool | YInt int | YStr string | YList "yv list" | YMap "(yv \<times> yv) list"

record pool_assignment =
  pa_key :: string
  pa_value :: int
  pa_accessed :: bool

record pool =
  pool_key :: string
  assignments :: "(string, pool_assignment) dict"

record pool_collection =
  pools_file :: string
  pools_key :: string
  min_value :: int
  max_value :: "int option"
  changed :: bool
  pools :: "(string, pool) dict"

text \<open>The requested value may also be a text, which no pool of integers has.\<close>

datatype request = ReqInt int | ReqStr string

section \<open>Pool\<close>

definition existing_ids :: "pool \<Rightarrow> int list" where
  "existing_ids p = remdups (map pa_value (dict_values (assignments p)))"

definition is_value_available :: "pool_collection \<Rightarrow> pool \<Rightarrow> request \<Rightarrow> bool" where
  "is_value_available c p req =
     (case req of
        ReqStr _ \<Rightarrow> False
      | ReqInt v \<Rightarrow>
          \<not> (v \<in> set (existing_ids p) \<or> v < min_value c
             \<or> (case max_value c of None \<Rightarrow> False | Some m \<Rightarrow> v > m)))"

text \<open>\<open>next(iter(filterfalse(...)))\<close> raises StopIteration when nothing in the range is free.\<close>

definition next_available :: "pool_collection \<Rightarrow> pool \<Rightarrow> (py_exn, int) result" where
  "next_available c p =
     (let ids = existing_ids p in
      case find (\<lambda>v. v \<notin> set ids) [min_value c .. min_value c + int (length ids) + 1] of
        None \<Rightarrow> Inl StopIteration
      | Some v \<Rightarrow>
          (case max_value c of
             Some m \<Rightarrow> (if v > m then Inl ValueError else Inr v)
           | None \<Rightarrow> Inr v))"

definition pool_get_assignment ::
  "pool_collection \<Rightarrow> pool \<Rightarrow> string \<Rightarrow> request option
     \<Rightarrow> (py_exn, pool_assignment \<times> pool \<times> pool_collection) result" where
  "pool_get_assignment c p key req =
     (let put = (\<lambda>v. let a = \<lparr>pa_key = key, pa_value = v, pa_accessed = True\<rparr>
                     in (a, p\<lparr>assignments := AList.update key a (assignments p)\<rparr>, c\<lparr>changed := True\<rparr>))
      in case map_of (assignments p) key of
           None \<Rightarrow>
             (case req of
                Some (ReqInt v) \<Rightarrow>
                  (if is_value_available c p (ReqInt v) then Inr (put v)
                   else rbind (next_available c p) (\<lambda>v. Inr (put v)))
              | _ \<Rightarrow> rbind (next_available c p) (\<lambda>v. Inr (put v)))
         | Some a \<Rightarrow>
             (let access = (let a' = a\<lparr>pa_accessed := True\<rparr>
                            in (a', p\<lparr>assignments := AList.update key a' (assignments p)\<rparr>, c))
              in case req of
                   Some (ReqInt v) \<Rightarrow>
                     (if v \<noteq> pa_value a \<and> is_value_available c p (ReqInt v) then Inr (put v)
                      else Inr access)
                 | _ \<Rightarrow> Inr access))"

definition get_assignment_by_value :: "pool \<Rightarrow> int \<Rightarrow> pool_assignment option" where
  "get_assignment_by_value p v = find (\<lambda>a. pa_value a = v) (dict_values (assignments p))"

definition pool_remove_stale :: "pool_collection \<Rightarrow> pool \<Rightarrow> pool \<times> pool_collection" where
  "pool_remove_stale c p =
     (let kept = filter (\<lambda>(k, a). pa_accessed a) (assignments p)
      in (p\<lparr>assignments := kept\<rparr>,
          c\<lparr>changed := changed c \<or> length (assignments p) \<noteq> length kept\<rparr>))"

text \<open>The items sorted by \<open>assignments_as_dict\<close>: a dictionary with the value and the assignment.
  \<open>str\<close> of an assignment, its \<open>repr\<close>, is never asked for as the sort key is the value.\<close>

datatype sort_val = SVValue int | SVAssignment pool_assignment

fun str_sort_val :: "sort_val \<Rightarrow> string" where
  "str_sort_val (SVValue i) = int_str i"
| "str_sort_val (SVAssignment a) =
     ''PoolAssignment(key='' @ pa_key a @ '', value='' @ int_str (pa_value a) @ '', accessed=''
       @ (if pa_accessed a then ''True'' else ''False'') @ '')''"

fun item_assignment :: "sort_val item \<Rightarrow> (string \<times> int) option" where
  "item_assignment (Mapping m) =
     (case map_of m ''assignment'' of
        Some (Some (SVAssignment a)) \<Rightarrow> Some (pa_key a, pa_value a)
      | _ \<Rightarrow> None)"
| "item_assignment _ = None"

definition assignments_as_dict :: "pool \<Rightarrow> (py_exn, (string, int) dict) result" where
  "assignments_as_dict p =
     (let items = map (\<lambda>a. Mapping [(''value'', Some (SVValue (pa_value a))),
                                    (''assignment'', Some (SVAssignment a))])
                    (dict_values (assignments p))
      in rbind (natural_sort str_sort_val (\<lambda>_. []) (Some items) (Some ''value'') True True None)
           (\<lambda>sorted. Inr (dict_of (List.map_filter item_assignment sorted))))"

section \<open>Reading pools\<close>

record pool_env =
  yaml_load :: "string \<Rightarrow> (py_exn, yv) result"
  yaml_dump :: "yv \<Rightarrow> string"
  create_ok :: "string \<Rightarrow> bool"
  write_ok :: "string \<Rightarrow> bool"
  yv_ops :: "yv py_ops"

text \<open>\<open>isinstance(v, int)\<close>: a boolean is an integer.\<close>

fun yv_int :: "yv \<Rightarrow> int option" where
  "yv_int (YInt i) = Some i"
| "yv_int (YBool b) = Some (of_bool b)"
| "yv_int _ = None"

fun load_assignment :: "yv \<times> yv \<Rightarrow> (py_exn, string \<times> pool_assignment) result" where
  "load_assignment (k, v) =
     (case k of
        YStr key \<Rightarrow>
          (case yv_int v of
             Some i \<Rightarrow> Inr (key, \<lparr>pa_key = key, pa_value = i, pa_accessed = False\<rparr>)
           | None \<Rightarrow> Inl TypeError)
      | _ \<Rightarrow> Inl TypeError)"

definition pool_load :: "yv \<Rightarrow> yv \<Rightarrow> (py_exn, pool) result" where
  "pool_load key data =
     (case key of
        YStr k \<Rightarrow>
          (case data of
             YMap d \<Rightarrow>
               rbind (rmap load_assignment d) (\<lambda>as. Inr \<lparr>pool_key = k, assignments = dict_of as\<rparr>)
           | _ \<Rightarrow> Inl TypeError)
      | _ \<Rightarrow> Inl TypeError)"

definition item_at :: "(yv \<times> yv) list \<Rightarrow> string \<Rightarrow> (py_exn, yv) result" where
  "item_at d k = (case map_of d (YStr k) of None \<Rightarrow> Inl KeyError | Some v \<Rightarrow> Inr v)"

definition pool_key_from_dict :: "pool_env \<Rightarrow> (yv \<times> yv) list \<Rightarrow> (py_exn, string) result" where
  "pool_key_from_dict env d =
     rbind (item_at d ''fabric_name'') (\<lambda>fabric_name.
     rbind (item_at d ''dc_name'') (\<lambda>dc_name.
     rbind (item_at d ''pod_name'') (\<lambda>pod_name.
     rbind (item_at d ''type'') (\<lambda>type.
       avd_format (yv_ops env)
         ''fabric_name={fabric_name}{dc_name?</dc_name=}{pod_name?</pod_name=}{type?</type=}'' []
         [(''fabric_name'', fabric_name), (''dc_name'', dc_name), (''pod_name'', pod_name),
          (''type'', type), (''rack'', YNull)]))))"

definition load_old_assignment ::
  "pool_env \<Rightarrow> yv \<Rightarrow> (py_exn, string \<times> pool_assignment) result" where
  "load_old_assignment env a =
     (case a of
        YMap d \<Rightarrow>
          rbind (item_at d ''key'') (\<lambda>key.
            case key of
              YMap kd \<Rightarrow>
                rbind (item_at d ''value'') (\<lambda>v.
                  case yv_int v of
                    None \<Rightarrow> Inl TypeError
                  | Some i \<Rightarrow>
                      rbind (item_at kd ''hostname'') (\<lambda>h.
                      rbind (op_format (yv_ops env) h []) (\<lambda>text.
                        Inr (''hostname='' @ text,
                             \<lparr>pa_key = ''hostname='' @ text, pa_value = i, pa_accessed = False\<rparr>))))
            | _ \<Rightarrow> Inl TypeError)
      | _ \<Rightarrow> Inl TypeError)"

definition pool_load_old_format :: "pool_env \<Rightarrow> yv \<Rightarrow> (py_exn, pool) result" where
  "pool_load_old_format env data =
     (case data of
        YMap d \<Rightarrow>
          rbind (item_at d ''pool_key'') (\<lambda>pk.
            case pk of
              YMap pkd \<Rightarrow>
                rbind (pool_key_from_dict env pkd) (\<lambda>key.
                rbind (item_at d ''assignments'') (\<lambda>as.
                  case as of
                    YList xs \<Rightarrow>
                      rbind (rmap (load_old_assignment env) xs) (\<lambda>as.
                        Inr \<lparr>pool_key = key, assignments = dict_of as\<rparr>)
                  | _ \<Rightarrow> Inl TypeError))
            | _ \<Rightarrow> Inl TypeError)
      | _ \<Rightarrow> Inl TypeError)"

text \<open>\<open>PoolCollection.load\<close>: the pools, and whether the old format was read, which marks the
  collection as changed (every old pool does).\<close>

definition collection_load ::
  "pool_env \<Rightarrow> yv \<Rightarrow> (py_exn, (string, pool) dict \<times> bool) result" where
  "collection_load env data =
     (case data of
        YMap d \<Rightarrow>
          rbind (rmap (\<lambda>(k, v). pool_load k v) d) (\<lambda>ps.
            Inr (dict_of (map (\<lambda>p. (pool_key p, p)) ps), False))
      | YList xs \<Rightarrow>
          rbind (rmap (pool_load_old_format env) xs) (\<lambda>ps.
            Inr (dict_of (map (\<lambda>p. (pool_key p, p)) ps), ps \<noteq> []))
      | _ \<Rightarrow> Inl TypeError)"

type_synonym files = "string \<Rightarrow> string option"

text \<open>\<open>__post_init__\<close> of a collection with the class defaults of \<open>NodeIdPoolCollection\<close>.\<close>

definition new_collection :: "string \<Rightarrow> pool_collection" where
  "new_collection file =
     \<lparr>pools_file = file, pools_key = ''node_id_pools'', min_value = 1, max_value = None,
      changed = False, pools = []\<rparr>"

definition post_init ::
  "pool_env \<Rightarrow> files \<Rightarrow> pool_collection \<Rightarrow> (py_exn, pool_collection) result" where
  "post_init env fs c =
     (case fs (pools_file c) of
        None \<Rightarrow> Inr (c\<lparr>pools := []\<rparr>)
      | Some text \<Rightarrow>
          rbind (yaml_load env text) (\<lambda>file_data.
            case file_data of
              YMap d \<Rightarrow>
                (case map_of d (YStr (pools_key c)) of
                   None \<Rightarrow> Inr (c\<lparr>pools := []\<rparr>)
                 | Some data \<Rightarrow>
                     (case collection_load env data of
                        Inr (ps, old) \<Rightarrow> Inr (c\<lparr>pools := ps, changed := changed c \<or> old\<rparr>)
                      | Inl e \<Rightarrow>
                          Inl (if e = TypeError \<or> e = KeyError \<or> e = ValueError then TypeError else e)))
            | _ \<Rightarrow> Inr (c\<lparr>pools := []\<rparr>)))"

section \<open>Collection\<close>

definition collection_get_pool :: "pool_collection \<Rightarrow> string \<Rightarrow> pool \<times> pool_collection" where
  "collection_get_pool c key =
     (case map_of (pools c) key of
        Some p \<Rightarrow> (p, c)
      | None \<Rightarrow>
          (let p = \<lparr>pool_key = key, assignments = []\<rparr>
           in (p, c\<lparr>pools := pools c @ [(key, p)], changed := True\<rparr>)))"

definition collection_remove_stale :: "pool_collection \<Rightarrow> pool_collection" where
  "collection_remove_stale c =
     (let (ps, c') = fold (\<lambda>(k, p) (ps, c).
            let (p', c') = pool_remove_stale c p
            in (if assignments p' \<noteq> [] then ps @ [(k, p')] else ps, c')) (pools c) ([], c)
      in c'\<lparr>pools := ps, changed := changed c' \<or> length (pools c) \<noteq> length ps\<rparr>)"

definition as_dict :: "pool_collection \<Rightarrow> (py_exn, (string, (string, int) dict) dict) result" where
  "as_dict c =
     rbind (natural_sort (\<lambda>s. s) (\<lambda>_. []) (Some (map Other (dict_keys (pools c)))) None True True None)
       (\<lambda>sorted. rbind (rmap (\<lambda>i. case i of
            Other k \<Rightarrow>
              (case map_of (pools c) k of
                 Some p \<Rightarrow> rbind (assignments_as_dict p) (\<lambda>d. Inr (k, d))
               | None \<Rightarrow> Inl KeyError)
          | _ \<Rightarrow> Inl KeyError) sorted) (\<lambda>ds. Inr (dict_of ds)))"

definition file_header :: string where
  "file_header =
     ''# This file is auto-generated by AVD eos_designs.'' @ [char_of (10 :: nat)]
     @ ''# When there is a merge conflict for this file, rebase the branch, accept all current changes for this file, and re-run AVD.''
     @ [char_of (10 :: nat)]"

definition dict_yv :: "(string, int) dict \<Rightarrow> yv" where
  "dict_yv d = YMap (map (\<lambda>(k, i). (YStr k, YInt i)) d)"

definition pools_yv :: "string \<Rightarrow> (string, (string, int) dict) dict \<Rightarrow> yv" where
  "pools_yv key d = YMap [(YStr key, YMap (map (\<lambda>(k, a). (YStr k, dict_yv a)) d))]"

text \<open>\<open>save_updates\<close>: the result, the collection and the files after it. Creating or writing the
  file may raise OSError, which is raised again; a file that was just created stays, empty.\<close>

definition save_updates ::
  "pool_env \<Rightarrow> files \<Rightarrow> pool_collection \<Rightarrow> (py_exn, bool) result \<times> pool_collection \<times> files" where
  "save_updates env fs c =
     (let c = collection_remove_stale c; file = pools_file c in
      if \<not> changed c then (Inr False, c, fs)
      else if fs file = None \<and> \<not> create_ok env file then (Inl OSError, c, fs)
      else
        (let fs = (if fs file = None then fs(file := Some []) else fs) in
         case as_dict c of
           Inl e \<Rightarrow> (Inl e, c, fs)
         | Inr d \<Rightarrow>
             (let text = file_header @ yaml_dump env (pools_yv (pools_key c) d) in
              if write_ok env file then (Inr True, c\<lparr>changed := False\<rparr>, fs(file := Some text))
              else (Inl OSError, c, fs))))"

section \<open>Manager\<close>

text \<open>What the manager reads of \<open>shared_utils\<close> for a device.\<close>

record device =
  fabric_name :: string
  hostname :: string
  node_id_pool :: string
  dc_name :: "string option"
  pod_name :: "string option"
  dev_type :: string
  rack :: "string option"
  dev_pools_file :: "string option"

fun opt_yv :: "string option \<Rightarrow> yv" where
  "opt_yv None = YNull"
| "opt_yv (Some s) = YStr s"

definition pool_key_from_shared_utils :: "pool_env \<Rightarrow> device \<Rightarrow> (py_exn, string) result" where
  "pool_key_from_shared_utils env d =
     avd_format (yv_ops env) (node_id_pool d) []
       [(''fabric_name'', YStr (fabric_name d)), (''dc_name'', opt_yv (dc_name d)),
        (''pod_name'', opt_yv (pod_name d)), (''type'', YStr (dev_type d)), (''rack'', opt_yv (rack d))]"

definition pools_file_from_shared_utils :: "string \<Rightarrow> device \<Rightarrow> string" where
  "pools_file_from_shared_utils output_dir d =
     (case dev_pools_file d of
        Some f \<Rightarrow> f
      | None \<Rightarrow> output_dir @ ''/data/'' @ fabric_name d @ ''-ids.yml'')"

definition assignment_key_from_shared_utils :: "device \<Rightarrow> string" where
  "assignment_key_from_shared_utils d = ''hostname='' @ hostname d"

record pool_manager =
  output_dir :: string
  pool_collections :: "(string, (string, pool_collection) dict) dict"

definition new_manager :: "string \<Rightarrow> pool_manager" where
  "new_manager dir = \<lparr>output_dir = dir, pool_collections = []\<rparr>"

definition put_collection ::
  "string \<Rightarrow> pool_collection \<Rightarrow> pool_manager \<Rightarrow> pool_manager" where
  "put_collection pool_type c m =
     (let files_map = (case map_of (pool_collections m) pool_type of None \<Rightarrow> [] | Some f \<Rightarrow> f)
      in m\<lparr>pool_collections :=
             AList.update pool_type (AList.update (pools_file c) c files_map) (pool_collections m)\<rparr>)"

text \<open>\<open>get_pool\<close>: the pool with the collection that owns it. An exception leaves the entries made
  before it.\<close>

definition manager_get_pool ::
  "pool_env \<Rightarrow> files \<Rightarrow> pool_manager \<Rightarrow> string \<Rightarrow> device
     \<Rightarrow> (py_exn, pool \<times> pool_collection) result \<times> pool_manager" where
  "manager_get_pool env fs m pool_type d =
     (if pool_type \<noteq> ''node_id_pools'' then (Inl ValueError, m)
      else
        (let files_map = (case map_of (pool_collections m) pool_type of None \<Rightarrow> [] | Some f \<Rightarrow> f);
             m = m\<lparr>pool_collections := AList.update pool_type files_map (pool_collections m)\<rparr>;
             file = pools_file_from_shared_utils (output_dir m) d
         in case (case map_of files_map file of
                    Some c \<Rightarrow> Inr c
                  | None \<Rightarrow> post_init env fs (new_collection file)) of
              Inl e \<Rightarrow> (Inl e, m)
            | Inr c \<Rightarrow>
                (let m = put_collection pool_type c m in
                 case pool_key_from_shared_utils env d of
                   Inl e \<Rightarrow> (Inl e, m)
                 | Inr key \<Rightarrow>
                     (let (p, c) = collection_get_pool c key
                      in (Inr (p, c), put_collection pool_type c m)))))"

definition put_pool :: "pool \<Rightarrow> pool_collection \<Rightarrow> pool_collection" where
  "put_pool p c = c\<lparr>pools := AList.update (pool_key p) p (pools c)\<rparr>"

definition manager_get_assignment ::
  "pool_env \<Rightarrow> files \<Rightarrow> pool_manager \<Rightarrow> string \<Rightarrow> device \<Rightarrow> request option
     \<Rightarrow> (py_exn, int) result \<times> pool_manager" where
  "manager_get_assignment env fs m pool_type d req =
     (case manager_get_pool env fs m pool_type d of
        (Inl e, m) \<Rightarrow> (Inl e, m)
      | (Inr (p, c), m) \<Rightarrow>
          (case pool_get_assignment c p (assignment_key_from_shared_utils d) req of
             Inl e \<Rightarrow> (Inl e, m)
           | Inr (a, p, c) \<Rightarrow> (Inr (pa_value a), put_collection pool_type (put_pool p c) m)))"

text \<open>\<open>save_updated_pools\<close>: every collection of every type is saved; an exception ends the loop.\<close>

fun save_collections ::
  "pool_env \<Rightarrow> files \<Rightarrow> (string, pool_collection) dict
     \<Rightarrow> (py_exn, bool) result \<times> (string, pool_collection) dict \<times> files" where
  "save_collections env fs [] = (Inr False, [], fs)"
| "save_collections env fs ((f, c) # rest) =
     (case save_updates env fs c of
        (Inl e, c', fs') \<Rightarrow> (Inl e, (f, c') # rest, fs')
      | (Inr ch, c', fs') \<Rightarrow>
          (case save_collections env fs' rest of
             (Inl e, rest', fs'') \<Rightarrow> (Inl e, (f, c') # rest', fs'')
           | (Inr ch', rest', fs'') \<Rightarrow> (Inr (ch \<or> ch'), (f, c') # rest', fs'')))"

fun save_types ::
  "pool_env \<Rightarrow> files \<Rightarrow> (string, (string, pool_collection) dict) dict
     \<Rightarrow> (py_exn, bool) result \<times> (string, (string, pool_collection) dict) dict \<times> files" where
  "save_types env fs [] = (Inr False, [], fs)"
| "save_types env fs ((t, cs) # rest) =
     (case save_collections env fs cs of
        (Inl e, cs', fs') \<Rightarrow> (Inl e, (t, cs') # rest, fs')
      | (Inr ch, cs', fs') \<Rightarrow>
          (case save_types env fs' rest of
             (Inl e, rest', fs'') \<Rightarrow> (Inl e, (t, cs') # rest', fs'')
           | (Inr ch', rest', fs'') \<Rightarrow> (Inr (ch \<or> ch'), (t, cs') # rest', fs'')))"

definition save_updated_pools ::
  "pool_env \<Rightarrow> files \<Rightarrow> pool_manager \<Rightarrow> (py_exn, bool) result \<times> pool_manager \<times> files" where
  "save_updated_pools env fs m =
     (case save_types env fs (pool_collections m) of
        (r, cs, fs') \<Rightarrow> (r, m\<lparr>pool_collections := cs\<rparr>, fs'))"

section \<open>The invariant of a pool\<close>

text \<open>Every id is in range, no two keys share one, and an assignment is stored under its own key.\<close>

definition in_range :: "pool_collection \<Rightarrow> int \<Rightarrow> bool" where
  "in_range c v \<longleftrightarrow> min_value c \<le> v \<and> (case max_value c of None \<Rightarrow> True | Some m \<Rightarrow> v \<le> m)"

definition pool_inv :: "pool_collection \<Rightarrow> pool \<Rightarrow> bool" where
  "pool_inv c p \<longleftrightarrow>
     dict_wf (assignments p) \<and>
     (\<forall>(k, a) \<in> set (assignments p). pa_key a = k \<and> in_range c (pa_value a)) \<and>
     distinct (map pa_value (dict_values (assignments p)))"

definition pool_value :: "pool \<Rightarrow> string \<Rightarrow> int option" where
  "pool_value p k = map_option pa_value (map_of (assignments p) k)"

lemma existing_ids_set [simp]: "set (existing_ids p) = pa_value ` snd ` set (assignments p)"
  by (simp add: existing_ids_def image_image comp_def)

lemma find_least:
  "find P [a .. b] = Some v \<longleftrightarrow> a \<le> v \<and> v \<le> b \<and> P v \<and> (\<forall>w. a \<le> w \<and> w < v \<longrightarrow> \<not> P w)"
proof (induction "nat (b + 1 - a)" arbitrary: a)
  case 0
  then show ?case by (auto simp: upto.simps)
next
  case (Suc n)
  then have ab: "a \<le> b" by simp
  have "[a .. b] = a # [a + 1 .. b]" using ab by (simp add: upto_rec1)
  moreover have "find P [a + 1 .. b] = Some v \<longleftrightarrow>
      a + 1 \<le> v \<and> v \<le> b \<and> P v \<and> (\<forall>w. a + 1 \<le> w \<and> w < v \<longrightarrow> \<not> P w)"
    using Suc by auto
  ultimately show ?case
    using ab by (cases "P a") (auto, (metis order_le_less int_one_le_iff_zero_less zle_add1_eq_le add1_zle_eq)+)
qed

text \<open>The ids in use are fewer than the values tried, so one is free.\<close>

lemma free_value_exists:
  "\<exists>v. a \<le> v \<and> v \<le> a + int (length ids) + 1 \<and> v \<notin> set ids"
proof (rule ccontr)
  assume "\<not> ?thesis"
  then have "{a .. a + int (length ids) + 1} \<subseteq> set ids" by auto
  then have "card {a .. a + int (length ids) + 1} \<le> card (set ids)" by (rule card_mono [rotated]) simp
  also have "\<dots> \<le> length ids" by (rule card_length)
  finally show False by simp
qed

definition least_free :: "pool_collection \<Rightarrow> pool \<Rightarrow> int \<Rightarrow> bool" where
  "least_free c p v \<longleftrightarrow>
     min_value c \<le> v \<and> v \<notin> set (existing_ids p) \<and>
     (\<forall>w. min_value c \<le> w \<and> w < v \<longrightarrow> w \<in> set (existing_ids p))"

lemma find_free:
  "\<exists>v. find (\<lambda>v. v \<notin> set (existing_ids p)) [min_value c .. min_value c + int (length (existing_ids p)) + 1]
         = Some v \<and> least_free c p v"
proof -
  obtain w where "min_value c \<le> w" "w \<le> min_value c + int (length (existing_ids p)) + 1"
      "w \<notin> set (existing_ids p)"
    using free_value_exists by blast
  then obtain v where "find (\<lambda>v. v \<notin> set (existing_ids p))
      [min_value c .. min_value c + int (length (existing_ids p)) + 1] = Some v"
    by (metis (no_types, lifting) atLeastAtMost_iff find_None_iff2 not_Some_eq set_upto)
  then show ?thesis unfolding least_free_def find_least by blast
qed

lemma least_free_unique: "least_free c p v \<Longrightarrow> least_free c p w \<Longrightarrow> v = w"
  unfolding least_free_def by (meson linorder_cases)

lemma next_available_iff:
  "next_available c p = Inr v \<longleftrightarrow> least_free c p v \<and> in_range c v"
proof -
  obtain w where w: "find (\<lambda>v. v \<notin> set (existing_ids p))
      [min_value c .. min_value c + int (length (existing_ids p)) + 1] = Some w" "least_free c p w"
    using find_free by blast
  have "next_available c p = Inr v \<longleftrightarrow> v = w \<and> in_range c v"
    using w by (auto simp: next_available_def in_range_def least_free_def split: option.splits)
  then show ?thesis using w(2) least_free_unique by blast
qed

lemma next_available_error:
  "next_available c p = Inl e \<Longrightarrow>
     e = ValueError \<and> (\<forall>v. in_range c v \<longrightarrow> v \<in> set (existing_ids p))"
proof -
  assume err: "next_available c p = Inl e"
  obtain w where w: "find (\<lambda>v. v \<notin> set (existing_ids p))
      [min_value c .. min_value c + int (length (existing_ids p)) + 1] = Some w" "least_free c p w"
    using find_free by blast
  from err w(1) obtain m where m: "max_value c = Some m" "w > m" and e: "e = ValueError"
    by (auto simp: next_available_def split: option.splits if_splits)
  have "v \<in> set (existing_ids p)" if "in_range c v" for v
  proof -
    have "min_value c \<le> v" "v < w" using that m by (auto simp: in_range_def)
    then show ?thesis using w(2) unfolding least_free_def by blast
  qed
  with e show ?thesis by blast
qed

text \<open>
  A new id is the least free one: \<open>_next_available\<close> returns the smallest value from the
  minimum on that no assignment of the pool has; it never runs out of its range of candidates, and
  it raises ValueError exactly when every value of the allowed range is taken.
\<close>

theorem next_available_least:
  "(case next_available c p of
      Inr v \<Rightarrow> least_free c p v \<and> in_range c v
    | Inl e \<Rightarrow> e = ValueError \<and> {v. in_range c v} \<subseteq> set (existing_ids p))"
proof (cases "next_available c p")
  case (Inl e)
  then show ?thesis using next_available_error [OF Inl] by auto
next
  case (Inr v)
  then show ?thesis using next_available_iff [of c p v] by simp
qed

section \<open>One allocation\<close>

lemma available_iff:
  "is_value_available c p (ReqInt v) \<longleftrightarrow> in_range c v \<and> v \<notin> set (existing_ids p)"
  by (auto simp: is_value_available_def in_range_def split: option.splits)

text \<open>What an allocation can do: keep the assignment, or store a value that was free.\<close>

lemma pool_get_assignment_cases:
  assumes "pool_get_assignment c p k req = Inr (a, p', c')"
  obtains (old) a0 where "map_of (assignments p) k = Some a0" "a = a0\<lparr>pa_accessed := True\<rparr>"
      "p' = p\<lparr>assignments := AList.update k a (assignments p)\<rparr>" "c' = c"
    | (fresh) v where "a = \<lparr>pa_key = k, pa_value = v, pa_accessed = True\<rparr>"
      "p' = p\<lparr>assignments := AList.update k a (assignments p)\<rparr>" "c' = c\<lparr>changed := True\<rparr>"
      "in_range c v" "v \<notin> set (existing_ids p)"
  using assms
  by (auto simp: pool_get_assignment_def Let_def available_iff next_available_iff least_free_def
      split: option.splits request.splits if_splits)

lemma update_values_new:
  "k \<notin> fst ` set d \<Longrightarrow> map snd (AList.update k a d) = map snd d @ [a]"
  by (induction d) auto

lemma update_values_in:
  assumes "dict_wf d" "map_of d k = Some b" "distinct (map f (map snd d))"
    and "f a = f b \<or> f a \<notin> f ` snd ` set d"
  shows "distinct (map f (map snd (AList.update k a d)))"
  using assms
proof (induction d)
  case (Cons q d)
  obtain k' b' where q: "q = (k', b')" by (cases q)
  show ?case
  proof (cases "k = k'")
    case True
    then have "b' = b" using Cons.prems(2) q by simp
    then have "f a \<notin> f ` snd ` set d" using Cons.prems(3,4) q by force
    with True Cons.prems(3) show ?thesis by (auto simp: q)
  next
    case False
    have mem: "(k, b) \<in> set d" using Cons.prems(2) False q by (auto dest: map_of_SomeD)
    then have fb: "f b \<noteq> f b'" using Cons.prems(3) q by force
    have "f b' \<notin> f ` snd ` set (AList.update k a d)"
    proof
      assume "f b' \<in> f ` snd ` set (AList.update k a d)"
      then obtain x where "x \<in> set (AList.update k a d)" "f (snd x) = f b'" by auto
      then have "snd x = a \<or> x \<in> set d" by (induction d) (auto split: if_splits)
      then show False
      proof
        assume "snd x = a"
        then show False using \<open>f (snd x) = f b'\<close> Cons.prems(4) fb q by auto
      next
        assume "x \<in> set d"
        then show False using \<open>f (snd x) = f b'\<close> Cons.prems(3) q by force
      qed
    qed
    moreover have "distinct (map f (map snd (AList.update k a d)))"
      using Cons False q by (intro Cons.IH) auto
    ultimately show ?thesis using False q by (simp add: image_image comp_def)
  qed
qed simp

lemma update_mem: "x \<in> set (AList.update k a d) \<Longrightarrow> x = (k, a) \<or> x \<in> set d"
  by (induction d) (auto split: if_splits)

lemma pool_inv_update:
  assumes inv: "pool_inv c p" and key: "pa_key a = k"
    and val: "in_range c (pa_value a)"
    and free: "(\<exists>b. map_of (assignments p) k = Some b \<and> pa_value a = pa_value b)
      \<or> pa_value a \<notin> set (existing_ids p)"
  shows "pool_inv c (p\<lparr>assignments := AList.update k a (assignments p)\<rparr>)"
proof -
  let ?d = "assignments p"
  have wf: "dict_wf ?d" and dist: "distinct (map pa_value (dict_values ?d))"
    using inv by (auto simp: pool_inv_def)
  have "distinct (map pa_value (dict_values (AList.update k a ?d)))"
  proof (cases "map_of ?d k")
    case None
    then have "k \<notin> fst ` set ?d" by (simp add: map_of_eq_None_iff)
    with None free dist show ?thesis by (simp add: update_values_new image_image comp_def)
  next
    case (Some b)
    with free have "pa_value a = pa_value b \<or> pa_value a \<notin> pa_value ` snd ` set ?d" by auto
    with wf Some dist show ?thesis by (rule update_values_in)
  qed
  moreover have "\<forall>(k', a') \<in> set (AList.update k a ?d). pa_key a' = k' \<and> in_range c (pa_value a')"
    using inv key val by (auto simp: pool_inv_def dest!: update_mem)
  ultimately show ?thesis using wf by (simp add: pool_inv_def dict_update_wf)
qed

lemma pool_inv_changed [simp]: "pool_inv (c\<lparr>changed := b\<rparr>) p = pool_inv c p"
  by (simp add: pool_inv_def in_range_def)

lemma pool_get_assignment_inv:
  assumes "pool_get_assignment c p k req = Inr (a, p', c')" and inv: "pool_inv c p"
  shows "pool_inv c p'"
  using assms(1)
proof (cases rule: pool_get_assignment_cases)
  case (old a0)
  then have m: "(k, a0) \<in> set (assignments p)" by (auto dest: map_of_SomeD)
  have "pa_key a = k" "in_range c (pa_value a)" using inv m old by (auto simp: pool_inv_def)
  moreover have "\<exists>b. map_of (assignments p) k = Some b \<and> pa_value a = pa_value b"
    using old by simp
  ultimately show ?thesis unfolding old(3) using inv by (intro pool_inv_update) auto
next
  case (fresh v)
  then show ?thesis unfolding fresh(2) using inv by (intro pool_inv_update) auto
qed

lemma pool_get_assignment_value:
  "pool_get_assignment c p k req = Inr (a, p', c') \<Longrightarrow>
     pool_value p' k = Some (pa_value a) \<and> (\<forall>k'. k' \<noteq> k \<longrightarrow> pool_value p' k' = pool_value p k')"
  by (erule pool_get_assignment_cases) (auto simp: pool_value_def update_conv')

lemma pool_inv_inj:
  assumes "pool_inv c p" "pool_value p k = Some v" "pool_value p k' = Some v"
  shows "k = k'"
proof -
  obtain a a' where m: "(k, a) \<in> set (assignments p)" "(k', a') \<in> set (assignments p)"
      and v: "pa_value a = v" "pa_value a' = v"
    using assms(2,3) by (auto simp: pool_value_def dest!: map_of_SomeD)
  have keys: "pa_key a = k" "pa_key a' = k'" using assms(1) m by (auto simp: pool_inv_def)
  have "distinct (map pa_value (dict_values (assignments p)))"
    using assms(1) by (simp add: pool_inv_def)
  then have "inj_on pa_value (set (dict_values (assignments p)))"
    by (rule distinct_map [THEN iffD1, THEN conjunct2])
  then have "inj_on pa_value (snd ` set (assignments p))" by simp
  then have "a = a'" using m v unfolding inj_on_def by (metis image_eqI snd_conv)
  with keys show ?thesis by simp
qed

section \<open>Allocators\<close>

text \<open>
  What the devices of a run rely on: an allocator hands out a value per key, remembers it, leaves
  the other keys alone and never gives one value to two keys.
\<close>

locale allocator =
  fixes alloc :: "'s \<Rightarrow> 'k \<Rightarrow> ('v \<times> 's) option"
    and lookup :: "'s \<Rightarrow> 'k \<Rightarrow> 'v option"
    and inv :: "'s \<Rightarrow> bool"
  assumes alloc_inv: "inv s \<Longrightarrow> alloc s k = Some (v, s') \<Longrightarrow> inv s'"
    and alloc_lookup: "inv s \<Longrightarrow> alloc s k = Some (v, s') \<Longrightarrow> lookup s' k = Some v"
    and alloc_frame: "inv s \<Longrightarrow> alloc s k = Some (v, s') \<Longrightarrow> k' \<noteq> k \<Longrightarrow> lookup s' k' = lookup s k'"
    and alloc_known: "inv s \<Longrightarrow> lookup s k = Some v \<Longrightarrow> \<exists>s'. alloc s k = Some (v, s')"
    and lookup_inj: "inv s \<Longrightarrow> lookup s k = Some v \<Longrightarrow> lookup s k' = Some v \<Longrightarrow> k = k'"

text \<open>A run asks for one key after the other.\<close>

fun alloc_all :: "('s \<Rightarrow> 'k \<Rightarrow> ('v \<times> 's) option) \<Rightarrow> 's \<Rightarrow> 'k list \<Rightarrow> ('v list \<times> 's) option" where
  "alloc_all al s [] = Some ([], s)"
| "alloc_all al s (k # ks) =
     (case al s k of
        None \<Rightarrow> None
      | Some (v, s') \<Rightarrow>
          (case alloc_all al s' ks of None \<Rightarrow> None | Some (vs, s'') \<Rightarrow> Some (v # vs, s'')))"

context allocator
begin

lemma alloc_keeps:
  "inv s \<Longrightarrow> alloc s k = Some (v, s') \<Longrightarrow> lookup s k' = Some v' \<Longrightarrow> lookup s' k' = Some v'"
  by (metis alloc_frame alloc_known alloc_lookup option.inject prod.inject)

lemma run:
  "inv s \<Longrightarrow> alloc_all alloc s ks = Some (vs, s') \<Longrightarrow>
     inv s' \<and> map (lookup s') ks = map Some vs
     \<and> (\<forall>k v. lookup s k = Some v \<longrightarrow> lookup s' k = Some v)"
proof (induction ks arbitrary: s vs)
  case (Cons k ks)
  then obtain v s1 vs' where step: "alloc s k = Some (v, s1)" "alloc_all alloc s1 ks = Some (vs', s')"
      "vs = v # vs'"
    by (auto split: option.splits)
  have "inv s1" using Cons.prems(1) step(1) by (rule alloc_inv)
  from Cons.IH [OF this step(2)] show ?case
    using Cons.prems(1) step alloc_lookup alloc_keeps by auto
qed simp

lemma run_distinct:
  assumes "inv s" "alloc_all alloc s ks = Some (vs, s')"
  shows "length vs = length ks \<and>
    (\<forall>i < length ks. \<forall>j < length ks. vs ! i = vs ! j \<longleftrightarrow> ks ! i = ks ! j)"
proof -
  from run [OF assms] have inv: "inv s'" and m: "map (lookup s') ks = map Some vs" by auto
  have len: "length vs = length ks" using m by (metis length_map)
  have l: "lookup s' (ks ! i) = Some (vs ! i)" if "i < length ks" for i
    using m that len by (metis nth_map)
  show ?thesis using len l lookup_inj [OF inv] by (metis option.inject)
qed

lemma rerun:
  assumes "inv t" "\<And>k v. k \<in> set ks \<Longrightarrow> lookup s' k = Some v \<Longrightarrow> lookup t k = Some v"
    and "map (lookup s') ks = map Some vs"
  shows "\<exists>t'. alloc_all alloc t ks = Some (vs, t')"
  using assms
proof (induction ks arbitrary: t vs)
  case (Cons k ks)
  then obtain v vs' where vs: "vs = v # vs'" by (cases vs) auto
  have "lookup t k = Some v" using Cons.prems vs by auto
  then obtain t1 where t1: "alloc t k = Some (v, t1)" using alloc_known Cons.prems(1) by blast
  have "\<exists>t'. alloc_all alloc t1 ks = Some (vs', t')"
    using Cons.prems vs t1 alloc_inv alloc_keeps by (intro Cons.IH) auto
  with t1 vs show ?case by auto
qed auto

end

definition pool_alloc ::
  "pool_collection \<times> pool \<Rightarrow> string \<Rightarrow> (int \<times> pool_collection \<times> pool) option" where
  "pool_alloc s key =
     (case pool_get_assignment (fst s) (snd s) key None of
        Inl _ \<Rightarrow> None
      | Inr (a, p, c) \<Rightarrow> Some (pa_value a, c, p))"

lemma pool_alloc_Some:
  "pool_alloc s k = Some (v, s') \<Longrightarrow>
     \<exists>a. pool_get_assignment (fst s) (snd s) k None = Inr (a, snd s', fst s') \<and> v = pa_value a"
  by (auto simp: pool_alloc_def split: sum.splits)

lemma pool_get_assignment_collection:
  "pool_get_assignment c p k req = Inr (a, p', c') \<Longrightarrow> pool_inv c' q = pool_inv c q"
  by (erule pool_get_assignment_cases) auto

interpretation node_ids: allocator pool_alloc "\<lambda>s k. pool_value (snd s) k" "\<lambda>s. pool_inv (fst s) (snd s)"
proof unfold_locales
  fix s s' :: "pool_collection \<times> pool" and k k' v
  assume inv: "pool_inv (fst s) (snd s)"
  { assume "pool_alloc s k = Some (v, s')"
    then obtain a where a: "pool_get_assignment (fst s) (snd s) k None = Inr (a, snd s', fst s')"
        "v = pa_value a"
      using pool_alloc_Some by blast
    show "pool_inv (fst s') (snd s')"
      using pool_get_assignment_inv [OF a(1) inv] pool_get_assignment_collection [OF a(1)] by simp
    show "pool_value (snd s') k = Some v"
      using pool_get_assignment_value [OF a(1)] a(2) by simp
    show "k' \<noteq> k \<Longrightarrow> pool_value (snd s') k' = pool_value (snd s) k'"
      using pool_get_assignment_value [OF a(1)] by simp }
  { assume "pool_value (snd s) k = Some v"
    then show "\<exists>s'. pool_alloc s k = Some (v, s')"
      by (auto simp: pool_value_def pool_alloc_def pool_get_assignment_def Let_def) }
  { assume "pool_value (snd s) k = Some v" "pool_value (snd s) k' = Some v"
    then show "k = k'" by (rule pool_inv_inj [OF inv]) }
qed

section \<open>Properties of a pool\<close>

inductive pool_step :: "pool_collection \<times> pool \<Rightarrow> pool_collection \<times> pool \<Rightarrow> bool" where
  assign: "pool_get_assignment c p k req = Inr (a, p', c') \<Longrightarrow> pool_step (c, p) (c', p')"
| prune: "pool_remove_stale c p = (p', c') \<Longrightarrow> pool_step (c, p) (c', p')"

inductive_cases pool_stepE: "pool_step s s'"

lemma pool_remove_stale_inv:
  assumes "pool_remove_stale c p = (p', c')" "pool_inv c p"
  shows "pool_inv c' p'"
proof -
  have p': "assignments p' = filter (\<lambda>(k, a). pa_accessed a) (assignments p)"
    using assms(1) by (auto simp: pool_remove_stale_def Let_def)
  have c': "pool_inv c' p' = pool_inv c p'"
    using assms(1) by (auto simp: pool_remove_stale_def Let_def)
  show ?thesis using assms(2) unfolding c' by (auto simp: pool_inv_def p' distinct_map_filter)
qed

text \<open>
  C1. Whatever sequence of allocations (with or without a requested value, honoured or not) and
  removals of stale assignments a pool goes through from a well-formed pool on, its ids stay
  distinct and within the range of the collection.
\<close>

theorem pool_steps_inv:
  assumes "pool_step\<^sup>*\<^sup>* (c, p) (c', p')" and "pool_inv c p"
  shows "pool_inv c' p'"
proof -
  have "pool_inv (fst s') (snd s')" if "pool_step\<^sup>*\<^sup>* s s'" "pool_inv (fst s) (snd s)" for s s'
    using that
  proof (induction rule: rtranclp_induct)
    case (step s' s'')
    then have IH: "pool_inv (fst s') (snd s')" by simp
    from step.hyps(2) show ?case
    proof (cases rule: pool_step.cases)
      case (assign c p k req a p' c')
      then show ?thesis
        using IH pool_get_assignment_inv pool_get_assignment_collection by fastforce
    next
      case (prune c p p' c')
      then show ?thesis using IH pool_remove_stale_inv by fastforce
    qed
  qed simp
  from this [OF assms(1)] assms(2) show ?thesis by simp
qed

theorem pool_steps_inv_witness:
  "pool_inv ((new_collection ''f'')\<lparr>changed := True\<rparr>)
     \<lparr>pool_key = ''p'', assignments = [(''h1'', \<lparr>pa_key = ''h1'', pa_value = 1, pa_accessed = True\<rparr>)]\<rparr>"
proof -
  let ?c = "new_collection ''f''" and ?p = "\<lparr>pool_key = ''p'', assignments = []\<rparr>"
  have s: "pool_step (?c, ?p) (?c\<lparr>changed := True\<rparr>,
      \<lparr>pool_key = ''p'', assignments = [(''h1'', \<lparr>pa_key = ''h1'', pa_value = 1, pa_accessed = True\<rparr>)]\<rparr>)"
    by (rule pool_step.assign [of _ _ "''h1''" None])
       (simp add: pool_get_assignment_def next_available_def existing_ids_def new_collection_def
          upto.simps Let_def)
  have i: "pool_inv ?c ?p" by (simp add: pool_inv_def)
  show ?thesis by (rule pool_steps_inv [OF _ i]) (rule r_into_rtranclp [where r = pool_step, OF s])
qed

text \<open>
  C5. The ids that one run hands out for a list of keys are equal exactly where the keys are, and
  a second run on the resulting pool hands out the same ids.
\<close>

theorem run_ids_distinct_and_stable:
  assumes "pool_inv c p" and "alloc_all pool_alloc (c, p) ks = Some (vs, c', p')"
  shows "length vs = length ks \<and>
     {(i, j). i < length ks \<and> j < length ks \<and> vs ! i = vs ! j}
       = {(i, j). i < length ks \<and> j < length ks \<and> ks ! i = ks ! j} \<and>
     map_option fst (alloc_all pool_alloc (c', p') ks) = Some vs"
proof -
  have inv: "pool_inv (fst (c, p)) (snd (c, p))" using assms(1) by simp
  have run: "pool_inv c' p'" "map (\<lambda>k. pool_value p' k) ks = map Some vs"
    using node_ids.run [OF inv assms(2)] by auto
  have "\<exists>t'. alloc_all pool_alloc (c', p') ks = Some (vs, t')"
    by (rule node_ids.rerun [where s' = "(c', p')"]) (use run in auto)
  then show ?thesis
    using node_ids.run_distinct [OF inv assms(2)] by auto
qed

theorem run_ids_distinct_and_stable_witness:
  "\<exists>vs c' p'. alloc_all pool_alloc (new_collection ''f'', \<lparr>pool_key = ''p'', assignments = []\<rparr>) [''h1'', ''h2'', ''h1'']
      = Some (vs, c', p') \<and> vs = [1, 2, 1]
    \<and> map_option fst (alloc_all pool_alloc (c', p') [''h1'', ''h2'', ''h1'']) = Some [1, 2, 1]"
proof -
  let ?c = "new_collection ''f''" and ?p = "\<lparr>pool_key = ''p'', assignments = []\<rparr>"
  obtain c' p' where run: "alloc_all pool_alloc (?c, ?p) [''h1'', ''h2'', ''h1''] = Some ([1, 2, 1], c', p')"
    by (simp add: pool_alloc_def pool_get_assignment_def next_available_def existing_ids_def
        new_collection_def upto.simps Let_def)
  have "pool_inv ?c ?p" by (simp add: pool_inv_def)
  from run_ids_distinct_and_stable [OF this run] run show ?thesis by blast
qed

text \<open>
  A requested value is honoured exactly when it is free or already the key's own; otherwise an
  existing assignment keeps its value and a new key gets the least free one, and the collection is
  marked as changed exactly when the stored value of the key is a new one.
\<close>

theorem pool_get_assignment_request:
  assumes "pool_get_assignment c p k (Some (ReqInt v)) = Inr (a, p', c')"
  shows "pool_value p' k = Some (pa_value a) \<and> pa_accessed a \<and>
    (if in_range c v \<and> v \<notin> set (existing_ids p) \<or> pool_value p k = Some v then pa_value a = v
     else (case pool_value p k of Some w \<Rightarrow> pa_value a = w | None \<Rightarrow> least_free c p (pa_value a))) \<and>
    changed c' = (changed c \<or> pool_value p k \<noteq> Some (pa_value a))"
proof -
  have old: "map_of (assignments p) k = Some b \<Longrightarrow> pa_value b \<in> set (existing_ids p)" for b
    by (auto dest!: map_of_SomeD intro: rev_image_eqI)
  have val: "pool_value p' k = Some (pa_value a)" using pool_get_assignment_value [OF assms] by simp
  show ?thesis
  proof (cases "map_of (assignments p) k")
    case None
    then show ?thesis
      using assms val
      by (cases "in_range c v \<and> v \<notin> set (existing_ids p)")
         (auto simp: pool_get_assignment_def Let_def available_iff next_available_iff pool_value_def
            split: if_splits simp del: existing_ids_set)
  next
    case (Some b)
    then show ?thesis
      using assms val old [OF Some]
      by (cases "in_range c v \<and> v \<notin> set (existing_ids p)")
         (auto simp: pool_get_assignment_def Let_def available_iff pool_value_def
            split: if_splits simp del: existing_ids_set)
  qed
qed

theorem pool_get_assignment_request_witness:
  "\<exists>a p' c'. pool_get_assignment (new_collection ''f'') \<lparr>pool_key = ''p'', assignments = []\<rparr> ''h''
       (Some (ReqInt 7)) = Inr (a, p', c') \<and> pool_value p' ''h'' = Some 7 \<and> changed c'"
proof -
  let ?r = "pool_get_assignment (new_collection ''f'') \<lparr>pool_key = ''p'', assignments = []\<rparr> ''h'' (Some (ReqInt 7))"
  obtain a p' c' where r: "?r = Inr (a, p', c')"
    by (simp add: pool_get_assignment_def is_value_available_def existing_ids_def new_collection_def Let_def)
  from pool_get_assignment_request [OF r] r show ?thesis
    by (auto simp: in_range_def existing_ids_def new_collection_def pool_value_def)
qed

section \<open>Saving and loading\<close>

definition collection_inv :: "pool_collection \<Rightarrow> bool" where
  "collection_inv c \<longleftrightarrow>
     dict_wf (pools c) \<and> (\<forall>(k, p) \<in> set (pools c). pool_key p = k \<and> pool_inv c p)"

text \<open>The id of a key in a pool of the collection.\<close>

definition collection_value :: "pool_collection \<Rightarrow> string \<Rightarrow> string \<Rightarrow> int option" where
  "collection_value c pk k = Option.bind (map_of (pools c) pk) (\<lambda>p. pool_value p k)"

lemma dict_perm:
  assumes "mset xs = mset ys" "dict_wf ys"
  shows "dict_wf xs \<and> map_of xs k = map_of ys k"
proof -
  have "mset (map fst xs) = mset (map fst ys)" using assms(1) by simp
  then have wf: "dict_wf xs" using assms(2) by (metis mset_eq_imp_distinct_iff)
  have set: "set xs = set ys" using assms(1) by (rule mset_eq_setD)
  have "map_of xs k = Some v \<longleftrightarrow> map_of ys k = Some v" for v
    using wf assms(2) set by (simp add: map_of_eq_Some_iff del: not_None_eq)
  then have "map_of xs k = map_of ys k" by (metis not_Some_eq)
  with wf show ?thesis by simp
qed

lemma map_filter_perm: "mset xs = mset ys \<Longrightarrow> mset (List.map_filter f xs) = mset (List.map_filter f ys)"
  by (simp add: List.map_filter_def)

lemma assignments_as_dict_ok:
  assumes "pool_inv c p"
  shows "\<exists>d. assignments_as_dict p = Inr d \<and> dict_wf d \<and> (\<forall>k. map_of d k = pool_value p k)"
proof -
  let ?mk = "\<lambda>a. Mapping [(''value'', Some (SVValue (pa_value a))), (''assignment'', Some (SVAssignment a))]"
  let ?vals = "dict_values (assignments p)"
  let ?items = "map ?mk ?vals"
  obtain srt where s: "natural_sort str_sort_val (\<lambda>_. []) (Some ?items) (Some ''value'') True True None = Inr srt"
      and m: "mset srt = mset ?items"
    by (rule natural_sort_perm [of ?items str_sort_val "\<lambda>_. []" "Some ''value''" True True None]) auto
  let ?ps = "map (\<lambda>a. (pa_key a, pa_value a)) ?vals" and ?l = "List.map_filter item_assignment srt"
  have "List.map_filter item_assignment ?items = ?ps"
    by (simp add: List.map_filter_def filter_map comp_def)
  then have perm: "mset ?l = mset ?ps" using map_filter_perm [OF m, of item_assignment] by simp
  have key: "map pa_key ?vals = dict_keys (assignments p)"
    using assms by (auto simp: pool_inv_def)
  have "map fst ?ps = dict_keys (assignments p)" using key by simp
  then have wf: "dict_wf ?ps" using assms unfolding pool_inv_def by argo
  have "map_of ?ps k = pool_value p k" for k
  proof -
    have eq: "?ps = map (\<lambda>(k, a). (k, pa_value a)) (assignments p)"
      using assms by (auto simp: pool_inv_def)
    show ?thesis unfolding eq by (simp add: map_of_map pool_value_def)
  qed
  with dict_perm [OF perm wf] s show ?thesis
    by (simp add: assignments_as_dict_def dict_of_id)
qed

lemma as_dict_ok:
  assumes "collection_inv c"
  shows "\<exists>d. as_dict c = Inr d \<and> dict_wf d \<and> (\<forall>(k, a) \<in> set d. dict_wf a) \<and>
    (\<forall>pk k. Option.bind (map_of d pk) (\<lambda>a. map_of a k) = collection_value c pk k)"
proof -
  define dict where "dict p = (case assignments_as_dict p of Inr d \<Rightarrow> d | Inl _ \<Rightarrow> [])" for p
  have dict: "assignments_as_dict p = Inr (dict p)" "dict_wf (dict p)" "map_of (dict p) k = pool_value p k"
    if "(pk, p) \<in> set (pools c)" for pk p k
  proof -
    have "pool_inv c p" using assms that by (auto simp: collection_inv_def)
    from assignments_as_dict_ok [OF this] show "assignments_as_dict p = Inr (dict p)" "dict_wf (dict p)"
      "map_of (dict p) k = pool_value p k" by (auto simp: dict_def)
  qed
  have wf: "dict_wf (pools c)" using assms by (simp add: collection_inv_def)
  let ?items = "map Other (dict_keys (pools c)) :: string item list"
  obtain srt where s: "natural_sort (\<lambda>s. s) (\<lambda>_. []) (Some ?items) None True True None = Inr srt"
      and m: "mset srt = mset ?items"
    by (rule natural_sort_perm [of ?items "\<lambda>s. s" "\<lambda>_. []" None True True None]) auto
  let ?g = "\<lambda>i. case i of Other k \<Rightarrow> (k, dict (the (map_of (pools c) k))) | _ \<Rightarrow> ([], [])"
  have mem: "i \<in> set srt \<Longrightarrow> \<exists>k p. i = Other k \<and> (k, p) \<in> set (pools c) \<and> map_of (pools c) k = Some p" for i
    using mset_eq_setD [OF m] wf by auto
  have step: "(case i of Other k \<Rightarrow>
              (case map_of (pools c) k of
                 Some p \<Rightarrow> rbind (assignments_as_dict p) (\<lambda>d. Inr (k, d))
               | None \<Rightarrow> Inl KeyError)
          | _ \<Rightarrow> Inl KeyError) = Inr (?g i)" if "i \<in> set srt" for i
    using mem [OF that] dict(1) by auto
  have res: "as_dict c = Inr (dict_of (map ?g srt))"
    unfolding as_dict_def s by (subst rbind.simps(2), subst rmap_total [OF step]) simp_all
  let ?ps = "map (\<lambda>(k, p). (k, dict p)) (pools c)"
  have "map_of (pools c) k = Some p" if "(k, p) \<in> set (pools c)" for k p
    using wf that by (rule map_of_is_SomeI)
  then have items: "map ?g ?items = ?ps" by auto
  have "mset (map ?g srt) = mset (map ?g ?items)" using m by (simp only: mset_map)
  then have perm: "mset (map ?g srt) = mset ?ps" unfolding items .
  have wfp: "dict_wf ?ps" using wf by (simp add: comp_def case_prod_unfold)
  from dict_perm [OF perm wfp]
  have l: "dict_wf (map ?g srt)" "map_of (map ?g srt) k = map_of ?ps k" for k by auto
  have "\<forall>(k, a) \<in> set (map ?g srt). dict_wf a"
    using mset_eq_setD [OF perm] dict(2) by auto
  moreover have "Option.bind (map_of ?ps pk) (\<lambda>a. map_of a k) = collection_value c pk k" for pk k
    using dict(3) by (cases "map_of (pools c) pk")
      (auto simp: collection_value_def map_of_map dest: map_of_SomeD)
  ultimately show ?thesis
    using res l by (simp add: dict_of_id)
qed

text \<open>What a collection drops before it is saved.\<close>

definition prune :: "pool \<Rightarrow> pool" where
  "prune p = p\<lparr>assignments := filter (\<lambda>(k, a). pa_accessed a) (assignments p)\<rparr>"

lemma remove_stale_fold:
  "fold (\<lambda>(k, p) (ps, c).
       let (p', c') = pool_remove_stale c p
       in (if assignments p' \<noteq> [] then ps @ [(k, p')] else ps, c')) ds (ps0, c)
     = (ps0 @ filter (\<lambda>(k, p). assignments p \<noteq> []) (map (\<lambda>(k, p). (k, prune p)) ds),
        c\<lparr>changed := changed c \<or> (\<exists>(k, p) \<in> set ds. \<exists>(k', a) \<in> set (assignments p). \<not> pa_accessed a)\<rparr>)"
  (is "fold ?f ds _ = _")
proof (induction ds arbitrary: ps0 c)
  case (Cons d ds)
  obtain k p where d: "d = (k, p)" by (cases d)
  have len: "length xs \<noteq> length (filter (\<lambda>(k, a). pa_accessed a) xs) \<longleftrightarrow> (\<exists>(k', a) \<in> set xs. \<not> pa_accessed a)"
    for xs :: "(string \<times> pool_assignment) list"
  proof (cases "\<exists>(k', a) \<in> set xs. \<not> pa_accessed a")
    case True
    then obtain k' a where "(k', a) \<in> set xs" "\<not> pa_accessed a" by auto
    then have "length (filter (\<lambda>(k, a). pa_accessed a) xs) < length xs"
      by (intro length_filter_less [of "(k', a)"]) simp_all
    with True show ?thesis by simp
  next
    case False
    then have "filter (\<lambda>(k, a). pa_accessed a) xs = xs" by (auto intro: filter_True)
    with False show ?thesis by simp
  qed
  have step: "?f (k, p) (ps0, c) =
      (ps0 @ (if assignments (prune p) \<noteq> [] then [(k, prune p)] else []),
       c\<lparr>changed := changed c \<or> (\<exists>(k', a) \<in> set (assignments p). \<not> pa_accessed a)\<rparr>)"
    by (simp add: pool_remove_stale_def Let_def prune_def len)
  show ?case
    unfolding d fold_simps step Cons.IH by auto
qed simp

lemma collection_remove_stale_eq:
  "\<exists>b. collection_remove_stale c =
     c\<lparr>pools := filter (\<lambda>(k, p). assignments p \<noteq> []) (map (\<lambda>(k, p). (k, prune p)) (pools c)),
       changed := b\<rparr>"
  unfolding collection_remove_stale_def remove_stale_fold
  by (simp only: Let_def prod.case append_Nil) (rule exI, rule pool_collection.equality, simp_all)

lemma prune_inv: "pool_inv c p \<Longrightarrow> pool_inv c (prune p)"
  by (auto simp: pool_inv_def prune_def distinct_map_filter)

lemma pool_inv_cong:
  "min_value c' = min_value c \<Longrightarrow> max_value c' = max_value c \<Longrightarrow> pool_inv c' p = pool_inv c p"
  by (simp add: pool_inv_def in_range_def)

lemma collection_remove_stale_inv:
  assumes "collection_inv c" shows "collection_inv (collection_remove_stale c)"
proof -
  obtain b where eq: "collection_remove_stale c =
     c\<lparr>pools := filter (\<lambda>(k, p). assignments p \<noteq> []) (map (\<lambda>(k, p). (k, prune p)) (pools c)),
       changed := b\<rparr>"
    using collection_remove_stale_eq by blast
  have "dict_wf (map (\<lambda>(k, p). (k, prune p)) (pools c))"
    using assms by (simp add: collection_inv_def comp_def case_prod_unfold)
  then have "dict_wf (filter (\<lambda>(k, p). assignments p \<noteq> []) (map (\<lambda>(k, p). (k, prune p)) (pools c)))"
    by (rule distinct_map_filter)
  moreover have "pool_inv (collection_remove_stale c) (prune p)" if "pool_inv c p" for p
    using prune_inv [OF that] pool_inv_cong [of "collection_remove_stale c" c] unfolding eq by simp
  ultimately show ?thesis
    using assms by (auto simp: collection_inv_def eq prune_def)
qed

lemma load_assignments:
  "rmap load_assignment (map (\<lambda>(k, i). (YStr k, YInt i)) a)
     = Inr (map (\<lambda>(k, i). (k, \<lparr>pa_key = k, pa_value = i, pa_accessed = False\<rparr>)) a)"
  by (induction a) auto

lemma collection_load_pools_yv:
  assumes "dict_wf d" "\<forall>(k, a) \<in> set d. dict_wf a"
  shows "\<exists>ps. collection_load env (YMap (map (\<lambda>(k, a). (YStr k, dict_yv a)) d)) = Inr (ps, False) \<and>
    (\<forall>pk k. Option.bind (map_of ps pk) (\<lambda>p. pool_value p k) = Option.bind (map_of d pk) (\<lambda>a. map_of a k))"
proof -
  let ?as = "\<lambda>a. map (\<lambda>(k, i). (k, \<lparr>pa_key = k, pa_value = i, pa_accessed = False\<rparr>)) a"
  let ?pool = "\<lambda>(k, a). \<lparr>pool_key = k, assignments = ?as a\<rparr>"
  have "pool_load (YStr k) (dict_yv a) = Inr (?pool (k, a))" if "(k, a) \<in> set d" for k a
  proof -
    have "dict_wf (?as a)" using assms(2) that by (auto simp: comp_def case_prod_unfold)
    then show ?thesis by (simp add: pool_load_def dict_yv_def load_assignments dict_of_id)
  qed
  then have "rmap (\<lambda>(k, v). pool_load k v) (map (\<lambda>(k, a). (YStr k, dict_yv a)) d) = Inr (map ?pool d)"
    by (induction d) auto
  moreover have keys: "map (\<lambda>p. (pool_key p, p)) (map ?pool d) = map (\<lambda>(k, a). (k, ?pool (k, a))) d"
    by auto
  moreover have "dict_wf (map (\<lambda>(k, a). (k, ?pool (k, a))) d)"
    using assms(1) by (simp add: comp_def case_prod_unfold)
  ultimately have "collection_load env (YMap (map (\<lambda>(k, a). (YStr k, dict_yv a)) d))
      = Inr (map (\<lambda>(k, a). (k, ?pool (k, a))) d, False)"
    by (simp add: collection_load_def dict_of_id del: map_map)
  moreover have "map_of (map (\<lambda>(k, a). (k, ?pool (k, a))) d) pk = map_option (\<lambda>a. ?pool (pk, a)) (map_of d pk)" for pk
    using dict_map_get [of "\<lambda>k a. ?pool (k, a)" d pk] by simp
  moreover have "pool_value (?pool (pk, a)) k = map_of a k" for pk a k
    by (cases "map_of a k") (simp_all add: pool_value_def dict_map_get)
  ultimately show ?thesis
    by (intro exI conjI) (assumption, auto split: bind_splits simp: map_option_case split: option.splits)
qed

lemma collection_remove_stale_value:
  assumes "collection_inv c"
  shows "collection_value (collection_remove_stale c) pk k =
    (case map_of (pools c) pk of
       None \<Rightarrow> None
     | Some p \<Rightarrow> (case map_of (assignments p) k of
                   None \<Rightarrow> None
                 | Some a \<Rightarrow> if pa_accessed a then Some (pa_value a) else None))"
proof -
  let ?ps = "map (\<lambda>(k, p). (k, prune p)) (pools c)"
  have wf: "dict_wf ?ps" using assms by (simp add: collection_inv_def comp_def case_prod_unfold)
  have get: "map_of (pools (collection_remove_stale c)) pk =
      (case map_of (pools c) pk of
         None \<Rightarrow> None
       | Some p \<Rightarrow> if assignments (prune p) \<noteq> [] then Some (prune p) else None)"
  proof -
    obtain b where eq: "collection_remove_stale c =
       c\<lparr>pools := filter (\<lambda>(k, p). assignments p \<noteq> []) ?ps, changed := b\<rparr>"
      using collection_remove_stale_eq by blast
    have f: "map_of (filter (\<lambda>(k, p). assignments p \<noteq> []) ?ps) pk
        = (case map_of ?ps pk of None \<Rightarrow> None | Some p \<Rightarrow> if assignments p \<noteq> [] then Some p else None)"
      by (rule dict_filter_get [OF wf])
    have "pools (collection_remove_stale c) = filter (\<lambda>(k, p). assignments p \<noteq> []) ?ps"
      by (simp add: eq)
    then show ?thesis by (simp only: f) (simp add: dict_map_get split: option.splits)
  qed
  have val: "pool_value (prune p) k =
      (case map_of (assignments p) k of None \<Rightarrow> None | Some a \<Rightarrow> if pa_accessed a then Some (pa_value a) else None)"
    if "dict_wf (assignments p)" for p
    using dict_filter_get [OF that, of pa_accessed k]
    by (simp add: pool_value_def prune_def split: option.splits)
  show ?thesis
  proof (cases "map_of (pools c) pk")
    case (Some p)
    then have "dict_wf (assignments p)"
      using assms by (auto simp: collection_inv_def pool_inv_def dest!: map_of_SomeD)
    from val [OF this] get Some show ?thesis
      by (auto simp: collection_value_def pool_value_def)
  qed (simp add: collection_value_def get)
qed

section \<open>Properties of a collection\<close>

lemma save_updates_True:
  assumes "save_updates env fs c = (Inr True, c', fs')"
  obtains d where "as_dict (collection_remove_stale c) = Inr d"
    and "c' = (collection_remove_stale c)\<lparr>changed := False\<rparr>"
    and "fs' = fs(pools_file c := Some (file_header @ yaml_dump env (pools_yv (pools_key c) d)))"
proof -
  obtain b ps where rs: "collection_remove_stale c = c\<lparr>pools := ps, changed := b\<rparr>"
    using collection_remove_stale_eq by blast
  then have f: "pools_file (collection_remove_stale c) = pools_file c"
      "pools_key (collection_remove_stale c) = pools_key c" by simp_all
  show thesis
    using assms that f
    by (auto simp: save_updates_def Let_def fun_upd_idem_iff split: if_splits sum.splits)
qed

text \<open>
  C2. Saving and loading: when a save wrote the file, a new collection on that file holds, pool by
  pool and key by key, exactly the ids of the assignments that were accessed, and is unchanged. The
  YAML library is only assumed to read back what it wrote for this data.
\<close>

theorem save_load_roundtrip:
  assumes "collection_inv c" and "pools_key c = ''node_id_pools''"
    and "save_updates env fs c = (Inr True, c', fs')"
    and "\<And>d. as_dict (collection_remove_stale c) = Inr d \<Longrightarrow>
      yaml_load env (file_header @ yaml_dump env (pools_yv (pools_key c) d)) = Inr (pools_yv (pools_key c) d)"
  shows "\<exists>c''. post_init env fs' (new_collection (pools_file c)) = Inr c'' \<and> \<not> changed c'' \<and>
    (\<forall>pk k. collection_value c'' pk k =
      (case map_of (pools c) pk of
         None \<Rightarrow> None
       | Some p \<Rightarrow> (case map_of (assignments p) k of
                     None \<Rightarrow> None
                   | Some a \<Rightarrow> if pa_accessed a then Some (pa_value a) else None)))"
proof -
  let ?c = "collection_remove_stale c"
  obtain d where d: "as_dict ?c = Inr d"
      and fs': "fs' = fs(pools_file c := Some (file_header @ yaml_dump env (pools_yv (pools_key c) d)))"
    using assms(3) by (rule save_updates_True)
  have inv: "collection_inv ?c" using assms(1) by (rule collection_remove_stale_inv)
  from as_dict_ok [OF this] d have wf: "dict_wf d" "\<forall>(k, a) \<in> set d. dict_wf a"
      and val: "\<forall>pk k. Option.bind (map_of d pk) (\<lambda>a. map_of a k) = collection_value ?c pk k" by auto
  obtain ps where ps: "collection_load env (YMap (map (\<lambda>(k, a). (YStr k, dict_yv a)) d)) = Inr (ps, False)"
      "\<forall>pk k. Option.bind (map_of ps pk) (\<lambda>p. pool_value p k) = Option.bind (map_of d pk) (\<lambda>a. map_of a k)"
    using collection_load_pools_yv [OF wf] by blast
  have load: "yaml_load env (file_header @ yaml_dump env (pools_yv ''node_id_pools'' d))
      = Inr (pools_yv ''node_id_pools'' d)"
    using assms(4) [OF d] assms(2) by simp
  have "post_init env fs' (new_collection (pools_file c)) = Inr ((new_collection (pools_file c))\<lparr>pools := ps\<rparr>)"
    using load ps(1) assms(2) by (simp add: post_init_def new_collection_def fs' pools_yv_def)
  then show ?thesis
    using ps(2) val collection_remove_stale_value [OF assms(1)]
    by (intro exI conjI) (assumption, simp_all add: new_collection_def collection_value_def)
qed

text \<open>A file holding one assignment, for the witness: what the library reads back is fixed.\<close>

definition example_env :: pool_env where
  "example_env =
     \<lparr>yaml_load = (\<lambda>_. Inr (pools_yv ''node_id_pools'' [(''p'', [(''h1'', 4)])])),
      yaml_dump = (\<lambda>_. ''p: {h1: 4}''), create_ok = (\<lambda>_. True), write_ok = (\<lambda>_. True),
      yv_ops = \<lparr>op_str = (\<lambda>_. []), op_of_str = YStr, op_is_none = (\<lambda>v. v = YNull),
        op_getattr = (\<lambda>_ _. Inl AttributeError), op_getitem = (\<lambda>_ _. Inl TypeError),
        op_format = (\<lambda>_ _. Inr [])\<rparr>\<rparr>"

definition example_collection :: pool_collection where
  "example_collection = (new_collection ''f'')\<lparr>changed := True,
     pools := [(''p'', \<lparr>pool_key = ''p'', assignments =
       [(''h1'', \<lparr>pa_key = ''h1'', pa_value = 4, pa_accessed = True\<rparr>),
        (''h2'', \<lparr>pa_key = ''h2'', pa_value = 2, pa_accessed = False\<rparr>)]\<rparr>)]\<rparr>"

lemma example_as_dict:
  "as_dict (collection_remove_stale example_collection) = Inr [(''p'', [(''h1'', 4)])]"
  by (simp add: as_dict_def collection_remove_stale_def example_collection_def new_collection_def
      pool_remove_stale_def Let_def natural_sort_def assignments_as_dict_def dict_of_def
      List.map_filter_def)

theorem save_load_roundtrip_witness:
  "\<exists>c'' fs'. post_init example_env fs' (new_collection ''f'') = Inr c'' \<and>
     collection_value c'' ''p'' ''h1'' = Some 4 \<and> collection_value c'' ''p'' ''h2'' = None"
proof -
  obtain c' fs' where save: "save_updates example_env (\<lambda>_. None) example_collection = (Inr True, c', fs')"
    using example_as_dict
    by (simp add: save_updates_def Let_def example_env_def)
       (simp add: collection_remove_stale_def example_collection_def new_collection_def
          pool_remove_stale_def Let_def)
  have inv: "collection_inv example_collection"
    by (simp add: collection_inv_def example_collection_def new_collection_def pool_inv_def in_range_def)
  have key: "pools_key example_collection = ''node_id_pools''"
    by (simp add: example_collection_def new_collection_def)
  from save_load_roundtrip [OF inv key save] example_as_dict show ?thesis
    by (simp add: example_env_def key) (fastforce simp: example_collection_def new_collection_def)
qed

end
