(* ===== verification/Regex.thy ===== *)
theory Regex
  imports Prelude
begin

text \<open>
  The part of Python's \<open>re\<close> that the sources use: backtracking matching with captured groups. A
  pattern maps a position to the positions after a match, in the order in which the matcher tries
  them, so the first element is the match Python reports. Texts are ASCII; \<open>\d\<close> is a digit and
  \<open>.\<close> any character but a newline.
\<close>

section \<open>Patterns\<close>

datatype rx =
    RSet "char \<Rightarrow> bool"
  | RSeq rx rx
  | RAlt rx rx
  | RRep rx nat nat
  | RPlus "char \<Rightarrow> bool"
  | RLazy "char \<Rightarrow> bool"
  | RGroup nat rx
  | RBehind "char \<Rightarrow> bool"
  | REnd

abbreviation ROpt :: "rx \<Rightarrow> rx" where
  "ROpt r \<equiv> RRep r 0 1"

abbreviation RChr :: "char \<Rightarrow> rx" where
  "RChr c \<equiv> RSet (\<lambda>x. x = c)"

abbreviation rx_seq :: "rx list \<Rightarrow> rx" where
  "rx_seq rs \<equiv> foldr RSeq (butlast rs) (last rs)"

text \<open>A position: the character before it, the text after it, and the groups captured so far, the
  latest first.\<close>

type_synonym rx_pos = "char option \<times> string \<times> (nat \<times> string) list"

fun advance :: "nat \<Rightarrow> rx_pos \<Rightarrow> rx_pos" where
  "advance k (p, s, g) = (if k = 0 then p else Some (s ! (k - 1)), drop k s, g)"

text \<open>Greedy repetition of \<open>f\<close>, at least \<open>lo\<close> and at most \<open>hi\<close> times.\<close>

fun rep_match :: "('a \<Rightarrow> 'a list) \<Rightarrow> nat \<Rightarrow> nat \<Rightarrow> 'a \<Rightarrow> 'a list" where
  "rep_match f lo 0 x = (if lo = 0 then [x] else [])"
| "rep_match f lo (Suc hi) x =
     concat (map (rep_match f (lo - 1) hi) (f x)) @ (if lo = 0 then [x] else [])"

primrec rx_match :: "rx \<Rightarrow> rx_pos \<Rightarrow> rx_pos list" where
  "rx_match (RSet P) = (\<lambda>(p, s, g).
     case s of c # t \<Rightarrow> if P c then [(Some c, t, g)] else [] | [] \<Rightarrow> [])"
| "rx_match (RSeq r1 r2) = (\<lambda>x. concat (map (rx_match r2) (rx_match r1 x)))"
| "rx_match (RAlt r1 r2) = (\<lambda>x. rx_match r1 x @ rx_match r2 x)"
| "rx_match (RRep r lo hi) = rep_match (rx_match r) lo hi"
| "rx_match (RPlus P) = (\<lambda>(p, s, g).
     map (\<lambda>k. advance k (p, s, g)) (rev [1 ..< Suc (length (takeWhile P s))]))"
| "rx_match (RLazy P) = (\<lambda>(p, s, g).
     map (\<lambda>k. advance k (p, s, g)) [0 ..< Suc (length (takeWhile P s))])"
| "rx_match (RGroup n r) = (\<lambda>(p, s, g).
     map (\<lambda>(p', s', g'). (p', s', (n, take (length s - length s') s) # g')) (rx_match r (p, s, g)))"
| "rx_match (RBehind P) = (\<lambda>(p, s, g).
     case p of Some c \<Rightarrow> if P c then [(p, s, g)] else [] | None \<Rightarrow> [])"
| "rx_match REnd = (\<lambda>(p, s, g). if s = [] \<or> s = [char_of (10 :: nat)] then [(p, s, g)] else [])"

section \<open>Searching\<close>

text \<open>\<open>re.match\<close>: the groups and the rest of the text.\<close>

definition re_match :: "rx \<Rightarrow> string \<Rightarrow> ((nat \<times> string) list \<times> string) option" where
  "re_match r s =
     (case rx_match r (None, s, []) of [] \<Rightarrow> None | (p, s', g) # _ \<Rightarrow> Some (g, s'))"

definition re_group :: "(nat \<times> string) list \<Rightarrow> nat \<Rightarrow> string option" where
  "re_group g n = map_of g n"

text \<open>\<open>re.finditer\<close> for a pattern that matches no empty text: the groups of the successive
  matches.\<close>

function finditer_from :: "rx \<Rightarrow> char option \<Rightarrow> string \<Rightarrow> (nat \<times> string) list list" where
  "finditer_from r p [] = []"
| "finditer_from r p (c # s) =
     (case rx_match r (p, c # s, []) of
        (p', s', g) # _ \<Rightarrow>
          (if length s' < length (c # s) then g # finditer_from r p' s'
           else finditer_from r (Some c) s)
      | [] \<Rightarrow> finditer_from r (Some c) s)"
  by pat_completeness auto
termination by (relation "measure (\<lambda>(r, p, s). length s)") auto

definition re_finditer :: "rx \<Rightarrow> string \<Rightarrow> (nat \<times> string) list list" where
  "re_finditer r s = finditer_from r None s"

section \<open>Lemmas\<close>

text \<open>A match only ever consumes a prefix of the text.\<close>

definition suffix_of :: "string \<Rightarrow> string \<Rightarrow> bool" where
  "suffix_of t s \<longleftrightarrow> (\<exists>u. s = u @ t)"

lemma suffix_of_refl [simp]: "suffix_of s s"
  by (simp add: suffix_of_def)

lemma suffix_of_drop [simp]: "suffix_of (drop k s) s"
  unfolding suffix_of_def by (metis append_take_drop_id)

lemma suffix_of_trans: "suffix_of a b \<Longrightarrow> suffix_of b c \<Longrightarrow> suffix_of a c"
  unfolding suffix_of_def by (metis append.assoc)

lemma suffix_of_length: "suffix_of t s \<Longrightarrow> length t \<le> length s"
  by (auto simp: suffix_of_def)

lemma rep_match_suffix:
  assumes step: "\<And>x y. y \<in> set (f x) \<Longrightarrow> suffix_of (fst (snd y)) (fst (snd x))"
  shows "y \<in> set (rep_match f lo hi x) \<Longrightarrow> suffix_of (fst (snd y)) (fst (snd x))"
proof (induction hi arbitrary: lo x)
  case (Suc hi)
  then consider "y = x" | z where "z \<in> set (f x)" "y \<in> set (rep_match f (lo - 1) hi z)"
    by (auto split: if_splits)
  then show ?case
    using Suc.IH step suffix_of_trans by cases (simp, blast)
qed (simp split: if_splits)

lemma rx_match_suffix:
  "y \<in> set (rx_match r x) \<Longrightarrow> suffix_of (fst (snd y)) (fst (snd x))"
proof (induction r arbitrary: x y)
  case (RSet P)
  then show ?case
    by (cases x; cases "fst (snd x)") (auto simp: suffix_of_def split: if_splits)
next
  case (RSeq r1 r2)
  then obtain z where "z \<in> set (rx_match r1 x)" "y \<in> set (rx_match r2 z)" by auto
  then show ?case using RSeq.IH suffix_of_trans by blast
next
  case (RRep r lo hi)
  show ?case
    by (rule rep_match_suffix [of "rx_match r"]) (use RRep in auto)
next
  case (RGroup n r)
  obtain p s g where x: "x = (p, s, g)" by (cases x)
  show ?case using RGroup.prems RGroup.IH [of _ "(p, s, g)"] unfolding x by fastforce
qed (auto split: option.splits if_splits prod.splits)

text \<open>A maximal run of a set of characters is tried first.\<close>

lemma rx_plus_hd:
  assumes "d \<noteq> []" "list_all P d" "r = [] \<or> \<not> P (hd r)"
  shows "\<exists>ys. rx_match (RPlus P) (p, d @ r, g) = (Some (last d), r, g) # ys"
proof -
  have tw: "takeWhile P (d @ r) = d"
    using assms by (cases r) (auto simp: takeWhile_append2 list_all_iff)
  have "rev [1 ..< Suc (length d)] = length d # rev [1 ..< length d]"
    using assms(1) by (cases d) auto
  moreover have "advance (length d) (p, d @ r, g) = (Some (last d), r, g)"
    using assms(1) by (simp add: last_conv_nth nth_append)
  ultimately show ?thesis
    using tw by (simp del: advance.simps upt_Suc)
qed

lemma rx_plus_all:
  "d \<noteq> [] \<Longrightarrow> list_all P d \<Longrightarrow> \<exists>ys. rx_match (RPlus P) (p, d, g) = (Some (last d), [], g) # ys"
  using rx_plus_hd [of d P "[]" p g] by (simp del: rx_match.simps)

lemma rx_lazy_hd: "\<exists>ys. rx_match (RLazy P) (p, s, g) = (p, s, g) # ys"
  by (simp add: upt_conv_Cons del: upt_Suc)

end
