(* ===== verification/RangeExpand.thy ===== *)
theory RangeExpand
  imports Regex
begin

text \<open>
  \<open>pyavd/j2filters/range_expand.py\<close> and \<open>list_compress.py\<close>: ranges of interfaces written as text,
  like \<open>Ethernet1-2/1-48.10\<close>, and lists of integers compressed to such text. The lemmas give the
  expansion as the product of its number ranges, in the order of the nested loops, and show that
  expanding a compressed list gives the sorted list back.
\<close>

section \<open>Expansion\<close>

record interface_data =
  first_interface :: "nat option"
  last_interface :: "nat option"
  first_subinterface :: "nat option"
  last_subinterface :: "nat option"
  first_parent_interface :: "nat option"
  last_parent_interface :: "nat option"
  first_module :: "nat option"
  last_module :: "nat option"

text \<open>\<open>range(first, last + 1)\<close> after the check that first is not larger than last. Where \<open>last\<close> is
  set, \<open>first\<close> is too; comparing None would raise TypeError.\<close>

definition checked_range :: "nat option \<Rightarrow> nat \<Rightarrow> (py_exn, nat list) result" where
  "checked_range first l =
     (case first of
        None \<Rightarrow> Inl TypeError
      | Some f \<Rightarrow> if f > l then Inl ValueError else Inr [f ..< Suc l])"

text \<open>A loop that extends the result: the first exception ends it.\<close>

definition extend_all :: "('a \<Rightarrow> (py_exn, string list) result) \<Rightarrow> 'a list \<Rightarrow> (py_exn, string list) result" where
  "extend_all f xs = rbind (rmap f xs) (\<lambda>ys. Inr (concat ys))"

definition expand_subinterfaces :: "string \<Rightarrow> interface_data \<Rightarrow> (py_exn, string list) result" where
  "expand_subinterfaces s data =
     (case last_subinterface data of
        Some l \<Rightarrow>
          rbind (checked_range (first_subinterface data) l) (\<lambda>ns.
            Inr (map (\<lambda>n. s @ ''.'' @ nat_str n) ns))
      | None \<Rightarrow> Inr [s])"

definition expand_interfaces :: "string \<Rightarrow> interface_data \<Rightarrow> (py_exn, string list) result" where
  "expand_interfaces s data =
     (case last_interface data of
        Some l \<Rightarrow>
          rbind (checked_range (first_interface data) l)
            (extend_all (\<lambda>n. expand_subinterfaces (s @ nat_str n) data))
      | None \<Rightarrow> Inr [])"

definition expand_parent_interfaces :: "string \<Rightarrow> interface_data \<Rightarrow> (py_exn, string list) result" where
  "expand_parent_interfaces s data =
     (case last_parent_interface data of
        Some l \<Rightarrow>
          rbind (checked_range (first_parent_interface data) l)
            (extend_all (\<lambda>n. expand_interfaces (s @ nat_str n @ ''/'') data))
      | None \<Rightarrow> expand_interfaces s data)"

definition expand_module :: "string \<Rightarrow> interface_data \<Rightarrow> (py_exn, string list) result" where
  "expand_module s data =
     (case last_module data of
        Some l \<Rightarrow>
          rbind (checked_range (first_module data) l)
            (extend_all (\<lambda>n. expand_parent_interfaces (s @ nat_str n @ ''/'') data))
      | None \<Rightarrow> expand_parent_interfaces s data)"

section \<open>Parsing\<close>

abbreviation digits :: rx where
  "digits \<equiv> RPlus is_digit"

text \<open>\<open>((\d+)-)?(\d+)\<close>, the groups numbered from \<open>n\<close>\<close>

definition rx_span :: "nat \<Rightarrow> rx" where
  "rx_span n =
     RSeq (ROpt (RGroup n (RSeq (RGroup (n + 1) digits) (RChr CHR ''-'')))) (RGroup (n + 2) digits)"

definition range_regex :: rx where
  "range_regex =
     RSeq (RGroup 1 (RLazy (\<lambda>c. c \<noteq> char_of (10 :: nat))))
     (RSeq (ROpt (RGroup 2 (RSeq (rx_span 3) (RChr CHR ''/''))))
     (RSeq (ROpt (RGroup 6 (RSeq (rx_span 7) (RChr CHR ''/''))))
     (RSeq (RGroup 10 (rx_span 11))
           (ROpt (RGroup 14 (RSeq (RChr CHR ''.'') (rx_span 15)))))))"

definition range_data :: "(nat \<times> string) list \<Rightarrow> interface_data" where
  "range_data g =
     (let num = (\<lambda>n. map_option nat_of_str (re_group g n));
          either = (\<lambda>n. case num n of Some v \<Rightarrow> Some v | None \<Rightarrow> num (n + 1))
      in \<lparr>first_interface = either 12, last_interface = num 13,
          first_subinterface = either 16, last_subinterface = num 17,
          first_parent_interface = either 8, last_parent_interface = num 9,
          first_module = either 4, last_module = num 5\<rparr>)"

text \<open>The loop over the comma separated parts; the prefix of an earlier part is used for a part that
  has none, and a part in which no number is found is skipped.\<close>

fun expand_parts :: "string \<Rightarrow> string list \<Rightarrow> (py_exn, string list) result" where
  "expand_parts pre [] = Inr []"
| "expand_parts pre (one_range # parts) =
     (case re_match range_regex one_range of
        None \<Rightarrow> expand_parts pre parts
      | Some (g, _) \<Rightarrow>
          (let pre' = (case re_group g 1 of Some (c # s) \<Rightarrow> c # s | _ \<Rightarrow> pre)
           in rbind (expand_module pre' (range_data g)) (\<lambda>xs.
              rbind (expand_parts pre' parts) (\<lambda>ys. Inr (xs @ ys)))))"

text \<open>The argument: a text, a sequence of arguments, or something that is not a sequence.\<close>

datatype range_arg = RText string | RList "range_arg list" | RNoSequence

fun range_expand :: "range_arg \<Rightarrow> (py_exn, string list) result" where
  "range_expand (RText s) = expand_parts [] (split_on CHR '','' s)"
| "range_expand (RList xs) = rbind (rmap range_expand xs) (\<lambda>ys. Inr (concat ys))"
| "range_expand RNoSequence = Inl TypeError"

section \<open>Compression\<close>

text \<open>Runs of consecutive integers of a sorted list: \<open>groupby\<close> on counter minus element.\<close>

fun int_runs :: "int list \<Rightarrow> int list list" where
  "int_runs [] = []"
| "int_runs (x # xs) =
     (case int_runs xs of
        (y # ys) # rest \<Rightarrow> (if y = x + 1 then (x # y # ys) # rest else [x] # (y # ys) # rest)
      | rest \<Rightarrow> [x] # rest)"

definition run_str :: "int list \<Rightarrow> string" where
  "run_str g = join ''-'' (map int_str (take (length g) [hd g, last g]))"

text \<open>\<open>None\<close> among the elements stands for an element that is not an integer.\<close>

definition list_compress :: "int option list \<Rightarrow> (py_exn, string) result" where
  "list_compress xs =
     (if list_all (\<lambda>x. x \<noteq> None) xs
      then Inr (join '','' (map run_str (int_runs (sort (map the xs)))))
      else Inl TypeError)"

section \<open>Matching\<close>

lemma seq_hd:
  "rx_match r1 x = y # ys \<Longrightarrow> rx_match r2 y = z # zs \<Longrightarrow> \<exists>ws. rx_match (RSeq r1 r2) x = z # ws"
  by auto

lemma opt_hd: "rx_match r x = y # ys \<Longrightarrow> \<exists>ws. rx_match (ROpt r) x = y # ws"
  by (auto simp: numeral_eq_Suc)

lemma opt_none: "rx_match r x = [] \<Longrightarrow> rx_match (ROpt r) x = [x]"
  by (simp add: numeral_eq_Suc)

lemma group_hd:
  "rx_match r (p, s, g) = (p', s', g') # ys \<Longrightarrow>
     \<exists>ws. rx_match (RGroup n r) (p, s, g) = (p', s', (n, take (length s - length s') s) # g') # ws"
  by simp

lemma group_none: "rx_match r x = [] \<Longrightarrow> rx_match (RGroup n r) x = []"
  by (cases x) simp

text \<open>A pattern that ends in a character does not match a text without it.\<close>

lemma seq_char_none:
  assumes "c \<notin> set s" shows "rx_match (RSeq r (RChr c)) (p, s, g) = []"
proof (rule ccontr)
  assume "rx_match (RSeq r (RChr c)) (p, s, g) \<noteq> []"
  then obtain y where "y \<in> set (rx_match r (p, s, g))" "rx_match (RChr c) y \<noteq> []"
    by (auto simp: concat_eq_Nil_conv)
  then have "suffix_of (fst (snd y)) s" "c \<in> set (fst (snd y))"
    using rx_match_suffix [of y r "(p, s, g)"]
    by (auto split: list.splits prod.splits if_splits)
  then show False using assms by (auto simp: suffix_of_def)
qed

lemma char_seq_none:
  assumes "c \<notin> set s" shows "rx_match (RSeq (RChr c) r) (p, s, g) = []"
  using assms by (cases s) auto

text \<open>How a span of numbers is written, and the groups it leaves.\<close>

definition span_str :: "nat \<times> nat \<Rightarrow> string" where
  "span_str r = (if fst r = snd r then nat_str (fst r) else nat_str (fst r) @ ''-'' @ nat_str (snd r))"

definition span_caps :: "nat \<Rightarrow> nat \<times> nat \<Rightarrow> (nat \<times> string) list" where
  "span_caps n r =
     (if fst r = snd r then [(n + 2, nat_str (fst r))]
      else [(n + 2, nat_str (snd r)), (n, nat_str (fst r) @ ''-''), (n + 1, nat_str (fst r))])"

lemma not_sep_digit [simp]:
  "\<not> is_digit CHR ''-''" "\<not> is_digit CHR ''/''" "\<not> is_digit CHR ''.''" "\<not> is_digit CHR '',''"
  by (simp_all add: is_digit_def)

lemma span_str_chars: "c \<in> set (span_str r) \<Longrightarrow> is_digit c \<or> c = CHR ''-''"
  using nat_str_digits [of "fst r"] nat_str_digits [of "snd r"]
  by (auto simp: span_str_def list_all_iff split: if_splits)

lemma span_str_hd: "span_str r \<noteq> [] \<and> is_digit (hd (span_str r))"
proof -
  have "is_digit (hd (nat_str (fst r)))"
    using nat_str_digits [of "fst r"] by (cases "nat_str (fst r)") simp_all
  then show ?thesis by (auto simp: span_str_def hd_append)
qed

text \<open>A run of digits that no dash follows has no first bound.\<close>

lemma digits_dash_none:
  assumes "d \<noteq> []" "list_all is_digit d" "r = [] \<or> \<not> is_digit (hd r)" "r = [] \<or> hd r \<noteq> CHR ''-''"
  shows "rx_match (RSeq (RGroup n digits) (RChr CHR ''-'')) (p, d @ r, g) = []"
proof -
  have tw: "takeWhile is_digit (d @ r) = d"
    using assms by (cases r) (auto simp: takeWhile_append2 list_all_iff)
  have "rx_match (RChr CHR ''-'') (q, drop k (d @ r), g') = []" if "k \<le> length d" for k q g'
  proof (cases "drop k (d @ r)")
    case (Cons c t)
    have "c \<noteq> CHR ''-''"
    proof (cases "k < length d")
      case True
      then have "c = d ! k" using Cons by (simp add: drop_append) (metis Cons_nth_drop_Suc append_Cons list.inject)
      then have "is_digit c" using assms(2) True by (simp add: list_all_length)
      then show ?thesis by auto
    next
      case False
      then have "r = c # t" using Cons that by simp
      then show ?thesis using assms(4) by auto
    qed
    with Cons show ?thesis by simp
  qed simp
  then show ?thesis
    by (auto simp: tw concat_eq_Nil_conv simp del: upt_Suc)
qed

lemma span_match:
  assumes "r = [] \<or> \<not> is_digit (hd r)" "r = [] \<or> hd r \<noteq> CHR ''-''"
  shows "\<exists>q ys. rx_match (rx_span n) (p, span_str ab @ r, g) = (q, r, span_caps n ab @ g) # ys"
proof (cases "fst ab = snd ab")
  case True
  let ?d = "nat_str (fst ab)"
  have d: "?d \<noteq> []" "list_all is_digit ?d" by simp_all
  have 1: "rx_match (ROpt (RGroup n (RSeq (RGroup (n + 1) digits) (RChr CHR ''-'')))) (p, ?d @ r, g)
      = [(p, ?d @ r, g)]"
    by (intro opt_none group_none digits_dash_none d assms)
  obtain ys where "rx_match digits (p, ?d @ r, g) = (Some (last ?d), r, g) # ys"
    using rx_plus_hd [OF d assms(1)] by blast
  from group_hd [OF this, of "n + 2"]
  obtain ws where "rx_match (RGroup (n + 2) digits) (p, ?d @ r, g) = (Some (last ?d), r, (n + 2, ?d) # g) # ws"
    by (auto simp del: rx_match.simps)
  from seq_hd [OF 1 this] show ?thesis
    using True by (auto simp: rx_span_def span_str_def span_caps_def simp del: rx_match.simps)
next
  case False
  let ?d = "nat_str (fst ab)" and ?e = "nat_str (snd ab)"
  let ?s = "?d @ CHR ''-'' # ?e @ r"
  have d: "?d \<noteq> []" "list_all is_digit ?d" and e: "?e \<noteq> []" "list_all is_digit ?e" by simp_all
  obtain ys where "rx_match digits (p, ?s, g) = (Some (last ?d), CHR ''-'' # ?e @ r, g) # ys"
    using rx_plus_hd [OF d, of "CHR ''-'' # ?e @ r" p g] by (auto simp del: rx_match.simps)
  from group_hd [OF this, of "n + 1"]
  obtain ys1 where 1: "rx_match (RGroup (n + 1) digits) (p, ?s, g)
      = (Some (last ?d), CHR ''-'' # ?e @ r, (n + 1, ?d) # g) # ys1" by (auto simp del: rx_match.simps)
  have "rx_match (RChr CHR ''-'') (Some (last ?d), CHR ''-'' # ?e @ r, (n + 1, ?d) # g)
      = (Some CHR ''-'', ?e @ r, (n + 1, ?d) # g) # []" by simp
  from seq_hd [OF 1 this]
  obtain ys2 where "rx_match (RSeq (RGroup (n + 1) digits) (RChr CHR ''-'')) (p, ?s, g)
      = (Some CHR ''-'', ?e @ r, (n + 1, ?d) # g) # ys2" by blast
  from group_hd [OF this, of n]
  obtain ys3 where "rx_match (RGroup n (RSeq (RGroup (n + 1) digits) (RChr CHR ''-''))) (p, ?s, g)
      = (Some CHR ''-'', ?e @ r, (n, ?d @ ''-'') # (n + 1, ?d) # g) # ys3"
    by (auto simp del: rx_match.simps)
  from opt_hd [OF this]
  obtain ys4 where 2: "rx_match (ROpt (RGroup n (RSeq (RGroup (n + 1) digits) (RChr CHR ''-'')))) (p, ?s, g)
      = (Some CHR ''-'', ?e @ r, (n, ?d @ ''-'') # (n + 1, ?d) # g) # ys4" by blast
  obtain zs where "rx_match digits (Some CHR ''-'', ?e @ r, (n, ?d @ ''-'') # (n + 1, ?d) # g)
      = (Some (last ?e), r, (n, ?d @ ''-'') # (n + 1, ?d) # g) # zs"
    using rx_plus_hd [OF e assms(1)] by blast
  from group_hd [OF this, of "n + 2"]
  obtain zs1 where "rx_match (RGroup (n + 2) digits) (Some CHR ''-'', ?e @ r, (n, ?d @ ''-'') # (n + 1, ?d) # g)
      = (Some (last ?e), r, (n + 2, ?e) # (n, ?d @ ''-'') # (n + 1, ?d) # g) # zs1"
    by (auto simp del: rx_match.simps)
  from seq_hd [OF 2 this] show ?thesis
    using False by (auto simp: rx_span_def span_str_def span_caps_def simp del: rx_match.simps)
qed

lemma span_none: "s = [] \<or> \<not> is_digit (hd s) \<Longrightarrow> rx_match (rx_span n) (p, s, g) = []"
  by (cases s) (simp_all add: rx_span_def numeral_eq_Suc)

text \<open>The optional parts: a span and a slash, or a dot and a span.\<close>

definition slash_str :: "(nat \<times> nat) option \<Rightarrow> string" where
  "slash_str r = (case r of None \<Rightarrow> [] | Some ab \<Rightarrow> span_str ab @ ''/'')"

definition dot_str :: "(nat \<times> nat) option \<Rightarrow> string" where
  "dot_str r = (case r of None \<Rightarrow> [] | Some ab \<Rightarrow> ''.'' @ span_str ab)"

definition opt_caps :: "nat \<Rightarrow> string \<Rightarrow> (nat \<times> nat) option \<Rightarrow> (nat \<times> string) list" where
  "opt_caps n t r = (case r of None \<Rightarrow> [] | Some ab \<Rightarrow> (n, t) # span_caps (n + 1) ab)"

lemma slash_match:
  assumes "r = None \<longrightarrow> CHR ''/'' \<notin> set t"
  shows "\<exists>q ys. rx_match (ROpt (RGroup n (RSeq (rx_span (n + 1)) (RChr CHR ''/'')))) (p, slash_str r @ t, g)
    = (q, t, opt_caps n (slash_str r) r @ g) # ys"
proof (cases r)
  case None
  then have "rx_match (ROpt (RGroup n (RSeq (rx_span (n + 1)) (RChr CHR ''/'')))) (p, t, g) = [(p, t, g)]"
    using assms by (intro opt_none group_none seq_char_none) simp
  with None show ?thesis by (auto simp: slash_str_def opt_caps_def simp del: rx_match.simps)
next
  case (Some ab)
  obtain q ys where 1: "rx_match (rx_span (n + 1)) (p, span_str ab @ CHR ''/'' # t, g)
      = (q, CHR ''/'' # t, span_caps (n + 1) ab @ g) # ys"
    using span_match [of "CHR ''/'' # t"] by fastforce
  have "rx_match (RChr CHR ''/'') (q, CHR ''/'' # t, span_caps (n + 1) ab @ g)
      = (Some CHR ''/'', t, span_caps (n + 1) ab @ g) # []" by simp
  from seq_hd [OF 1 this]
  obtain ws where "rx_match (RSeq (rx_span (n + 1)) (RChr CHR ''/'')) (p, span_str ab @ CHR ''/'' # t, g)
      = (Some CHR ''/'', t, span_caps (n + 1) ab @ g) # ws" by blast
  from group_hd [OF this, of n] obtain zs where
    "rx_match (RGroup n (RSeq (rx_span (n + 1)) (RChr CHR ''/''))) (p, span_str ab @ CHR ''/'' # t, g)
      = (Some CHR ''/'', t, (n, span_str ab @ ''/'') # span_caps (n + 1) ab @ g) # zs"
    by (auto simp del: rx_match.simps)
  from opt_hd [OF this] Some show ?thesis
    by (auto simp: slash_str_def opt_caps_def simp del: rx_match.simps)
qed

lemma dot_match:
  "\<exists>q ys. rx_match (ROpt (RGroup n (RSeq (RChr CHR ''.'') (rx_span (n + 1))))) (p, dot_str r, g)
    = (q, [], opt_caps n (dot_str r) r @ g) # ys"
proof (cases r)
  case None
  have "rx_match (ROpt (RGroup n (RSeq (RChr CHR ''.'') (rx_span (n + 1))))) (p, [], g) = [(p, [], g)]"
    by (intro opt_none group_none char_seq_none) simp
  with None show ?thesis by (auto simp: dot_str_def opt_caps_def simp del: rx_match.simps)
next
  case (Some ab)
  have 1: "rx_match (RChr CHR ''.'') (p, CHR ''.'' # span_str ab, g) = (Some CHR ''.'', span_str ab, g) # []"
    by simp
  obtain q ys where "rx_match (rx_span (n + 1)) (Some CHR ''.'', span_str ab, g)
      = (q, [], span_caps (n + 1) ab @ g) # ys"
    using span_match [of "[]"] by fastforce
  from seq_hd [OF 1 this]
  obtain ws where "rx_match (RSeq (RChr CHR ''.'') (rx_span (n + 1))) (p, CHR ''.'' # span_str ab, g)
      = (q, [], span_caps (n + 1) ab @ g) # ws" by blast
  from group_hd [OF this, of n] obtain zs where
    "rx_match (RGroup n (RSeq (RChr CHR ''.'') (rx_span (n + 1)))) (p, CHR ''.'' # span_str ab, g)
      = (q, [], (n, CHR ''.'' # span_str ab) # span_caps (n + 1) ab @ g) # zs"
    by (auto simp del: rx_match.simps)
  from opt_hd [OF this] Some show ?thesis
    by (auto simp: dot_str_def opt_caps_def simp del: rx_match.simps)
qed

section \<open>Expansion of number ranges\<close>

lemma extend_all_Inr:
  "(\<And>x. x \<in> set xs \<Longrightarrow> f x = Inr (g x)) \<Longrightarrow> extend_all f xs = Inr (concat (map g xs))"
  by (simp add: extend_all_def rmap_total)

text \<open>The numbers of a range, and one range with its separator in front of a list of endings.\<close>

definition numbers :: "(nat \<times> nat) option \<Rightarrow> string list" where
  "numbers r = (case r of None \<Rightarrow> [] | Some (a, b) \<Rightarrow> map nat_str [a ..< Suc b])"

definition range_ok :: "(nat \<times> nat) option \<Rightarrow> bool" where
  "range_ok r = (case r of None \<Rightarrow> True | Some (a, b) \<Rightarrow> a \<le> b)"

definition span_data ::
  "(nat \<times> nat) option \<Rightarrow> (nat \<times> nat) option \<Rightarrow> nat \<times> nat \<Rightarrow> (nat \<times> nat) option \<Rightarrow> interface_data" where
  "span_data m p i s =
     \<lparr>first_interface = Some (fst i), last_interface = Some (snd i),
      first_subinterface = map_option fst s, last_subinterface = map_option snd s,
      first_parent_interface = map_option fst p, last_parent_interface = map_option snd p,
      first_module = map_option fst m, last_module = map_option snd m\<rparr>"

definition slashed :: "(nat \<times> nat) option \<Rightarrow> string list" where
  "slashed r = (case r of None \<Rightarrow> [[]] | Some _ \<Rightarrow> map (\<lambda>n. n @ ''/'') (numbers r))"

definition dotted :: "(nat \<times> nat) option \<Rightarrow> string list" where
  "dotted r = (case r of None \<Rightarrow> [[]] | Some _ \<Rightarrow> map (\<lambda>n. ''.'' @ n) (numbers r))"

lemma checked_range_ok: "a \<le> b \<Longrightarrow> checked_range (Some a) b = Inr [a ..< Suc b]"
  by (simp add: checked_range_def)

lemma checked_range_bad: "b < a \<Longrightarrow> checked_range (Some a) b = Inl ValueError"
  by (simp add: checked_range_def)

lemma expand_subinterfaces_ok:
  "range_ok s \<Longrightarrow> expand_subinterfaces x (span_data m p i s) = Inr (map (\<lambda>e. x @ e) (dotted s))"
  by (auto simp: expand_subinterfaces_def span_data_def dotted_def numbers_def range_ok_def
      checked_range_ok split: option.splits)

lemma expand_interfaces_ok:
  assumes "range_ok s" "fst i \<le> snd i"
  shows "expand_interfaces x (span_data m p i s)
    = Inr [x @ n @ e. n \<leftarrow> numbers (Some i), e \<leftarrow> dotted s]"
proof -
  have "expand_interfaces x (span_data m p i s)
      = extend_all (\<lambda>n. expand_subinterfaces (x @ nat_str n) (span_data m p i s)) [fst i ..< Suc (snd i)]"
    using assms(2) by (simp add: expand_interfaces_def span_data_def checked_range_ok)
  also have "\<dots> = Inr (concat (map (\<lambda>n. map (\<lambda>e. (x @ nat_str n) @ e) (dotted s)) [fst i ..< Suc (snd i)]))"
    by (rule extend_all_Inr) (rule expand_subinterfaces_ok [OF assms(1)])
  finally show ?thesis
    by (cases i) (simp add: numbers_def comp_def del: upt_Suc)
qed

lemma expand_parent_interfaces_ok:
  assumes "range_ok s" "fst i \<le> snd i" "range_ok p"
  shows "expand_parent_interfaces x (span_data m p i s)
    = Inr [x @ q @ n @ e. q \<leftarrow> slashed p, n \<leftarrow> numbers (Some i), e \<leftarrow> dotted s]"
proof (cases p)
  case None
  then show ?thesis
    using expand_interfaces_ok [OF assms(1,2), of x m None]
    by (simp add: expand_parent_interfaces_def slashed_def) (simp add: span_data_def)
next
  case (Some r)
  have "expand_parent_interfaces x (span_data m p i s)
      = extend_all (\<lambda>n. expand_interfaces (x @ nat_str n @ ''/'') (span_data m p i s)) [fst r ..< Suc (snd r)]"
    using assms(3) Some
    by (simp add: expand_parent_interfaces_def span_data_def range_ok_def checked_range_ok split: prod.splits)
  also have "\<dots> = Inr (concat (map (\<lambda>q. [(x @ nat_str q @ ''/'') @ n @ e. n \<leftarrow> numbers (Some i), e \<leftarrow> dotted s])
      [fst r ..< Suc (snd r)]))"
    by (rule extend_all_Inr) (rule expand_interfaces_ok [OF assms(1,2)])
  finally show ?thesis
    using Some by (cases r) (simp add: slashed_def numbers_def comp_def del: upt_Suc)
qed

lemma expand_module_ok:
  assumes "range_ok s" "fst i \<le> snd i" "range_ok p" "range_ok m"
  shows "expand_module x (span_data m p i s)
    = Inr [x @ k @ q @ n @ e. k \<leftarrow> slashed m, q \<leftarrow> slashed p, n \<leftarrow> numbers (Some i), e \<leftarrow> dotted s]"
proof (cases m)
  case None
  then show ?thesis
    using expand_parent_interfaces_ok [OF assms(1-3), of x None]
    by (simp add: expand_module_def slashed_def) (simp add: span_data_def)
next
  case (Some r)
  have "expand_module x (span_data m p i s)
      = extend_all (\<lambda>n. expand_parent_interfaces (x @ nat_str n @ ''/'') (span_data m p i s)) [fst r ..< Suc (snd r)]"
    using assms(4) Some
    by (simp add: expand_module_def span_data_def range_ok_def checked_range_ok split: prod.splits)
  also have "\<dots> = Inr (concat (map (\<lambda>k. [(x @ nat_str k @ ''/'') @ q @ n @ e.
        q \<leftarrow> slashed p, n \<leftarrow> numbers (Some i), e \<leftarrow> dotted s]) [fst r ..< Suc (snd r)]))"
    by (rule extend_all_Inr) (rule expand_parent_interfaces_ok [OF assms(1-3)])
  finally show ?thesis
    using Some by (cases r) (simp add: slashed_def numbers_def comp_def del: upt_Suc)
qed

lemma expand_module_none: "expand_module x (span_data m p i s) = Inl e \<Longrightarrow> e = ValueError"
  by (auto simp: expand_module_def expand_parent_interfaces_def expand_interfaces_def
      expand_subinterfaces_def span_data_def extend_all_def checked_range_def rbind_Inl_iff
      dest!: rmap_Inl split: option.splits if_splits)

section \<open>One part of a range\<close>

definition part_str ::
  "string \<Rightarrow> (nat \<times> nat) option \<Rightarrow> (nat \<times> nat) option \<Rightarrow> nat \<times> nat \<Rightarrow> (nat \<times> nat) option \<Rightarrow> string" where
  "part_str pre m q i s = pre @ slash_str m @ slash_str q @ span_str i @ dot_str s"

definition prefix_ok :: "string \<Rightarrow> bool" where
  "prefix_ok pre \<longleftrightarrow> list_all (\<lambda>c. \<not> is_digit c \<and> c \<noteq> char_of (10 :: nat) \<and> c \<noteq> CHR '','') pre"

definition numbers_regex :: rx where
  "numbers_regex =
     RSeq (ROpt (RGroup 2 (RSeq (rx_span 3) (RChr CHR ''/''))))
     (RSeq (ROpt (RGroup 6 (RSeq (rx_span 7) (RChr CHR ''/''))))
     (RSeq (RGroup 10 (rx_span 11))
           (ROpt (RGroup 14 (RSeq (RChr CHR ''.'') (rx_span 15))))))"

lemma no_slash: "CHR ''/'' \<notin> set (span_str i @ dot_str s)"
  by (auto simp: dot_str_def dest!: span_str_chars split: option.splits)

definition part_caps ::
  "(nat \<times> nat) option \<Rightarrow> (nat \<times> nat) option \<Rightarrow> nat \<times> nat \<Rightarrow> (nat \<times> nat) option \<Rightarrow> string \<Rightarrow> (nat \<times> string) list" where
  "part_caps m q i s pre =
     opt_caps 14 (dot_str s) s @ (10, span_str i) # span_caps 11 i @ opt_caps 6 (slash_str q) q
       @ opt_caps 2 (slash_str m) m @ [(1, pre)]"

lemma numbers_match:
  assumes "m = None \<longrightarrow> q = None"
  shows "\<exists>e ys. rx_match numbers_regex (p, slash_str m @ slash_str q @ span_str i @ dot_str s, [(1, pre)])
    = (e, [], part_caps m q i s pre) # ys"
proof -
  let ?t = "span_str i @ dot_str s" and ?g2 = "opt_caps 2 (slash_str m) m @ [(1, pre)]"
  let ?g6 = "opt_caps 6 (slash_str q) q @ ?g2"
  have "m = None \<longrightarrow> CHR ''/'' \<notin> set (slash_str q @ ?t)"
    using assms no_slash by (auto simp: slash_str_def)
  from slash_match [OF this, of 2 p "[(1, pre)]"]
  obtain p2 ys2 where 2: "rx_match (ROpt (RGroup 2 (RSeq (rx_span 3) (RChr CHR ''/''))))
      (p, slash_str m @ slash_str q @ ?t, [(1, pre)]) = (p2, slash_str q @ ?t, ?g2) # ys2"
    by (auto simp: numeral_eq_Suc simp del: rx_match.simps)
  have "q = None \<longrightarrow> CHR ''/'' \<notin> set ?t" using no_slash by blast
  from slash_match [OF this, of 6 p2 ?g2]
  obtain p6 ys6 where 6: "rx_match (ROpt (RGroup 6 (RSeq (rx_span 7) (RChr CHR ''/''))))
      (p2, slash_str q @ ?t, ?g2) = (p6, ?t, ?g6) # ys6"
    by (auto simp: numeral_eq_Suc simp del: rx_match.simps)
  have "dot_str s = [] \<or> \<not> is_digit (hd (dot_str s))" "dot_str s = [] \<or> hd (dot_str s) \<noteq> CHR ''-''"
    by (auto simp: dot_str_def split: option.splits)
  from span_match [OF this, of 11 p6 i ?g6]
  obtain p10 ys10 where "rx_match (rx_span 11) (p6, ?t, ?g6) = (p10, dot_str s, span_caps 11 i @ ?g6) # ys10"
    by blast
  from group_hd [OF this, of 10]
  obtain ys11 where 10: "rx_match (RGroup 10 (rx_span 11)) (p6, ?t, ?g6)
      = (p10, dot_str s, (10, span_str i) # span_caps 11 i @ ?g6) # ys11"
    by (auto simp del: rx_match.simps)
  obtain e ys14 where 14: "rx_match (ROpt (RGroup 14 (RSeq (RChr CHR ''.'') (rx_span 15))))
      (p10, dot_str s, (10, span_str i) # span_caps 11 i @ ?g6)
      = (e, [], opt_caps 14 (dot_str s) s @ (10, span_str i) # span_caps 11 i @ ?g6) # ys14"
    using dot_match [of 14 p10 s] by (fastforce simp del: rx_match.simps)
  from seq_hd [OF 10 14] obtain zs1 where 1: "rx_match (RSeq (RGroup 10 (rx_span 11))
       (ROpt (RGroup 14 (RSeq (RChr CHR ''.'') (rx_span 15))))) (p6, ?t, ?g6)
      = (e, [], opt_caps 14 (dot_str s) s @ (10, span_str i) # span_caps 11 i @ ?g6) # zs1" by blast
  from seq_hd [OF 6 this] obtain zs2 where "rx_match (RSeq (ROpt (RGroup 6 (RSeq (rx_span 7) (RChr CHR ''/''))))
     (RSeq (RGroup 10 (rx_span 11)) (ROpt (RGroup 14 (RSeq (RChr CHR ''.'') (rx_span 15))))))
       (p2, slash_str q @ ?t, ?g2)
      = (e, [], opt_caps 14 (dot_str s) s @ (10, span_str i) # span_caps 11 i @ ?g6) # zs2" by blast
  from seq_hd [OF 2 this] show ?thesis
    unfolding numbers_regex_def part_caps_def by blast
qed

lemma numbers_none:
  assumes "t = [] \<or> \<not> is_digit (hd t)" shows "rx_match numbers_regex (p, t, g) = []"
proof -
  have none: "rx_match (RSeq (rx_span n) r) (p, t, g) = []" for n r
    using span_none [OF assms, of n p g] by simp
  have "rx_match (ROpt (RGroup k (RSeq (rx_span n) r))) (p, t, g) = [(p, t, g)]" for n k r
    by (rule opt_none) (rule group_none, rule none)
  moreover have "rx_match (RGroup 10 (rx_span 11)) (p, t, g) = []"
    by (rule group_none) (rule span_none [OF assms])
  ultimately show ?thesis unfolding numbers_regex_def by (simp del: rx_match.simps(4,7))
qed

lemma concat_map_first:
  "(\<And>x. x \<in> set xs \<Longrightarrow> f (h x) = []) \<Longrightarrow> f (h y) = z # zs \<Longrightarrow>
     \<exists>ws. concat (map f (map h (xs @ y # ys))) = z # ws"
  by (induction xs) auto

text \<open>The lazy prefix stops where the first number starts.\<close>

lemma range_regex_part:
  assumes pre: "prefix_ok pre" and sh: "m = None \<longrightarrow> q = None"
  shows "re_match range_regex (part_str pre m q i s) = Some (part_caps m q i s pre, [])"
proof -
  let ?b = "slash_str m @ slash_str q @ span_str i @ dot_str s"
  let ?P = "\<lambda>c. c \<noteq> char_of (10 :: nat)"
  let ?s = "pre @ ?b"
  let ?n = "length (takeWhile ?P ?s)"
  have pre': "list_all ?P pre" "\<forall>c \<in> set pre. \<not> is_digit c"
    using pre by (auto simp: prefix_ok_def list_all_iff)
  then have "length pre \<le> ?n" by (simp add: takeWhile_append2 list_all_iff)
  then have "[0 ..< Suc ?n] = [0 ..< length pre] @ [length pre ..< Suc ?n]"
    using upt_add_eq_append [of 0 "length pre" "Suc ?n - length pre"] by (simp del: upt_Suc)
  then have split: "[0 ..< Suc ?n] = [0 ..< length pre] @ length pre # [Suc (length pre) ..< Suc ?n]"
    using \<open>length pre \<le> ?n\<close> by (simp only: upt_conv_Cons)
  let ?at = "\<lambda>k. (fst (advance k (None, ?s, [])), drop k ?s, [(1, take k ?s)])"
  have g1: "rx_match (RGroup 1 (RLazy ?P)) (None, ?s, []) = map ?at [0 ..< Suc ?n]"
  proof -
    have "length ?s - (length ?s - k) = k" if "k \<in> set [0 ..< Suc ?n]" for k
    proof -
      have "k \<le> ?n" using that by (simp only: atLeastLessThan_upt [symmetric] atLeastLessThan_iff less_Suc_eq_le)
      also have "?n \<le> length ?s" by (rule length_takeWhile_le)
      finally show ?thesis by (rule diff_diff_cancel)
    qed
    then show ?thesis
      unfolding rx_match.simps(6,7) prod.case map_map
      by (intro map_cong refl) (simp only: comp_apply advance.simps prod.case length_drop fst_conv)
  qed
  have early: "rx_match numbers_regex (?at k) = []" if "k < length pre" for k
  proof -
    have "hd (drop k ?s) = pre ! k" using that by (simp add: hd_drop_conv_nth nth_append)
    then show ?thesis using pre'(2) that by (intro numbers_none) simp
  qed
  obtain e ys where hit: "rx_match numbers_regex (?at (length pre)) = (e, [], part_caps m q i s pre) # ys"
    using numbers_match [OF sh, of "fst (advance (length pre) (None, ?s, []))" i s pre] by auto
  have "\<exists>ws. concat (map (rx_match numbers_regex)
      (map ?at ([0 ..< length pre] @ length pre # [Suc (length pre) ..< Suc ?n])))
      = (e, [], part_caps m q i s pre) # ws"
    using early hit by (intro concat_map_first [where h = ?at]) (simp_all only: set_upt atLeastLessThan_iff)
  then have "\<exists>ys. rx_match range_regex (None, ?s, []) = (e, [], part_caps m q i s pre) # ys"
    unfolding range_regex_def numbers_regex_def [symmetric] rx_match.simps(2) g1 split .
  then show ?thesis by (auto simp: re_match_def part_str_def)
qed

lemma range_data_part:
  "m = None \<longrightarrow> q = None \<Longrightarrow> range_data (part_caps m q i s pre) = span_data m q i s"
  by (cases m; cases q; cases s)
     (simp_all add: range_data_def re_group_def part_caps_def opt_caps_def span_caps_def span_data_def)

lemma part_caps_prefix: "re_group (part_caps m q i s pre) 1 = Some pre"
  by (auto simp: re_group_def part_caps_def opt_caps_def span_caps_def split: option.splits)

section \<open>Whole ranges\<close>

text \<open>The names a part stands for, or ValueError when a range runs backwards.\<close>

definition part_value ::
  "string \<Rightarrow> (nat \<times> nat) option \<Rightarrow> (nat \<times> nat) option \<Rightarrow> nat \<times> nat \<Rightarrow> (nat \<times> nat) option
     \<Rightarrow> (py_exn, string list) result" where
  "part_value pre m q i s =
     (if range_ok m \<and> range_ok q \<and> range_ok (Some i) \<and> range_ok s
      then Inr [pre @ k @ p @ n @ e. k \<leftarrow> slashed m, p \<leftarrow> slashed q, n \<leftarrow> numbers (Some i), e \<leftarrow> dotted s]
      else Inl ValueError)"

lemma extend_all_Inr_D: "extend_all f xs = Inr ys \<Longrightarrow> x \<in> set xs \<Longrightarrow> \<exists>y. f x = Inr y"
  by (auto simp: extend_all_def rmap_Inr_iff list_all2_conv_all_nth in_set_conv_nth)

lemma checked_range_Inr: "checked_range (Some a) b = Inr ns \<longleftrightarrow> a \<le> b \<and> ns = [a ..< Suc b]"
  by (auto simp: checked_range_def)

lemma expand_module_Inr_ok:
  assumes "expand_module x (span_data m q i s) = Inr ys"
  shows "range_ok m \<and> range_ok q \<and> range_ok (Some i) \<and> range_ok s"
proof -
  have sub: "range_ok s" if "expand_subinterfaces y (span_data m q i s) = Inr zs" for y zs
    using that by (auto simp: expand_subinterfaces_def span_data_def range_ok_def checked_range_Inr
      split: option.splits)
  have int: "range_ok (Some i) \<and> range_ok s" if "expand_interfaces y (span_data m q i s) = Inr zs" for y zs
  proof -
    have "fst i \<le> snd i" and "extend_all (\<lambda>n. expand_subinterfaces (y @ nat_str n) (span_data m q i s))
        [fst i ..< Suc (snd i)] = Inr zs"
      using that by (auto simp: expand_interfaces_def span_data_def checked_range_Inr)
    then show ?thesis
      using extend_all_Inr_D [of _ _ zs "fst i"] sub by (cases i) (fastforce simp: range_ok_def)
  qed
  have parent: "range_ok q \<and> range_ok (Some i) \<and> range_ok s"
    if "expand_parent_interfaces y (span_data m q i s) = Inr zs" for y zs
  proof (cases q)
    case None
    with that int show ?thesis
      by (fastforce simp: expand_parent_interfaces_def span_data_def range_ok_def)
  next
    case (Some r)
    then have "fst r \<le> snd r" and "extend_all (\<lambda>n. expand_interfaces (y @ nat_str n @ ''/'') (span_data m q i s))
        [fst r ..< Suc (snd r)] = Inr zs"
      using that by (auto simp: expand_parent_interfaces_def span_data_def checked_range_Inr)
    then show ?thesis
      using extend_all_Inr_D [of _ _ zs "fst r"] int Some
      by (cases r) (fastforce simp: range_ok_def)
  qed
  show ?thesis
  proof (cases m)
    case None
    with assms parent show ?thesis
      by (fastforce simp: expand_module_def span_data_def range_ok_def)
  next
    case (Some r)
    then have "fst r \<le> snd r" and "extend_all (\<lambda>n. expand_parent_interfaces (x @ nat_str n @ ''/'') (span_data m q i s))
        [fst r ..< Suc (snd r)] = Inr ys"
      using assms by (auto simp: expand_module_def span_data_def checked_range_Inr)
    then show ?thesis
      using extend_all_Inr_D [of _ _ ys "fst r"] parent Some
      by (cases r) (fastforce simp: range_ok_def)
  qed
qed

lemma expand_module_value: "expand_module x (span_data m q i s) = part_value x m q i s"
proof (cases "range_ok m \<and> range_ok q \<and> range_ok (Some i) \<and> range_ok s")
  case True
  moreover have "fst i \<le> snd i" using True by (cases i) (simp add: range_ok_def)
  ultimately show ?thesis
    using expand_module_ok [of s i q m x] unfolding part_value_def by presburger
next
  case False
  then obtain e where "expand_module x (span_data m q i s) = Inl e"
    using expand_module_Inr_ok [of x m q i s] by (cases "expand_module x (span_data m q i s)") auto
  moreover from expand_module_none [OF this] have "e = ValueError" .
  ultimately show ?thesis using False by (simp add: part_value_def)
qed

type_synonym range_part =
  "string \<times> (nat \<times> nat) option \<times> (nat \<times> nat) option \<times> (nat \<times> nat) \<times> (nat \<times> nat) option"

text \<open>A module slot can stand alone; a parent slot needs a module in front of it.\<close>

fun range_part_ok :: "range_part \<Rightarrow> bool" where
  "range_part_ok (pre, m, q, i, s) = (prefix_ok pre \<and> (m = None \<longrightarrow> q = None))"

fun range_part_str :: "range_part \<Rightarrow> string" where
  "range_part_str (pre, m, q, i, s) = part_str pre m q i s"

fun parts_value :: "string \<Rightarrow> range_part list \<Rightarrow> (py_exn, string list) result" where
  "parts_value pre0 [] = Inr []"
| "parts_value pre0 ((pre, m, q, i, s) # ps) =
     (let pre' = (if pre = [] then pre0 else pre)
      in rbind (part_value pre' m q i s) (\<lambda>xs. rbind (parts_value pre' ps) (\<lambda>ys. Inr (xs @ ys))))"

lemma expand_parts_value:
  "list_all range_part_ok ps \<Longrightarrow> expand_parts pre0 (map range_part_str ps) = parts_value pre0 ps"
proof (induction ps arbitrary: pre0)
  case (Cons p ps)
  obtain pre m q i s where p: "p = (pre, m, q, i, s)" by (cases p) auto
  have ok: "prefix_ok pre" "m = None \<longrightarrow> q = None" using Cons.prems p by auto
  have "(case re_group (part_caps m q i s pre) 1 of Some (c # t) \<Rightarrow> c # t | _ \<Rightarrow> pre0)
      = (if pre = [] then pre0 else pre)"
    unfolding part_caps_prefix by (cases pre) auto
  moreover have "re_match range_regex (range_part_str p) = Some (part_caps m q i s pre, [])"
    using range_regex_part [OF ok, of i s] p by simp
  ultimately show ?case
    using Cons by (simp add: p range_data_part [OF ok(2)] expand_module_value Let_def)
qed simp

lemma span_no_comma: "CHR '','' \<notin> set (span_str r)"
  using span_str_chars [of "CHR '',''" r] by auto

lemma part_str_no_comma: "range_part_ok p \<Longrightarrow> CHR '','' \<notin> set (range_part_str p)"
  by (cases p) (auto simp: part_str_def prefix_ok_def list_all_iff slash_str_def dot_str_def
      span_no_comma split: option.splits)

lemma range_expand_parts:
  assumes "ps \<noteq> []" "list_all range_part_ok ps"
  shows "range_expand (RText (join '','' (map range_part_str ps))) = parts_value [] ps"
proof -
  have "split_on CHR '','' (join '','' (map range_part_str ps)) = map range_part_str ps"
    by (rule split_on_join) (use assms part_str_no_comma in \<open>auto simp: list_all_iff\<close>)
  then show ?thesis using expand_parts_value [OF assms(2)] by simp
qed

section \<open>Compressed lists\<close>

lemma int_runs_concat [simp]: "concat (int_runs xs) = xs"
  by (induction xs) (auto split: list.splits)

lemma int_runs_run: "g \<in> set (int_runs xs) \<Longrightarrow> \<exists>a b. a \<le> b \<and> g = [a .. b]"
proof (induction xs arbitrary: g)
  case (Cons x xs)
  have one: "\<exists>a b. a \<le> b \<and> [x] = [a .. b]" by (intro exI [of _ x]) simp
  show ?case
  proof (cases "int_runs xs")
    case Nil
    then show ?thesis using Cons.prems one by simp
  next
    case r: (Cons ys rest)
    show ?thesis
    proof (cases ys)
      case Nil
      then show ?thesis using Cons r one by (auto split: if_splits)
    next
      case y: (Cons y ys')
      obtain b c where bc: "b \<le> c" "y # ys' = [b .. c]" using Cons.IH [of ys] r y by auto
      then have "y = b" by (simp add: upto_rec1)
      moreover have "[b - 1 .. c] = (b - 1) # [b .. c]" using bc(1) by (simp add: upto_rec1)
      ultimately have "y = x + 1 \<Longrightarrow> \<exists>a b. a \<le> b \<and> x # y # ys' = [a .. b]"
        using bc by (intro exI [of _ "b - 1"] exI [of _ c]) auto
      then show ?thesis using Cons r y one by (auto split: if_splits)
    qed
  qed
qed simp

lemma map_nat_upto: "0 \<le> a \<Longrightarrow> map nat [a .. b] = [nat a ..< nat (b + 1)]"
proof (induction "nat (b + 1 - a)" arbitrary: a)
  case (Suc n)
  then have ab: "a \<le> b" by arith
  then have "[a .. b] = a # [a + 1 .. b]" by (simp add: upto_rec1)
  moreover have "map nat [a + 1 .. b] = [nat (a + 1) ..< nat (b + 1)]" using Suc by simp
  moreover have "nat (a + 1) = Suc (nat a)" "nat a < nat (b + 1)" using Suc ab by simp_all
  ultimately show ?case by (simp add: upt_conv_Cons)
qed simp

lemma run_str_part:
  assumes "0 \<le> a" "a \<le> b"
  shows "run_str [a .. b] = range_part_str ([], None, None, (nat a, nat b), None)"
proof (cases "a = b")
  case True
  then show ?thesis
    using assms by (simp add: run_str_def part_str_def slash_str_def dot_str_def span_str_def int_str_def)
next
  case False
  have "hd [a .. b] = a" using assms by (simp add: upto_rec1)
  moreover have "last [a .. b] = b" using assms(2) by (subst upto_rec2) simp_all
  moreover have "take (length [a .. b]) [a, b] = [a, b]" using assms False by simp
  moreover have "nat a \<noteq> nat b" using assms False by simp
  ultimately show ?thesis
    using assms by (simp add: run_str_def part_str_def slash_str_def dot_str_def span_str_def int_str_def del: length_upto)
qed

text \<open>
  C12. A range text of comma separated parts, each a prefix without digits, optional module and
  parent ranges followed by slashes, an interface range and an optional subinterface range, expands
  to the names in the order of the nested ranges; a part without a prefix takes the one before it,
  and a range that runs backwards makes the whole text a ValueError.
\<close>

theorem range_expand_text:
  assumes "ps \<noteq> []" and "list_all range_part_ok ps"
  shows "range_expand (RText (join '','' (map range_part_str ps))) = parts_value [] ps"
  using assms by (rule range_expand_parts)

theorem range_expand_text_witness:
  "range_expand (RText ''Eth1-2/3,5-6.7'')
     = Inr [''Eth1/3'', ''Eth2/3'', ''Eth5.7'', ''Eth6.7'']"
proof -
  let ?ps = "[(''Eth'', Some (1, 2), None, (3, 3), None), ([], None, None, (5, 6), Some (7, 7))] :: range_part list"
  have txt_eq: "join '','' (map range_part_str ?ps) = ''Eth1-2/3,5-6.7''" by code_simp
  have val: "parts_value [] ?ps = Inr [''Eth1/3'', ''Eth2/3'', ''Eth5.7'', ''Eth6.7'']" by code_simp
  have "list_all range_part_ok ?ps" by code_simp
  with range_expand_text [of ?ps] show ?thesis unfolding txt_eq val by simp
qed

text \<open>
  C13. Expanding a compressed list gives the sorted list back, duplicates included, for integers
  that are not negative.
\<close>

theorem list_compress_range_expand:
  assumes "\<forall>x \<in> set xs. 0 \<le> x"
  shows "\<exists>s. list_compress (map Some xs) = Inr s \<and>
    range_expand (RText s) = Inr (map (\<lambda>x. nat_str (nat x)) (sort xs))"
proof -
  let ?runs = "int_runs (sort xs)"
  let ?parts = "map (\<lambda>g. ([], None, None, (nat (hd g), nat (last g)), None) :: range_part) ?runs"
  have run: "\<exists>a b. 0 \<le> a \<and> a \<le> b \<and> g = [a .. b]" if g: "g \<in> set ?runs" for g
  proof -
    obtain a b where ab: "a \<le> b" "g = [a .. b]" using int_runs_run [OF g] by blast
    have "a \<in> set g" using ab by simp
    then have "a \<in> set (concat ?runs)" using g unfolding set_concat by blast
    then have "0 \<le> a" using assms by simp
    with ab show ?thesis by blast
  qed
  have ends: "hd [a .. b] = a" "last [a .. b] = b" if "a \<le> b" for a b :: int
    using that by (simp add: upto_rec1, subst upto_rec2, simp_all)
  have str: "map run_str ?runs = map range_part_str ?parts"
  proof (unfold map_map, rule map_cong [OF refl])
    fix g assume "g \<in> set ?runs"
    then obtain a b where "0 \<le> a" "a \<le> b" "g = [a .. b]" using run by blast
    then show "run_str g = (range_part_str \<circ> (\<lambda>g. ([], None, None, (nat (hd g), nat (last g)), None))) g"
      using ends run_str_part by simp
  qed
  have val: "parts_value [] (map (\<lambda>g. ([], None, None, (nat (hd g), nat (last g)), None)) rs)
      = Inr (concat (map (map (\<lambda>x. nat_str (nat x))) rs))"
    if "\<And>g. g \<in> set rs \<Longrightarrow> \<exists>a b. 0 \<le> a \<and> a \<le> b \<and> g = [a .. b]" for rs
    using that
  proof (induction rs)
    case (Cons g rs)
    obtain a b where g: "0 \<le> a" "a \<le> b" "g = [a .. b]" using Cons.prems by force
    have "map nat [a .. b] = [nat a ..< Suc (nat b)]"
      using map_nat_upto [OF g(1), of b] g by (simp add: nat_add_distrib)
    then have "map nat_str [nat a ..< Suc (nat b)] = map (\<lambda>x. nat_str (nat x)) g"
      using g by (metis (no_types) comp_apply list.map_comp map_eq_conv)
    then have "part_value [] None None (nat a, nat b) None = Inr (map (\<lambda>x. nat_str (nat x)) g)"
      using g by (simp add: part_value_def range_ok_def slashed_def numbers_def dotted_def comp_def
          nat_mono del: upt_Suc)
    with Cons g ends show ?case by simp
  qed simp
  have lc: "list_compress (map Some xs) = Inr (join '','' (map run_str ?runs))"
    by (simp add: list_compress_def list_all_iff comp_def)
  show ?thesis
  proof (cases "?runs = []")
    case True
    then have "sort xs = []" using int_runs_concat [of "sort xs"] by simp
    with True show ?thesis
      by (simp add: lc re_match_def range_regex_def rx_span_def)
  next
    case False
    have "range_expand (RText (join '','' (map range_part_str ?parts))) = parts_value [] ?parts"
      by (rule range_expand_parts) (use False in \<open>auto simp: list_all_iff prefix_ok_def\<close>)
    also have "\<dots> = Inr (map (\<lambda>x. nat_str (nat x)) (sort xs))"
      using val [of ?runs] run by (simp flip: map_concat)
    finally show ?thesis unfolding lc str by blast
  qed
qed

theorem list_compress_range_expand_witness:
  "\<exists>s. list_compress [Some 7, Some 1, Some 2, Some 3] = Inr s \<and>
     range_expand (RText s) = Inr (map (\<lambda>x. nat_str (nat x)) [1, 2, 3, 7])"
  using list_compress_range_expand [of "[7, 1, 2, 3]"] by simp

end
