(* ===== verification/IpPool.thy ===== *)
theory IpPool
  imports Regex
begin

text \<open>
  \<open>pyavd/_utils/get_ip_from_pool.py\<close>: IP pools written as prefixes and ranges, and the address at a
  subnet offset and a host offset of such a pool. The parts of Python's \<open>ipaddress\<close> module that
  are used come first: parsing and printing of IPv4 and IPv6 addresses, networks, and the summary
  of an address range. The lemmas show that a range is summarized without gap or overlap and that
  the address returned is the host of the n-th subnet of the pool.
\<close>

section \<open>Addresses\<close>

datatype ip_version = V4 | V6

fun ip_bits :: "ip_version \<Rightarrow> nat" where
  "ip_bits V4 = 32"
| "ip_bits V6 = 128"

definition parse_octet :: "string \<Rightarrow> nat option" where
  "parse_octet s =
     (if s \<noteq> [] \<and> list_all is_digit s \<and> length s \<le> 3 \<and> (s = ''0'' \<or> hd s \<noteq> CHR ''0'') \<and> nat_of_str s \<le> 255
      then Some (nat_of_str s) else None)"

definition parse_ipv4 :: "string \<Rightarrow> nat option" where
  "parse_ipv4 s =
     (case map parse_octet (split_on CHR ''.'' s) of
        [Some a, Some b, Some c, Some d] \<Rightarrow> Some (((a * 256 + b) * 256 + c) * 256 + d)
      | _ \<Rightarrow> None)"

definition hex_val :: "char \<Rightarrow> nat option" where
  "hex_val c =
     (let n = (of_char c :: nat) in
      if is_digit c then Some (n - 48)
      else if 97 \<le> n \<and> n \<le> 102 then Some (n - 87)
      else if 65 \<le> n \<and> n \<le> 70 then Some (n - 55)
      else None)"

definition parse_hextet :: "string \<Rightarrow> nat option" where
  "parse_hextet s =
     (if s \<noteq> [] \<and> length s \<le> 4
      then foldl (\<lambda>acc c. case (acc, hex_val c) of (Some a, Some v) \<Rightarrow> Some (16 * a + v) | _ \<Rightarrow> None) (Some 0) s
      else None)"

definition hextets_int :: "string list \<Rightarrow> nat option" where
  "hextets_int hs =
     foldl (\<lambda>acc h. case (acc, parse_hextet h) of (Some a, Some v) \<Rightarrow> Some (65536 * a + v) | _ \<Rightarrow> None) (Some 0) hs"

text \<open>An IPv6 text: the parts between colons; an empty part that is neither the first nor the last
  is the place of \<open>::\<close>, of which there may be one. Dotted quads are not among the texts the pool
  pattern lets through.\<close>

definition parse_ipv6 :: "string \<Rightarrow> nat option" where
  "parse_ipv6 s =
     (let parts = split_on CHR '':'' s; n = length parts;
          skips = filter (\<lambda>i. parts ! i = []) [1 ..< n - 1]
      in if n < 3 \<or> 9 < n then None
         else case skips of
           [] \<Rightarrow> (if n = 8 \<and> hd parts \<noteq> [] \<and> last parts \<noteq> [] then hextets_int parts else None)
         | [i] \<Rightarrow>
             (let hi = (if hd parts = [] then i - 1 else i);
                  lo = (if last parts = [] then n - i - 2 else n - i - 1)
              in if (hd parts = [] \<and> hi \<noteq> 0) \<or> (last parts = [] \<and> lo \<noteq> 0) \<or> 8 \<le> hi + lo then None
                 else (case (hextets_int (take hi parts), hextets_int (drop (n - lo) parts)) of
                         (Some a, Some b) \<Rightarrow> Some (a * 65536 ^ (8 - hi) + b)
                       | _ \<Rightarrow> None))
         | _ \<Rightarrow> None)"

text \<open>\<open>ipaddress.ip_address\<close>\<close>

definition ip_address :: "string \<Rightarrow> (ip_version \<times> nat) option" where
  "ip_address s =
     (case parse_ipv4 s of
        Some a \<Rightarrow> Some (V4, a)
      | None \<Rightarrow> map_option (Pair V6) (parse_ipv6 s))"

definition ipv4_str :: "nat \<Rightarrow> string" where
  "ipv4_str a =
     join ''.'' (map nat_str [a div 16777216 mod 256, a div 65536 mod 256, a div 256 mod 256, a mod 256])"

fun hex_str :: "nat \<Rightarrow> string" where
  "hex_str n = (if n < 16 then [hex_digit n] else hex_str (n div 16) @ [hex_digit (n mod 16)])"

declare hex_str.simps [simp del]

text \<open>The longest run of zero hextets, the first one of that length, as start and length.\<close>

definition zero_run :: "nat list \<Rightarrow> nat \<times> nat" where
  "zero_run hs =
     (let (_, _, best) = fold (\<lambda>(i, h) (start, len, best).
            if h = 0 then
              (let start' = (if len = 0 then i else start); len' = Suc len
               in (start', len', if snd best < len' then (start', len') else best))
            else (0, 0, best)) (zip [0 ..< length hs] hs) (0, 0, (0, 0))
      in best)"

definition ipv6_str :: "nat \<Rightarrow> string" where
  "ipv6_str a =
     (let hs = map (\<lambda>i. a div 65536 ^ (7 - i) mod 65536) [0 ..< 8];
          strs = map hex_str hs; (start, len) = zero_run hs; stop = start + len
      in join '':''
           (if 1 < len then
              (if start = 0 then [[]] else []) @ take start strs @ [[]] @ drop stop strs
                @ (if stop = 8 then [[]] else [])
            else strs))"

definition ip_str :: "ip_version \<times> nat \<Rightarrow> string" where
  "ip_str ip = (case ip of (V4, a) \<Rightarrow> ipv4_str a | (V6, a) \<Rightarrow> ipv6_str a)"

section \<open>Networks\<close>

record ip_net =
  version :: ip_version
  network_address :: nat
  prefixlen :: nat

definition num_addresses :: "ip_net \<Rightarrow> nat" where
  "num_addresses n = 2 ^ (ip_bits (version n) - prefixlen n)"

text \<open>\<open>ip_network(text, strict=False)\<close> for a text with one slash and digits after it: host bits are
  cleared.\<close>

definition ip_network :: "string \<Rightarrow> ip_net option" where
  "ip_network s =
     (let addr = takeWhile (\<lambda>c. c \<noteq> CHR ''/'') s; p = nat_of_str (tl (dropWhile (\<lambda>c. c \<noteq> CHR ''/'') s));
          net = (\<lambda>v a. \<lparr>version = v, network_address = a div 2 ^ (ip_bits v - p) * 2 ^ (ip_bits v - p), prefixlen = p\<rparr>)
      in case (parse_ipv4 addr, parse_ipv6 addr) of
           (Some a, _) \<Rightarrow> (if p \<le> 32 then Some (net V4 a) else None)
         | (None, Some a) \<Rightarrow> (if p \<le> 128 then Some (net V6 a) else None)
         | _ \<Rightarrow> None)"

text \<open>\<open>ip_network((address, prefixlen))\<close>: IPv4 is tried first, an address with host bits set raises.\<close>

definition ip_network_of_int :: "int \<Rightarrow> int \<Rightarrow> (py_exn, ip_net) result" where
  "ip_network_of_int a p =
     (let net = (\<lambda>v. if nat a mod 2 ^ (ip_bits v - nat p) = 0
                     then Inr \<lparr>version = v, network_address = nat a, prefixlen = nat p\<rparr> else Inl ValueError)
      in if 0 \<le> a \<and> a < 2 ^ 32 \<and> 0 \<le> p \<and> p \<le> 32 then net V4
         else if 0 \<le> a \<and> a < 2 ^ 128 \<and> 0 \<le> p \<and> p \<le> 128 then net V6
         else Inl ValueError)"

text \<open>\<open>network[n]\<close>: counted from the end for a negative index.\<close>

definition net_item :: "ip_net \<Rightarrow> int \<Rightarrow> (py_exn, ip_version \<times> nat) result" where
  "net_item net n =
     (let first = int (network_address net); bcast = first + int (num_addresses net) - 1;
          a = (if 0 \<le> n then first + n else bcast + n + 1)
      in if (0 \<le> n \<and> a > bcast) \<or> (n < 0 \<and> a < first) then Inl IndexError
         else Inr (version net, nat a))"

text \<open>\<open>summarize_address_range\<close>: the largest aligned block that fits, then the rest.\<close>

fun trailing_zeros :: "nat \<Rightarrow> nat" where
  "trailing_zeros n = (if n = 0 \<or> odd n then 0 else Suc (trailing_zeros (n div 2)))"

declare trailing_zeros.simps [simp del]

fun bit_length :: "nat \<Rightarrow> nat" where
  "bit_length n = (if n = 0 then 0 else Suc (bit_length (n div 2)))"

declare bit_length.simps [simp del]

definition righthand_zero_bits :: "nat \<Rightarrow> nat \<Rightarrow> nat" where
  "righthand_zero_bits n bits = (if n = 0 then bits else min bits (trailing_zeros n))"

function summarize :: "ip_version \<Rightarrow> nat \<Rightarrow> nat \<Rightarrow> ip_net list" where
  "summarize v first lst =
     (if lst < first then []
      else
        (let nbits = min (righthand_zero_bits first (ip_bits v)) (bit_length (lst - first + 1) - 1);
             next = first + 2 ^ nbits
         in \<lparr>version = v, network_address = first, prefixlen = ip_bits v - nbits\<rparr> #
            (if next - 1 = 2 ^ ip_bits v - 1 then [] else summarize v next lst)))"
  by pat_completeness auto
termination
proof (relation "measure (\<lambda>(v, first, lst). Suc lst - first)", goal_cases)
  case (2 v first lst nbits nxt)
  have "(1 :: nat) \<le> 2 ^ nbits" by simp
  then have "Suc lst - nxt < Suc lst - first" using 2 by linarith
  then show ?case by simp
qed simp

declare summarize.simps [simp del]

definition summarize_address_range ::
  "(ip_version \<times> nat) option \<Rightarrow> (ip_version \<times> nat) option \<Rightarrow> (py_exn, ip_net list) result" where
  "summarize_address_range a b =
     (case (a, b) of
        (Some (v, first), Some (w, lst)) \<Rightarrow>
          (if v \<noteq> w then Inl TypeError else if first > lst then Inl ValueError
           else Inr (summarize v first lst))
      | _ \<Rightarrow> Inl ValueError)"

section \<open>Pools\<close>

abbreviation is_hex :: "char \<Rightarrow> bool" where
  "is_hex c \<equiv> hex_val c \<noteq> None"

definition ipv4_rx :: rx where
  "ipv4_rx = RSeq (RRep (RSeq (RRep (RSet is_digit) 1 3) (RChr CHR ''.'')) 3 3) (RRep (RSet is_digit) 1 3)"

definition ipv6_rx :: rx where
  "ipv6_rx =
     RSeq (RRep (RSeq (RRep (RSet is_hex) 0 4) (RSeq (RChr CHR '':'') (ROpt (RChr CHR '':'')))) 0 7)
       (RSeq (RBehind (\<lambda>c. c = CHR '':'')) (ROpt (RRep (RSet is_hex) 1 4)))"

definition prefix_rx :: rx where
  "prefix_rx =
     RAlt (RSeq ipv4_rx (RSeq (RChr CHR ''/'') (RRep (RSet is_digit) 1 2)))
          (RSeq ipv6_rx (RSeq (RChr CHR ''/'') (RRep (RSet is_digit) 1 3)))"

definition range_rx :: rx where
  "range_rx =
     RAlt (RSeq ipv4_rx (RSeq (RChr CHR ''-'') ipv4_rx)) (RSeq ipv6_rx (RSeq (RChr CHR ''-'') ipv6_rx))"

definition pools_and_ranges_rx :: rx where
  "pools_and_ranges_rx =
     RSeq (RAlt (RGroup 1 prefix_rx) (RGroup 2 range_rx))
          (RAlt (RPlus (\<lambda>c. c = CHR '','' \<or> c = CHR '' '')) REnd)"

text \<open>The networks of one match; a text that is no valid prefix or range raises.\<close>

definition match_networks :: "(nat \<times> string) list \<Rightarrow> (py_exn, ip_net list) result" where
  "match_networks g =
     (case re_group g 1 of
        Some p \<Rightarrow> (case ip_network p of Some n \<Rightarrow> Inr [n] | None \<Rightarrow> Inl AristaAvdError)
      | None \<Rightarrow>
          (case re_group g 2 of
             Some r \<Rightarrow>
               (case map ip_address (split_on CHR ''-'' r) of
                  [a, b] \<Rightarrow>
                    (case summarize_address_range a b of Inr ns \<Rightarrow> Inr ns | Inl _ \<Rightarrow> Inl AristaAvdError)
                | _ \<Rightarrow> Inl AristaAvdError)
           | None \<Rightarrow> Inr []))"

text \<open>\<open>get_networks_from_pool\<close> is a generator: the networks up to the first error, and the error.\<close>

fun matches_networks :: "(nat \<times> string) list list \<Rightarrow> ip_net list \<times> py_exn option" where
  "matches_networks [] = ([], None)"
| "matches_networks (g # gs) =
     (case match_networks g of
        Inl e \<Rightarrow> ([], Some e)
      | Inr ns \<Rightarrow> (let (ms, e) = matches_networks gs in (ns @ ms, e)))"

definition get_networks_from_pool :: "string \<Rightarrow> ip_net list \<times> py_exn option" where
  "get_networks_from_pool pool =
     (case re_finditer pools_and_ranges_rx pool of
        [] \<Rightarrow> ([], Some AristaAvdError)
      | gs \<Rightarrow> matches_networks gs)"

text \<open>Only networks of one version; another one is a TypeError, raised again.\<close>

fun ensure_version :: "ip_version \<Rightarrow> ip_net list \<times> py_exn option \<Rightarrow> ip_net list \<times> py_exn option" where
  "ensure_version v ([], e) = ([], e)"
| "ensure_version v (n # ns, e) =
     (if version n = v then (let (ms, e') = ensure_version v (ns, e) in (n # ms, e'))
      else ([], Some AristaAvdError))"

definition get_ipv4_networks_from_pool :: "string \<Rightarrow> ip_net list \<times> py_exn option" where
  "get_ipv4_networks_from_pool pool = ensure_version V4 (get_networks_from_pool pool)"

definition get_ipv6_networks_from_pool :: "string \<Rightarrow> ip_net list \<times> py_exn option" where
  "get_ipv6_networks_from_pool pool = ensure_version V6 (get_networks_from_pool pool)"

text \<open>The loop over the networks: the subnet at the offset, with its size.\<close>

fun pick_subnet ::
  "int \<Rightarrow> int \<Rightarrow> ip_net list \<Rightarrow> py_exn option \<Rightarrow> (py_exn, ip_net \<times> int) result" where
  "pick_subnet plen remaining [] err =
     (case err of Some e \<Rightarrow> Inl e | None \<Rightarrow> Inl AristaAvdError)"
| "pick_subnet plen remaining (net # nets) err =
     (let diff = plen - int (prefixlen net) in
      if diff < 0 then Inl AristaAvdError
      else
        (let subnet_size = int (num_addresses net) div 2 ^ nat diff in
         if (remaining + 1) * subnet_size > int (num_addresses net)
         then pick_subnet plen (remaining - 2 ^ nat diff) nets err
         else rbind (ip_network_of_int (int (network_address net) + remaining * subnet_size) plen)
                (\<lambda>subnet. Inr (subnet, subnet_size))))"

definition ip_from_networks ::
  "ip_net list \<Rightarrow> py_exn option \<Rightarrow> int \<Rightarrow> int \<Rightarrow> int \<Rightarrow> (py_exn, ip_version \<times> nat) result" where
  "ip_from_networks nets err plen subnet_offset ip_offset =
     rbind (pick_subnet plen subnet_offset nets err) (\<lambda>(subnet, subnet_size).
       case (if subnet_size > 2 then
               (if ip_offset \<ge> subnet_size - 2 then Inl IndexError else net_item subnet (ip_offset + 1))
             else net_item subnet ip_offset) of
         Inr ip \<Rightarrow> Inr ip
       | Inl e \<Rightarrow> Inl (if e = IndexError then AristaAvdError else e))"

definition get_ip_from_pool :: "string \<Rightarrow> int \<Rightarrow> int \<Rightarrow> int \<Rightarrow> (py_exn, string) result" where
  "get_ip_from_pool pool plen subnet_offset ip_offset =
     (let (nets, err) = get_networks_from_pool pool in
      rbind (ip_from_networks nets err plen subnet_offset ip_offset) (\<lambda>ip. Inr (ip_str ip)))"

section \<open>Summarizing a range\<close>

lemma bit_length_bound: "0 < n \<Longrightarrow> 2 ^ (bit_length n - 1) \<le> n \<and> n < 2 ^ bit_length n"
proof (induction n rule: bit_length.induct)
  case (1 n)
  show ?case
  proof (cases "n div 2 = 0")
    case True
    then have "n = 1" using 1(2) by simp
    then show ?thesis by (simp add: bit_length.simps)
  next
    case False
    then have IH: "2 ^ (bit_length (n div 2) - 1) \<le> n div 2" "n div 2 < 2 ^ bit_length (n div 2)"
      using 1 by auto
    have pos: "0 < bit_length (n div 2)" using False by (subst bit_length.simps) simp
    have eq: "bit_length n = Suc (bit_length (n div 2))" using 1(2) by (subst bit_length.simps) simp
    have "(2 :: nat) ^ bit_length (n div 2) = 2 * 2 ^ (bit_length (n div 2) - 1)"
      using pos by (metis Suc_diff_1 power_Suc)
    moreover have "p \<le> n div 2 \<Longrightarrow> n div 2 < 2 * p \<Longrightarrow> 2 * p \<le> n \<and> n < 2 * (2 * p)" for p :: nat
      by presburger
    ultimately show ?thesis using IH unfolding eq by (simp del: mult_2)
  qed
qed

lemma trailing_zeros_dvd: "0 < n \<Longrightarrow> 2 ^ trailing_zeros n dvd n"
proof (induction n rule: trailing_zeros.induct)
  case (1 n)
  show ?case
  proof (cases "odd n")
    case True
    then show ?thesis by (subst trailing_zeros.simps) simp
  next
    case False
    then have "even n" by simp
    then obtain m where m: "n = 2 * m" by (elim evenE)
    then have "2 ^ trailing_zeros m dvd m" using 1 False by simp
    then show ?thesis using 1(2) m by (subst trailing_zeros.simps) (simp add: mult_dvd_mono)
  qed
qed

lemma righthand_zero_bits_dvd: "2 ^ righthand_zero_bits n b dvd n"
proof (cases "n = 0")
  case False
  have "(2 :: nat) ^ min b (trailing_zeros n) dvd 2 ^ trailing_zeros n"
    by (rule le_imp_power_dvd) simp
  also have "\<dots> dvd n" using False by (intro trailing_zeros_dvd) simp
  finally show ?thesis using False by (simp add: righthand_zero_bits_def)
qed (simp add: righthand_zero_bits_def)

text \<open>The addresses of a network, in order.\<close>

definition net_range :: "ip_net \<Rightarrow> nat list" where
  "net_range n = [network_address n ..< network_address n + num_addresses n]"

definition net_ok :: "ip_net \<Rightarrow> bool" where
  "net_ok n \<longleftrightarrow> prefixlen n \<le> ip_bits (version n) \<and> num_addresses n dvd network_address n
     \<and> network_address n + num_addresses n \<le> 2 ^ ip_bits (version n)"

lemma summarize_step:
  assumes "first \<le> lst" "lst < 2 ^ ip_bits v"
  defines "k \<equiv> min (righthand_zero_bits first (ip_bits v)) (bit_length (lst - first + 1) - 1)"
  shows "2 ^ k dvd first" "first + 2 ^ k \<le> Suc lst" "k \<le> ip_bits v"
proof -
  have "(2 :: nat) ^ k dvd 2 ^ righthand_zero_bits first (ip_bits v)"
    unfolding k_def by (rule le_imp_power_dvd) simp
  then show "2 ^ k dvd first" using righthand_zero_bits_dvd by (rule dvd_trans)
  have "(2 :: nat) ^ k \<le> 2 ^ (bit_length (lst - first + 1) - 1)"
    unfolding k_def by (rule power_increasing) simp_all
  also have "\<dots> \<le> lst - first + 1" using bit_length_bound [of "lst - first + 1"] by simp
  finally show "first + 2 ^ k \<le> Suc lst" using assms(1) by simp
  have "righthand_zero_bits first (ip_bits v) \<le> ip_bits v" by (simp add: righthand_zero_bits_def)
  then show "k \<le> ip_bits v" unfolding k_def by simp
qed

lemma summarize_covers:
  "first \<le> lst \<Longrightarrow> lst < 2 ^ ip_bits v \<Longrightarrow>
     concat (map net_range (summarize v first lst)) = [first ..< Suc lst]
     \<and> (\<forall>n \<in> set (summarize v first lst). version n = v \<and> net_ok n)"
proof (induction v first lst rule: summarize.induct)
  case (1 v first lst)
  let ?k = "min (righthand_zero_bits first (ip_bits v)) (bit_length (lst - first + 1) - 1)"
  let ?net = "\<lparr>version = v, network_address = first, prefixlen = ip_bits v - ?k\<rparr>"
  let ?next = "first + 2 ^ ?k"
  note step = summarize_step [OF 1(2,3)]
  have num: "num_addresses ?net = 2 ^ ?k" using step(3) by (simp add: num_addresses_def)
  have range: "net_range ?net = [first ..< ?next]" unfolding net_range_def num by simp
  have ok: "net_ok ?net"
    unfolding net_ok_def num using step 1(3) by simp
  have unfold: "summarize v first lst = ?net # (if ?next - 1 = 2 ^ ip_bits v - 1 then [] else summarize v ?next lst)"
    using 1(2) by (subst summarize.simps) (simp add: Let_def)
  show ?case
  proof (cases "?next \<le> lst")
    case True
    have "x \<le> l \<Longrightarrow> l < M \<Longrightarrow> 0 < x \<Longrightarrow> x - 1 \<noteq> M - 1" for x l M :: nat by arith
    from this [OF True 1(3)] have more: "?next - 1 \<noteq> 2 ^ ip_bits v - 1" by simp
    have "\<not> lst < first" using 1(2) by simp
    then have IH: "concat (map net_range (summarize v ?next lst)) = [?next ..< Suc lst]"
        "\<forall>n \<in> set (summarize v ?next lst). version n = v \<and> net_ok n"
      using 1(1) [OF _ refl refl more True 1(3)] by auto
    have "[first ..< ?next] @ [?next ..< Suc lst] = [first ..< Suc lst]"
      using upt_add_eq_append [of first ?next "Suc lst - ?next"] step(2) by simp
    then show ?thesis using more IH range ok unfold by simp
  next
    case False
    then have "?next = Suc lst" using step(2) by simp
    then have "summarize v ?next lst = []" by (subst summarize.simps) simp
    then show ?thesis using range ok unfold \<open>?next = Suc lst\<close> by simp
  qed
qed



section \<open>The subnets of a pool\<close>

text \<open>The subnets of a given length of a network, and of a pool: one network after the other.\<close>

definition net_subnets :: "nat \<Rightarrow> ip_net \<Rightarrow> (ip_version \<times> nat) list" where
  "net_subnets p n =
     map (\<lambda>i. (version n, network_address n + i * 2 ^ (ip_bits (version n) - p))) [0 ..< 2 ^ (p - prefixlen n)]"

definition pool_subnets :: "nat \<Rightarrow> ip_net list \<Rightarrow> (ip_version \<times> nat) list" where
  "pool_subnets p nets = concat (map (net_subnets p) nets)"

text \<open>The networks that can be cut into subnets of the length; an IPv6 network whose address would
  also be one of IPv4 is left out, as \<open>ip_network\<close> on a number tries IPv4 first.\<close>

definition divisible :: "nat \<Rightarrow> ip_net \<Rightarrow> bool" where
  "divisible p n \<longleftrightarrow> net_ok n \<and> prefixlen n \<le> p \<and> p \<le> ip_bits (version n)
     \<and> (version n = V4 \<or> 32 < p \<or> 2 ^ 32 \<le> network_address n)"

lemma net_subnets_length [simp]: "length (net_subnets p n) = 2 ^ (p - prefixlen n)"
  by (simp add: net_subnets_def)

lemma net_subnets_nth:
  "i < 2 ^ (p - prefixlen n) \<Longrightarrow>
     net_subnets p n ! i = (version n, network_address n + i * 2 ^ (ip_bits (version n) - p))"
  by (simp add: net_subnets_def)

lemma num_addresses_split:
  assumes "divisible p n"
  shows "num_addresses n = 2 ^ (p - prefixlen n) * 2 ^ (ip_bits (version n) - p)"
proof -
  have "ip_bits (version n) - prefixlen n = (p - prefixlen n) + (ip_bits (version n) - p)"
    using assms by (simp add: divisible_def)
  then show ?thesis by (simp add: num_addresses_def power_add)
qed

lemma subnet_bounds:
  assumes "divisible p n" "i < 2 ^ (p - prefixlen n)"
  defines "a \<equiv> network_address n + i * 2 ^ (ip_bits (version n) - p)"
  shows "a mod 2 ^ (ip_bits (version n) - p) = 0" "a + 2 ^ (ip_bits (version n) - p) \<le> 2 ^ ip_bits (version n)"
    and "network_address n \<le> a" "a + 2 ^ (ip_bits (version n) - p) \<le> network_address n + num_addresses n"
proof -
  let ?s = "2 ^ (ip_bits (version n) - p) :: nat"
  have "?s dvd num_addresses n" using num_addresses_split [OF assms(1)] by simp
  then have "?s dvd network_address n" using assms(1) by (auto simp: divisible_def net_ok_def intro: dvd_trans)
  then show "a mod ?s = 0" by (simp add: a_def)
  have "Suc i * ?s \<le> 2 ^ (p - prefixlen n) * ?s" using assms(2) by (intro mult_le_mono1) simp
  then have *: "i * ?s + ?s \<le> num_addresses n" using num_addresses_split [OF assms(1)] by simp
  then show "a + ?s \<le> network_address n + num_addresses n" by (simp add: a_def)
  with assms(1) show "a + ?s \<le> 2 ^ ip_bits (version n)" by (simp add: divisible_def net_ok_def)
  show "network_address n \<le> a" by (simp add: a_def)
qed

lemma ip_network_of_subnet:
  assumes "divisible p n" "i < 2 ^ (p - prefixlen n)"
  defines "a \<equiv> network_address n + i * 2 ^ (ip_bits (version n) - p)"
  shows "ip_network_of_int (int a) (int p) = Inr \<lparr>version = version n, network_address = a, prefixlen = p\<rparr>"
proof -
  note b = subnet_bounds [OF assms(1,2), folded a_def]
  have "0 < (2 :: nat) ^ (ip_bits (version n) - p)" by simp
  then have lt: "a < 2 ^ ip_bits (version n)" using b(2) by linarith
  show ?thesis
  proof (cases "version n")
    case V4
    have "p \<le> 32" using assms(1) V4 by (simp add: divisible_def)
    moreover have "int a < 2 ^ 32" using lt V4 by simp
    ultimately show ?thesis using b(1) V4 by (simp add: ip_network_of_int_def)
  next
    case V6
    have p: "p \<le> 128" using assms(1) V6 by (simp add: divisible_def)
    have "32 < p \<or> 2 ^ 32 \<le> a" using assms(1) V6 b(3) by (auto simp: divisible_def)
    moreover have "int a < 2 ^ 128" using lt V6 by simp
    ultimately show ?thesis using b(1) V6 p by (auto simp: ip_network_of_int_def)
  qed
qed

lemma pick_subnet_nth:
  assumes "list_all (divisible p) nets"
  shows "pick_subnet (int p) (int off) nets err =
    (if off < length (pool_subnets p nets)
     then (case pool_subnets p nets ! off of (v, a) \<Rightarrow>
             Inr (\<lparr>version = v, network_address = a, prefixlen = p\<rparr>, 2 ^ (ip_bits v - p)))
     else (case err of Some e \<Rightarrow> Inl e | None \<Rightarrow> Inl AristaAvdError))"
  using assms
proof (induction nets arbitrary: off)
  case Nil
  then show ?case by (simp add: pool_subnets_def)
next
  case (Cons n nets)
  have d: "divisible p n" using Cons.prems by simp
  let ?c = "2 ^ (p - prefixlen n) :: nat" and ?s = "2 ^ (ip_bits (version n) - p) :: nat"
  have diff: "nat (int p - int (prefixlen n)) = p - prefixlen n" "\<not> int p - int (prefixlen n) < 0"
    using d by (auto simp: divisible_def)
  have num: "num_addresses n = ?c * ?s" by (rule num_addresses_split [OF d])
  have size: "int (num_addresses n) div 2 ^ (p - prefixlen n) = int ?s" by (simp add: num)
  have full: "(int off + 1) * int ?s > int (num_addresses n) \<longleftrightarrow> ?c \<le> off"
  proof -
    have "(int off + 1) * int ?s > int (num_addresses n) \<longleftrightarrow> ?c * ?s < Suc off * ?s"
      unfolding num by (metis of_nat_Suc of_nat_less_iff of_nat_mult add.commute)
    also have "\<dots> \<longleftrightarrow> ?c < Suc off" by (rule mult_less_cancel2 [THEN trans]) simp
    finally show ?thesis by (simp add: less_Suc_eq_le)
  qed
  have app: "pool_subnets p (n # nets) = net_subnets p n @ pool_subnets p nets"
    by (simp add: pool_subnets_def)
  show ?case
  proof (cases "?c \<le> off")
    case True
    have "pick_subnet (int p) (int off) (n # nets) err = pick_subnet (int p) (int (off - ?c)) nets err"
      using diff size full True by (simp add: Let_def of_nat_diff)
    with Cons.IH [of "off - ?c"] Cons.prems True show ?thesis
      unfolding app by (auto simp: nth_append)
  next
    case False
    have "pick_subnet (int p) (int off) (n # nets) err
        = rbind (ip_network_of_int (int (network_address n + off * ?s)) (int p)) (\<lambda>sub. Inr (sub, int ?s))"
      using diff size full False by (simp add: Let_def)
    then show ?thesis
      using False ip_network_of_subnet [OF d, of off] net_subnets_nth [of off p n]
      unfolding app by (simp add: nth_append)
  qed
qed

text \<open>The hosts of a subnet: network and broadcast address are left out where there are more than
  two addresses.\<close>

definition host_count :: "nat \<Rightarrow> nat" where
  "host_count sz = (if 2 < sz then sz - 2 else sz)"

definition first_host :: "nat \<Rightarrow> nat" where
  "first_host sz = (if 2 < sz then 1 else 0)"

lemma ip_from_networks_nth_core:
  assumes "list_all (divisible p) nets"
  shows "ip_from_networks nets err (int p) (int off) (int h) =
    (if off < length (pool_subnets p nets)
     then (case pool_subnets p nets ! off of (v, a) \<Rightarrow>
             let sz = 2 ^ (ip_bits v - p)
             in if h < host_count sz then Inr (v, a + first_host sz + h) else Inl AristaAvdError)
     else (case err of Some e \<Rightarrow> Inl e | None \<Rightarrow> Inl AristaAvdError))"
proof (cases "off < length (pool_subnets p nets)")
  case True
  obtain v a where va: "pool_subnets p nets ! off = (v, a)" by (cases "pool_subnets p nets ! off")
  let ?s = "2 ^ (ip_bits v - p) :: nat"
  let ?n = "\<lparr>version = v, network_address = a, prefixlen = p\<rparr>"
  have pick: "pick_subnet (int p) (int off) nets err = Inr (?n, int ?s)"
    using pick_subnet_nth [OF assms] True va by simp
  have num: "num_addresses ?n = ?s" by (simp add: num_addresses_def)
  have item: "net_item ?n (int k) = (if k < ?s then Inr (v, a + k) else Inl IndexError)" for k
  proof -
    have "int ?s - 1 < int k \<longleftrightarrow> \<not> k < ?s" by linarith
    then show ?thesis by (simp add: net_item_def num Let_def nat_add_distrib)
  qed
  have big: "int ?s > 2 \<longleftrightarrow> 2 < ?s" by (metis of_nat_less_iff of_nat_numeral)
  have edge: "2 < ?s \<Longrightarrow> int h \<ge> int ?s - 2 \<longleftrightarrow> ?s - 2 \<le> h" by linarith
  have item1: "net_item ?n (int h + 1) = (if h + 1 < ?s then Inr (v, a + (h + 1)) else Inl IndexError)"
    using item [of "h + 1"] by (simp add: add.commute)
  show ?thesis
  proof (cases "2 < ?s")
    case big': True
    then have "h < ?s - 2 \<Longrightarrow> h + 1 < ?s" by linarith
    then show ?thesis
      unfolding ip_from_networks_def pick
      using True va big big' edge [OF big'] item1
      by (simp add: host_count_def first_host_def Let_def not_le)
  next
    case small: False
    then show ?thesis
      unfolding ip_from_networks_def pick
      using True va big item [of h]
      by (simp add: host_count_def first_host_def Let_def)
  qed
next
  case False
  then show ?thesis
    using pick_subnet_nth [OF assms] by (simp add: ip_from_networks_def split: option.splits)
qed

text \<open>
  C9. The address returned is the host at the host offset of the subnet at the subnet offset, where
  the subnets of the pool are counted through all its networks in order; an offset behind the last
  subnet raises the error of the pool text, if there is one, or AristaAvdError, and a host offset
  outside of the subnet raises AristaAvdError.
\<close>

theorem ip_from_networks_nth:
  assumes "list_all (divisible p) nets"
  shows "ip_from_networks nets err (int p) (int off) (int h) =
    (if off < length (pool_subnets p nets)
     then (case pool_subnets p nets ! off of (v, a) \<Rightarrow>
             let sz = 2 ^ (ip_bits v - p)
             in if h < host_count sz then Inr (v, a + first_host sz + h) else Inl AristaAvdError)
     else (case err of Some e \<Rightarrow> Inl e | None \<Rightarrow> Inl AristaAvdError))"
  using assms by (rule ip_from_networks_nth_core)

theorem ip_from_networks_nth_witness:
  "ip_from_networks [\<lparr>version = V4, network_address = 167772160, prefixlen = 24\<rparr>] None (int 31) (int 3) (int 1)
     = Inr (V4, 167772167)"
  using ip_from_networks_nth
    [of 31 "[\<lparr>version = V4, network_address = 167772160, prefixlen = 24\<rparr>]" None 3 1]
  by (simp add: divisible_def net_ok_def num_addresses_def pool_subnets_def net_subnets_def Let_def
      host_count_def first_host_def)

section \<open>No address twice\<close>

definition tagged_range :: "ip_net \<Rightarrow> (ip_version \<times> nat) list" where
  "tagged_range n = map (Pair (version n)) (net_range n)"

definition block :: "nat \<Rightarrow> ip_version \<times> nat \<Rightarrow> (ip_version \<times> nat) list" where
  "block p s = (case s of (v, a) \<Rightarrow> map (Pair v) [a ..< a + 2 ^ (ip_bits v - p)])"

lemma concat_blocks: "concat (map (\<lambda>i. [b + i * s ..< b + i * s + s]) [0 ..< c]) = [b ..< b + c * (s :: nat)]"
proof (induction c)
  case (Suc c)
  have "[b ..< b + c * s] @ [b + c * s ..< b + c * s + s] = [b ..< b + c * s + s]"
    using upt_add_eq_append [of b "b + c * s" s] by simp
  with Suc show ?case by (simp add: ac_simps)
qed simp

lemma concat_subnet_blocks:
  assumes "divisible p n"
  shows "concat (map (block p) (net_subnets p n)) = tagged_range n"
proof -
  let ?s = "2 ^ (ip_bits (version n) - p) :: nat" and ?b = "network_address n"
  have "map (block p) (net_subnets p n)
      = map (\<lambda>i. map (Pair (version n)) [?b + i * ?s ..< ?b + i * ?s + ?s]) [0 ..< 2 ^ (p - prefixlen n)]"
    by (simp add: net_subnets_def block_def)
  then have "concat (map (block p) (net_subnets p n))
      = map (Pair (version n)) (concat (map (\<lambda>i. [?b + i * ?s ..< ?b + i * ?s + ?s]) [0 ..< 2 ^ (p - prefixlen n)]))"
    by (simp add: map_concat comp_def)
  then show ?thesis
    unfolding concat_blocks by (simp add: tagged_range_def net_range_def num_addresses_split [OF assms])
qed

lemma concat_pool_blocks:
  "list_all (divisible p) nets \<Longrightarrow>
     concat (map (block p) (pool_subnets p nets)) = concat (map tagged_range nets)"
  by (induction nets) (simp_all add: pool_subnets_def concat_subnet_blocks)

lemma distinct_concat_index:
  "distinct (concat xss) \<Longrightarrow> i < length xss \<Longrightarrow> j < length xss \<Longrightarrow> x \<in> set (xss ! i) \<Longrightarrow> x \<in> set (xss ! j) \<Longrightarrow> i = j"
proof (induction xss arbitrary: i j)
  case (Cons xs xss)
  have apart: "x \<in> set xs \<Longrightarrow> k < length xss \<Longrightarrow> x \<in> set (xss ! k) \<Longrightarrow> False" for k
    using Cons.prems(1) by (auto dest: nth_mem)
  show ?case
    using Cons apart by (cases i; cases j) auto
qed simp

lemma ip_from_networks_block:
  assumes "list_all (divisible p) nets" "ip_from_networks nets err (int p) (int off) (int h) = Inr x"
  shows "off < length (pool_subnets p nets) \<and> x \<in> set (block p (pool_subnets p nets ! off)) \<and>
    (\<exists>v a. pool_subnets p nets ! off = (v, a) \<and> x = (v, a + first_host (2 ^ (ip_bits v - p)) + h))"
proof -
  have "off < length (pool_subnets p nets)"
    using assms ip_from_networks_nth_core [OF assms(1), of err off h] by (auto split: if_splits option.splits)
  moreover obtain v a where va: "pool_subnets p nets ! off = (v, a)" by (cases "pool_subnets p nets ! off")
  ultimately have "h < host_count (2 ^ (ip_bits v - p))" "x = (v, a + first_host (2 ^ (ip_bits v - p)) + h)"
    using assms ip_from_networks_nth_core [OF assms(1), of err off h]
    by (auto simp: Let_def split: if_splits)
  then show ?thesis
    using va \<open>off < length (pool_subnets p nets)\<close>
    by (auto simp: block_def host_count_def first_host_def split: if_splits)
qed

lemma ip_from_networks_inj_core:
  assumes "list_all (divisible p) nets" and "distinct (concat (map tagged_range nets))"
    and "ip_from_networks nets err (int p) (int off) (int h) = Inr x"
  shows "x \<in> set (concat (map tagged_range nets)) \<and>
    (ip_from_networks nets err' (int p) (int off') (int h') = Inr x \<longleftrightarrow> off' = off \<and> h' = h)"
proof -
  let ?blocks = "map (block p) (pool_subnets p nets)"
  note b = ip_from_networks_block [OF assms(1)]
  have dist: "distinct (concat ?blocks)" using assms(1,2) by (simp add: concat_pool_blocks)
  have same: "off' = off \<and> h' = h" if "ip_from_networks nets err' (int p) (int off') (int h') = Inr x"
  proof -
    have "off' = off"
      using distinct_concat_index [OF dist, of off' off x] b [OF assms(3)] b [OF that] by simp
    then show ?thesis using b [OF assms(3)] b [OF that] by auto
  qed
  have "x \<in> set (concat ?blocks)" using b [OF assms(3)] nth_mem by fastforce
  moreover have "ip_from_networks nets err' (int p) (int off) (int h) = Inr x"
    using assms(3) ip_from_networks_nth_core [OF assms(1), of err off h]
      ip_from_networks_nth_core [OF assms(1), of err' off h] b [OF assms(3)] by auto
  ultimately show ?thesis using same assms(1) by (auto simp: concat_pool_blocks)
qed

text \<open>
  Over a pool whose networks do not overlap, no address is handed out for two different pairs
  of subnet offset and host offset, and every address handed out lies in a network of the pool.
\<close>

theorem ip_from_networks_inj:
  assumes "list_all (divisible p) nets" and "distinct (concat (map tagged_range nets))"
    and "ip_from_networks nets err (int p) (int off) (int h) = Inr x"
  shows "x \<in> set (concat (map tagged_range nets)) \<and>
    (ip_from_networks nets err' (int p) (int off') (int h') = Inr x \<longleftrightarrow> off' = off \<and> h' = h)"
  using assms by (rule ip_from_networks_inj_core)

theorem ip_from_networks_inj_witness:
  "ip_from_networks [\<lparr>version = V4, network_address = 0, prefixlen = 30\<rparr>] None (int 31) (int 0) (int 1) = Inr (V4, 1)
     \<and> ip_from_networks [\<lparr>version = V4, network_address = 0, prefixlen = 30\<rparr>] None (int 31) (int 1) (int 1) \<noteq> Inr (V4, 1)"
proof -
  let ?n = "\<lparr>version = V4, network_address = 0, prefixlen = 30\<rparr>"
  have r: "ip_from_networks [?n] None (int 31) (int 0) (int 1) = Inr (V4, 1)"
    by (simp add: ip_from_networks_def num_addresses_def ip_network_of_int_def net_item_def)
  have "list_all (divisible 31) [?n]" by (simp add: divisible_def net_ok_def num_addresses_def)
  moreover have "distinct (concat (map tagged_range [?n]))"
    by (simp add: tagged_range_def net_range_def distinct_map inj_on_def)
  ultimately show ?thesis using ip_from_networks_inj [of 31 "[?n]", OF _ _ r, of None 1 1] r by simp
qed

section \<open>Addresses as texts\<close>

text \<open>Printed IPv4 addresses determine the address.\<close>

lemma nat_str_no_dot: "CHR ''.'' \<notin> set (nat_str n)"
  using nat_str_digits [of n] by (auto simp: list_all_iff is_digit_def)

lemma ipv4_str_inj:
  assumes "ipv4_str a = ipv4_str b" "a < 4294967296" "b < 4294967296"
  shows "a = b"
proof -
  let ?q = "\<lambda>a :: nat. [a div 16777216 mod 256, a div 65536 mod 256, a div 256 mod 256, a mod 256]"
  have split: "split_on CHR ''.'' (ipv4_str x) = map nat_str (?q x)" for x
    unfolding ipv4_str_def by (rule split_on_join) (auto simp: nat_str_no_dot)
  have "inj nat_str" by (simp add: inj_def)
  moreover have "map nat_str (?q a) = map nat_str (?q b)" using split assms(1) by metis
  ultimately have q: "?q a = ?q b" by (metis inj_map_eq_map)
  have val: "x = ((x div 16777216 mod 256 * 256 + x div 65536 mod 256) * 256 + x div 256 mod 256) * 256 + x mod 256"
    if "x < 4294967296" for x :: nat
  proof -
    have d: "x div 65536 = x div 256 div 256" "x div 16777216 = x div 256 div 256 div 256"
      by (simp_all add: div_mult2_eq [symmetric])
    have "x div 16777216 < 256" using that by (intro less_mult_imp_div_less) simp
    then have "x div 256 div 256 div 256 mod 256 = x div 256 div 256 div 256" unfolding d by simp
    then show ?thesis unfolding d by (simp only: div_mult_mod_eq)
  qed
  from q have "a div 16777216 mod 256 = b div 16777216 mod 256" "a div 65536 mod 256 = b div 65536 mod 256"
    "a div 256 mod 256 = b div 256 mod 256" "a mod 256 = b mod 256"
    by (simp_all only: list.inject)
  then have "a = ((b div 16777216 mod 256 * 256 + b div 65536 mod 256) * 256 + b div 256 mod 256) * 256 + b mod 256"
    using val [OF assms(2)] by (simp only:)
  then show ?thesis by (simp only: val [OF assms(3), symmetric])
qed

text \<open>
  The contract the addressing methods rely on: over a good pool no text is handed out for two
  different pairs of subnet offset and host offset.
\<close>

locale host_pool =
  fixes give :: "string \<Rightarrow> int \<Rightarrow> int \<Rightarrow> int \<Rightarrow> (py_exn, string) result"
    and good :: "string \<Rightarrow> int \<Rightarrow> bool"
  assumes give_inj: "good pool p \<Longrightarrow> 0 \<le> off \<Longrightarrow> 0 \<le> off' \<Longrightarrow> 0 \<le> h \<Longrightarrow> 0 \<le> h' \<Longrightarrow>
    give pool p off h = Inr s \<Longrightarrow> give pool p off' h' = Inr s \<Longrightarrow> off = off' \<and> h = h'"
begin

lemma hosts_differ:
  "good pool p \<Longrightarrow> 0 \<le> off \<Longrightarrow> give pool p off 0 = Inr s \<Longrightarrow> give pool p off 1 = Inr t \<Longrightarrow> s \<noteq> t"
  using give_inj [of pool p off off 0 1 s] by auto

end

text \<open>A pool text of IPv4 networks that do not overlap and that the prefix length divides.\<close>

definition good_ipv4_pool :: "string \<Rightarrow> int \<Rightarrow> bool" where
  "good_ipv4_pool pool plen =
     (let (nets, err) = get_networks_from_pool pool
      in 0 \<le> plen \<and> list_all (divisible (nat plen)) nets \<and> list_all (\<lambda>n. version n = V4) nets \<and>
         distinct (concat (map tagged_range nets)))"

lemma ip_from_networks_v4:
  assumes "list_all (divisible p) nets" "list_all (\<lambda>n. version n = V4) nets"
    "x \<in> set (concat (map tagged_range nets))"
  shows "\<exists>a < 4294967296. x = (V4, a)"
  using assms by (fastforce simp: list_all_iff tagged_range_def net_range_def divisible_def net_ok_def)

lemma get_ip_from_pool_inj:
  assumes "good_ipv4_pool pool plen" "0 \<le> off" "0 \<le> off'" "0 \<le> h" "0 \<le> h'"
    "get_ip_from_pool pool plen off h = Inr s" "get_ip_from_pool pool plen off' h' = Inr s"
  shows "off = off' \<and> h = h'"
proof -
  obtain nets err where g: "get_networks_from_pool pool = (nets, err)" by (cases "get_networks_from_pool pool")
  define p where "p = nat plen"
  have good: "plen = int p" "list_all (divisible p) nets" "list_all (\<lambda>n. version n = V4) nets"
      "distinct (concat (map tagged_range nets))"
    using assms(1) by (simp_all add: good_ipv4_pool_def g p_def)
  obtain x y where x: "ip_from_networks nets err (int p) (int (nat off)) (int (nat h)) = Inr x" "s = ip_str x"
    and y: "ip_from_networks nets err (int p) (int (nat off')) (int (nat h')) = Inr y" "s = ip_str y"
    using assms(2-7) by (auto simp: get_ip_from_pool_def g good(1))
  note core = ip_from_networks_inj_core [OF good(2,4)]
  from core [OF x(1)] core [OF y(1)] ip_from_networks_v4 [OF good(2,3)]
  obtain a b where ab: "x = (V4, a)" "a < 4294967296" "y = (V4, b)" "b < 4294967296" by meson
  with x y have "x = y" using ipv4_str_inj [of a b] by (simp add: ip_str_def)
  then have "nat off' = nat off \<and> nat h' = nat h" using core [OF x(1)] y(1) by blast
  then show ?thesis using assms(2-5) by linarith
qed

interpretation ipv4_hosts: host_pool get_ip_from_pool good_ipv4_pool
  by unfold_locales (rule get_ip_from_pool_inj; assumption)+

end
