(* ===== verification/IpAddressing.thy ===== *)
theory IpAddressing
  imports PyData RangeExpand IpPool
begin

text \<open>
  \<open>pyavd/api/ip_addressing\<close>: the addresses of a device, computed from its id, its pools and the
  fabric settings. The record \<open>ip_ctx\<close> holds what the methods read of \<open>shared_utils\<close>, \<open>inputs\<close>
  and the node type; a pool that may be missing raises when it is read, so it is a result. A
  Jinja2 template that replaces a method is rendered by a parameter. The lemmas show that the two
  ends of an uplink or of an MLAG pair get different hosts of one subnet, and that no two uplinks
  of a fabric share an address.
\<close>

section \<open>What the methods read\<close>

record downlink_pool =
  dl_ipv4_pool :: "string option"
  dl_ipv6_pool :: "string option"
  dl_downlink_interfaces :: range_arg

record ip_ctx =
  sw_id :: "int option"
  mlag_switch_ids :: "(int option \<times> int option) option"
  mlag_algorithm :: string
  mlag_ipv4_prefix_length :: int
  mlag_ipv6_prefix_length :: int
  p2p_ipv4_prefix_length :: int
  p2p_ipv6_prefix_length :: int
  loopback_ipv6_prefix_length :: int
  wan_ha_ipv4_prefix_length :: int
  mlag_peer_address_family :: string
  mlag_peer_ipv4_pool :: "(py_exn, string) result"
  mlag_peer_ipv6_pool :: "(py_exn, string) result"
  mlag_peer_l3_ipv4_pool :: "(py_exn, string) result"
  mlag_peer_l3_ipv6_pool :: "(py_exn, string) result"
  uplink_ipv4_pool :: "string option"
  uplink_ipv6_pool :: "string option"
  max_uplink_switches :: int
  max_parallel_uplinks :: int
  uplink_switches :: "string list"
  uplink_switch_interfaces :: "string list"
  peer_facts :: "(string, downlink_pool list) dict"
  loopback_ipv4_address :: "string option"
  loopback_ipv4_pool :: "(py_exn, string) result"
  loopback_ipv6_pool :: "(py_exn, string) result"
  router_id_pool :: "(py_exn, string) result"
  loopback_ipv4_offset :: int
  loopback_ipv6_offset :: int
  underlay_ipv6_numbered :: bool
  vtep_loopback_ipv4_address :: "string option"
  vtep_loopback_ipv6_address :: "string option"
  vtep_loopback_ipv4_pool :: "(py_exn, string) result"
  vtep_loopback_ipv6_pool :: "(py_exn, string) result"
  wan_ha_ipv4_pool :: "(py_exn, string) result"
  is_first_ha_peer :: bool
  templates :: "string \<Rightarrow> string option"
  render_template :: "string \<Rightarrow> (string \<times> pv) list \<Rightarrow> (py_exn, string) result"

text \<open>A value that is None or the empty text is false.\<close>

fun truthy :: "string option \<Rightarrow> string option" where
  "truthy (Some (c # s)) = Some (c # s)"
| "truthy _ = None"

text \<open>\<open>if template_path := ...: return self._template(template_path, **kwargs)\<close>, else the built-in
  logic. The keyword arguments are only evaluated for a template.\<close>

definition templated ::
  "ip_ctx \<Rightarrow> string \<Rightarrow> (py_exn, (string \<times> pv) list) result \<Rightarrow> (py_exn, string) result
     \<Rightarrow> (py_exn, string) result" where
  "templated ctx name kwargs builtin =
     (case truthy (templates ctx name) of
        Some path \<Rightarrow> rbind kwargs (render_template ctx path)
      | None \<Rightarrow> builtin)"

section \<open>UtilsMixin\<close>

definition required :: "'a option \<Rightarrow> (py_exn, 'a) result" where
  "required v = (case v of None \<Rightarrow> Inl AristaAvdInvalidInputsError | Some x \<Rightarrow> Inr x)"

definition mlag_primary_id :: "ip_ctx \<Rightarrow> (py_exn, int) result" where
  "mlag_primary_id ctx = required (Option.bind (mlag_switch_ids ctx) fst)"

definition mlag_secondary_id :: "ip_ctx \<Rightarrow> (py_exn, int) result" where
  "mlag_secondary_id ctx = required (Option.bind (mlag_switch_ids ctx) snd)"

definition uplink_ipv4_pool_required :: "ip_ctx \<Rightarrow> (py_exn, string) result" where
  "uplink_ipv4_pool_required ctx = required (uplink_ipv4_pool ctx)"

definition uplink_ipv6_pool_required :: "ip_ctx \<Rightarrow> (py_exn, string) result" where
  "uplink_ipv6_pool_required ctx = required (uplink_ipv6_pool ctx)"

definition sw_id_required :: "ip_ctx \<Rightarrow> (py_exn, int) result" where
  "sw_id_required ctx = required (sw_id ctx)"

definition mlag_odd_id_based_offset :: "ip_ctx \<Rightarrow> (py_exn, int) result" where
  "mlag_odd_id_based_offset ctx =
     rbind (mlag_primary_id ctx) (\<lambda>p. rbind (mlag_secondary_id ctx) (\<lambda>s.
       if p mod 2 = s mod 2 then Inl AristaAvdError
       else Inr (((if p mod 2 = 0 then s else p) - 1) div 2)))"

text \<open>The index of the first equal element.\<close>

fun index_of :: "string \<Rightarrow> string list \<Rightarrow> nat option" where
  "index_of x [] = None"
| "index_of x (y # ys) = (if x = y then Some 0 else map_option Suc (index_of x ys))"

fun search_downlink_pools ::
  "(downlink_pool \<Rightarrow> string option) \<Rightarrow> string \<Rightarrow> downlink_pool list \<Rightarrow> (py_exn, string \<times> int) result" where
  "search_downlink_pools sel interface [] = Inl AristaAvdError"
| "search_downlink_pools sel interface (p # ps) =
     (case truthy (sel p) of
        None \<Rightarrow> search_downlink_pools sel interface ps
      | Some pool \<Rightarrow>
          rbind (range_expand (dl_downlink_interfaces p)) (\<lambda>interfaces.
            case index_of interface interfaces of
              Some i \<Rightarrow> Inr (pool, int i)
            | None \<Rightarrow> search_downlink_pools sel interface ps))"

definition list_item :: "'a list \<Rightarrow> nat \<Rightarrow> (py_exn, 'a) result" where
  "list_item xs i = (if i < length xs then Inr (xs ! i) else Inl IndexError)"

text \<open>\<open>None\<close> is the source's \<open>(None, None)\<close>: the uplink switch has no downlink pools.\<close>

definition get_downlink_pool_and_offset ::
  "(downlink_pool \<Rightarrow> string option) \<Rightarrow> ip_ctx \<Rightarrow> nat \<Rightarrow> (py_exn, (string \<times> int) option) result" where
  "get_downlink_pool_and_offset sel ctx idx =
     rbind (list_item (uplink_switch_interfaces ctx) idx) (\<lambda>interface.
     rbind (list_item (uplink_switches ctx) idx) (\<lambda>uplink_switch.
     rbind (required (map_of (peer_facts ctx) uplink_switch)) (\<lambda>downlink_pools.
       if downlink_pools = [] then Inr None
       else rbind (search_downlink_pools sel interface downlink_pools) (\<lambda>r. Inr (Some r)))))"

definition get_downlink_ipv4_pool_and_offset ::
  "ip_ctx \<Rightarrow> nat \<Rightarrow> (py_exn, (string \<times> int) option) result" where
  "get_downlink_ipv4_pool_and_offset = get_downlink_pool_and_offset dl_ipv4_pool"

definition get_downlink_ipv6_pool_and_offset ::
  "ip_ctx \<Rightarrow> nat \<Rightarrow> (py_exn, (string \<times> int) option) result" where
  "get_downlink_ipv6_pool_and_offset = get_downlink_pool_and_offset dl_ipv6_pool"

definition get_p2p_pool_and_offset ::
  "string option \<Rightarrow> (py_exn, (string \<times> int) option) result \<Rightarrow> ip_ctx \<Rightarrow> nat \<Rightarrow> (py_exn, string \<times> int) result" where
  "get_p2p_pool_and_offset uplink_pool downlink ctx idx =
     rbind downlink (\<lambda>dl.
       case (uplink_pool, dl) of
         (Some u, Some d) \<Rightarrow> Inl AristaAvdError
       | (Some u, None) \<Rightarrow>
           rbind (sw_id_required ctx) (\<lambda>i.
             Inr (u, ((i - 1) * max_uplink_switches ctx * max_parallel_uplinks ctx) + int idx))
       | (None, Some d) \<Rightarrow> Inr d
       | (None, None) \<Rightarrow> Inl AristaAvdInvalidInputsError)"

definition get_p2p_ipv4_pool_and_offset :: "ip_ctx \<Rightarrow> nat \<Rightarrow> (py_exn, string \<times> int) result" where
  "get_p2p_ipv4_pool_and_offset ctx idx =
     get_p2p_pool_and_offset (uplink_ipv4_pool ctx) (get_downlink_ipv4_pool_and_offset ctx idx) ctx idx"

definition get_p2p_ipv6_pool_and_offset :: "ip_ctx \<Rightarrow> nat \<Rightarrow> (py_exn, string \<times> int) result" where
  "get_p2p_ipv6_pool_and_offset ctx idx =
     get_p2p_pool_and_offset (uplink_ipv6_pool ctx) (get_downlink_ipv6_pool_and_offset ctx idx) ctx idx"

section \<open>MLAG\<close>

definition mlag_ip :: "ip_ctx \<Rightarrow> string \<Rightarrow> int \<Rightarrow> string \<Rightarrow> (py_exn, string) result" where
  "mlag_ip ctx pool ip_offset address_family =
     (let plen = (if address_family = ''ipv6'' then mlag_ipv6_prefix_length ctx else mlag_ipv4_prefix_length ctx)
      in if mlag_algorithm ctx = ''odd_id'' then
           rbind (mlag_odd_id_based_offset ctx) (\<lambda>offset. get_ip_from_pool pool plen offset ip_offset)
         else if mlag_algorithm ctx = ''same_subnet'' then get_ip_from_pool pool plen 0 ip_offset
         else rbind (mlag_primary_id ctx) (\<lambda>p. get_ip_from_pool pool plen (p - 1) ip_offset))"

definition mlag_ids_kwargs :: "ip_ctx \<Rightarrow> (py_exn, pv) result \<Rightarrow> string \<Rightarrow> (py_exn, (string \<times> pv) list) result" where
  "mlag_ids_kwargs ctx extra name =
     rbind (mlag_primary_id ctx) (\<lambda>p. rbind (mlag_secondary_id ctx) (\<lambda>s. rbind extra (\<lambda>e.
       Inr [(''mlag_primary_id'', PInt p), (''mlag_secondary_id'', PInt s), (name, e)])))"

definition combined_pool :: "string \<Rightarrow> (py_exn, string) result \<Rightarrow> (py_exn, pv) result" where
  "combined_pool key pool =
     rbind pool (\<lambda>p. Inr (PDict [(''combined'', PDict [(key, PStr p)])]))"

definition mlag_ibgp_peering_ip_primary :: "ip_ctx \<Rightarrow> string \<Rightarrow> (py_exn, string) result" where
  "mlag_ibgp_peering_ip_primary ctx pool =
     templated ctx ''mlag_ibgp_peering_ip_primary''
       (mlag_ids_kwargs ctx (Inr (PDict [(''mlag_ibgp_peering_ipv4_pool'', PStr pool)])) ''vrf'')
       (mlag_ip ctx pool 0 ''ipv4'')"

definition mlag_ibgp_peering_ip_secondary :: "ip_ctx \<Rightarrow> string \<Rightarrow> (py_exn, string) result" where
  "mlag_ibgp_peering_ip_secondary ctx pool =
     templated ctx ''mlag_ibgp_peering_ip_secondary''
       (mlag_ids_kwargs ctx (Inr (PDict [(''mlag_ibgp_peering_ipv4_pool'', PStr pool)])) ''vrf'')
       (mlag_ip ctx pool 1 ''ipv4'')"

definition mlag_ibgp_peering_ipv6_primary :: "ip_ctx \<Rightarrow> string \<Rightarrow> (py_exn, string) result" where
  "mlag_ibgp_peering_ipv6_primary ctx pool = mlag_ip ctx pool 0 ''ipv6''"

definition mlag_ibgp_peering_ipv6_secondary :: "ip_ctx \<Rightarrow> string \<Rightarrow> (py_exn, string) result" where
  "mlag_ibgp_peering_ipv6_secondary ctx pool = mlag_ip ctx pool 1 ''ipv6''"

definition mlag_ip_primary :: "ip_ctx \<Rightarrow> (py_exn, string) result" where
  "mlag_ip_primary ctx =
     (if mlag_peer_address_family ctx = ''ipv6'' then
        templated ctx ''mlag_ip_primary''
          (mlag_ids_kwargs ctx (combined_pool ''mlag_peer_ipv6_pool'' (mlag_peer_ipv6_pool ctx)) ''switch_data'')
          (rbind (mlag_peer_ipv6_pool ctx) (\<lambda>pool. mlag_ip ctx pool 0 (mlag_peer_address_family ctx)))
      else
        templated ctx ''mlag_ip_primary''
          (mlag_ids_kwargs ctx (combined_pool ''mlag_peer_ipv4_pool'' (mlag_peer_ipv4_pool ctx)) ''switch_data'')
          (rbind (mlag_peer_ipv4_pool ctx) (\<lambda>pool. mlag_ip ctx pool 0 ''ipv4'')))"

definition mlag_ip_secondary :: "ip_ctx \<Rightarrow> (py_exn, string) result" where
  "mlag_ip_secondary ctx =
     (if mlag_peer_address_family ctx = ''ipv6'' then
        templated ctx ''mlag_ip_secondary''
          (mlag_ids_kwargs ctx (combined_pool ''mlag_peer_ipv6_pool'' (mlag_peer_ipv6_pool ctx)) ''switch_data'')
          (rbind (mlag_peer_ipv6_pool ctx) (\<lambda>pool. mlag_ip ctx pool 1 (mlag_peer_address_family ctx)))
      else
        templated ctx ''mlag_ip_secondary''
          (mlag_ids_kwargs ctx (combined_pool ''mlag_peer_ipv4_pool'' (mlag_peer_ipv4_pool ctx)) ''switch_data'')
          (rbind (mlag_peer_ipv4_pool ctx) (\<lambda>pool. mlag_ip ctx pool 1 ''ipv4'')))"

definition mlag_l3_ip_primary :: "ip_ctx \<Rightarrow> (py_exn, string) result" where
  "mlag_l3_ip_primary ctx =
     templated ctx ''mlag_l3_ip_primary''
       (mlag_ids_kwargs ctx (combined_pool ''mlag_peer_l3_ipv4_pool'' (mlag_peer_l3_ipv4_pool ctx)) ''switch_data'')
       (rbind (mlag_peer_l3_ipv4_pool ctx) (\<lambda>pool. mlag_ip ctx pool 0 ''ipv4''))"

definition mlag_l3_ipv6_primary :: "ip_ctx \<Rightarrow> (py_exn, string) result" where
  "mlag_l3_ipv6_primary ctx = rbind (mlag_peer_l3_ipv6_pool ctx) (\<lambda>pool. mlag_ip ctx pool 0 ''ipv6'')"

definition mlag_l3_ip_secondary :: "ip_ctx \<Rightarrow> (py_exn, string) result" where
  "mlag_l3_ip_secondary ctx =
     templated ctx ''mlag_l3_ip_secondary''
       (mlag_ids_kwargs ctx (combined_pool ''mlag_peer_l3_ipv4_pool'' (mlag_peer_l3_ipv4_pool ctx)) ''switch_data'')
       (rbind (mlag_peer_l3_ipv4_pool ctx) (\<lambda>pool. mlag_ip ctx pool 1 ''ipv4''))"

definition mlag_l3_ipv6_secondary :: "ip_ctx \<Rightarrow> (py_exn, string) result" where
  "mlag_l3_ipv6_secondary ctx = rbind (mlag_peer_l3_ipv6_pool ctx) (\<lambda>pool. mlag_ip ctx pool 1 ''ipv6'')"

section \<open>Uplinks\<close>

definition uplink_kwargs :: "ip_ctx \<Rightarrow> nat \<Rightarrow> (py_exn, (string \<times> pv) list) result" where
  "uplink_kwargs ctx idx =
     rbind (uplink_ipv4_pool_required ctx) (\<lambda>pool. rbind (sw_id_required ctx) (\<lambda>i.
       Inr [(''uplink_switch_index'', PInt (int idx)),
            (''switch'', PDict [(''uplink_ipv4_pool'', PStr pool), (''id'', PInt i),
               (''max_uplink_switches'', PInt (max_uplink_switches ctx)),
               (''max_parallel_uplinks'', PInt (max_parallel_uplinks ctx))])]))"

definition p2p_uplinks_ip :: "ip_ctx \<Rightarrow> nat \<Rightarrow> (py_exn, string) result" where
  "p2p_uplinks_ip ctx idx =
     templated ctx ''p2p_uplinks_ip'' (uplink_kwargs ctx idx)
       (rbind (get_p2p_ipv4_pool_and_offset ctx idx) (\<lambda>(pool, offset).
          get_ip_from_pool pool (p2p_ipv4_prefix_length ctx) offset 1))"

definition p2p_uplinks_ipv6 :: "ip_ctx \<Rightarrow> nat \<Rightarrow> (py_exn, string) result" where
  "p2p_uplinks_ipv6 ctx idx =
     rbind (get_p2p_ipv6_pool_and_offset ctx idx) (\<lambda>(pool, offset).
       get_ip_from_pool pool (p2p_ipv6_prefix_length ctx) offset 1)"

definition p2p_uplinks_peer_ip :: "ip_ctx \<Rightarrow> nat \<Rightarrow> (py_exn, string) result" where
  "p2p_uplinks_peer_ip ctx idx =
     templated ctx ''p2p_uplinks_peer_ip'' (uplink_kwargs ctx idx)
       (rbind (get_p2p_ipv4_pool_and_offset ctx idx) (\<lambda>(pool, offset).
          get_ip_from_pool pool (p2p_ipv4_prefix_length ctx) offset 0))"

definition p2p_uplinks_peer_ipv6 :: "ip_ctx \<Rightarrow> nat \<Rightarrow> (py_exn, string) result" where
  "p2p_uplinks_peer_ipv6 ctx idx =
     rbind (get_p2p_ipv6_pool_and_offset ctx idx) (\<lambda>(pool, offset).
       get_ip_from_pool pool (p2p_ipv6_prefix_length ctx) offset 0)"

text \<open>The VRF argument is not used.\<close>

definition p2p_vrfs_uplinks_ip :: "ip_ctx \<Rightarrow> nat \<Rightarrow> string \<Rightarrow> (py_exn, string) result" where
  "p2p_vrfs_uplinks_ip ctx idx vrf = p2p_uplinks_ip ctx idx"

definition p2p_vrfs_uplinks_ipv6 :: "ip_ctx \<Rightarrow> nat \<Rightarrow> string \<Rightarrow> (py_exn, string) result" where
  "p2p_vrfs_uplinks_ipv6 ctx idx vrf = p2p_uplinks_ipv6 ctx idx"

definition p2p_vrfs_uplinks_peer_ip :: "ip_ctx \<Rightarrow> nat \<Rightarrow> string \<Rightarrow> (py_exn, string) result" where
  "p2p_vrfs_uplinks_peer_ip ctx idx vrf = p2p_uplinks_peer_ip ctx idx"

definition p2p_vrfs_uplinks_peer_ipv6 :: "ip_ctx \<Rightarrow> nat \<Rightarrow> string \<Rightarrow> (py_exn, string) result" where
  "p2p_vrfs_uplinks_peer_ipv6 ctx idx vrf = p2p_uplinks_peer_ipv6 ctx idx"

section \<open>Loopbacks\<close>

definition router_id :: "ip_ctx \<Rightarrow> (py_exn, string) result" where
  "router_id ctx =
     (case truthy (loopback_ipv4_address ctx) of
        Some a \<Rightarrow> Inr a
      | None \<Rightarrow>
          rbind (if underlay_ipv6_numbered ctx then router_id_pool ctx else loopback_ipv4_pool ctx) (\<lambda>loopback_pool.
            templated ctx ''router_id''
              (rbind (sw_id_required ctx) (\<lambda>i. rbind (loopback_ipv4_pool ctx) (\<lambda>pool.
                 Inr [(''switch_id'', PInt i), (''loopback_ipv4_pool'', PStr pool),
                      (''loopback_ipv4_offset'', PInt (loopback_ipv4_offset ctx))])))
              (rbind (sw_id_required ctx) (\<lambda>i.
                 get_ip_from_pool loopback_pool 32 (i + loopback_ipv4_offset ctx) 0))))"

definition ipv6_router_id :: "ip_ctx \<Rightarrow> (py_exn, string) result" where
  "ipv6_router_id ctx =
     rbind (sw_id_required ctx) (\<lambda>i. rbind (loopback_ipv6_pool ctx) (\<lambda>pool.
       get_ip_from_pool pool (loopback_ipv6_prefix_length ctx) (i + loopback_ipv6_offset ctx) 0))"

definition vtep_ip_mlag :: "ip_ctx \<Rightarrow> (py_exn, string) result" where
  "vtep_ip_mlag ctx =
     (case truthy (vtep_loopback_ipv4_address ctx) of
        Some a \<Rightarrow> Inr a
      | None \<Rightarrow>
          templated ctx ''vtep_ip_mlag''
            (rbind (sw_id_required ctx) (\<lambda>i. rbind (vtep_loopback_ipv4_pool ctx) (\<lambda>pool.
             rbind (mlag_primary_id ctx) (\<lambda>p. rbind (mlag_secondary_id ctx) (\<lambda>s.
               Inr [(''switch_id'', PInt i), (''switch_vtep_loopback_ipv4_pool'', PStr pool),
                    (''loopback_ipv4_offset'', PInt (loopback_ipv4_offset ctx)),
                    (''mlag_primary_id'', PInt p), (''mlag_secondary_id'', PInt s)])))))
            (rbind (mlag_primary_id ctx) (\<lambda>p. rbind (vtep_loopback_ipv4_pool ctx) (\<lambda>pool.
               get_ip_from_pool pool 32 (p + loopback_ipv4_offset ctx) 0))))"

definition vtep_ipv6_mlag :: "ip_ctx \<Rightarrow> (py_exn, string) result" where
  "vtep_ipv6_mlag ctx =
     (case truthy (vtep_loopback_ipv6_address ctx) of
        Some a \<Rightarrow> Inr a
      | None \<Rightarrow>
          rbind (mlag_primary_id ctx) (\<lambda>p. rbind (vtep_loopback_ipv6_pool ctx) (\<lambda>pool.
            get_ip_from_pool pool 64 (p + loopback_ipv6_offset ctx) 0)))"

definition vtep_ip :: "ip_ctx \<Rightarrow> (py_exn, string) result" where
  "vtep_ip ctx =
     (case truthy (vtep_loopback_ipv4_address ctx) of
        Some a \<Rightarrow> Inr a
      | None \<Rightarrow>
          templated ctx ''vtep_ip''
            (rbind (sw_id_required ctx) (\<lambda>i. rbind (vtep_loopback_ipv4_pool ctx) (\<lambda>pool.
               Inr [(''switch_id'', PInt i), (''switch_vtep_loopback_ipv4_pool'', PStr pool),
                    (''loopback_ipv4_offset'', PInt (loopback_ipv4_offset ctx))])))
            (rbind (sw_id_required ctx) (\<lambda>i. rbind (vtep_loopback_ipv4_pool ctx) (\<lambda>pool.
               get_ip_from_pool pool 32 (i + loopback_ipv4_offset ctx) 0))))"

definition vtep_ipv6 :: "ip_ctx \<Rightarrow> (py_exn, string) result" where
  "vtep_ipv6 ctx =
     (case truthy (vtep_loopback_ipv6_address ctx) of
        Some a \<Rightarrow> Inr a
      | None \<Rightarrow>
          rbind (sw_id_required ctx) (\<lambda>i. rbind (vtep_loopback_ipv6_pool ctx) (\<lambda>pool.
            get_ip_from_pool pool (loopback_ipv6_prefix_length ctx) (i + loopback_ipv6_offset ctx) 0)))"

definition vrf_loopback_ip :: "ip_ctx \<Rightarrow> string \<Rightarrow> (py_exn, string) result" where
  "vrf_loopback_ip ctx pool =
     (case sw_id ctx of
        None \<Rightarrow> Inl AristaAvdInvalidInputsError
      | Some i \<Rightarrow> get_ip_from_pool pool 32 (i + loopback_ipv4_offset ctx) 0)"

definition vrf_loopback_ipv6 :: "ip_ctx \<Rightarrow> string \<Rightarrow> (py_exn, string) result" where
  "vrf_loopback_ipv6 ctx pool =
     (case sw_id ctx of
        None \<Rightarrow> Inl AristaAvdInvalidInputsError
      | Some i \<Rightarrow> get_ip_from_pool pool 128 (i + loopback_ipv6_offset ctx) 0)"

section \<open>Multicast groups and WAN HA\<close>

definition evpn_underlay_l3_multicast_group :: "string \<Rightarrow> int \<Rightarrow> int \<Rightarrow> int \<Rightarrow> (py_exn, string) result" where
  "evpn_underlay_l3_multicast_group pool vrf_vni vrf_id pool_offset =
     get_ip_from_pool pool 32 (vrf_id - 1 + pool_offset) 0"

definition evpn_underlay_l2_multicast_group :: "string \<Rightarrow> int \<Rightarrow> int \<Rightarrow> (py_exn, string) result" where
  "evpn_underlay_l2_multicast_group pool vlan_id pool_offset =
     get_ip_from_pool pool 32 (vlan_id - 1 + pool_offset) 0"

definition evpn_underlay_l2_flood_group :: "string \<Rightarrow> int \<Rightarrow> int \<Rightarrow> (py_exn, string) result" where
  "evpn_underlay_l2_flood_group pool vlan_id pool_offset =
     get_ip_from_pool pool 32 (vlan_id - 1 + pool_offset) 0"

definition wan_ha_ip :: "ip_ctx \<Rightarrow> (py_exn, string) result" where
  "wan_ha_ip ctx =
     rbind (wan_ha_ipv4_pool ctx) (\<lambda>pool.
     rbind (get_ip_from_pool pool (wan_ha_ipv4_prefix_length ctx) 0 (if is_first_ha_peer ctx then 0 else 1)) (\<lambda>ip.
       Inr (ip @ ''/'' @ int_str (wan_ha_ipv4_prefix_length ctx))))"

definition wan_ha_peer_ip :: "ip_ctx \<Rightarrow> (py_exn, string) result" where
  "wan_ha_peer_ip ctx =
     rbind (wan_ha_ipv4_pool ctx) (\<lambda>pool.
     rbind (get_ip_from_pool pool (wan_ha_ipv4_prefix_length ctx) 0 (if is_first_ha_peer ctx then 1 else 0)) (\<lambda>ip.
       Inr (ip @ ''/'' @ int_str (wan_ha_ipv4_prefix_length ctx))))"

section \<open>Lemmas\<close>

text \<open>Different pairs of id and uplink index have different offsets, as the indices of a device stay
  below the number of its uplinks.\<close>

lemma uplink_offset_inj:
  fixes i j m :: int
  assumes "(i - 1) * m + int k = (j - 1) * m + int l" "int k < m" "int l < m"
  shows "i = j \<and> k = l"
proof -
  have "0 < m" using assms(2) by simp
  have "((i - 1) * m + int k) div m = i - 1" "((j - 1) * m + int l) div m = j - 1"
    using assms(2,3) \<open>0 < m\<close> by (simp_all add: div_pos_pos_trivial)
  with assms(1) have "i = j" by simp
  with assms(1) show ?thesis by simp
qed

lemma get_p2p_uplink:
  "get_p2p_ipv4_pool_and_offset ctx idx = Inr (pool, off) \<Longrightarrow> uplink_ipv4_pool ctx = Some u \<Longrightarrow>
     pool = u \<and> (\<exists>i. sw_id ctx = Some i \<and>
       off = (i - 1) * (max_uplink_switches ctx * max_parallel_uplinks ctx) + int idx)"
  by (auto simp: get_p2p_ipv4_pool_and_offset_def get_p2p_pool_and_offset_def sw_id_required_def
      required_def mult.assoc split: option.splits)

context host_pool
begin

lemma linear_give_inj:
  assumes "good pool p" "1 \<le> i" "1 \<le> j" "int k < m" "int l < m" "0 \<le> h" "0 \<le> h'"
    and "give pool p ((i - 1) * m + int k) h = Inr s" "give pool p ((j - 1) * m + int l) h' = Inr s"
  shows "i = j \<and> k = l \<and> h = h'"
proof -
  have "0 \<le> (i - 1) * m + int k" "0 \<le> (j - 1) * m + int l" using assms(2-5) by simp_all
  from give_inj [OF assms(1) this assms(6-9)] uplink_offset_inj [OF _ assms(4,5), of i j]
  show ?thesis by simp
qed

end

text \<open>The devices of a fabric that number their uplinks from one pool.\<close>

definition uplink_fabric :: "string \<Rightarrow> int \<Rightarrow> int \<Rightarrow> ip_ctx \<Rightarrow> bool" where
  "uplink_fabric pool plen m ctx \<longleftrightarrow>
     uplink_ipv4_pool ctx = Some pool \<and> p2p_ipv4_prefix_length ctx = plen
     \<and> max_uplink_switches ctx * max_parallel_uplinks ctx = m
     \<and> truthy (templates ctx ''p2p_uplinks_ip'') = None \<and> truthy (templates ctx ''p2p_uplinks_peer_ip'') = None
     \<and> (case sw_id ctx of Some i \<Rightarrow> 1 \<le> i | None \<Rightarrow> False)"

lemma uplink_fabric_end:
  assumes "uplink_fabric pool plen m ctx"
    "(if own then p2p_uplinks_ip ctx idx else p2p_uplinks_peer_ip ctx idx) = Inr s"
  shows "\<exists>i \<ge> 1. sw_id ctx = Some i \<and> get_ip_from_pool pool plen ((i - 1) * m + int idx) (if own then 1 else 0) = Inr s"
  using assms
  by (auto simp: uplink_fabric_def p2p_uplinks_ip_def p2p_uplinks_peer_ip_def templated_def
      dest!: get_p2p_uplink split: option.splits if_splits)

text \<open>
  C8. In a fabric whose devices number their uplinks from one pool of networks that do not overlap,
  the address of one end of an uplink is the address of no other end of any uplink of any device:
  equal texts mean the same device id, the same uplink index and the same end, as long as the
  index stays below the number of uplinks that the settings allow.
\<close>

theorem p2p_uplinks_distinct:
  assumes "good_ipv4_pool pool plen"
    and "uplink_fabric pool plen m ctx" and "uplink_fabric pool plen m ctx'"
    and "int idx < m" and "int idx' < m"
    and "(if own then p2p_uplinks_ip ctx idx else p2p_uplinks_peer_ip ctx idx) = Inr s"
    and "(if own' then p2p_uplinks_ip ctx' idx' else p2p_uplinks_peer_ip ctx' idx') = Inr s"
  shows "sw_id ctx = sw_id ctx' \<and> idx = idx' \<and> own = own'"
proof -
  from uplink_fabric_end [OF assms(2,6)] uplink_fabric_end [OF assms(3,7)]
  obtain i j where ij: "1 \<le> i" "sw_id ctx = Some i" "1 \<le> j" "sw_id ctx' = Some j"
    and give: "get_ip_from_pool pool plen ((i - 1) * m + int idx) (if own then 1 else 0) = Inr s"
      "get_ip_from_pool pool plen ((j - 1) * m + int idx') (if own' then 1 else 0) = Inr s" by blast
  have "i = j \<and> idx = idx' \<and> (if own then 1 else 0 :: int) = (if own' then 1 else 0)"
    by (rule ipv4_hosts.linear_give_inj [OF assms(1) ij(1,3) assms(4,5) _ _ give]) simp_all
  then show ?thesis using ij by (simp split: if_splits)
qed

definition example_ctx :: ip_ctx where
  "example_ctx = \<lparr>sw_id = Some 2, mlag_switch_ids = Some (Some 1, Some 2), mlag_algorithm = ''first_id'',
     mlag_ipv4_prefix_length = 31, mlag_ipv6_prefix_length = 127, p2p_ipv4_prefix_length = 31,
     p2p_ipv6_prefix_length = 127, loopback_ipv6_prefix_length = 128, wan_ha_ipv4_prefix_length = 31,
     mlag_peer_address_family = ''ipv4'', mlag_peer_ipv4_pool = Inr ''10.0.0.0/28'',
     mlag_peer_ipv6_pool = Inl AristaAvdInvalidInputsError, mlag_peer_l3_ipv4_pool = Inr ''10.0.0.0/28'',
     mlag_peer_l3_ipv6_pool = Inl AristaAvdInvalidInputsError, uplink_ipv4_pool = Some ''10.0.0.0/28'',
     uplink_ipv6_pool = None, max_uplink_switches = 2, max_parallel_uplinks = 1,
     uplink_switches = [''spine1'', ''spine2''], uplink_switch_interfaces = [''Ethernet1'', ''Ethernet1''],
     peer_facts = [(''spine1'', []), (''spine2'', [])], loopback_ipv4_address = None,
     loopback_ipv4_pool = Inr ''10.1.0.0/24'', loopback_ipv6_pool = Inl AristaAvdInvalidInputsError,
     router_id_pool = Inl AristaAvdInvalidInputsError, loopback_ipv4_offset = 0, loopback_ipv6_offset = 0,
     underlay_ipv6_numbered = False, vtep_loopback_ipv4_address = None, vtep_loopback_ipv6_address = None,
     vtep_loopback_ipv4_pool = Inr ''10.2.0.0/24'', vtep_loopback_ipv6_pool = Inl AristaAvdInvalidInputsError,
     wan_ha_ipv4_pool = Inr ''10.0.0.0/28'', is_first_ha_peer = True, templates = (\<lambda>_. None),
     render_template = (\<lambda>_ _. Inr [])\<rparr>"

lemma example_text: "re_finditer pools_and_ranges_rx ''10.0.0.0/28'' = [[(1, ''10.0.0.0/28'')]]"
  by code_simp

lemma example_network:
  "ip_network ''10.0.0.0/28'' = Some \<lparr>version = V4, network_address = 167772160, prefixlen = 28\<rparr>"
  by (simp add: ip_network_def parse_ipv4_def parse_octet_def is_digit_def nat_of_str_def digit_val_def Let_def)

lemma example_pool:
  "get_networks_from_pool ''10.0.0.0/28'' = ([\<lparr>version = V4, network_address = 167772160, prefixlen = 28\<rparr>], None)"
  by (simp add: get_networks_from_pool_def example_text match_networks_def re_group_def example_network)

lemma example_pool_good: "good_ipv4_pool ''10.0.0.0/28'' 31"
  by (simp add: good_ipv4_pool_def example_pool divisible_def net_ok_def num_addresses_def tagged_range_def
      net_range_def distinct_map inj_on_def)

lemma char_of_digits:
  "char_of (48 :: nat) = CHR ''0''" "char_of (51 :: nat) = CHR ''3''" "char_of (49 :: nat) = CHR ''1''" "char_of (54 :: nat) = CHR ''6''"
  "char_of (55 :: nat) = CHR ''7''"
  by code_simp+

lemma example_hosts:
  "get_ip_from_pool ''10.0.0.0/28'' 31 0 0 = Inr ''10.0.0.0''" "get_ip_from_pool ''10.0.0.0/28'' 31 0 1 = Inr ''10.0.0.1''"
  "get_ip_from_pool ''10.0.0.0/28'' 31 3 0 = Inr ''10.0.0.6''" "get_ip_from_pool ''10.0.0.0/28'' 31 3 1 = Inr ''10.0.0.7''"
  by (simp_all add: get_ip_from_pool_def example_pool ip_from_networks_def num_addresses_def ip_network_of_int_def
      net_item_def ip_str_def ipv4_str_def nat_str.simps digit_char_def char_of_digits Let_def)

theorem p2p_uplinks_distinct_witness:
  "p2p_uplinks_ip example_ctx 1 = Inr ''10.0.0.7'' \<and> p2p_uplinks_peer_ip example_ctx 1 = Inr ''10.0.0.6'' \<and>
   p2p_uplinks_ip (example_ctx\<lparr>sw_id := Some 1\<rparr>) 0 \<noteq> Inr ''10.0.0.7''"
proof -
  have own: "(if True then p2p_uplinks_ip example_ctx 1 else p2p_uplinks_peer_ip example_ctx 1) = Inr ''10.0.0.7''"
    by (simp add: example_ctx_def p2p_uplinks_ip_def templated_def get_p2p_ipv4_pool_and_offset_def
        get_downlink_ipv4_pool_and_offset_def get_downlink_pool_and_offset_def list_item_def required_def
        get_p2p_pool_and_offset_def sw_id_required_def example_hosts)
  have peer: "p2p_uplinks_peer_ip example_ctx 1 = Inr ''10.0.0.6''"
    by (simp add: example_ctx_def p2p_uplinks_peer_ip_def templated_def get_p2p_ipv4_pool_and_offset_def
        get_downlink_ipv4_pool_and_offset_def get_downlink_pool_and_offset_def list_item_def required_def
        get_p2p_pool_and_offset_def sw_id_required_def example_hosts)
  have "uplink_fabric ''10.0.0.0/28'' 31 2 example_ctx"
    "uplink_fabric ''10.0.0.0/28'' 31 2 (example_ctx\<lparr>sw_id := Some 1\<rparr>)"
    by (simp_all add: uplink_fabric_def example_ctx_def)
  from p2p_uplinks_distinct [OF example_pool_good this _ _ own, of 0 True]
  have "p2p_uplinks_ip (example_ctx\<lparr>sw_id := Some 1\<rparr>) 0 \<noteq> Inr ''10.0.0.7''" by (auto simp: example_ctx_def)
  with own peer show ?thesis by simp
qed

section \<open>MLAG pairs and WAN HA\<close>

lemma odd_id_offset:
  "mlag_switch_ids ctx = Some (Some p, Some s) \<Longrightarrow>
    mlag_odd_id_based_offset ctx =
      (if p mod 2 = s mod 2 then Inl AristaAvdError else Inr (((if odd p then p else s) - 1) div 2))"
  by (auto simp: mlag_odd_id_based_offset_def mlag_primary_id_def mlag_secondary_id_def required_def
      odd_iff_mod_2_eq_one)

text \<open>
  The offset of the odd_id algorithm does not depend on which switch of the pair is the
  primary, is an error exactly when both ids are odd or both are even, and tells pairs apart:
  two pairs with the same offset have the same odd id.
\<close>

theorem mlag_odd_id_offset:
  assumes "mlag_switch_ids ctx = Some (Some p, Some s)" and "mlag_switch_ids ctx' = Some (Some p', Some s')"
  shows "mlag_odd_id_based_offset (ctx\<lparr>mlag_switch_ids := Some (Some s, Some p)\<rparr>) = mlag_odd_id_based_offset ctx \<and>
    (mlag_odd_id_based_offset ctx = Inl AristaAvdError \<longleftrightarrow> even (p + s)) \<and>
    (\<forall>k. mlag_odd_id_based_offset ctx = Inr k \<and> mlag_odd_id_based_offset ctx' = Inr k
       \<longrightarrow> (if odd p then p else s) = (if odd p' then p' else s'))"
proof -
  note off = odd_id_offset [OF assms(1)] odd_id_offset [OF assms(2)]
    odd_id_offset [of "ctx\<lparr>mlag_switch_ids := Some (Some s, Some p)\<rparr>" s p, simplified]
  have swap: "mlag_odd_id_based_offset (ctx\<lparr>mlag_switch_ids := Some (Some s, Some p)\<rparr>) = mlag_odd_id_based_offset ctx"
    unfolding off by (auto simp: odd_iff_mod_2_eq_one)
  have err: "mlag_odd_id_based_offset ctx = Inl AristaAvdError \<longleftrightarrow> even (p + s)"
    unfolding off by (simp split: if_splits) presburger
  have same: "a = b" if "(a - 1) div 2 = (b - 1) div 2" "odd a" "odd b" for a b :: int
    using that by (auto elim!: oddE)
  have "(if odd p then p else s) = (if odd p' then p' else s')"
    if k: "mlag_odd_id_based_offset ctx = Inr k" "mlag_odd_id_based_offset ctx' = Inr k" for k
  proof -
    let ?a = "if odd p then p else s" and ?b = "if odd p' then p' else s'"
    have parity: "p mod 2 \<noteq> s mod 2" "p' mod 2 \<noteq> s' mod 2" using k off by force+
    then have "(?a - 1) div 2 = k" "(?b - 1) div 2 = k" using k unfolding off by (simp_all only: if_False sum.inject)
    moreover have "odd ?a" "odd ?b" using parity by (auto simp: odd_iff_mod_2_eq_one)
    ultimately show ?thesis using same [of ?a ?b] by argo
  qed
  with swap err show ?thesis by blast
qed

theorem mlag_odd_id_offset_witness:
  "mlag_odd_id_based_offset (example_ctx\<lparr>mlag_switch_ids := Some (Some 4, Some 3)\<rparr>) = Inr 1 \<and>
   mlag_odd_id_based_offset (example_ctx\<lparr>mlag_switch_ids := Some (Some 3, Some 4)\<rparr>) = Inr 1"
  using mlag_odd_id_offset [of "example_ctx\<lparr>mlag_switch_ids := Some (Some 3, Some 4)\<rparr>" 3 4
      "example_ctx\<lparr>mlag_switch_ids := Some (Some 3, Some 4)\<rparr>" 3 4]
  by (simp add: odd_id_offset)

text \<open>The id that numbers an MLAG pair: the odd one, or the primary one.\<close>

definition mlag_key :: "ip_ctx \<Rightarrow> int \<times> int \<Rightarrow> int" where
  "mlag_key ctx = (\<lambda>(p, s).
     if mlag_algorithm ctx = ''odd_id'' then (if odd p then p else s)
     else if mlag_algorithm ctx = ''same_subnet'' then 1 else p)"

lemma mlag_ip_give:
  assumes "mlag_switch_ids ctx = Some (Some p, Some s)" "1 \<le> p" "1 \<le> s" "mlag_ip ctx pool h ''ipv4'' = Inr a"
  shows "\<exists>k \<ge> 0. get_ip_from_pool pool (mlag_ipv4_prefix_length ctx) k h = Inr a \<and>
    mlag_key ctx (p, s) = (if mlag_algorithm ctx = ''odd_id'' then 2 * k + 1 else k + 1)"
proof -
  have ids: "mlag_primary_id ctx = Inr p" by (simp add: mlag_primary_id_def required_def assms(1))
  consider (odd) "mlag_algorithm ctx = ''odd_id''" | (same) "mlag_algorithm ctx = ''same_subnet''"
    | (first) "mlag_algorithm ctx \<noteq> ''odd_id''" "mlag_algorithm ctx \<noteq> ''same_subnet''" by blast
  then show ?thesis
  proof cases
    case odd
    define q where "q = (if odd p then p else s)"
    have ne: "p mod 2 \<noteq> s mod 2" using assms(4) odd by (auto simp: mlag_ip_def odd_id_offset [OF assms(1)])
    then have "odd q" "1 \<le> q" using assms(2,3) by (auto simp: q_def odd_iff_mod_2_eq_one)
    then obtain k where k: "q = 2 * k + 1" "0 \<le> k" by (auto elim!: oddE)
    have "mlag_odd_id_based_offset ctx = Inr k"
      using ne k(1) unfolding odd_id_offset [OF assms(1)] q_def [symmetric] by simp
    then show ?thesis
      using odd assms(4) k by (intro exI [of _ k]) (simp add: mlag_ip_def mlag_key_def q_def)
  next
    case same
    then show ?thesis using assms(4) by (auto simp: mlag_ip_def mlag_key_def)
  next
    case first
    then show ?thesis using assms(2,4) ids
      by (intro exI [of _ "p - 1"]) (simp add: mlag_ip_def mlag_key_def)
  qed
qed



text \<open>
  The address a WAN HA peer computes for its neighbour is the one the neighbour computes for
  itself, and over a good pool the two differ.
\<close>

theorem wan_ha_peers_agree:
  "wan_ha_peer_ip ctx = wan_ha_ip (ctx\<lparr>is_first_ha_peer := \<not> is_first_ha_peer ctx\<rparr>) \<and>
   (\<forall>pool a. wan_ha_ipv4_pool ctx = Inr pool \<and> good_ipv4_pool pool (wan_ha_ipv4_prefix_length ctx)
      \<and> wan_ha_ip ctx = Inr a \<longrightarrow> wan_ha_peer_ip ctx \<noteq> Inr a)"
proof (intro conjI allI impI notI)
  show "wan_ha_peer_ip ctx = wan_ha_ip (ctx\<lparr>is_first_ha_peer := \<not> is_first_ha_peer ctx\<rparr>)"
    by (simp add: wan_ha_peer_ip_def wan_ha_ip_def)
next
  fix pool a
  assume a: "wan_ha_ipv4_pool ctx = Inr pool \<and> good_ipv4_pool pool (wan_ha_ipv4_prefix_length ctx)
    \<and> wan_ha_ip ctx = Inr a" and peer: "wan_ha_peer_ip ctx = Inr a"
  let ?plen = "wan_ha_ipv4_prefix_length ctx"
  from a peer obtain ip where
      "get_ip_from_pool pool ?plen 0 (if is_first_ha_peer ctx then 0 else 1) = Inr ip"
      "get_ip_from_pool pool ?plen 0 (if is_first_ha_peer ctx then 1 else 0) = Inr ip"
    by (auto simp: wan_ha_ip_def wan_ha_peer_ip_def)
  then show False using ipv4_hosts.hosts_differ [of pool ?plen 0 ip ip] a by (auto split: if_splits)
qed

theorem wan_ha_peers_agree_witness:
  "wan_ha_ip example_ctx = Inr ''10.0.0.0/31'' \<and> wan_ha_peer_ip example_ctx \<noteq> Inr ''10.0.0.0/31''"
proof -
  have ip: "wan_ha_ip example_ctx = Inr ''10.0.0.0/31''"
    by (simp add: wan_ha_ip_def example_ctx_def example_hosts int_str_def nat_str.simps digit_char_def
        char_of_digits)
  have "wan_ha_ipv4_pool example_ctx = Inr ''10.0.0.0/28''" "wan_ha_ipv4_prefix_length example_ctx = 31"
    by (simp_all add: example_ctx_def)
  with ip wan_ha_peers_agree [of example_ctx] example_pool_good show ?thesis by metis
qed

section \<open>Downlink pools of the uplink switch\<close>

lemma index_of_Some: "index_of x xs = Some i \<Longrightarrow> i < length xs \<and> xs ! i = x"
  by (induction xs arbitrary: i) (auto split: if_splits)

lemma search_downlink_pools_Some:
  assumes "search_downlink_pools sel itf ps = Inr (pool, off)"
  shows "\<exists>p i xs. p \<in> set ps \<and> sel p = Some pool \<and> off = int i \<and>
    range_expand (dl_downlink_interfaces p) = Inr xs \<and> i < length xs \<and> xs ! i = itf"
  using assms
proof (induction ps)
  case (Cons p ps)
  show ?case
  proof (cases "truthy (sel p)")
    case None
    with Cons show ?thesis by auto
  next
    case (Some t)
    then have "sel p = Some t" by (cases "sel p" rule: truthy.cases) auto
    with Cons.prems Some obtain xs where xs: "range_expand (dl_downlink_interfaces p) = Inr xs"
      by auto
    show ?thesis
    proof (cases "index_of itf xs")
      case None
      with Cons Some xs show ?thesis by fastforce
    next
      case (Some i)
      with Cons.prems \<open>truthy (sel p) = Some t\<close> xs have "pool = t" "off = int i" by auto
      with \<open>sel p = Some t\<close> xs index_of_Some [OF Some] show ?thesis by auto
    qed
  qed
qed simp

text \<open>
  The pool and offset found for an uplink name a pool of the uplink switch and the place of the
  uplink's interface in the interface ranges of that pool. So two uplinks into one uplink switch
  that get the same pool and offset are on the same interface, when no pool text is listed twice.
\<close>

theorem downlink_pool_and_offset:
  assumes "search_downlink_pools sel itf ps = Inr (pool, off)"
  shows "(\<exists>p i xs. p \<in> set ps \<and> sel p = Some pool \<and> off = int i \<and>
      range_expand (dl_downlink_interfaces p) = Inr xs \<and> i < length xs \<and> xs ! i = itf) \<and>
    (distinct (map sel ps) \<and> search_downlink_pools sel itf' ps = Inr (pool, off) \<longrightarrow> itf' = itf)"
proof (intro conjI impI, rule search_downlink_pools_Some [OF assms])
  assume d: "distinct (map sel ps) \<and> search_downlink_pools sel itf' ps = Inr (pool, off)"
  from search_downlink_pools_Some [OF assms] search_downlink_pools_Some [of sel itf' ps pool off] d
  obtain p i xs p' i' xs' where
      "p \<in> set ps" "sel p = Some pool" "off = int i" "range_expand (dl_downlink_interfaces p) = Inr xs" "xs ! i = itf"
    and "p' \<in> set ps" "sel p' = Some pool" "off = int i'" "range_expand (dl_downlink_interfaces p') = Inr xs'" "xs' ! i' = itf'"
    by blast
  moreover from this d have "p = p'" by (metis distinct_map inj_onD)
  ultimately show "itf' = itf" by simp
qed

theorem downlink_pool_and_offset_witness:
  "search_downlink_pools dl_ipv4_pool ''Ethernet2''
     [\<lparr>dl_ipv4_pool = Some ''10.0.0.0/28'', dl_ipv6_pool = None, dl_downlink_interfaces = RList [RText ''Ethernet1'', RText ''Ethernet2'']\<rparr>]
     = Inr (''10.0.0.0/28'', 1) \<and> ''Ethernet1'' \<noteq> ''Ethernet2''"
proof -
  let ?p = "\<lparr>dl_ipv4_pool = Some ''10.0.0.0/28'', dl_ipv6_pool = None, dl_downlink_interfaces = RList [RText ''Ethernet1'', RText ''Ethernet2'']\<rparr>"
  have x: "range_expand (RList [RText ''Ethernet1'', RText ''Ethernet2'']) = Inr [''Ethernet1'', ''Ethernet2'']"
    by code_simp
  have r: "search_downlink_pools dl_ipv4_pool ''Ethernet2'' [?p] = Inr (''10.0.0.0/28'', 1)"
    by (simp add: x del: range_expand.simps)
  from downlink_pool_and_offset [OF r, of "''Ethernet2''"] r show ?thesis by (simp del: range_expand.simps search_downlink_pools.simps)
qed

end
