(* ===== verification/Merge.thy ===== *)
theory Merge
  imports PyData
begin

text \<open>
  \<open>pyavd/_utils/merge\<close>: merging of untyped data. The \<open>deepmerge\<close> package is not part of the
  repository: its \<open>Merger\<close> is the parameter \<open>run\<close>, given its configuration and returning the base
  as it is after the in-place merge, and the value strategy that \<open>MergeOnSchema\<close> calls back is the
  parameter \<open>vs\<close>. The lemmas are on \<open>MergeOnSchema\<close>: which items are merged by primary key and which
  are left to the next strategy.
\<close>

section \<open>merge\<close>

text \<open>A strategy: named in the package, one of the functions of the source, or the schema based
  list strategy of a schema.\<close>

datatype strategy = Named string | StrategyKeep | StrategyPrependUnique | StrategyMustMatch | OnSchema string

record merger_config =
  list_strategies :: "strategy list"
  dict_strategies :: "strategy list"
  set_strategies :: "strategy list"
  fallback_strategy :: strategy
  conflict_strategy :: strategy

definition strategy_keep :: "pv \<Rightarrow> pv \<Rightarrow> pv" where
  "strategy_keep base nxt = (if base \<noteq> PNone then base else nxt)"

fun hashable :: "pv \<Rightarrow> bool" where
  "hashable (PList _) = False"
| "hashable (PDict _) = False"
| "hashable _ = True"

definition strategy_prepend_unique :: "pv list \<Rightarrow> pv list \<Rightarrow> (py_exn, pv list) result" where
  "strategy_prepend_unique base nxt =
     (if list_all hashable nxt \<and> list_all hashable base
      then Inr (nxt @ filter (\<lambda>n. \<not> py_in n nxt) base) else Inl TypeError)"

definition strategy_must_match :: "pv \<Rightarrow> pv \<Rightarrow> (py_exn, pv) result" where
  "strategy_must_match base nxt = (if py_eq base nxt then Inr base else Inl ValueError)"

definition list_merge_strategy :: "string \<Rightarrow> strategy option" where
  "list_merge_strategy list_merge =
     map_of [(''replace'', Named ''override''), (''keep'', StrategyKeep), (''append'', Named ''append''),
       (''prepend'', Named ''prepend''), (''append_rp'', Named ''append_unique''),
       (''prepend_rp'', StrategyPrependUnique)] list_merge"

definition merger_for :: "bool \<Rightarrow> string \<Rightarrow> string \<Rightarrow> string option \<Rightarrow> (py_exn, merger_config) result" where
  "merger_for recursive list_merge same_key schema_name =
     (case list_merge_strategy list_merge of
        None \<Rightarrow> Inl ValueError
      | Some ls \<Rightarrow>
          (let on_schema = (if list_merge = ''replace'' then None else schema_name);
               same = (if same_key = ''must_match'' then StrategyMustMatch else Named same_key)
           in if (case on_schema of Some s \<Rightarrow> s \<noteq> ''eos_config'' \<and> s \<noteq> ''avd_design'' | None \<Rightarrow> False)
              then Inl ValueError
              else Inr \<lparr>list_strategies = (case on_schema of Some s \<Rightarrow> [OnSchema s] | None \<Rightarrow> []) @ [ls],
                     dict_strategies = [Named (if recursive then ''merge'' else ''override'')],
                     set_strategies = [Named ''union''],
                     fallback_strategy = same, conflict_strategy = same\<rparr>))"

text \<open>The data sets are merged one by one; a data set that is a list is a list of data sets. In place
  or on copies, the value returned is the same.\<close>

fun nxt_items :: "pv \<Rightarrow> pv list" where
  "nxt_items (PList xs) = xs"
| "nxt_items v = [v]"

fun merge_all :: "(pv \<Rightarrow> pv \<Rightarrow> (py_exn, pv) result) \<Rightarrow> pv \<Rightarrow> pv list \<Rightarrow> (py_exn, pv) result" where
  "merge_all m base [] = Inr base"
| "merge_all m base (nxt # nxts) = rbind (m base nxt) (\<lambda>b. merge_all m b nxts)"

definition merge ::
  "(merger_config \<Rightarrow> pv \<Rightarrow> pv \<Rightarrow> (py_exn, pv) result) \<Rightarrow> bool \<Rightarrow> string \<Rightarrow> string \<Rightarrow> string option \<Rightarrow>
     pv \<Rightarrow> pv list \<Rightarrow> (py_exn, pv) result" where
  "merge run recursive list_merge same_key schema_name base nxt_list =
     rbind (merger_for recursive list_merge same_key schema_name) (\<lambda>cfg.
       merge_all (run cfg) base (concat (map nxt_items nxt_list)))"

section \<open>MergeOnSchema\<close>

text \<open>The primary key of an item that is a dictionary holding one.\<close>

fun pk_value :: "string \<Rightarrow> pv \<Rightarrow> pv option" where
  "pk_value pk (PDict d) = map_of d pk"
| "pk_value pk _ = None"

definition keys_match :: "string \<Rightarrow> pv \<Rightarrow> pv \<Rightarrow> bool" where
  "keys_match pk nxt base =
     (case (pk_value pk nxt, pk_value pk base) of (Some n, Some b) \<Rightarrow> py_eq b n | _ \<Rightarrow> False)"

type_synonym value_strategy = "string list \<Rightarrow> pv \<Rightarrow> pv \<Rightarrow> (py_exn, pv) result"

text \<open>The inner loop: \<open>base\<close> from index \<open>i\<close> on, and how often \<open>nxt\<close> was merged into it.\<close>

fun merge_item ::
  "value_strategy \<Rightarrow> string list \<Rightarrow> string \<Rightarrow> pv \<Rightarrow> nat \<Rightarrow> pv list \<Rightarrow> (py_exn, pv list \<times> nat) result" where
  "merge_item vs path pk nxt i [] = Inr ([], 0)"
| "merge_item vs path pk nxt i (b # bs) =
     (if keys_match pk nxt b
      then rbind (vs (path @ [nat_str i]) b nxt) (\<lambda>b'.
           rbind (merge_item vs path pk nxt (Suc i) bs) (\<lambda>(bs', n). Inr (b' # bs', Suc n)))
      else rbind (merge_item vs path pk nxt (Suc i) bs) (\<lambda>(bs', n). Inr (b # bs', n)))"

text \<open>The outer loop, with the indexes it collects: one for every merge.\<close>

fun merge_items ::
  "value_strategy \<Rightarrow> string list \<Rightarrow> string \<Rightarrow> nat \<Rightarrow> pv list \<Rightarrow> pv list \<Rightarrow> (py_exn, pv list \<times> nat list) result" where
  "merge_items vs path pk i base [] = Inr (base, [])"
| "merge_items vs path pk i base (nxt # nxts) =
     rbind (merge_item vs path pk nxt 0 base) (\<lambda>(base', n).
     rbind (merge_items vs path pk (Suc i) base' nxts) (\<lambda>(base'', idxs).
       Inr (base'', replicate n i @ idxs)))"

text \<open>\<open>del nxt[i]\<close> for the indexes from the last to the first\<close>

fun delete_indexes :: "nat list \<Rightarrow> 'a list \<Rightarrow> (py_exn, 'a list) result" where
  "delete_indexes [] xs = Inr xs"
| "delete_indexes (i # is) xs =
     (if i < length xs then delete_indexes is (take i xs @ drop (Suc i) xs) else Inl IndexError)"

datatype strategy_result = Merged "pv list" | StrategyEnd "pv list" "pv list"

text \<open>The strategy: \<open>primary_key\<close> is what \<open>get_schema_info\<close> says of the path. \<open>StrategyEnd\<close> hands the
  updated base and the remaining items to the next strategy.\<close>

definition as_runtime_error :: "(py_exn, 'a) result \<Rightarrow> (py_exn, 'a) result" where
  "as_runtime_error r = (case r of Inl _ \<Rightarrow> Inl RuntimeError | Inr x \<Rightarrow> Inr x)"

definition schema_strategy ::
  "string option \<Rightarrow> (string \<Rightarrow> string list \<Rightarrow> (py_exn, string option) result) \<Rightarrow> value_strategy \<Rightarrow> string list \<Rightarrow>
     pv list \<Rightarrow> pv list \<Rightarrow> (py_exn, strategy_result) result" where
  "schema_strategy schema_name primary_key vs path base nxt =
     (case schema_name of
        None \<Rightarrow> Inr (StrategyEnd base nxt)
      | Some s \<Rightarrow>
          rbind (as_runtime_error (primary_key s path)) (\<lambda>pk.
          case pk of
            None \<Rightarrow> Inr (StrategyEnd base nxt)
          | Some k \<Rightarrow>
              if k = [] then Inr (StrategyEnd base nxt)
              else
                rbind (as_runtime_error (merge_items vs path k 0 base nxt)) (\<lambda>(base', idxs).
                if length idxs = length nxt then Inr (Merged base')
                else rbind (as_runtime_error (delete_indexes (rev (sort idxs)) nxt)) (\<lambda>nxt'.
                  Inr (StrategyEnd base' nxt')))))"

section \<open>What the strategy merges\<close>

lemma keys_match_cong: "pk_value pk b = pk_value pk b' \<Longrightarrow> keys_match pk n b = keys_match pk n b'"
  by (simp add: keys_match_def)

lemma match_count_cong:
  "map (pk_value pk) bs = map (pk_value pk) bs' \<Longrightarrow>
    length (filter (keys_match pk n) bs) = length (filter (keys_match pk n) bs')"
proof (induction bs arbitrary: bs')
  case (Cons b bs)
  then obtain c cs where "bs' = c # cs" "pk_value pk b = pk_value pk c" "map (pk_value pk) bs = map (pk_value pk) cs"
    by (cases bs') auto
  with Cons.IH [of cs] keys_match_cong [of pk b c n] show ?case by simp
qed simp

lemma merge_item_props:
  assumes "merge_item vs path pk n i bs = Inr (bs', c)"
  shows "c = length (filter (keys_match pk n) bs) \<and> length bs' = length bs \<and>
    (\<forall>j < length bs. if keys_match pk n (bs ! j) then vs (path @ [nat_str (i + j)]) (bs ! j) n = Inr (bs' ! j)
       else bs' ! j = bs ! j)"
  using assms
proof (induction bs arbitrary: i bs' c)
  case (Cons b bs)
  obtain b' bs2 c2 where r: "bs' = b' # bs2" "merge_item vs path pk n (Suc i) bs = Inr (bs2, c2)"
      "c = (if keys_match pk n b then Suc c2 else c2)"
      "if keys_match pk n b then vs (path @ [nat_str i]) b n = Inr b' else b' = b"
    using Cons.prems by (auto split: if_splits)
  have "if keys_match pk n ((b # bs) ! j) then vs (path @ [nat_str (i + j)]) ((b # bs) ! j) n = Inr (bs' ! j)
       else bs' ! j = (b # bs) ! j" if "j < length (b # bs)" for j
    using Cons.IH [OF r(2)] r(1,4) that by (cases j) auto
  moreover have "c = length (filter (keys_match pk n) (b # bs))" "length bs' = length (b # bs)"
    using Cons.IH [OF r(2)] r(1,3) by auto
  ultimately show ?case by blast
qed simp

text \<open>The value strategy keeps the primary key of the item it merges into.\<close>

definition keeps_key :: "value_strategy \<Rightarrow> string \<Rightarrow> bool" where
  "keeps_key vs pk \<longleftrightarrow>
     (\<forall>path b n b'. keys_match pk n b \<and> vs path b n = Inr b' \<longrightarrow> pk_value pk b' = pk_value pk b)"

lemma merge_items_props:
  assumes "keeps_key vs pk" "merge_items vs path pk i base nxt = Inr (base', idxs)"
  shows "length base' = length base \<and> (\<forall>j < length base. pk_value pk (base' ! j) = pk_value pk (base ! j)) \<and>
    (\<forall>j < length base. merge_all (vs (path @ [nat_str j])) (base ! j) (filter (\<lambda>n. keys_match pk n (base ! j)) nxt)
       = Inr (base' ! j)) \<and>
    idxs = concat (map (\<lambda>(k, n). replicate (length (filter (keys_match pk n) base)) k) (enumerate i nxt))"
  using assms(2)
proof (induction nxt arbitrary: i base base' idxs)
  case (Cons n nxt)
  obtain base1 c idxs1 where r: "merge_item vs path pk n 0 base = Inr (base1, c)"
      "merge_items vs path pk (Suc i) base1 nxt = Inr (base', idxs1)" "idxs = replicate c i @ idxs1"
    using Cons.prems by auto
  note m = merge_item_props [OF r(1), simplified]
  have key: "pk_value pk (base1 ! j) = pk_value pk (base ! j)" if "j < length base" for j
    using m that assms(1) unfolding keeps_key_def by (cases "keys_match pk n (base ! j)") auto
  have len: "length base1 = length base" using m by blast
  have "map (pk_value pk) base1 = map (pk_value pk) base" by (rule nth_equalityI) (simp_all add: len key)
  then have count: "length (filter (keys_match pk x) base1) = length (filter (keys_match pk x) base)" for x
    by (rule match_count_cong)
  have "merge_all (vs (path @ [nat_str j])) (base ! j) (filter (\<lambda>n. keys_match pk n (base ! j)) (n # nxt)) = Inr (base' ! j)"
    if j: "j < length base" for j
  proof -
    have same: "keys_match pk x (base1 ! j) = keys_match pk x (base ! j)" for x
      by (rule keys_match_cong) (rule key [OF j])
    have IH: "merge_all (vs (path @ [nat_str j])) (base1 ! j) (filter (\<lambda>n. keys_match pk n (base ! j)) nxt) = Inr (base' ! j)"
    proof -
      have "merge_all (vs (path @ [nat_str j])) (base1 ! j) (filter (\<lambda>n. keys_match pk n (base1 ! j)) nxt) = Inr (base' ! j)"
        using Cons.IH [OF r(2), THEN conjunct2, THEN conjunct2, THEN conjunct1, rule_format, of j] len j by simp
      then show ?thesis by (simp only: same)
    qed
    note mj = m [THEN conjunct2, THEN conjunct2, rule_format, OF j]
    show ?thesis
    proof (cases "keys_match pk n (base ! j)")
      case True
      with mj have "vs (path @ [nat_str j]) (base ! j) n = Inr (base1 ! j)" by simp
      then show ?thesis using True IH by simp
    next
      case False
      with mj have "base1 ! j = base ! j" by simp
      then show ?thesis using False IH by simp
    qed
  qed
  then show ?case using Cons.IH [OF r(2)] m r(3) key count by (simp add: case_prod_unfold)
qed simp

lemma delete_indexes_append: "delete_indexes is xs = Inr ys \<Longrightarrow> delete_indexes is (xs @ zs) = Inr (ys @ zs)"
  by (induction "is" xs rule: delete_indexes.induct) (auto split: if_splits)

lemma delete_indexes_filter:
  "delete_indexes (rev (map fst (filter (\<lambda>(_, x). P x) (enumerate 0 xs)))) xs = Inr (filter (\<lambda>x. \<not> P x) xs)"
proof (induction xs rule: rev_induct)
  case (snoc x xs)
  then show ?case by (cases "P x") (simp_all add: enumerate_append_eq delete_indexes_append)
qed simp

text \<open>
  C19. When no two items of the base have the key of one item of the new list, the schema strategy
  merges every new item into the base item with its primary key, one after the other, in place and
  without moving or losing a base item, and hands on the new items that match no base item, in
  their order.
\<close>

theorem schema_strategy_merges:
  assumes "keeps_key vs pk" and "pk \<noteq> []" and "primary_key s path = Inr (Some pk)"
    and "\<forall>n \<in> set nxt. length (filter (keys_match pk n) base) \<le> 1"
    and "schema_strategy (Some s) primary_key vs path base nxt = Inr r"
  shows "\<exists>base'. length base' = length base \<and>
    (\<forall>j < length base. merge_all (vs (path @ [nat_str j])) (base ! j) (filter (\<lambda>n. keys_match pk n (base ! j)) nxt)
       = Inr (base' ! j)) \<and>
    r = (let rest = filter (\<lambda>n. \<not> list_ex (keys_match pk n) base) nxt
         in if rest = [] then Merged base' else StrategyEnd base' rest)"
proof -
  obtain base' idxs where m: "merge_items vs path pk 0 base nxt = Inr (base', idxs)"
    using assms(2,3,5) by (auto simp: schema_strategy_def as_runtime_error_def split: sum.splits)
  note p = merge_items_props [OF assms(1) m]
  let ?found = "\<lambda>n. list_ex (keys_match pk n) base"
  have one: "replicate (length (filter (keys_match pk n) base)) k = (if ?found n then [k] else [])"
    if "n \<in> set nxt" for n and k :: nat
  proof -
    have "length (filter (keys_match pk n) base) = (if ?found n then 1 else 0)"
      using assms(4) that by (auto simp: list_ex_iff filter_empty_conv le_Suc_eq)
    then show ?thesis by simp
  qed
  have "concat (map (\<lambda>(k, n). if ?found n then [k] else []) ps) = map fst (filter (\<lambda>(_, n). ?found n) ps)" for ps :: "(nat \<times> pv) list"
    by (induction ps) auto
  moreover have "map (\<lambda>(k, n). replicate (length (filter (keys_match pk n) base)) k) (enumerate 0 nxt)
      = map (\<lambda>(k, n). if ?found n then [k] else []) (enumerate 0 nxt)"
    by (rule map_cong) (auto simp: in_set_enumerate_eq one simp del: replicate_empty)
  ultimately have idxs: "idxs = map fst (filter (\<lambda>(_, n). ?found n) (enumerate 0 nxt))" using p by (simp only:)
  have "sorted idxs" unfolding idxs by (rule sorted_filter) simp
  then have del: "delete_indexes (rev (sort idxs)) nxt = Inr (filter (\<lambda>n. \<not> ?found n) nxt)"
    using delete_indexes_filter [of ?found nxt] by (simp add: idxs sorted_sort_id)
  have "length idxs = length (filter ?found nxt)"
    unfolding idxs by (induction nxt rule: rev_induct) (simp_all add: enumerate_append_eq)
  moreover have "length nxt = length (filter ?found nxt) + length (filter (\<lambda>n. \<not> ?found n) nxt)"
    by (simp add: sum_length_filter_compl)
  ultimately have all: "length idxs = length nxt \<longleftrightarrow> filter (\<lambda>n. \<not> ?found n) nxt = []" by auto
  have "r = (let rest = filter (\<lambda>n. \<not> ?found n) nxt in if rest = [] then Merged base' else StrategyEnd base' rest)"
    using assms(2,3,5) m del all
    by (auto simp: schema_strategy_def as_runtime_error_def Let_def split: if_splits)
  then show ?thesis using p by blast
qed

text \<open>A value strategy for the examples: the entries of the new dictionary replace those of the base.\<close>

definition override_entries :: value_strategy where
  "override_entries path base nxt =
     (case (base, nxt) of
        (PDict d, PDict e) \<Rightarrow> Inr (PDict (fold (\<lambda>(k, v). if k = ''name'' then id else AList.update k v) e d))
      | _ \<Rightarrow> Inr nxt)"

lemma override_entries_keeps_key: "keeps_key override_entries ''name''"
proof -
  have "map_of (fold (\<lambda>(k, v). if k = ''name'' then id else AList.update k v) e d) ''name'' = map_of d ''name''"
    for e d :: "(string \<times> pv) list"
    by (induction e arbitrary: d) (auto simp: update_conv')
  then show ?thesis
    by (auto simp: keeps_key_def keys_match_def override_entries_def split: option.splits elim!: pk_value.elims)
qed

abbreviation named :: "string \<Rightarrow> int \<Rightarrow> pv" where
  "named n i \<equiv> PDict [(''name'', PStr n), (''id'', PInt i)]"

theorem schema_strategy_merges_witness:
  "schema_strategy (Some ''eos_config'') (\<lambda>_ _. Inr (Some ''name'')) override_entries []
     [named ''a'' 1, named ''b'' 2] [named ''c'' 3, named ''a'' 4]
     = Inr (StrategyEnd [named ''a'' 4, named ''b'' 2] [named ''c'' 3]) \<and>
   (\<exists>base'. StrategyEnd [named ''a'' 4, named ''b'' 2] [named ''c'' 3] = StrategyEnd base' [named ''c'' 3])"
proof -
  have run: "schema_strategy (Some ''eos_config'') (\<lambda>_ _. Inr (Some ''name'')) override_entries []
     [named ''a'' 1, named ''b'' 2] [named ''c'' 3, named ''a'' 4]
     = Inr (StrategyEnd [named ''a'' 4, named ''b'' 2] [named ''c'' 3])"
    by code_simp
  have "\<forall>n \<in> set [named ''c'' 3, named ''a'' 4].
      length (filter (keys_match ''name'' n) [named ''a'' 1, named ''b'' 2]) \<le> 1"
    by (simp add: keys_match_def)
  from schema_strategy_merges [OF override_entries_keeps_key _ _ this run] run show ?thesis
    by (auto simp: keys_match_def)
qed

text \<open>With a key that the base holds twice, a merged item is counted twice and a new item that was
  never merged is lost.\<close>

theorem schema_strategy_loses_item:
  "schema_strategy (Some ''eos_config'') (\<lambda>_ _. Inr (Some ''name'')) override_entries []
     [named ''a'' 1, named ''a'' 2] [named ''a'' 3, named ''c'' 4] = Inr (Merged [named ''a'' 3, named ''a'' 3])"
  by code_simp

end
