(* ===== verification/SchemaModel.thy ===== *)
theory SchemaModel
  imports PyData
begin

text \<open>
  \<open>pyavd/_schema\<close>: the typed data classes that hold the inputs and the structured configuration
  (\<open>AvdModel\<close>, \<open>AvdList\<close>, \<open>AvdIndexedList\<close>), how they are loaded from untyped data and dumped to it.
  The classes themselves are generated from the schemas: a table \<open>classes\<close> from class names to the
  class attributes the base classes read (\<open>_fields\<close>, \<open>_item_type\<close>, \<open>_primary_key\<close>, ...) is an argument.
  An object is a tree of values; an operation that updates an object in place returns the updated
  object. Dictionary keys of untyped data are texts.
\<close>

section \<open>Classes and objects\<close>

datatype scalar = TStr | TInt | TBool

text \<open>The type of a field: a scalar, \<open>dict\<close>, or a class of the table.\<close>

datatype field_type = FScalar scalar | FDict | FClass string

text \<open>Objects. The last two flags of an object are \<open>_created_from_null\<close> and \<open>_block_inheritance\<close>; the
  fields of a model are its \<open>__dict__\<close>: the fields that are set, in the order they were set.
  Untyped values are scalars and the values of \<open>dict\<close> fields. The keys of an indexed list are those
  of Python's dictionary, so True and 1 are one key.\<close>

datatype mval =
    MVal pv
  | MModel string "(string \<times> mval) list" "(string \<times> pv) list" "string list" bool bool
  | MList string "mval list" bool bool
  | MIndexed string "(pv \<times> mval) list" bool bool

text \<open>A field and its default: for a scalar the value, for other types what the default function
  returns.\<close>

record field_info =
  field_ty :: field_type
  field_default :: "mval option"

datatype item_type = IAny | IScalar scalar | IModel string

record model_class =
  model_fields :: "(string \<times> field_info) list"
  key_to_field :: "(string \<times> string) list"
  field_to_key :: "(string \<times> string) list"
  allow_other_keys :: bool

datatype class_info =
    CModel model_class
  | CList item_type
  | CIndexed string string  \<comment> \<open>item class and primary key\<close>

type_synonym class_table = "string \<Rightarrow> class_info option"

fun model_class_of :: "class_info option \<Rightarrow> model_class option" where
  "model_class_of (Some (CModel c)) = Some c"
| "model_class_of _ = None"

definition field_of :: "class_table \<Rightarrow> string \<Rightarrow> string \<Rightarrow> field_info option" where
  "field_of T c f = Option.bind (model_class_of (T c)) (\<lambda>m. map_of (model_fields m) f)"

definition field_type_of :: "class_table \<Rightarrow> string \<Rightarrow> string \<Rightarrow> (py_exn, field_type) result" where
  "field_type_of T c f = (case field_of T c f of None \<Rightarrow> Inl KeyError | Some i \<Rightarrow> Inr (field_ty i))"

definition is_class_type :: "field_type \<Rightarrow> bool" where
  "is_class_type t = (case t of FClass _ \<Rightarrow> True | _ \<Rightarrow> False)"

fun created_from_null :: "mval \<Rightarrow> bool" where
  "created_from_null (MVal _) = False"
| "created_from_null (MModel _ _ _ _ n _) = n"
| "created_from_null (MList _ _ n _) = n"
| "created_from_null (MIndexed _ _ n _) = n"

text \<open>\<open>field_type()\<close> and \<open>_from_null\<close>\<close>

definition new_instance :: "class_table \<Rightarrow> string \<Rightarrow> bool \<Rightarrow> mval" where
  "new_instance T c null =
     (case T c of
        Some (CList _) \<Rightarrow> MList c [] null False
      | Some (CIndexed _ _) \<Rightarrow> MIndexed c [] null False
      | _ \<Rightarrow> MModel c [] [] [] null False)"

definition from_null :: "class_table \<Rightarrow> string \<Rightarrow> mval" where
  "from_null T c = new_instance T c True"

text \<open>\<open>_get_field_default_value\<close>\<close>

definition get_field_default_value :: "class_table \<Rightarrow> string \<Rightarrow> string \<Rightarrow> (py_exn, mval) result" where
  "get_field_default_value T c f =
     (case field_of T c f of
        None \<Rightarrow> Inl AttributeError
      | Some i \<Rightarrow>
          (case field_default i of
             Some v \<Rightarrow> Inr v
           | None \<Rightarrow>
               (case field_ty i of
                  FClass d \<Rightarrow> Inr (new_instance T d False)
                | FDict \<Rightarrow> Inr (MVal (PDict []))
                | FScalar _ \<Rightarrow> Inr (MVal PNone))))"

text \<open>Reading an attribute sets a field that is not set to its default (\<open>__getattr__\<close>).\<close>

definition get_attr :: "class_table \<Rightarrow> mval \<Rightarrow> string \<Rightarrow> (py_exn, mval \<times> mval) result" where
  "get_attr T m f =
     (case m of
        MModel c fs cu sk n b \<Rightarrow>
          (case map_of fs f of
             Some v \<Rightarrow> Inr (v, m)
           | None \<Rightarrow> rbind (get_field_default_value T c f) (\<lambda>v. Inr (v, MModel c (AList.update f v fs) cu sk n b)))
      | _ \<Rightarrow> Inl AttributeError)"

text \<open>\<open>_get_defined_attr\<close> (None for Undefined), \<open>_get\<close> and \<open>_update\<close>\<close>

fun get_defined_attr :: "mval \<Rightarrow> string \<Rightarrow> mval option" where
  "get_defined_attr (MModel _ fs _ _ _ _) f = map_of fs f"
| "get_defined_attr _ f = None"

definition model_get :: "mval \<Rightarrow> string \<Rightarrow> mval \<Rightarrow> mval" where
  "model_get m f dflt = (case get_defined_attr m f of None \<Rightarrow> dflt | Some v \<Rightarrow> v)"

fun model_update :: "mval \<Rightarrow> (string \<times> mval option) list \<Rightarrow> mval" where
  "model_update (MModel c fs cu sk n b) kwargs =
     MModel c (fold (\<lambda>(f, v) acc. case v of None \<Rightarrow> acc | Some x \<Rightarrow> AList.update f x acc) kwargs fs) cu sk n b"
| "model_update m kwargs = m"

section \<open>Comparing\<close>

text \<open>\<open>==\<close>, which is \<open>_compare\<close> for objects: custom data, skipped keys and the order of fields and keys
  do not count.\<close>

lemma size_mem_fields [termination_simp]:
  "(k, v) \<in> set fs \<Longrightarrow> size v < Suc (size_list (\<lambda>p. Suc (size (snd p))) fs)"
  by (induction fs) auto

lemma size_mem_fields' [termination_simp]:
  "(k, v) \<in> set fs \<Longrightarrow> size v < Suc (size_list (size_prod (\<lambda>x. 0) size) fs)"
  by (induction fs) auto

fun mval_eq :: "mval \<Rightarrow> mval \<Rightarrow> bool" where
  "mval_eq (MVal v) m = (case m of MVal w \<Rightarrow> py_eq v w | _ \<Rightarrow> False)"
| "mval_eq (MModel c fs cu sk n b) m =
     (case m of
        MModel c' gs _ _ n' _ \<Rightarrow>
          c = c' \<and> set (dict_keys fs) = set (dict_keys gs) \<and> n = n' \<and>
          list_all (\<lambda>(f, v). case map_of gs f of Some w \<Rightarrow> mval_eq v w | None \<Rightarrow> False) fs
      | _ \<Rightarrow> False)"
| "mval_eq (MList c xs n b) m =
     (case m of
        MList c' ys n' _ \<Rightarrow> c = c' \<and> length xs = length ys \<and> n = n' \<and> list_all (\<lambda>(x, y). mval_eq x y) (zip xs ys)
      | _ \<Rightarrow> False)"
| "mval_eq (MIndexed c xs n b) m =
     (case m of
        MIndexed c' ys n' _ \<Rightarrow>
          c = c' \<and> set (dict_keys xs) = set (dict_keys ys) \<and> n = n' \<and>
          list_all (\<lambda>(k, v). case map_of ys k of Some w \<Rightarrow> mval_eq v w | None \<Rightarrow> False) xs
      | _ \<Rightarrow> False)"

text \<open>\<open>_compare\<close> of two models with fields to ignore\<close>

fun model_compare :: "mval \<Rightarrow> mval \<Rightarrow> string list \<Rightarrow> bool" where
  "model_compare (MModel c fs cu sk n b) (MModel c' gs cu' sk' n' b') ignore_fields =
     (c = c' \<and> list_all (\<lambda>f. f \<in> set ignore_fields \<or> f \<in> set (dict_keys gs)) (dict_keys fs)
        \<and> list_all (\<lambda>f. f \<in> set ignore_fields \<or> f \<in> set (dict_keys fs)) (dict_keys gs) \<and> n = n' \<and>
      list_all (\<lambda>(f, v). f \<in> set ignore_fields \<or> (case map_of gs f of Some w \<Rightarrow> mval_eq v w | None \<Rightarrow> False)) fs)"
| "model_compare _ _ _ = False"

section \<open>Loading\<close>

text \<open>\<open>int(text)\<close>: surrounding white space, a sign, and digits with single underscores between them.\<close>

definition is_white :: "char \<Rightarrow> bool" where
  "is_white c \<longleftrightarrow> (of_char c :: nat) \<in> {9, 10, 11, 12, 13, 28, 29, 30, 31, 32}"

definition strip_white :: "string \<Rightarrow> string" where
  "strip_white s = rev (dropWhile is_white (rev (dropWhile is_white s)))"

definition digits_of_text :: "string \<Rightarrow> string option" where
  "digits_of_text s =
     (let parts = split_on CHR ''_'' s
      in if list_all (\<lambda>p. p \<noteq> [] \<and> list_all is_digit p) parts then Some (concat parts) else None)"

definition int_of_text :: "string \<Rightarrow> int option" where
  "int_of_text s =
     (case strip_white s of
        [] \<Rightarrow> None
      | c # cs \<Rightarrow>
          (if c = CHR ''-'' then map_option (\<lambda>d. - int (nat_of_str d)) (digits_of_text cs)
           else if c = CHR ''+'' then map_option (\<lambda>d. int (nat_of_str d)) (digits_of_text cs)
           else map_option (\<lambda>d. int (nat_of_str d)) (digits_of_text (c # cs))))"

text \<open>The coercions of \<open>ACCEPTED_COERCION_MAP\<close>; a boolean is an instance of int.\<close>

definition coerce_scalar :: "pv \<Rightarrow> scalar \<Rightarrow> (py_exn, pv) result" where
  "coerce_scalar v t =
     (case (t, v) of
        (_, PNone) \<Rightarrow> Inr PNone
      | (TStr, PStr s) \<Rightarrow> Inr v
      | (TInt, PInt i) \<Rightarrow> Inr v
      | (TInt, PBool b) \<Rightarrow> Inr v
      | (TBool, PBool b) \<Rightarrow> Inr v
      | (TInt, PStr s) \<Rightarrow> (case int_of_text s of Some i \<Rightarrow> Inr (PInt i) | None \<Rightarrow> Inl TypeError)
      | (TStr, PInt i) \<Rightarrow> Inr (PStr (int_str i))
      | (TStr, PBool b) \<Rightarrow> Inr (PStr (if b then ''True'' else ''False''))
      | (TBool, PStr s) \<Rightarrow> Inr (PBool (s \<noteq> []))
      | (TBool, PInt i) \<Rightarrow> Inr (PBool (i \<noteq> 0))
      | _ \<Rightarrow> Inl TypeError)"

text \<open>\<open>_get_field_name\<close>\<close>

definition get_field_name :: "model_class \<Rightarrow> string \<Rightarrow> string option" where
  "get_field_name m key =
     (let f = (case map_of (key_to_field m) key of Some f \<Rightarrow> f | None \<Rightarrow> key)
      in if map_of (model_fields m) f = None then None else Some f)"

text \<open>The dictionary key of a primary key value; a value that is no scalar cannot be a key.\<close>

fun dict_key :: "mval \<Rightarrow> (py_exn, pv) result" where
  "dict_key (MVal (PBool b)) = Inr (PInt (of_bool b))"
| "dict_key (MVal (PList _)) = Inl TypeError"
| "dict_key (MVal (PDict _)) = Inl TypeError"
| "dict_key (MVal v) = Inr v"
| "dict_key _ = Inl TypeError"

text \<open>\<open>AvdIndexedList(items)\<close>: keyed by the primary key of each item, a later item replaces an earlier
  one with its key.\<close>

fun indexed_items :: "class_table \<Rightarrow> string \<Rightarrow> (pv \<times> mval) list \<Rightarrow> mval list \<Rightarrow> (py_exn, (pv \<times> mval) list) result" where
  "indexed_items T pk acc [] = Inr acc"
| "indexed_items T pk acc (x # xs) =
     rbind (get_attr T x pk) (\<lambda>(v, x'). rbind (dict_key v) (\<lambda>k. indexed_items T pk (AList.update k x' acc) xs))"

definition indexed_of :: "class_table \<Rightarrow> string \<Rightarrow> mval list \<Rightarrow> (py_exn, mval) result" where
  "indexed_of T c items =
     (case T c of
        Some (CIndexed item pk) \<Rightarrow> rbind (indexed_items T pk [] items) (\<lambda>xs. Inr (MIndexed c xs False False))
      | _ \<Rightarrow> Inl AttributeError)"

text \<open>\<open>coerce_type\<close> and \<open>_load\<close>. The loop of \<open>_from_dict\<close> collects the arguments, the custom data and the
  skipped keys. A text is a sequence of its characters.\<close>

fun sequence_chars :: "scalar option \<Rightarrow> string \<Rightarrow> (py_exn, mval list) result" where
  "sequence_chars None s = Inr (map (\<lambda>c. MVal (PStr [c])) s)"
| "sequence_chars (Some t) s = rmap (\<lambda>c. rbind (coerce_scalar (PStr [c]) t) (\<lambda>v. Inr (MVal v))) s"

fun coerce :: "class_table \<Rightarrow> pv \<Rightarrow> field_type \<Rightarrow> (py_exn, mval) result"
and load_fields :: "class_table \<Rightarrow> model_class \<Rightarrow> (string \<times> pv) list \<Rightarrow>
  (string \<times> mval) list \<times> (string \<times> pv) list \<times> string list \<Rightarrow>
  (py_exn, (string \<times> mval) list \<times> (string \<times> pv) list \<times> string list) result"
and load_items :: "class_table \<Rightarrow> item_type \<Rightarrow> pv list \<Rightarrow> (py_exn, mval list) result" where
  "coerce T v (FScalar t) = rbind (coerce_scalar v t) (\<lambda>w. Inr (MVal w))"
| "coerce T v FDict =
     (case v of PNone \<Rightarrow> Inr (MVal v) | PDict _ \<Rightarrow> Inr (MVal v) | _ \<Rightarrow> Inl TypeError)"
| "coerce T v (FClass c) =
     (if v = PNone then Inr (from_null T c)
      else case T c of
        Some (CModel m) \<Rightarrow>
          (case v of
             PDict d \<Rightarrow> rbind (load_fields T m d ([], [], [])) (\<lambda>(fs, cu, sk). Inr (MModel c fs cu sk False False))
           | _ \<Rightarrow> Inl TypeError)
      | Some (CList it) \<Rightarrow>
          (case v of
             PList xs \<Rightarrow> rbind (load_items T it xs) (\<lambda>ys. Inr (MList c ys False False))
           | PStr s \<Rightarrow>
               (case it of
                  IAny \<Rightarrow> rbind (sequence_chars None s) (\<lambda>ys. Inr (MList c ys False False))
                | IScalar t \<Rightarrow> rbind (sequence_chars (Some t) s) (\<lambda>ys. Inr (MList c ys False False))
                | IModel _ \<Rightarrow> if s = [] then Inr (MList c [] False False) else Inl TypeError)
           | _ \<Rightarrow> Inl TypeError)
      | Some (CIndexed item pk) \<Rightarrow>
          (case v of
             PList xs \<Rightarrow> rbind (load_items T (IModel item) xs) (\<lambda>ys. indexed_of T c ys)
           | PStr s \<Rightarrow> if s = [] then Inr (MIndexed c [] False False) else Inl TypeError
           | _ \<Rightarrow> Inl TypeError)
      | None \<Rightarrow> Inl TypeError)"
| "load_fields T m [] acc = Inr acc"
| "load_fields T m ((key, v) # d) (fs, cu, sk) =
     (case get_field_name m key of
        None \<Rightarrow>
          if startswith key ''_'' then load_fields T m d (fs, AList.update key v cu, sk)
          else if allow_other_keys m then load_fields T m d (fs, cu, List.insert key sk)
          else Inl KeyError
      | Some f \<Rightarrow>
          rbind (coerce T v (case map_of (model_fields m) f of Some i \<Rightarrow> field_ty i | None \<Rightarrow> FDict)) (\<lambda>x.
            load_fields T m d (AList.update f x fs, cu, sk)))"
| "load_items T it [] = Inr []"
| "load_items T it (v # vs) =
     rbind (case it of
              IAny \<Rightarrow> Inr (MVal v)
            | IScalar t \<Rightarrow> coerce T v (FScalar t)
            | IModel c \<Rightarrow> coerce T v (FClass c)) (\<lambda>x.
     rbind (load_items T it vs) (\<lambda>xs. Inr (x # xs)))"

text \<open>\<open>_load\<close> on a class\<close>

definition load :: "class_table \<Rightarrow> string \<Rightarrow> pv \<Rightarrow> (py_exn, mval) result" where
  "load T c data = (if data = PNone then Inl TypeError else coerce T data (FClass c))"

section \<open>Dumping\<close>

text \<open>\<open>_dump\<close> without default values: the set fields in the order of the class, an object created from
  null as None, then the custom data.\<close>

definition field_order :: "class_table \<Rightarrow> string \<Rightarrow> string \<Rightarrow> nat" where
  "field_order T c f =
     (case model_class_of (T c) of
        None \<Rightarrow> 0
      | Some m \<Rightarrow> length (takeWhile (\<lambda>(g, _). g \<noteq> f) (model_fields m)))"

definition field_key :: "class_table \<Rightarrow> string \<Rightarrow> string \<Rightarrow> string" where
  "field_key T c f =
     (case Option.bind (model_class_of (T c)) (\<lambda>m. map_of (field_to_key m) f) of Some k \<Rightarrow> k | None \<Rightarrow> f)"

fun dump :: "class_table \<Rightarrow> mval \<Rightarrow> (py_exn, pv) result" where
  "dump T (MVal v) = Inl AttributeError"
| "dump T (MModel c fs cu sk n b) =
     rbind (rmap (\<lambda>(f, v). rbind (field_type_of T c f) (\<lambda>ty.
              if is_class_type ty
              then (case v of
                      MVal _ \<Rightarrow> Inl AttributeError
                    | _ \<Rightarrow> if created_from_null v then Inr (f, PNone)
                           else rbind (dump T v) (\<lambda>w. Inr (f, w)))
              else (case v of MVal w \<Rightarrow> Inr (f, w) | _ \<Rightarrow> Inl TypeError))) fs) (\<lambda>ps.
       Inr (PDict (fold (\<lambda>(k, v) acc. AList.update k v acc) cu
         (dict_of (map (\<lambda>(f, v). (field_key T c f, v)) (sort_key (\<lambda>(f, _). field_order T c f) ps))))))"
| "dump T (MList c xs n b) =
     (case T c of
        Some (CList (IModel _)) \<Rightarrow> rbind (rmap (dump T) xs) (\<lambda>ys. Inr (PList ys))
      | _ \<Rightarrow> rbind (rmap (\<lambda>x. case x of MVal v \<Rightarrow> Inr v | _ \<Rightarrow> Inl TypeError) xs) (\<lambda>ys. Inr (PList ys)))"
| "dump T (MIndexed c xs n b) = rbind (rmap (\<lambda>(k, x). dump T x) xs) (\<lambda>ys. Inr (PList ys))"

section \<open>Stripping\<close>

text \<open>\<open>bool(object)\<close>\<close>

fun model_truth :: "mval \<Rightarrow> bool" where
  "model_truth (MVal v) = True"
| "model_truth (MModel _ fs cu _ _ _) = (fs \<noteq> [] \<or> cu \<noteq> [])"
| "model_truth (MList _ xs _ _) = (xs \<noteq> [])"
| "model_truth (MIndexed _ xs _ _) = (xs \<noteq> [])"

text \<open>\<open>_strip_empties\<close>\<close>

fun strip_empties :: "class_table \<Rightarrow> mval \<Rightarrow> (py_exn, mval) result" where
  "strip_empties T (MVal v) = Inl AttributeError"
| "strip_empties T (MModel c fs cu sk n b) =
     rbind (rmap (\<lambda>(f, v). rbind (field_type_of T c f) (\<lambda>ty.
              if is_class_type ty then rbind (strip_empties T v) (\<lambda>v'. Inr (f, v')) else Inr (f, v))) fs) (\<lambda>fs'.
       Inr (MModel c (filter (\<lambda>(f, v). model_truth v \<and> v \<noteq> MVal PNone) fs') cu sk n b))"
| "strip_empties T (MList c xs n b) =
     (case T c of
        Some (CList (IModel _)) \<Rightarrow> rbind (rmap (strip_empties T) xs) (\<lambda>ys. Inr (MList c (filter model_truth ys) n b))
      | _ \<Rightarrow> Inr (MList c (filter (\<lambda>x. x \<noteq> MVal PNone) xs) n b))"
| "strip_empties T (MIndexed c xs n b) =
     rbind (rmap (\<lambda>(k, x). rbind (strip_empties T x) (\<lambda>x'. Inr (k, x'))) xs) (\<lambda>ys.
       Inr (MIndexed c (filter (\<lambda>(_, x). model_truth x) ys) n b))"

section \<open>Well-typed objects\<close>

definition scalar_ok :: "scalar \<Rightarrow> pv \<Rightarrow> bool" where
  "scalar_ok t v =
     (case v of PNone \<Rightarrow> True | PStr _ \<Rightarrow> t = TStr | PInt _ \<Rightarrow> t = TInt | PBool _ \<Rightarrow> t = TInt \<or> t = TBool | _ \<Rightarrow> False)"

text \<open>The object has the class the type names, only fields of its class with values of their types, and
  its items are filed under their primary keys.\<close>

definition item_field_type :: "item_type \<Rightarrow> field_type option" where
  "item_field_type it = (case it of IAny \<Rightarrow> None | IScalar t \<Rightarrow> Some (FScalar t) | IModel c \<Rightarrow> Some (FClass c))"

definition filed_under :: "string \<Rightarrow> pv \<Rightarrow> mval \<Rightarrow> bool" where
  "filed_under pk k x \<longleftrightarrow> (case get_defined_attr x pk of Some v \<Rightarrow> dict_key v = Inr k | None \<Rightarrow> False)"

fun wf_val :: "class_table \<Rightarrow> field_type \<Rightarrow> mval \<Rightarrow> bool" where
  "wf_val T ty (MVal w) =
     (case ty of
        FScalar t \<Rightarrow> scalar_ok t w
      | FDict \<Rightarrow> w = PNone \<or> (case w of PDict _ \<Rightarrow> pv_wf w | _ \<Rightarrow> False)
      | FClass _ \<Rightarrow> False)"
| "wf_val T ty (MModel c fs cu sk n b) =
     (ty = FClass c \<and>
      (case T c of
         Some (CModel m) \<Rightarrow>
           dict_wf fs \<and> dict_wf cu \<and>
           list_all (\<lambda>(k, _). startswith k ''_'' \<and> get_field_name m k = None) cu \<and>
           list_all (\<lambda>(f, v). case map_of (model_fields m) f of Some i \<Rightarrow> wf_val T (field_ty i) v | None \<Rightarrow> False) fs
       | _ \<Rightarrow> False))"
| "wf_val T ty (MList c xs n b) =
     (ty = FClass c \<and>
      (case T c of
         Some (CList it) \<Rightarrow>
           (case item_field_type it of
              None \<Rightarrow> list_all (\<lambda>x. case x of MVal w \<Rightarrow> pv_wf w | _ \<Rightarrow> False) xs
            | Some t \<Rightarrow> list_all (\<lambda>x. wf_val T t x) xs)
       | _ \<Rightarrow> False))"
| "wf_val T ty (MIndexed c xs n b) =
     (ty = FClass c \<and>
      (case T c of
         Some (CIndexed d pk) \<Rightarrow>
           dict_wf xs \<and>
           list_all (\<lambda>(k, x). wf_val T (FClass d) x \<and> filed_under pk k x) xs
       | _ \<Rightarrow> False))"

text \<open>What is asked of the class table: fields have distinct names, keys map to fields and back, default
  values have the type of their field, and the primary key of an indexed list is a scalar field of
  its items.\<close>

definition model_class_ok :: "class_table \<Rightarrow> model_class \<Rightarrow> bool" where
  "model_class_ok T m \<longleftrightarrow>
     dict_wf (model_fields m) \<and>
     (\<forall>f i. map_of (model_fields m) f = Some i \<longrightarrow>
        get_field_name m (case map_of (field_to_key m) f of Some k \<Rightarrow> k | None \<Rightarrow> f) = Some f \<and>
        (case field_ty i of FClass c \<Rightarrow> T c \<noteq> None | _ \<Rightarrow> True) \<and>
        (case field_default i of Some v \<Rightarrow> wf_val T (field_ty i) v | None \<Rightarrow> True))"

definition table_ok :: "class_table \<Rightarrow> bool" where
  "table_ok T \<longleftrightarrow>
     (\<forall>c. case T c of
        None \<Rightarrow> True
      | Some (CModel m) \<Rightarrow> model_class_ok T m
      | Some (CList it) \<Rightarrow> (case it of IModel d \<Rightarrow> model_class_of (T d) \<noteq> None | _ \<Rightarrow> True)
      | Some (CIndexed d pk) \<Rightarrow>
          (case model_class_of (T d) of
             None \<Rightarrow> False
           | Some m \<Rightarrow> (case map_of (model_fields m) pk of Some i \<Rightarrow> (case field_ty i of FScalar _ \<Rightarrow> True | _ \<Rightarrow> False) | None \<Rightarrow> False)))"

lemma scalar_ok_coerce: "coerce_scalar v t = Inr w \<Longrightarrow> scalar_ok t w"
  by (auto simp: coerce_scalar_def scalar_ok_def split: pv.splits scalar.splits option.splits)

lemma scalar_ok_id: "scalar_ok t w \<Longrightarrow> coerce_scalar w t = Inr w"
  by (auto simp: coerce_scalar_def scalar_ok_def split: pv.splits scalar.splits)

lemma scalar_ok_pv: "scalar_ok t w \<Longrightarrow> pv_wf w"
  by (cases w) (auto simp: scalar_ok_def)

section \<open>Loading gives well-typed objects\<close>

lemma new_instance_wf: "T c \<noteq> None \<Longrightarrow> wf_val T (FClass c) (new_instance T c null)"
  by (auto simp: new_instance_def split: class_info.splits option.splits)

lemma default_wf:
  assumes "table_ok T" "T c = Some (CModel m)" "map_of (model_fields m) f = Some i"
    "get_field_default_value T c f = Inr v"
  shows "wf_val T (field_ty i) v"
proof -
  have "model_class_ok T m" using assms(1,2) unfolding table_ok_def by (metis class_info.simps(10) option.simps(5))
  then have ok: "case field_ty i of FClass c \<Rightarrow> T c \<noteq> None | _ \<Rightarrow> True"
      "case field_default i of Some v \<Rightarrow> wf_val T (field_ty i) v | None \<Rightarrow> True"
    using assms(3) by (auto simp: model_class_ok_def)
  have "field_of T c f = Some i" using assms(2,3) by (simp add: field_of_def)
  with assms(4) ok show ?thesis
    by (auto simp: get_field_default_value_def scalar_ok_def new_instance_wf split: option.splits field_type.splits)
qed

lemma dict_update_all:
  "list_all P d \<Longrightarrow> P (k, v) \<Longrightarrow> list_all P (AList.update k v d)"
  by (induction d) (auto split: if_splits)

lemma wf_set_field:
  assumes "wf_val T (FClass c) (MModel c fs cu sk n b)" "T c = Some (CModel m)"
    "map_of (model_fields m) f = Some i" "wf_val T (field_ty i) v"
  shows "wf_val T (FClass c) (MModel c (AList.update f v fs) cu sk n b)"
  using assms by (auto simp: dict_update_wf intro!: dict_update_all)

lemma get_attr_wf:
  assumes "table_ok T" "T c = Some (CModel m)" "map_of (model_fields m) f = Some i"
    "wf_val T (FClass c) x" "get_attr T x f = Inr (v, x')"
  shows "wf_val T (FClass c) x' \<and> get_defined_attr x' f = Some v \<and> wf_val T (field_ty i) v"
proof -
  obtain fs cu sk n b where x: "x = MModel c fs cu sk n b"
    using assms(4,5) by (cases x) (auto simp: get_attr_def)
  show ?thesis
  proof (cases "map_of fs f")
    case None
    then obtain d where d: "get_field_default_value T c f = Inr d" "v = d" "x' = MModel c (AList.update f d fs) cu sk n b"
      using assms(5) x by (auto simp: get_attr_def)
    have "wf_val T (field_ty i) d" by (rule default_wf [OF assms(1-3) d(1)])
    moreover have "wf_val T (FClass c) x'"
      unfolding d(3) by (rule wf_set_field [OF assms(4) [unfolded x] assms(2,3) calculation])
    ultimately show ?thesis by (simp add: d(2,3) dict_update_get)
  next
    case (Some w)
    then have "v = w" "x' = x" using assms(5) x by (auto simp: get_attr_def)
    moreover have "wf_val T (field_ty i) w"
      using assms(2-4) x dict_get_mem [OF Some] by (auto simp: list_all_iff)
    ultimately show ?thesis using Some assms(4) x by simp
  qed
qed

lemma scalar_dict_key: "wf_val T (FScalar t) v \<Longrightarrow> \<exists>k. dict_key v = Inr k"
  by (cases v) (auto simp: scalar_ok_def split: pv.splits)

lemma indexed_items_wf:
  assumes "table_ok T" "T c = Some (CModel m)" "map_of (model_fields m) pk = Some i"
    and "indexed_items T pk acc xs = Inr ys" "list_all (wf_val T (FClass c)) xs" "dict_wf acc"
    and "list_all (\<lambda>(k, x). wf_val T (FClass c) x \<and> filed_under pk k x) acc"
  shows "dict_wf ys \<and> list_all (\<lambda>(k, x). wf_val T (FClass c) x \<and> filed_under pk k x) ys"
  using assms(4-7)
proof (induction xs arbitrary: acc)
  case (Cons x xs)
  then obtain v x' k where x': "get_attr T x pk = Inr (v, x')" "dict_key v = Inr k"
      "indexed_items T pk (AList.update k x' acc) xs = Inr ys" by auto
  have "wf_val T (FClass c) x' \<and> filed_under pk k x'"
    using get_attr_wf [OF assms(1-3) _ x'(1)] Cons.prems(2) x'(2) by (simp add: filed_under_def)
  then have "list_all (\<lambda>(k, x). wf_val T (FClass c) x \<and> filed_under pk k x) (AList.update k x' acc)"
    using Cons.prems(4) by (intro dict_update_all) auto
  then show ?case using Cons.IH [OF x'(3) _ dict_update_wf] Cons.prems(2,3) by simp
qed simp

definition fields_ok :: "class_table \<Rightarrow> model_class \<Rightarrow> (string \<times> mval) list \<times> (string \<times> pv) list \<times> string list \<Rightarrow> bool" where
  "fields_ok T m = (\<lambda>(fs, cu, _). dict_wf fs \<and> dict_wf cu \<and>
     list_all (\<lambda>(k, _). startswith k ''_'' \<and> get_field_name m k = None) cu \<and>
     list_all (\<lambda>(f, v). case map_of (model_fields m) f of Some i \<Rightarrow> wf_val T (field_ty i) v | None \<Rightarrow> False) fs)"

lemma wf_val_model:
  "T c = Some (CModel m) \<Longrightarrow> wf_val T ty (MModel c fs cu sk n b) \<longleftrightarrow> ty = FClass c \<and> fields_ok T m (fs, cu, sk)"
  by (simp add: fields_ok_def)

definition item_ok :: "class_table \<Rightarrow> item_type \<Rightarrow> mval \<Rightarrow> bool" where
  "item_ok T it x =
     (case item_field_type it of
        None \<Rightarrow> (case x of MVal w \<Rightarrow> pv_wf w | _ \<Rightarrow> False)
      | Some t \<Rightarrow> wf_val T t x)"

lemma wf_val_list:
  "T c = Some (CList it) \<Longrightarrow> wf_val T ty (MList c xs n b) \<longleftrightarrow> ty = FClass c \<and> list_all (item_ok T it) xs"
  by (auto simp: item_ok_def [abs_def] split: option.splits)

lemma table_ok_model: "table_ok T \<Longrightarrow> T c = Some (CModel m) \<Longrightarrow> model_class_ok T m"
  unfolding table_ok_def by (metis class_info.simps(10) option.simps(5))

lemma table_ok_list: "table_ok T \<Longrightarrow> T c = Some (CList (IModel d)) \<Longrightarrow> \<exists>m. T d = Some (CModel m)"
  unfolding table_ok_def
  by (drule spec [of _ c]) (auto elim!: model_class_of.elims)

lemma table_ok_indexed:
  "table_ok T \<Longrightarrow> T c = Some (CIndexed d pk) \<Longrightarrow>
    \<exists>m i t. T d = Some (CModel m) \<and> map_of (model_fields m) pk = Some i \<and> field_ty i = FScalar t"
  unfolding table_ok_def
  by (drule spec [of _ c]) (auto elim!: model_class_of.elims split: option.splits field_type.splits)

lemma get_field_name_Some: "get_field_name m k = Some f \<Longrightarrow> \<exists>i. map_of (model_fields m) f = Some i"
  by (auto simp: get_field_name_def Let_def split: if_splits)

lemma sequence_chars_ok:
  "sequence_chars t s = Inr xs \<Longrightarrow> it = (case t of None \<Rightarrow> IAny | Some u \<Rightarrow> IScalar u) \<Longrightarrow> list_all (item_ok T it) xs"
proof (cases t)
  case (Some u)
  assume "sequence_chars t s = Inr xs" "it = (case t of None \<Rightarrow> IAny | Some u \<Rightarrow> IScalar u)"
  with Some have "list_all2 (\<lambda>c x. rbind (coerce_scalar (PStr [c]) u) (\<lambda>v. Inr (MVal v)) = Inr x) s xs" "it = IScalar u"
    by (simp_all add: rmap_Inr_iff)
  then show ?thesis
    by (induction rule: list_all2_induct) (auto simp: item_ok_def item_field_type_def dest: scalar_ok_coerce)
qed (auto simp: item_ok_def item_field_type_def list_all_iff)

definition type_known :: "class_table \<Rightarrow> field_type \<Rightarrow> bool" where
  "type_known T ty = (case ty of FClass c \<Rightarrow> T c \<noteq> None | _ \<Rightarrow> True)"

lemma indexed_of_wf:
  assumes "table_ok T" "T c = Some (CIndexed d pk)" "list_all (wf_val T (FClass d)) xs" "indexed_of T c xs = Inr x"
  shows "wf_val T (FClass c) x"
proof -
  obtain m i t where m: "T d = Some (CModel m)" "map_of (model_fields m) pk = Some i"
    using table_ok_indexed [OF assms(1,2)] by blast
  obtain ys where ys: "indexed_items T pk [] xs = Inr ys" "x = MIndexed c ys False False"
    using assms(2,4) by (auto simp: indexed_of_def)
  show ?thesis using indexed_items_wf [OF assms(1) m ys(1) assms(3)] assms(2) by (simp add: ys(2))
qed

lemma coerce_model:
  "coerce T v (FClass c) = Inr x \<Longrightarrow> v \<noteq> PNone \<Longrightarrow> T c = Some (CModel m) \<Longrightarrow>
    \<exists>d fs cu sk. v = PDict d \<and> load_fields T m d ([], [], []) = Inr (fs, cu, sk) \<and> x = MModel c fs cu sk False False"
  by (auto split: pv.splits)

lemma coerce_list:
  assumes "coerce T v (FClass c) = Inr x" "v \<noteq> PNone" "T c = Some (CList it)"
  shows "\<exists>ys. x = MList c ys False False \<and>
      ((\<exists>xs. v = PList xs \<and> load_items T it xs = Inr ys) \<or>
       (\<exists>s t. v = PStr s \<and> sequence_chars t s = Inr ys \<and> it = (case t of None \<Rightarrow> IAny | Some u \<Rightarrow> IScalar u)) \<or>
       ys = [])"
proof (cases v)
  case (PStr s)
  show ?thesis
  proof (cases it)
    case IAny
    with PStr assms obtain ys where "sequence_chars None s = Inr ys" "x = MList c ys False False"
      by (auto simp del: sequence_chars.simps)
    with PStr IAny show ?thesis by (metis option.simps(4))
  next
    case (IScalar t)
    with PStr assms obtain ys where "sequence_chars (Some t) s = Inr ys" "x = MList c ys False False"
      by (auto simp del: sequence_chars.simps)
    with PStr IScalar show ?thesis by (metis option.simps(5))
  next
    case (IModel d)
    with PStr assms show ?thesis by (auto split: if_splits)
  qed
next
  case (PList xs)
  with assms show ?thesis by auto
qed (use assms in auto)

lemma coerce_indexed:
  "coerce T v (FClass c) = Inr x \<Longrightarrow> v \<noteq> PNone \<Longrightarrow> T c = Some (CIndexed d pk) \<Longrightarrow>
    (\<exists>xs ys. v = PList xs \<and> load_items T (IModel d) xs = Inr ys \<and> indexed_of T c ys = Inr x)
    \<or> x = MIndexed c [] False False"
  by (cases v) (auto split: if_splits)

lemma wf_new: "T c \<noteq> None \<Longrightarrow> wf_val T (FClass c) (from_null T c)"
  by (simp add: from_null_def new_instance_wf)

lemma coerce_wf_all:
  assumes "table_ok T"
  shows "pv_wf v \<Longrightarrow> type_known T ty \<Longrightarrow> coerce T v ty = Inr x \<Longrightarrow> wf_val T ty x"
    and "list_all (\<lambda>(_, v). pv_wf v) d \<Longrightarrow> model_class_ok T m \<Longrightarrow> fields_ok T m acc \<Longrightarrow>
      load_fields T m d acc = Inr r \<Longrightarrow> fields_ok T m r"
    and "list_all pv_wf vs \<Longrightarrow> (\<And>t. item_field_type it = Some t \<Longrightarrow> type_known T t) \<Longrightarrow>
      load_items T it vs = Inr xs \<Longrightarrow> list_all (item_ok T it) xs"
  using assms
proof (induction T v ty and T m d acc and T it vs arbitrary: x and r and xs rule: coerce_load_fields_load_items.induct)
  case (1 T v t)
  then show ?case by (auto dest: scalar_ok_coerce)
next
  case (2 T v)
  then show ?case by (auto split: pv.splits)
next
  case (3 T v c)
  show ?case
  proof (cases "v = PNone")
    case True
    then show ?thesis using 3 by (auto simp: type_known_def wf_new)
  next
    case False
    from 3 obtain ci where ci: "T c = Some ci" by (auto simp: type_known_def)
    show ?thesis
    proof (cases ci)
      case (CModel m)
      then obtain d fs cu sk where d: "v = PDict d" "load_fields T m d ([], [], []) = Inr (fs, cu, sk)"
          "x = MModel c fs cu sk False False"
        using coerce_model [OF 3(6) False] ci by blast
      have "fields_ok T m (fs, cu, sk)"
        using 3(1) [OF False ci CModel d(1) _ _ _ d(2)] 3(4,7) d(1) table_ok_model [OF 3(7)] ci CModel
        by (simp add: fields_ok_def)
      then show ?thesis unfolding d(3) wf_val_model [where T = T and c = c and m = m, OF ci [unfolded CModel]] by simp
    next
      case (CList it)
      then obtain ys where x: "x = MList c ys False False" and
        ys: "(\<exists>xs. v = PList xs \<and> load_items T it xs = Inr ys) \<or>
         (\<exists>s t. v = PStr s \<and> sequence_chars t s = Inr ys \<and> it = (case t of None \<Rightarrow> IAny | Some u \<Rightarrow> IScalar u)) \<or> ys = []"
        using coerce_list [OF 3(6) False] ci by metis
      have known: "type_known T t" if "item_field_type it = Some t" for t
        using that table_ok_list [OF 3(7)] ci CList
        by (cases it) (fastforce simp: item_field_type_def type_known_def)+
      have "list_all (item_ok T it) ys"
        using ys 3(2) [OF False ci CList _ _ known] 3(4,7) sequence_chars_ok by fastforce
      then show ?thesis unfolding x wf_val_list [where T = T and c = c and it = it, OF ci [unfolded CList]] by simp
    next
      case (CIndexed d pk)
      with ci 3(7) obtain m where "T d = Some (CModel m)" using table_ok_indexed by blast
      then have known: "type_known T t" if "item_field_type (IModel d) = Some t" for t
        using that by (auto simp: item_field_type_def type_known_def)
      from coerce_indexed [OF 3(6) False] ci CIndexed
      consider xs ys where "v = PList xs" "load_items T (IModel d) xs = Inr ys" "indexed_of T c ys = Inr x"
        | "x = MIndexed c [] False False" by blast
      then show ?thesis
      proof cases
        case 1
        have "list_all (item_ok T (IModel d)) ys"
          using 3(3) [OF False ci CIndexed 1(1) _ known 1(2)] 3(4,7) 1(1) by simp
        then have "list_all (wf_val T (FClass d)) ys" by (simp add: item_ok_def [abs_def] item_field_type_def)
        then show ?thesis using indexed_of_wf [OF 3(7)] ci CIndexed 1(3) by blast
      next
        case 2
        then show ?thesis using ci CIndexed by simp
      qed
    qed
  qed
next
  case (4 T m acc)
  then show ?case by simp
next
  case (5 T m key v d fs cu sk)
  show ?case
  proof (cases "get_field_name m key")
    case None
    then have acc: "fields_ok T m (fs, AList.update key v cu, sk)" if "startswith key ''_''"
      using 5(7) that by (auto simp: fields_ok_def dict_update_wf intro!: dict_update_all)
    have acc': "fields_ok T m (fs, cu, List.insert key sk)" using 5(7) by (simp add: fields_ok_def)
    show ?thesis
      using 5(1) [OF None _ _ _ acc] 5(2) [OF None _ _ _ _ acc'] 5(5,6,8,9) None by (auto split: if_splits)
  next
    case (Some f)
    then obtain i where i: "map_of (model_fields m) f = Some i" using get_field_name_Some by blast
    with Some 5(8) obtain x where x: "coerce T v (field_ty i) = Inr x" "load_fields T m d (AList.update f x fs, cu, sk) = Inr r"
      by auto
    have "type_known T (field_ty i)" using 5(6) i by (auto simp: model_class_ok_def type_known_def)
    then have "wf_val T (field_ty i) x" using 5(3) [OF Some] i x(1) 5(5,9) by simp
    then have "fields_ok T m (AList.update f x fs, cu, sk)"
      using 5(7) i by (auto simp: fields_ok_def dict_update_wf intro!: dict_update_all)
    then show ?thesis using 5(4) [OF Some] i x 5(5,6,9) by simp
  qed
next
  case (6 T it)
  then show ?case by simp
next
  case (7 T it v vs)
  then obtain y ys where y: "(case it of IAny \<Rightarrow> Inr (MVal v) | IScalar t \<Rightarrow> coerce T v (FScalar t)
      | IModel c \<Rightarrow> coerce T v (FClass c)) = Inr y" "load_items T it vs = Inr ys" "xs = y # ys" by auto
  have "item_ok T it y"
  proof (cases it)
    case IAny
    then show ?thesis using y(1) 7(4) by (auto simp: item_ok_def item_field_type_def)
  next
    case (IScalar t)
    then show ?thesis using y(1) 7(1) [OF IScalar] 7(4,7) by (auto simp: item_ok_def item_field_type_def type_known_def)
  next
    case (IModel c)
    then show ?thesis using y(1) 7(2) [OF IModel] 7(4,5,7) by (auto simp: item_ok_def item_field_type_def)
  qed
  moreover have "list_all (item_ok T it) ys" using 7(3) [OF y(1) _ _ y(2)] 7(4,5,7) by simp
  ultimately show ?case by (simp add: y(3))
qed

section \<open>Dumping and loading\<close>

text \<open>What loading dumped data gives: the fields in the order of the class, no skipped keys, no block.\<close>

fun canon :: "class_table \<Rightarrow> mval \<Rightarrow> mval" where
  "canon T (MVal v) = MVal v"
| "canon T (MModel c fs cu sk n b) =
     MModel c (sort_key (\<lambda>(f, _). field_order T c f) (map (\<lambda>(f, v). (f, canon T v)) fs)) cu [] n False"
| "canon T (MList c xs n b) = MList c (map (canon T) xs) n False"
| "canon T (MIndexed c xs n b) = MIndexed c (map (\<lambda>(k, x). (k, canon T x)) xs) n False"

text \<open>An object created from null is empty and is the value of a field, not an item: null items come
  back as empty ones.\<close>

fun object_empty :: "mval \<Rightarrow> bool" where
  "object_empty (MVal _) = False"
| "object_empty (MModel _ fs cu _ _ _) = (fs = [] \<and> cu = [])"
| "object_empty (MList _ xs _ _) = (xs = [])"
| "object_empty (MIndexed _ xs _ _) = (xs = [])"

fun dumpable :: "mval \<Rightarrow> bool" where
  "dumpable (MVal _) = True"
| "dumpable (MModel c fs cu sk n b) =
     (\<not> n \<and> list_all (\<lambda>(_, v). (created_from_null v \<and> object_empty v) \<or> dumpable v) fs)"
| "dumpable (MList c xs n b) = (\<not> n \<and> list_all dumpable xs)"
| "dumpable (MIndexed c xs n b) = (\<not> n \<and> list_all (\<lambda>(_, x). dumpable x) xs)"

lemma insort_key_map_comp: "insort_key f (g x) (map g xs) = map g (insort_key (\<lambda>y. f (g y)) x xs)"
  by (induction xs) auto

lemma sort_key_map_comp: "sort_key f (map g xs) = map g (sort_key (\<lambda>y. f (g y)) xs)"
  by (induction xs) (simp_all add: insort_key_map_comp)

lemma dict_wf_sort: "dict_wf d \<Longrightarrow> dict_wf (sort_key f d)"
  by (simp add: distinct_map)

lemma map_of_sort: "dict_wf d \<Longrightarrow> map_of (sort_key f d) = map_of d"
  by (rule map_of_inject_set [THEN iffD2]) (auto simp: dict_wf_sort)

lemma map_of_map_snd: "map_of (map (\<lambda>(k, x). (k, g x)) d) k = map_option g (map_of d k)"
  by (induction d) auto

lemma canon_null [simp]: "created_from_null (canon T x) = created_from_null x"
  by (cases x) auto

lemma fold_update_fresh:
  "dict_wf cu \<Longrightarrow> (\<forall>k \<in> set (dict_keys cu). k \<notin> set (dict_keys d)) \<Longrightarrow>
    fold (\<lambda>(k, v) acc. AList.update k v acc) cu d = d @ cu"
proof (induction cu arbitrary: d)
  case (Cons p cu)
  obtain k v where [simp]: "p = (k, v)" by (cases p)
  from Cons.prems have "AList.update k v d = d @ [(k, v)]" by (intro dict_update_new) (auto simp: map_of_eq_None_iff)
  with Cons.IH [of "d @ [(k, v)]"] Cons.prems show ?case by auto
qed simp

lemma load_fields_known:
  assumes "dict_wf sfs" "\<forall>(f, v) \<in> set sfs. f \<notin> set (dict_keys fs)"
    and "\<forall>(f, v) \<in> set sfs. get_field_name m (K f) = Some f \<and>
      (\<exists>i. map_of (model_fields m) f = Some i \<and> coerce T (W f) (field_ty i) = Inr (V v))"
  shows "load_fields T m (map (\<lambda>(f, v). (K f, W f)) sfs @ rest) (fs, cu, sk) =
    load_fields T m rest (fs @ map (\<lambda>(f, v). (f, V v)) sfs, cu, sk)"
  using assms
proof (induction sfs arbitrary: fs)
  case (Cons p sfs)
  obtain f v where p [simp]: "p = (f, v)" by (cases p)
  obtain i where i: "get_field_name m (K f) = Some f" "map_of (model_fields m) f = Some i"
    "coerce T (W f) (field_ty i) = Inr (V v)" using Cons.prems(3) by auto
  have "AList.update f (V v) fs = fs @ [(f, V v)]"
    using Cons.prems(2) by (intro dict_update_new) (auto simp: map_of_eq_None_iff)
  moreover have "\<forall>(g, w) \<in> set sfs. g \<notin> set (dict_keys (fs @ [(f, V v)]))" using Cons.prems(1,2) by force
  ultimately show ?case using Cons.IH [of "fs @ [(f, V v)]"] Cons.prems(1,3) i by simp
qed simp

lemma load_fields_custom:
  assumes "dict_wf cu" "\<forall>k \<in> set (dict_keys cu). k \<notin> set (dict_keys cu0)"
    and "list_all (\<lambda>(k, _). startswith k ''_'' \<and> get_field_name m k = None) cu"
  shows "load_fields T m cu (fs, cu0, sk) = Inr (fs, cu0 @ cu, sk)"
  using assms
proof (induction cu arbitrary: cu0)
  case (Cons p cu)
  obtain k v where [simp]: "p = (k, v)" by (cases p)
  from Cons.prems have "AList.update k v cu0 = cu0 @ [(k, v)]" by (intro dict_update_new) (auto simp: map_of_eq_None_iff)
  with Cons.IH [of "cu0 @ [(k, v)]"] Cons.prems show ?case by auto
qed simp

lemma map_of_canon_field:
  "dict_wf fs \<Longrightarrow> get_defined_attr (canon T (MModel c fs cu sk n b)) f = map_option (canon T) (map_of fs f)"
  by (simp add: map_of_sort map_of_map_snd [unfolded case_prod_unfold] o_def case_prod_unfold)

text \<open>Items that are complete are filed as they are.\<close>

lemma indexed_items_id:
  assumes "list_all (\<lambda>(k, x). filed_under pk k x) xs" "dict_wf xs" "\<forall>k \<in> set (dict_keys xs). k \<notin> set (dict_keys acc)"
  shows "indexed_items T pk acc (map snd xs) = Inr (acc @ xs)"
  using assms
proof (induction xs arbitrary: acc)
  case (Cons p xs)
  obtain k x where [simp]: "p = (k, x)" by (cases p)
  from Cons.prems(1) obtain v where v: "get_defined_attr x pk = Some v" "dict_key v = Inr k"
    by (auto simp: filed_under_def split: option.splits)
  then have "get_attr T x pk = Inr (v, x)" by (cases x) (auto simp: get_attr_def)
  moreover from Cons.prems(3) have "AList.update k x acc = acc @ [(k, x)]"
    by (intro dict_update_new) (auto simp: map_of_eq_None_iff)
  ultimately show ?case using Cons.IH [of "acc @ [(k, x)]"] Cons.prems v by auto
qed simp

lemma filed_under_canon:
  assumes "wf_val T (FClass c) x" "filed_under pk k x" "T c = Some (CModel m)"
  shows "filed_under pk k (canon T x)"
proof -
  obtain fs cu sk n b where x: "x = MModel c fs cu sk n b" using assms(1,3) by (cases x) auto
  with assms obtain v where v: "map_of fs pk = Some v" "dict_key v = Inr k" "dict_wf fs"
    by (auto simp: filed_under_def split: option.splits)
  then have "canon T v = v" by (cases v) auto
  with v show ?thesis unfolding x filed_under_def map_of_canon_field [OF v(3)] by simp
qed

definition reloads :: "class_table \<Rightarrow> string \<Rightarrow> mval \<Rightarrow> pv \<Rightarrow> bool" where
  "reloads T c x w \<longleftrightarrow> dump T x = Inr w \<and> w \<noteq> PNone \<and> coerce T w (FClass c) = Inr (canon T x)"

lemma load_items_reload:
  assumes "list_all2 (\<lambda>x w. reloads T d x w) xs ws"
  shows "load_items T (IModel d) ws = Inr (map (canon T) xs)"
  using assms by (induction rule: list_all2_induct) (simp_all add: reloads_def del: coerce.simps)

lemma list_all2_ex: "list_all (\<lambda>x. \<exists>y. P x y) xs \<Longrightarrow> \<exists>ys. list_all2 P xs ys"
  by (induction xs) (auto intro: list_all2_Cons [THEN iffD2])

lemma list_reloads:
  assumes "T c = Some (CList it)" "list_all (item_ok T it) xs" "\<And>d x. it = IModel d \<Longrightarrow> x \<in> set xs \<Longrightarrow> \<exists>w. reloads T d x w"
  shows "\<exists>w. reloads T c (MList c xs False b) w"
proof (cases "\<exists>d. it = IModel d")
  case True
  then obtain d where d: "it = IModel d" by blast
  with assms(3) have "list_all (\<lambda>x. \<exists>w. reloads T d x w) xs" by (simp add: list_all_iff)
  then obtain ws where ws: "list_all2 (\<lambda>x w. reloads T d x w) xs ws" using list_all2_ex by blast
  then have "rmap (dump T) xs = Inr ws" by (auto simp: rmap_Inr_iff reloads_def elim: list_all2_mono)
  with load_items_reload [OF ws] assms(1) d show ?thesis by (auto simp: reloads_def)
next
  case False
  define raw where "raw = map (\<lambda>x. case x of MVal v \<Rightarrow> v | _ \<Rightarrow> PNone) xs"
  have ok: "\<exists>v. x = MVal v \<and> (case it of IScalar t \<Rightarrow> scalar_ok t v | _ \<Rightarrow> True)" if "x \<in> set xs" for x
    using assms(2) that False
    by (cases it; cases x) (auto simp: list_all_iff item_ok_def item_field_type_def)
  have "map MVal raw = xs" unfolding raw_def map_map by (rule map_idI) (use ok in force)
  then have xs: "xs = map MVal raw" by simp
  have "rmap (\<lambda>x. case x of MVal v \<Rightarrow> Inr v | _ \<Rightarrow> Inl TypeError) xs = Inr raw"
    unfolding xs by (induction raw) auto
  moreover have "load_items T it raw = Inr (map MVal raw)"
  proof -
    have "\<forall>v \<in> set raw. (case it of IScalar t \<Rightarrow> scalar_ok t v | _ \<Rightarrow> True)" using ok unfolding xs by auto
    then show ?thesis using False by (induction raw) (auto simp: scalar_ok_id split: item_type.splits)
  qed
  moreover have "map (canon T) xs = map MVal raw" unfolding xs by simp
  ultimately show ?thesis using assms(1) False by (cases it) (auto simp: reloads_def)
qed

lemma indexed_reloads:
  assumes "table_ok T" "T c = Some (CIndexed d pk)" "wf_val T (FClass c) (MIndexed c xs False b)"
    and "\<And>k x. (k, x) \<in> set xs \<Longrightarrow> \<exists>w. reloads T d x w"
  shows "\<exists>w. reloads T c (MIndexed c xs False b) w"
proof -
  obtain m where m: "T d = Some (CModel m)" using table_ok_indexed [OF assms(1,2)] by blast
  from assms(2,3) have wf: "dict_wf xs" "list_all (\<lambda>(k, x). wf_val T (FClass d) x \<and> filed_under pk k x) xs" by simp_all
  let ?ys = "map (\<lambda>(k, x). (k, canon T x)) xs"
  have "list_all (\<lambda>x. \<exists>w. reloads T d x w) (map snd xs)" using assms(4) by (auto simp: list_all_iff)
  then obtain ws where ws: "list_all2 (\<lambda>x w. reloads T d x w) (map snd xs) ws" using list_all2_ex by blast
  have "rmap (\<lambda>(k, x). dump T x) xs = Inr ws"
    using ws by (auto simp: rmap_Inr_iff reloads_def list_all2_map1 case_prod_unfold elim: list_all2_mono)
  moreover have "list_all (\<lambda>(k, x). filed_under pk k x) ?ys"
    using wf(2) filed_under_canon [where T = T and c = d and m = m, OF _ _ m] by (auto simp: list_all_iff)
  moreover have "dict_wf ?ys" using wf(1) by (simp add: case_prod_unfold o_def)
  ultimately have "indexed_items T pk [] (map snd ?ys) = Inr ?ys" using indexed_items_id [of pk ?ys "[]" T] by (simp del: map_map)
  moreover have "map snd ?ys = map (canon T) (map snd xs)" by (simp add: case_prod_unfold)
  ultimately have "indexed_of T c (map (canon T) (map snd xs)) = Inr (MIndexed c ?ys False False)"
    using assms(2) by (simp only: indexed_of_def option.case class_info.case rbind.simps)
  with load_items_reload [OF ws] assms(2) show ?thesis
    using \<open>rmap (\<lambda>(k, x). dump T x) xs = Inr ws\<close> by (auto simp: reloads_def)
qed

text \<open>The dumped value of one field.\<close>

definition dump_field :: "class_table \<Rightarrow> string \<Rightarrow> string \<times> mval \<Rightarrow> (py_exn, string \<times> pv) result" where
  "dump_field T c = (\<lambda>(f, v). rbind (field_type_of T c f) (\<lambda>ty.
     if is_class_type ty
     then (case v of
             MVal _ \<Rightarrow> Inl AttributeError
           | _ \<Rightarrow> if created_from_null v then Inr (f, PNone) else rbind (dump T v) (\<lambda>w. Inr (f, w)))
     else (case v of MVal w \<Rightarrow> Inr (f, w) | _ \<Rightarrow> Inl TypeError)))"

lemma dump_model: "dump T (MModel c fs cu sk n b) =
  rbind (rmap (dump_field T c) fs) (\<lambda>ps.
    Inr (PDict (fold (\<lambda>(k, v) acc. AList.update k v acc) cu
      (dict_of (map (\<lambda>(f, v). (field_key T c f, v)) (sort_key (\<lambda>(f, _). field_order T c f) ps))))))"
  by (simp add: dump_field_def)

lemma null_object: "wf_val T (FClass d) v \<Longrightarrow> created_from_null v \<Longrightarrow> object_empty v \<Longrightarrow> from_null T d = canon T v"
  by (cases v) (auto simp: from_null_def new_instance_def split: option.splits class_info.splits)

lemma field_reloads:
  assumes "T c = Some (CModel m)" "map_of (model_fields m) f = Some i" "wf_val T (field_ty i) v"
    and "(created_from_null v \<and> object_empty v) \<or> dumpable v"
    and "\<And>d. field_ty i = FClass d \<Longrightarrow> dumpable v \<Longrightarrow> \<exists>w. reloads T d v w"
  shows "\<exists>w. dump_field T c (f, v) = Inr (f, w) \<and> coerce T w (field_ty i) = Inr (canon T v)"
proof -
  have ty: "field_type_of T c f = Inr (field_ty i)" using assms(1,2) by (simp add: field_type_of_def field_of_def)
  show ?thesis
  proof (cases "field_ty i")
    case (FClass d)
    then have obj: "v \<noteq> MVal w" for w using assms(3) by (cases v) auto
    show ?thesis
    proof (cases "created_from_null v \<and> object_empty v")
      case True
      then show ?thesis
        using ty obj FClass null_object [of T d v] assms(3)
        by (cases v) (simp_all add: dump_field_def is_class_type_def del: wf_val.simps canon.simps)
    next
      case False
      with assms(4) have d: "dumpable v" by blast
      with assms(5) FClass obtain w where w: "reloads T d v w" by blast
      from d have "\<not> created_from_null v" by (cases v) auto
      then show ?thesis using ty obj FClass w
        by (cases v) (auto simp: dump_field_def is_class_type_def reloads_def simp del: coerce.simps dump.simps canon.simps)
    qed
  next
    case (FScalar t)
    with assms(3) obtain w where "v = MVal w" "scalar_ok t w" by (cases v) auto
    then show ?thesis using ty FScalar by (simp add: dump_field_def is_class_type_def scalar_ok_id)
  next
    case FDict
    with assms(3) obtain w where "v = MVal w" "w = PNone \<or> (\<exists>d. w = PDict d)" by (cases v) (auto split: pv.splits)
    then show ?thesis using ty FDict by (auto simp: dump_field_def is_class_type_def)
  qed
qed

lemma choose_by_key:
  assumes "dict_wf fs" "\<And>f v. (f, v) \<in> set fs \<Longrightarrow> \<exists>w. P f v w"
  shows "\<exists>W. \<forall>(f, v) \<in> set fs. P f v (W f)"
proof -
  have "\<forall>p \<in> set fs. \<exists>w. P (fst p) (snd p) w" using assms(2) by auto
  then obtain W where W: "\<forall>p \<in> set fs. P (fst p) (snd p) (W p)" by (rule bchoice [THEN exE])
  have "\<forall>(f, v) \<in> set fs. P f v (W (f, the (map_of fs f)))"
    using W assms(1) by (force simp: map_of_is_SomeI)
  then show ?thesis by (rule exI [of _ "\<lambda>f. W (f, the (map_of fs f))"])
qed

lemma model_reloads:
  assumes "table_ok T" "T c = Some (CModel m)" "fields_ok T m (fs, cu, sk)"
    and fields: "\<And>f v. (f, v) \<in> set fs \<Longrightarrow> (created_from_null v \<and> object_empty v) \<or> dumpable v"
    and IH: "\<And>f v d. (f, v) \<in> set fs \<Longrightarrow> wf_val T (FClass d) v \<Longrightarrow> dumpable v \<Longrightarrow> \<exists>w. reloads T d v w"
  shows "\<exists>w. reloads T c (MModel c fs cu sk False b) w"
proof -
  let ?K = "field_key T c" and ?ord = "\<lambda>f. field_order T c f"
  let ?sfs = "sort_key (\<lambda>(f, _). ?ord f) fs"
  from assms(3) have wf: "dict_wf fs" "dict_wf cu"
    and cu: "list_all (\<lambda>(k, _). startswith k ''_'' \<and> get_field_name m k = None) cu"
    and fs: "\<And>f v. (f, v) \<in> set fs \<Longrightarrow> \<exists>i. map_of (model_fields m) f = Some i \<and> wf_val T (field_ty i) v"
    by (auto simp: fields_ok_def list_all_iff split: option.splits)
  note mok = table_ok_model [OF assms(1,2)]
  have K: "get_field_name m (?K f) = Some f" if "(f, v) \<in> set fs" for f v
    using fs [OF that] mok assms(2) by (auto simp: model_class_ok_def field_key_def)
  have "\<exists>w. dump_field T c (f, v) = Inr (f, w) \<and>
      (\<exists>i. map_of (model_fields m) f = Some i \<and> coerce T w (field_ty i) = Inr (canon T v))"
    if mem: "(f, v) \<in> set fs" for f v
  proof -
    obtain i where i: "map_of (model_fields m) f = Some i" "wf_val T (field_ty i) v" using fs [OF mem] by blast
    have "\<exists>w. reloads T d v w" if "field_ty i = FClass d" "dumpable v" for d
      using IH [OF mem _ that(2), of d] i(2) that(1) by simp
    from field_reloads [where T = T and c = c and m = m and f = f, OF assms(2) i fields [OF mem] this] i(1)
    show ?thesis by blast
  qed
  with choose_by_key [OF wf(1), of "\<lambda>f v w. dump_field T c (f, v) = Inr (f, w) \<and>
      (\<exists>i. map_of (model_fields m) f = Some i \<and> coerce T w (field_ty i) = Inr (canon T v))"]
  obtain W where W: "\<forall>(f, v) \<in> set fs. dump_field T c (f, v) = Inr (f, W f) \<and>
      (\<exists>i. map_of (model_fields m) f = Some i \<and> coerce T (W f) (field_ty i) = Inr (canon T v))" by blast
  have "rmap (dump_field T c) fs = Inr (map (\<lambda>(f, v). (f, W f)) fs)"
    using W by (intro rmap_total) auto
  moreover have "sort_key (\<lambda>(f, _). ?ord f) (map (\<lambda>(f, v). (f, W f)) fs) = map (\<lambda>(f, v). (f, W f)) ?sfs"
    unfolding sort_key_map_comp by (simp add: case_prod_unfold)
  moreover have "inj_on ?K (fst ` set fs)"
  proof (rule inj_onI)
    fix x y assume "x \<in> fst ` set fs" "y \<in> fst ` set fs" and eq: "?K x = ?K y"
    then obtain v w where "(x, v) \<in> set fs" "(y, w) \<in> set fs" by auto
    with K eq show "x = y" by (metis option.inject)
  qed
  then have keys: "dict_wf (map (\<lambda>(f, v). (?K f, W f)) ?sfs)"
    using dict_wf_sort [OF wf(1)] by (simp add: case_prod_unfold o_def distinct_map comp_inj_on inj_on_def)
  moreover have "\<forall>k \<in> set (dict_keys cu). k \<notin> set (dict_keys (map (\<lambda>(f, v). (?K f, W f)) ?sfs))"
    using K cu by (force simp: list_all_iff)
  ultimately have dump: "dump T (MModel c fs cu sk False b) = Inr (PDict (map (\<lambda>(f, v). (?K f, W f)) ?sfs @ cu))"
    unfolding dump_model by (simp add: case_prod_unfold o_def dict_of_id fold_update_fresh [OF wf(2), unfolded case_prod_unfold])
  have "load_fields T m (map (\<lambda>(f, v). (?K f, W f)) ?sfs @ cu) ([], [], [])
      = load_fields T m cu ([] @ map (\<lambda>(f, v). (f, canon T v)) ?sfs, [], [])"
    using W K by (intro load_fields_known) (auto simp: dict_wf_sort [OF wf(1)])
  also have "\<dots> = Inr (map (\<lambda>(f, v). (f, canon T v)) ?sfs, cu, [])"
    using load_fields_custom [OF wf(2) _ cu, of "[]"] by simp
  finally have "coerce T (PDict (map (\<lambda>(f, v). (?K f, W f)) ?sfs @ cu)) (FClass c)
      = Inr (MModel c (map (\<lambda>(f, v). (f, canon T v)) ?sfs) cu [] False False)"
    using assms(2) by simp
  moreover have "map (\<lambda>(f, v). (f, canon T v)) ?sfs = sort_key (\<lambda>(f, _). ?ord f) (map (\<lambda>(f, v). (f, canon T v)) fs)"
    unfolding sort_key_map_comp by (simp add: case_prod_unfold)
  ultimately show ?thesis using dump by (auto simp: reloads_def simp del: coerce.simps dump.simps)
qed

lemma dumpable_reloads:
  assumes "table_ok T"
  shows "wf_val T (FClass c) x \<Longrightarrow> dumpable x \<Longrightarrow> \<exists>w. reloads T c x w"
proof (induction x arbitrary: c)
  case (MVal v)
  then show ?case by simp
next
  case (MModel c' fs cu sk n b)
  then obtain m where m: "c' = c" "n = False" "T c = Some (CModel m)" by (auto split: option.splits class_info.splits)
  with MModel.prems(1) wf_val_model [where T = T and c = c and m = m, OF m(3)] have ok: "fields_ok T m (fs, cu, sk)" by blast
  show ?case unfolding m(1,2)
  proof (rule model_reloads [where T = T and c = c and m = m, OF assms m(3) ok])
    show "(created_from_null v \<and> object_empty v) \<or> dumpable v" if "(f, v) \<in> set fs" for f v
      using MModel.prems(2) that by (auto simp: list_all_iff)
    show "\<exists>w. reloads T d v w" if "(f, v) \<in> set fs" "wf_val T (FClass d) v" "dumpable v" for f v d
      using MModel.IH [OF that(1), of v d] that(2,3) by simp
  qed
next
  case (MList c' xs n b)
  then obtain it where m: "c' = c" "n = False" "T c = Some (CList it)" by (auto split: option.splits class_info.splits)
  with MList.prems(1) wf_val_list [where T = T and c = c and it = it, OF m(3)] have ok: "list_all (item_ok T it) xs" by blast
  show ?case unfolding m(1,2)
  proof (rule list_reloads [where T = T and c = c and it = it, OF m(3) ok])
    fix d x assume "it = IModel d" "x \<in> set xs"
    with ok have "wf_val T (FClass d) x" by (auto simp: list_all_iff item_ok_def item_field_type_def)
    with MList.IH [OF \<open>x \<in> set xs\<close>] MList.prems(2) \<open>x \<in> set xs\<close> show "\<exists>w. reloads T d x w"
      by (auto simp: list_all_iff)
  qed
next
  case (MIndexed c' xs n b)
  then obtain d pk where m: "c' = c" "n = False" "T c = Some (CIndexed d pk)" by (auto split: option.splits class_info.splits)
  show ?case unfolding m(1,2)
  proof (rule indexed_reloads [where T = T and c = c, OF assms m(3)])
    show "wf_val T (FClass c) (MIndexed c xs False b)" using MIndexed.prems(1) m by simp
    fix k x assume mem: "(k, x) \<in> set xs"
    have "wf_val T (FClass d) x" "dumpable x" using MIndexed.prems mem m by (auto simp: list_all_iff)
    with MIndexed.IH [OF mem, of x d] show "\<exists>w. reloads T d x w" by simp
  qed
qed

lemma item_ok_cases: "item_ok T it x \<Longrightarrow> (\<exists>ty. wf_val T ty x) \<or> (\<exists>w. x = MVal w \<and> pv_wf w)"
  by (cases "item_field_type it"; cases x) (auto simp: item_ok_def)

lemma canon_eq: "wf_val T ty x \<Longrightarrow> mval_eq x (canon T x)"
proof (induction x arbitrary: ty)
  case (MVal v)
  then have "pv_wf v" by (auto simp: scalar_ok_pv split: field_type.splits pv.splits)
  then show ?case by simp
next
  case (MModel c fs cu sk n b)
  then obtain m where "T c = Some (CModel m)" by (auto split: option.splits class_info.splits)
  with MModel.prems have wf: "dict_wf fs"
    and "list_all (\<lambda>(f, v). case map_of (model_fields m) f of Some i \<Rightarrow> wf_val T (field_ty i) v | None \<Rightarrow> False) fs"
    by simp_all
  then have IH: "mval_eq v (canon T v)" if "(f, v) \<in> set fs" for f v
    using MModel.IH [OF that, of v] that by (fastforce simp: list_all_iff split: option.splits)
  have "map_of (sort_key (\<lambda>(f, _). field_order T c f) (map (\<lambda>(f, v). (f, canon T v)) fs)) f = Some (canon T v)"
    if "(f, v) \<in> set fs" for f v
  proof -
    have "map_of (map (\<lambda>(f, v). (f, canon T v)) fs) f = Some (canon T v)"
      unfolding map_of_map_snd using map_of_is_SomeI [OF wf(1) that] by simp
    moreover have "dict_wf (map (\<lambda>(f, v). (f, canon T v)) fs)" using wf(1) by (simp add: case_prod_unfold o_def)
    ultimately show ?thesis by (simp add: map_of_sort)
  qed
  moreover have "set (dict_keys (sort_key (\<lambda>(f, _). field_order T c f) (map (\<lambda>(f, v). (f, canon T v)) fs))) = set (dict_keys fs)"
    by force
  ultimately show ?case using IH by (auto simp: list_all_iff)
next
  case (MList c xs n b)
  then obtain it where it: "T c = Some (CList it)" by (auto split: option.splits class_info.splits)
  with MList.prems wf_val_list [where T = T and c = c and it = it, OF it] have "list_all (item_ok T it) xs" by blast
  then have "mval_eq x (canon T x)" if "x \<in> set xs" for x
    using item_ok_cases [of T it x] MList.IH [OF that] that by (auto simp: list_all_iff)
  then have "list_all2 mval_eq xs (map (canon T) xs)" by (simp add: list_all2_map2 list_all2_same)
  then show ?case by (simp add: list_all2_iff list_all_iff)
next
  case (MIndexed c xs n b)
  then obtain d pk where "T c = Some (CIndexed d pk)" by (auto split: option.splits class_info.splits)
  with MIndexed.prems have wf: "dict_wf xs" "\<And>k x. (k, x) \<in> set xs \<Longrightarrow> wf_val T (FClass d) x"
    by (auto simp: list_all_iff)
  have "mval_eq x (canon T x)" if "(k, x) \<in> set xs" for k x
    using MIndexed.IH [OF that] wf(2) [OF that] by simp
  then show ?case using wf(1) by (force simp: list_all_iff map_of_map_snd map_of_is_SomeI simp del: map_of_eq_Some_iff)
qed

section \<open>Properties\<close>

text \<open>A class table for the examples.\<close>

definition example_fields :: "(string \<times> field_info) list" where
  "example_fields =
     [(''name'', \<lparr>field_ty = FScalar TStr, field_default = None\<rparr>),
      (''mtu'', \<lparr>field_ty = FScalar TInt, field_default = Some (MVal (PInt 1500))\<rparr>),
      (''field_as'', \<lparr>field_ty = FScalar TStr, field_default = None\<rparr>),
      (''tags'', \<lparr>field_ty = FClass ''Tags'', field_default = None\<rparr>),
      (''vlans'', \<lparr>field_ty = FClass ''Vlans'', field_default = None\<rparr>)]"

definition example_table :: class_table where
  "example_table c =
     (if c = ''Port'' then Some (CModel \<lparr>model_fields = example_fields, key_to_field = [(''as'', ''field_as'')],
          field_to_key = [(''field_as'', ''as'')], allow_other_keys = False\<rparr>)
      else if c = ''Vlan'' then Some (CModel \<lparr>model_fields = [(''id'', \<lparr>field_ty = FScalar TInt, field_default = None\<rparr>),
          (''name'', \<lparr>field_ty = FScalar TStr, field_default = None\<rparr>)], key_to_field = [], field_to_key = [],
          allow_other_keys = False\<rparr>)
      else if c = ''Vlans'' then Some (CIndexed ''Vlan'' ''id'')
      else if c = ''Tags'' then Some (CList (IScalar TStr))
      else None)"

lemma example_table_ok: "table_ok example_table"
  by (auto simp: table_ok_def example_table_def example_fields_def model_class_ok_def get_field_name_def scalar_ok_def)

text \<open>
  C18. Loading untyped data into a class gives a well-typed object: every set field is a field of
  its class and holds a value of its type, items have the item type, and the items of an indexed
  list are filed under their own primary keys.
\<close>

theorem load_well_typed:
  assumes "table_ok T" and "T c \<noteq> None" and "pv_wf data" and "load T c data = Inr x"
  shows "wf_val T (FClass c) x"
  using assms coerce_wf_all(1) [OF assms(1), of data "FClass c" x]
  by (simp add: load_def type_known_def split: if_splits del: coerce.simps)

definition example_port :: mval where
  "example_port = MModel ''Port''
     [(''vlans'', MIndexed ''Vlans'' [(PInt 7, MModel ''Vlan'' [(''id'', MVal (PInt 7))] [] [] False False)] False False),
      (''name'', MVal (PStr ''p'')), (''field_as'', MVal (PStr ''65001'')),
      (''tags'', MList ''Tags'' [] True False)] [(''_note'', PInt 1)] [] False False"

definition example_data :: pv where
  "example_data = PDict [(''vlans'', PList [PDict [(''id'', PStr ''7'')]]), (''name'', PStr ''p''), (''as'', PInt 65001),
     (''tags'', PNone), (''_note'', PInt 1)]"

lemma example_load: "load example_table ''Port'' example_data = Inr example_port"
proof -
  have "int_of_text ''7'' = Some 7" by code_simp
  moreover have "int_str 65001 = ''65001''"
    by (simp add: int_str_def nat_str.simps digit_char_def) code_simp
  ultimately show ?thesis
    by (simp add: load_def example_data_def example_port_def example_table_def example_fields_def get_field_name_def
        coerce_scalar_def startswith_def indexed_of_def get_attr_def from_null_def new_instance_def)
qed

theorem load_well_typed_witness:
  "load example_table ''Port'' example_data = Inr example_port \<and> wf_val example_table (FClass ''Port'') example_port"
  using load_well_typed [OF example_table_ok _ _ example_load] example_load
  by (simp add: example_table_def example_data_def)

text \<open>
  C17. Dumping a well-typed object and loading the dumped data gives the object back: the fields in
  the order of the class, custom data included, so the two compare as equal. (An object created
  from null must be empty and the value of a field.)
\<close>

theorem dump_load_roundtrip:
  assumes "table_ok T" and "wf_val T (FClass c) x" and "dumpable x"
  shows "\<exists>w. dump T x = Inr w \<and> load T c w = Inr (canon T x) \<and> mval_eq x (canon T x)"
proof -
  obtain w where "reloads T c x w" using dumpable_reloads [OF assms] by blast
  with canon_eq [OF assms(2)] show ?thesis
    by (auto simp: reloads_def load_def simp del: coerce.simps canon.simps dump.simps)
qed

lemma example_port_wf: "wf_val example_table (FClass ''Port'') example_port"
  by (simp add: example_port_def example_table_def example_fields_def scalar_ok_def filed_under_def get_field_name_def
      item_field_type_def startswith_def)

lemma example_port_dumpable: "dumpable example_port"
  by (simp add: example_port_def)

theorem dump_load_roundtrip_witness:
  "\<exists>w. dump example_table example_port = Inr w \<and>
     load example_table ''Port'' w = Inr (canon example_table example_port)"
  using dump_load_roundtrip [OF example_table_ok example_port_wf example_port_dumpable] by blast

end
