(* ===== verification/SchemaMerge.thy ===== *)
theory SchemaMerge
  imports SchemaModel Merge
begin

text \<open>
  \<open>pyavd/_schema/models\<close>: the operations that put two objects together: \<open>_deepmerge\<close>, \<open>_deepinherit\<close>,
  \<open>_cast_as\<close>, \<open>_combine\<close> and the updates of an indexed list. Untyped data inside of objects is merged by
  \<open>merge\<close>, so the merger of the \<open>deepmerge\<close> package is an argument (\<open>run\<close>). The lemmas say which values
  of the two objects the result holds, at any depth.
\<close>

section \<open>Merging\<close>

datatype list_merge = AppendUnique | Append | Replace | Keep | Prepend | PrependUnique

text \<open>\<open>list_merge.replace("_unique", "_rp")\<close>\<close>

fun legacy_list_merge :: "list_merge \<Rightarrow> string" where
  "legacy_list_merge AppendUnique = ''append_rp''"
| "legacy_list_merge Append = ''append''"
| "legacy_list_merge Replace = ''replace''"
| "legacy_list_merge Keep = ''keep''"
| "legacy_list_merge Prepend = ''prepend''"
| "legacy_list_merge PrependUnique = ''prepend_rp''"

type_synonym merger = "merger_config \<Rightarrow> pv \<Rightarrow> pv \<Rightarrow> (py_exn, pv) result"

definition merge_dict :: "merger \<Rightarrow> string \<Rightarrow> string \<Rightarrow> pv \<Rightarrow> pv \<Rightarrow> (py_exn, pv) result" where
  "merge_dict run list_merge same_key base nxt = merge run True list_merge same_key None base [nxt]"

text \<open>The custom data of two models.\<close>

definition merge_custom ::
  "merger \<Rightarrow> string \<Rightarrow> string \<Rightarrow> (string \<times> pv) list \<Rightarrow> (string \<times> pv) list \<Rightarrow> (py_exn, (string \<times> pv) list) result" where
  "merge_custom run list_merge same_key cu cu' =
     (if cu' = [] then Inr cu
      else rbind (merge_dict run list_merge same_key (PDict cu) (PDict cu')) (\<lambda>r.
        case r of PDict d \<Rightarrow> Inr d | _ \<Rightarrow> Inl TypeError))"

text \<open>\<open>isinstance(old, type(new))\<close>\<close>

fun is_instance :: "mval \<Rightarrow> mval \<Rightarrow> bool" where
  "is_instance (MVal a) (MVal b) =
     (case b of
        PNone \<Rightarrow> a = PNone
      | PBool _ \<Rightarrow> (case a of PBool _ \<Rightarrow> True | _ \<Rightarrow> False)
      | PInt _ \<Rightarrow> (case a of PBool _ \<Rightarrow> True | PInt _ \<Rightarrow> True | _ \<Rightarrow> False)
      | PStr _ \<Rightarrow> (case a of PStr _ \<Rightarrow> True | _ \<Rightarrow> False)
      | PList _ \<Rightarrow> (case a of PList _ \<Rightarrow> True | _ \<Rightarrow> False)
      | PDict _ \<Rightarrow> (case a of PDict _ \<Rightarrow> True | _ \<Rightarrow> False))"
| "is_instance (MModel c _ _ _ _ _) (MModel c' _ _ _ _ _) = (c = c')"
| "is_instance (MList c _ _ _) (MList c' _ _ _) = (c = c')"
| "is_instance (MIndexed c _ _ _) (MIndexed c' _ _ _) = (c = c')"
| "is_instance _ _ = False"

definition mval_in :: "mval \<Rightarrow> mval list \<Rightarrow> bool" where
  "mval_in x xs \<longleftrightarrow> list_ex (\<lambda>y. mval_eq y x) xs"

text \<open>The items of a list: appending unique items sees the items appended so far.\<close>

fun merge_list :: "list_merge \<Rightarrow> mval list \<Rightarrow> mval list \<Rightarrow> mval list" where
  "merge_list AppendUnique xs ys = fold (\<lambda>y acc. if mval_in y acc then acc else acc @ [y]) ys xs"
| "merge_list Append xs ys = xs @ ys"
| "merge_list Replace xs ys = ys"
| "merge_list Keep xs ys = xs"
| "merge_list PrependUnique xs ys = filter (\<lambda>y. \<not> mval_in y xs) ys @ xs"
| "merge_list Prepend xs ys = ys @ xs"

definition prepends :: "list_merge \<Rightarrow> bool" where
  "prepends lm \<longleftrightarrow> lm = Prepend \<or> lm = PrependUnique"

text \<open>\<open>_deepmerge\<close> of the three kinds of objects, with the loops over the fields of the other model and
  over the items of the other indexed list. \<open>pre\<close> holds the items to prepend.\<close>

fun deepmerge :: "class_table \<Rightarrow> merger \<Rightarrow> list_merge \<Rightarrow> mval \<Rightarrow> mval \<Rightarrow> (py_exn, mval) result"
and merge_fields :: "class_table \<Rightarrow> merger \<Rightarrow> list_merge \<Rightarrow> string \<Rightarrow> (string \<times> mval) list \<Rightarrow> (string \<times> mval) list \<Rightarrow>
  (py_exn, (string \<times> mval) list) result"
and merge_indexed :: "class_table \<Rightarrow> merger \<Rightarrow> list_merge \<Rightarrow> (pv \<times> mval) list \<Rightarrow> (pv \<times> mval) list \<Rightarrow>
  (pv \<times> mval) list \<Rightarrow> (py_exn, (pv \<times> mval) list) result" where
  "deepmerge T run lm self (MModel c' gs cu' sk' n' b') =
     (case self of
        MModel c fs cu sk n b \<Rightarrow>
          (if c \<noteq> c' then Inl TypeError
           else rbind (merge_fields T run lm c (if n' then [] else fs) gs) (\<lambda>fs'.
                rbind (merge_custom run (legacy_list_merge lm) ''override'' (if n' then [] else cu) cu') (\<lambda>cu''.
                  Inr (MModel c fs' cu'' sk n' b))))
      | MVal _ \<Rightarrow> Inl AttributeError
      | _ \<Rightarrow> Inl TypeError)"
| "deepmerge T run lm self (MList c' ys n' b') =
     (case self of
        MList c xs n b \<Rightarrow>
          (if c \<noteq> c' then Inl TypeError
           else Inr (MList c (merge_list (if n \<or> n' then Replace else lm) xs ys) n' b))
      | MVal _ \<Rightarrow> Inl AttributeError
      | _ \<Rightarrow> Inl TypeError)"
| "deepmerge T run lm self (MIndexed c' ys n' b') =
     (case self of
        MIndexed c xs n b \<Rightarrow>
          (if c \<noteq> c' then Inl TypeError
           else if n \<or> n' \<or> lm = Replace then Inr (MIndexed c ys n' b)
           else if lm = Keep then Inr self
           else rbind (merge_indexed T run lm xs [] ys) (\<lambda>zs. Inr (MIndexed c zs n b)))
      | MVal _ \<Rightarrow> Inl AttributeError
      | _ \<Rightarrow> Inl TypeError)"
| "deepmerge T run lm self (MVal v) = (case self of MVal _ \<Rightarrow> Inl AttributeError | _ \<Rightarrow> Inl TypeError)"
| "merge_fields T run lm c fs [] = Inr fs"
| "merge_fields T run lm c fs ((f, new) # gs) =
     rbind (case map_of fs f of
              None \<Rightarrow> Inr new
            | Some old \<Rightarrow>
                (if mval_eq old new then Inr old
                 else if \<not> is_instance old new then Inr new
                 else rbind (field_type_of T c f) (\<lambda>ty.
                   case ty of
                     FClass _ \<Rightarrow> deepmerge T run lm old new
                   | FDict \<Rightarrow>
                       (case old of
                          MVal v \<Rightarrow>
                            (case new of MVal w \<Rightarrow> rbind (merge_dict run (legacy_list_merge lm) ''override'' v w) (\<lambda>u. Inr (MVal u)) | _ \<Rightarrow> Inl TypeError)
                        | _ \<Rightarrow> Inl TypeError)
                   | FScalar _ \<Rightarrow> Inr new))) (\<lambda>v.
       merge_fields T run lm c (AList.update f v fs) gs)"
| "merge_indexed T run lm xs pre [] = Inr (fold (\<lambda>(k, x) acc. AList.update k x acc) xs pre)"
| "merge_indexed T run lm xs pre ((k, new) # ys) =
     (if created_from_null new then merge_indexed T run lm (AList.delete k xs) pre ys
      else case map_of xs k of
        None \<Rightarrow>
          if prepends lm then merge_indexed T run lm xs (AList.update k new pre) ys
          else merge_indexed T run lm (AList.update k new xs) pre ys
      | Some old \<Rightarrow> rbind (deepmerge T run lm old new) (\<lambda>x. merge_indexed T run lm (AList.update k x xs) pre ys))"

section \<open>Inheriting\<close>

text \<open>\<open>_deepinherit\<close>: fields and items that are not set are taken over; objects created from null win.\<close>

fun deepinherit :: "class_table \<Rightarrow> merger \<Rightarrow> mval \<Rightarrow> mval \<Rightarrow> (py_exn, mval) result"
and inherit_fields :: "class_table \<Rightarrow> merger \<Rightarrow> string \<Rightarrow> (string \<times> mval) list \<Rightarrow> (string \<times> mval) list \<Rightarrow>
  (py_exn, (string \<times> mval) list) result"
and inherit_indexed :: "class_table \<Rightarrow> merger \<Rightarrow> (pv \<times> mval) list \<Rightarrow> (pv \<times> mval) list \<Rightarrow>
  (py_exn, (pv \<times> mval) list) result" where
  "deepinherit T run self (MModel c' gs cu' sk' n' b') =
     (case self of
        MModel c fs cu sk n b \<Rightarrow>
          (if c \<noteq> c' then Inl TypeError
           else if n \<or> b then Inr self
           else if n' then Inr (MModel c fs cu sk n True)
           else rbind (inherit_fields T run c fs gs) (\<lambda>fs'.
                rbind (merge_custom run ''keep'' ''use_existing'' cu cu') (\<lambda>cu''.
                  Inr (MModel c fs' cu'' sk n b))))
      | MIndexed _ _ _ _ \<Rightarrow> Inl TypeError
      | _ \<Rightarrow> Inl AttributeError)"
| "deepinherit T run self (MIndexed c' ys n' b') =
     (case self of
        MIndexed c xs n b \<Rightarrow>
          (if c \<noteq> c' then Inl TypeError
           else if n \<or> b then Inr self
           else if n' then Inr (MIndexed c xs n True)
           else rbind (inherit_indexed T run xs ys) (\<lambda>zs. Inr (MIndexed c zs n b)))
      | MModel _ _ _ _ _ _ \<Rightarrow> Inl TypeError
      | _ \<Rightarrow> Inl AttributeError)"
| "deepinherit T run self (MList c' ys n' b') =
     (case self of MList _ _ _ _ \<Rightarrow> Inl AttributeError | MVal _ \<Rightarrow> Inl AttributeError | _ \<Rightarrow> Inl TypeError)"
| "deepinherit T run self (MVal v) =
     (case self of MList _ _ _ _ \<Rightarrow> Inl AttributeError | MVal _ \<Rightarrow> Inl AttributeError | _ \<Rightarrow> Inl TypeError)"
| "inherit_fields T run c fs [] = Inr fs"
| "inherit_fields T run c fs ((f, new) # gs) =
     rbind (case map_of fs f of
              None \<Rightarrow> Inr new
            | Some old \<Rightarrow>
                (if mval_eq old new then Inr old
                 else rbind (field_type_of T c f) (\<lambda>ty.
                   case ty of
                     FClass d \<Rightarrow>
                       (case T d of Some (CList _) \<Rightarrow> Inr old | _ \<Rightarrow> deepinherit T run old new)
                   | FDict \<Rightarrow>
                       (case old of
                          MVal v \<Rightarrow>
                            (case new of MVal w \<Rightarrow> rbind (merge_dict run ''keep'' ''use_existing'' v w) (\<lambda>u. Inr (MVal u)) | _ \<Rightarrow> Inl TypeError)
                        | _ \<Rightarrow> Inl TypeError)
                   | FScalar _ \<Rightarrow> Inr old))) (\<lambda>v.
       inherit_fields T run c (AList.update f v fs) gs)"
| "inherit_indexed T run xs [] = Inr xs"
| "inherit_indexed T run xs ((k, new) # ys) =
     (case map_of xs k of
        None \<Rightarrow> inherit_indexed T run (AList.update k new xs) ys
      | Some old \<Rightarrow> rbind (deepinherit T run old new) (\<lambda>x. inherit_indexed T run (AList.update k x xs) ys))"

section \<open>Casting\<close>

text \<open>\<open>_cast_as\<close>: a list of models loses its flags, a list of other items keeps the first one.\<close>

fun cast_as :: "class_table \<Rightarrow> bool \<Rightarrow> field_type \<Rightarrow> mval \<Rightarrow> (py_exn, mval) result"
and cast_fields :: "class_table \<Rightarrow> bool \<Rightarrow> string \<Rightarrow> model_class \<Rightarrow> (string \<times> mval) list \<Rightarrow>
  (py_exn, (string \<times> mval) list) result"
and cast_items :: "class_table \<Rightarrow> bool \<Rightarrow> item_type \<Rightarrow> mval list \<Rightarrow> (py_exn, mval list) result"
and cast_entries :: "class_table \<Rightarrow> bool \<Rightarrow> string \<Rightarrow> (pv \<times> mval) list \<Rightarrow> (py_exn, mval list) result" where
  "cast_as T ignore_extra ty (MVal v) = Inl AttributeError"
| "cast_as T ignore_extra ty (MModel c fs cu sk n b) =
     (case ty of
        FClass d \<Rightarrow>
          (case T d of
             Some (CModel m) \<Rightarrow>
               rbind (cast_fields T ignore_extra c m fs) (\<lambda>fs'. Inr (MModel d fs' cu [] n b))
           | _ \<Rightarrow> Inl TypeError)
      | _ \<Rightarrow> Inl TypeError)"
| "cast_as T ignore_extra ty (MList c xs n b) =
     (case ty of
        FClass d \<Rightarrow>
          (case (T d, T c) of
             (Some (CList it'), Some (CList (IModel e))) \<Rightarrow>
               rbind (cast_items T ignore_extra it' xs) (\<lambda>ys. Inr (MList d ys False False))
           | (Some (CList it'), Some (CList it)) \<Rightarrow>
               if it \<noteq> it' then Inl TypeError else Inr (MList d xs n False)
           | _ \<Rightarrow> Inl TypeError)
      | _ \<Rightarrow> Inl TypeError)"
| "cast_as T ignore_extra ty (MIndexed c xs n b) =
     (case ty of
        FClass d \<Rightarrow>
          (case T d of
             Some (CIndexed e pk) \<Rightarrow>
               rbind (cast_entries T ignore_extra e xs) (\<lambda>ys.
               rbind (indexed_items T pk [] ys) (\<lambda>zs. Inr (MIndexed d zs n b)))
           | _ \<Rightarrow> Inl TypeError)
      | _ \<Rightarrow> Inl TypeError)"
| "cast_fields T ignore_extra c m [] = Inr []"
| "cast_fields T ignore_extra c m ((f, v) # fs) =
     (case map_of (model_fields m) f of
        None \<Rightarrow> if ignore_extra then cast_fields T ignore_extra c m fs else Inl TypeError
      | Some i' \<Rightarrow>
          (case field_of T c f of
             None \<Rightarrow> Inl KeyError
           | Some i \<Rightarrow>
               rbind (if i = i' then Inr v
                      else if is_class_type (field_ty i) then cast_as T ignore_extra (field_ty i') v
                      else Inl TypeError) (\<lambda>w.
               rbind (cast_fields T ignore_extra c m fs) (\<lambda>fs'. Inr ((f, w) # fs')))))"
| "cast_items T ignore_extra it [] = Inr []"
| "cast_items T ignore_extra it (x # xs) =
     rbind (case it of IModel e \<Rightarrow> cast_as T ignore_extra (FClass e) x | _ \<Rightarrow> Inl TypeError) (\<lambda>y.
     rbind (cast_items T ignore_extra it xs) (\<lambda>ys. Inr (y # ys)))"
| "cast_entries T ignore_extra e [] = Inr []"
| "cast_entries T ignore_extra e ((k, x) # xs) =
     rbind (cast_as T ignore_extra (FClass e) x) (\<lambda>y.
     rbind (cast_entries T ignore_extra e xs) (\<lambda>ys. Inr (y # ys)))"

section \<open>Indexed lists\<close>

text \<open>\<open>append\<close>: a second item with a primary key must be the same item.\<close>

definition indexed_append :: "class_table \<Rightarrow> mval \<Rightarrow> mval \<Rightarrow> string list \<Rightarrow> (py_exn, mval) result" where
  "indexed_append T self item ignore_fields =
     (case self of
        MIndexed c xs n b \<Rightarrow>
          (case T c of
             Some (CIndexed d pk) \<Rightarrow>
               rbind (get_attr T item pk) (\<lambda>(v, item'). rbind (dict_key v) (\<lambda>k.
                 case map_of xs k of
                   None \<Rightarrow> Inr (MIndexed c (AList.update k item' xs) n b)
                 | Some existing \<Rightarrow>
                     if model_compare item' existing ignore_fields then Inr self
                     else Inl AristaAvdDuplicateDataError))
           | _ \<Rightarrow> Inl AttributeError)
      | _ \<Rightarrow> Inl AttributeError)"

fun indexed_extend :: "class_table \<Rightarrow> mval \<Rightarrow> mval list \<Rightarrow> (py_exn, mval) result" where
  "indexed_extend T self [] = Inr self"
| "indexed_extend T self (x # xs) = rbind (indexed_append T self x []) (\<lambda>s. indexed_extend T s xs)"

text \<open>\<open>obtain\<close>: the item with a key, created if missing.\<close>

definition indexed_obtain :: "class_table \<Rightarrow> mval \<Rightarrow> pv \<Rightarrow> (py_exn, mval \<times> mval) result" where
  "indexed_obtain T self key =
     (case self of
        MIndexed c xs n b \<Rightarrow>
          (case T c of
             Some (CIndexed d pk) \<Rightarrow>
               rbind (dict_key (MVal key)) (\<lambda>k.
                 case map_of xs k of
                   Some x \<Rightarrow> Inr (x, self)
                 | None \<Rightarrow> rbind (load T d (PDict [(pk, key)])) (\<lambda>x. Inr (x, MIndexed c (AList.update k x xs) n b)))
           | _ \<Rightarrow> Inl AttributeError)
      | _ \<Rightarrow> Inl AttributeError)"

section \<open>Combining\<close>

fun combine :: "class_table \<Rightarrow> merger \<Rightarrow> mval \<Rightarrow> mval \<Rightarrow> (py_exn, mval) result"
and combine_fields :: "class_table \<Rightarrow> merger \<Rightarrow> string \<Rightarrow> (string \<times> mval) list \<Rightarrow> (string \<times> mval) list \<Rightarrow>
  (py_exn, (string \<times> mval) list) result" where
  "combine T run self (MModel c' gs cu' sk' n' b') =
     (case self of
        MModel c fs cu sk n b \<Rightarrow>
          (if c \<noteq> c' then Inl TypeError
           else rbind (combine_fields T run c fs gs) (\<lambda>fs'.
                case merge_custom run ''append_rp'' ''must_match'' cu cu' of
                  Inr cu'' \<Rightarrow> Inr (MModel c fs' cu'' sk n b)
                | Inl ValueError \<Rightarrow> Inl AristaAvdDuplicateDataError
                | Inl e \<Rightarrow> Inl e))
      | MVal _ \<Rightarrow> Inl AttributeError
      | _ \<Rightarrow> Inl TypeError)"
| "combine T run self (MList c' ys n' b') =
     (case self of
        MList c xs n b \<Rightarrow>
          (if c \<noteq> c' then Inl TypeError else Inr (MList c (merge_list AppendUnique xs ys) n b))
      | MVal _ \<Rightarrow> Inl AttributeError
      | _ \<Rightarrow> Inl TypeError)"
| "combine T run self (MIndexed c' ys n' b') =
     (case self of
        MIndexed c xs n b \<Rightarrow> (if c \<noteq> c' then Inl TypeError else indexed_extend T self (map snd ys))
      | MVal _ \<Rightarrow> Inl AttributeError
      | _ \<Rightarrow> Inl TypeError)"
| "combine T run self (MVal v) = (case self of MVal _ \<Rightarrow> Inl AttributeError | _ \<Rightarrow> Inl TypeError)"
| "combine_fields T run c fs [] = Inr fs"
| "combine_fields T run c fs ((f, new) # gs) =
     rbind (case map_of fs f of
              None \<Rightarrow> Inr new
            | Some old \<Rightarrow>
                rbind (field_type_of T c f) (\<lambda>ty.
                  if is_class_type ty then combine T run old new
                  else if mval_eq old new then Inr old
                  else Inl AristaAvdDuplicateDataError)) (\<lambda>v.
       combine_fields T run c (AList.update f v fs) gs)"

section \<open>Values at a path\<close>

text \<open>A path goes through fields of models and items of indexed lists; a value is what stands at its
  end. A merge deletes the items the other list has created from null: their values are not live.\<close>

datatype step = Field string | Key pv

fun lookup :: "bool \<Rightarrow> mval \<Rightarrow> step list \<Rightarrow> pv option" where
  "lookup live (MVal v) [] = Some v"
| "lookup live (MModel c fs cu sk n b) (Field f # p) = (case map_of fs f of Some x \<Rightarrow> lookup live x p | None \<Rightarrow> None)"
| "lookup live (MIndexed c xs n b) (Key k # p) =
     (case map_of xs k of Some x \<Rightarrow> if live \<and> created_from_null x then None else lookup live x p | None \<Rightarrow> None)"
| "lookup live _ _ = None"

definition is_scalar :: "pv \<Rightarrow> bool" where
  "is_scalar v \<longleftrightarrow> (\<forall>d. v \<noteq> PDict d) \<and> (\<forall>xs. v \<noteq> PList xs)"

lemma lookup_Some:
  "lookup live x p = Some v \<Longrightarrow>
    (p = [] \<and> x = MVal v) \<or>
    (\<exists>c fs cu sk n b f y q. x = MModel c fs cu sk n b \<and> p = Field f # q \<and> map_of fs f = Some y \<and> lookup live y q = Some v) \<or>
    (\<exists>c xs n b k y q. x = MIndexed c xs n b \<and> p = Key k # q \<and> map_of xs k = Some y \<and>
       \<not> (live \<and> created_from_null y) \<and> lookup live y q = Some v)"
  by (induction live x p rule: lookup.induct) (auto split: option.splits if_splits)

lemma py_eq_scalar_sym: "py_eq v w \<Longrightarrow> is_scalar w \<Longrightarrow> py_eq w v"
  by (cases v; cases w) (auto simp: is_scalar_def)

lemma py_eq_scalar: "py_eq v w \<Longrightarrow> is_scalar w \<Longrightarrow> is_scalar v"
  by (cases v; cases w) (auto simp: is_scalar_def)

text \<open>Equal objects hold equal values.\<close>

lemma mval_eq_null: "mval_eq x y \<Longrightarrow> created_from_null x = created_from_null y"
  by (cases x; cases y) auto

lemma mval_eq_lookup: "mval_eq x y \<Longrightarrow> lookup live y p = Some v \<Longrightarrow> is_scalar v \<Longrightarrow> \<exists>w. lookup live x p = Some w \<and> py_eq w v"
proof (induction x arbitrary: y p v)
  case (MVal w)
  then have "y = MVal v \<and> p = []" by (cases y) (auto dest!: lookup_Some)
  with MVal show ?case by simp
next
  case (MModel c fs cu sk n b)
  then obtain gs cu' sk' b' where y: "y = MModel c gs cu' sk' n b'" "set (dict_keys fs) = set (dict_keys gs)"
      "list_all (\<lambda>(f, v). case map_of gs f of Some w \<Rightarrow> mval_eq v w | None \<Rightarrow> False) fs"
    by (cases y) auto
  from lookup_Some [OF MModel.prems(2)] y(1) obtain f w q where
    p: "p = Field f # q" "map_of gs f = Some w" "lookup live w q = Some v" by auto
  then have "f \<in> set (dict_keys fs)" using y(2) by (metis dict_get_None option.distinct(1))
  then obtain x where x: "map_of fs f = Some x" by (metis dict_get_None option.exhaust)
  then have mem: "(f, x) \<in> set fs" by (rule dict_get_mem)
  with y(3) p(2) have "mval_eq x w" by (fastforce simp: list_all_iff)
  from MModel.IH [OF mem _ this p(3) MModel.prems(3)] x p(1) show ?case by simp
next
  case (MList c xs n b)
  then show ?case by (cases y) (auto dest!: lookup_Some)
next
  case (MIndexed c xs n b)
  then obtain ys b' where y: "y = MIndexed c ys n b'" "set (dict_keys xs) = set (dict_keys ys)"
      "list_all (\<lambda>(f, v). case map_of ys f of Some w \<Rightarrow> mval_eq v w | None \<Rightarrow> False) xs"
    by (cases y) auto
  from lookup_Some [OF MIndexed.prems(2)] y(1) obtain k w q where
    p: "p = Key k # q" "map_of ys k = Some w" "\<not> (live \<and> created_from_null w)" "lookup live w q = Some v" by auto
  then have "k \<in> set (dict_keys xs)" using y(2) by (metis dict_get_None option.distinct(1))
  then obtain x where x: "map_of xs k = Some x" by (metis dict_get_None option.exhaust)
  then have mem: "(k, x) \<in> set xs" by (rule dict_get_mem)
  with y(3) p(2) have eq: "mval_eq x w" by (fastforce simp: list_all_iff)
  from MIndexed.IH [OF mem _ eq p(4) MIndexed.prems(3)] x p(1,3) mval_eq_null [OF eq] show ?case by simp
qed

section \<open>What is inherited\<close>

text \<open>Merging into a scalar in place cannot change it.\<close>

definition keeps_scalars :: "merger \<Rightarrow> bool" where
  "keeps_scalars run \<longleftrightarrow> (\<forall>cfg v w u. is_scalar v \<and> run cfg v w = Inr u \<longrightarrow> u = v)"

lemma merge_dict_scalar:
  assumes "keeps_scalars run" "is_scalar v" "merge_dict run lm sk v w = Inr u"
  shows "u = v"
proof -
  have "merge_all (run cfg) v xs = Inr u \<Longrightarrow> u = v" for cfg xs
  proof (induction xs)
    case (Cons x xs)
    then obtain b where "run cfg v x = Inr b" "merge_all (run cfg) b xs = Inr u" by auto
    with Cons.IH assms(1,2) show ?case by (metis keeps_scalars_def)
  qed simp
  then show ?thesis using assms(3) by (auto simp: merge_dict_def merge_def)
qed

text \<open>\<open>y\<close> is \<open>x\<close> after inheriting from \<open>z\<close>.\<close>

definition inherited :: "mval \<Rightarrow> mval \<Rightarrow> mval \<Rightarrow> bool" where
  "inherited x z y \<longleftrightarrow>
     created_from_null y = created_from_null x \<and>
     (created_from_null z \<longrightarrow> (\<forall>p. lookup False y p = lookup False x p)) \<and>
     (\<forall>p v. lookup False x p = Some v \<and> is_scalar v \<longrightarrow> lookup False y p = Some v) \<and>
     (\<forall>p v. lookup False y p = Some v \<and> lookup False x p = None \<longrightarrow> lookup False z p = Some v)"

lemma inherited_refl [simp]: "inherited x z x"
  by (auto simp: inherited_def)

definition inherited_map :: "('k \<Rightarrow> mval option) \<Rightarrow> ('k \<Rightarrow> mval option) \<Rightarrow> ('k \<Rightarrow> mval option) \<Rightarrow> bool" where
  "inherited_map xs zs ys \<longleftrightarrow>
     (\<forall>k. case xs k of
            None \<Rightarrow> ys k = zs k
          | Some x \<Rightarrow> (\<exists>y. ys k = Some y \<and> (case zs k of None \<Rightarrow> y = x | Some z \<Rightarrow> inherited x z y)))"

lemma inherited_map_refl: "zs = Map.empty \<Longrightarrow> inherited_map xs zs xs"
  by (auto simp: inherited_map_def split: option.splits)

text \<open>One round of a loop over the entries of the other object.\<close>

lemma inherited_map_step:
  assumes "inherited_map (map_of (AList.update k v xs)) (map_of zs) ys" "k \<notin> set (dict_keys zs)"
    and "case map_of xs k of None \<Rightarrow> v = new | Some x \<Rightarrow> inherited x new v"
  shows "inherited_map (map_of xs) (map_of ((k, new) # zs)) ys"
  unfolding inherited_map_def
proof
  fix j
  have none: "map_of zs k = None" using assms(2) by (simp add: dict_get_None)
  note at = assms(1) [unfolded inherited_map_def, rule_format]
  show "case map_of xs j of
            None \<Rightarrow> ys j = map_of ((k, new) # zs) j
          | Some x \<Rightarrow> (\<exists>y. ys j = Some y \<and> (case map_of ((k, new) # zs) j of None \<Rightarrow> y = x | Some z \<Rightarrow> inherited x z y))"
  proof (cases "j = k")
    case True
    with at [of k] none have "ys k = Some v" by (simp add: dict_update_get)
    then show ?thesis using True assms(3) by (auto split: option.splits)
  next
    case False
    then have "map_of ((k, new) # zs) j = map_of zs j" by simp
    then show ?thesis using at [of j] False by (simp only: dict_update_get if_False)
  qed
qed

lemma inherited_model:
  assumes "inherited_map (map_of fs) (map_of gs) (map_of fs')" "\<not> n'"
  shows "inherited (MModel c fs cu sk n b) (MModel c gs cu' sk' n' b') (MModel c fs' cu'' sk'' n b'')"
  unfolding inherited_def
proof (intro conjI allI impI)
  note at = assms(1) [unfolded inherited_map_def, rule_format]
  fix p v
  show "lookup False (MModel c fs' cu'' sk'' n b'') p = Some v"
    if h: "lookup False (MModel c fs cu sk n b) p = Some v \<and> is_scalar v"
  proof -
    from h lookup_Some [of False "MModel c fs cu sk n b" p v] obtain f q x where
      "p = Field f # q" "map_of fs f = Some x" "lookup False x q = Some v" by auto
    with at [of f] h show ?thesis by (auto simp: inherited_def split: option.splits)
  qed
  show "lookup False (MModel c gs cu' sk' n' b') p = Some v"
    if h: "lookup False (MModel c fs' cu'' sk'' n b'') p = Some v \<and> lookup False (MModel c fs cu sk n b) p = None"
  proof -
    from h lookup_Some [of False "MModel c fs' cu'' sk'' n b''" p v] obtain f q y where
      "p = Field f # q" "map_of fs' f = Some y" "lookup False y q = Some v" by auto
    with at [of f] h show ?thesis by (auto simp: inherited_def split: option.splits)
  qed
qed (use assms(2) in auto)

lemma inherited_indexed:
  assumes "inherited_map (map_of xs) (map_of ys) (map_of zs)" "\<not> n'"
  shows "inherited (MIndexed c xs n b) (MIndexed c ys n' b') (MIndexed c zs n b'')"
  unfolding inherited_def
proof (intro conjI allI impI)
  note at = assms(1) [unfolded inherited_map_def, rule_format]
  fix p v
  show "lookup False (MIndexed c zs n b'') p = Some v" if h: "lookup False (MIndexed c xs n b) p = Some v \<and> is_scalar v"
  proof -
    from h lookup_Some [of False "MIndexed c xs n b" p v] obtain k q x where
      "p = Key k # q" "map_of xs k = Some x" "lookup False x q = Some v" by auto
    with at [of k] h show ?thesis by (auto simp: inherited_def split: option.splits)
  qed
  show "lookup False (MIndexed c ys n' b') p = Some v"
    if h: "lookup False (MIndexed c zs n b'') p = Some v \<and> lookup False (MIndexed c xs n b) p = None"
  proof -
    from h lookup_Some [of False "MIndexed c zs n b''" p v] obtain k q y where
      k: "p = Key k # q" "map_of zs k = Some y" "lookup False y q = Some v" by auto
    show ?thesis
    proof (cases "map_of xs k")
      case None
      with at [of k] k(2) have "map_of ys k = Some y" by simp
      with k show ?thesis by simp
    next
      case (Some x)
      with at [of k] k obtain z where z: "map_of ys k = Some z" "inherited x z y"
        using h by (cases "map_of ys k") auto
      with k Some h have "lookup False x q = None" by (simp add: inherited_def)
      with z k show ?thesis by (auto simp: inherited_def)
    qed
  qed
qed (use assms(2) in auto)

text \<open>Every value inside of a well-typed object is well-typed.\<close>

lemma wf_model_parts:
  assumes "wf_val T ty (MModel c gs cu sk n b)"
  shows "dict_wf gs \<and> (\<forall>(f, v) \<in> set gs. \<exists>t. wf_val T t v)"
proof -
  from assms obtain m where "T c = Some (CModel m)" by (auto split: option.splits class_info.splits)
  with assms have "dict_wf gs"
    "list_all (\<lambda>(f, v). case map_of (model_fields m) f of Some i \<Rightarrow> wf_val T (field_ty i) v | None \<Rightarrow> False) gs"
    by simp_all
  then show ?thesis by (fastforce simp: list_all_iff split: option.splits)
qed

lemma wf_indexed_parts:
  assumes "wf_val T ty (MIndexed c ys n b)"
  shows "dict_wf ys \<and> (\<forall>(k, v) \<in> set ys. \<exists>t. wf_val T t v)"
proof -
  from assms obtain d pk where "T c = Some (CIndexed d pk)" by (auto split: option.splits class_info.splits)
  with assms show ?thesis by (auto simp: list_all_iff)
qed

definition all_wf :: "class_table \<Rightarrow> ('k \<times> mval) list \<Rightarrow> bool" where
  "all_wf T gs \<longleftrightarrow> (\<forall>(f, v) \<in> set gs. \<exists>t. wf_val T t v)"

lemma all_wf_Cons [simp]: "all_wf T ((f, v) # gs) \<longleftrightarrow> (\<exists>t. wf_val T t v) \<and> all_wf T gs"
  by (simp add: all_wf_def)

lemma lookup_block [simp]:
  "lookup False (MModel c fs cu sk n True) p = lookup False (MModel c fs cu sk n False) p"
  "lookup False (MIndexed c xs n True) p = lookup False (MIndexed c xs n False) p"
proof -
  show "lookup False (MModel c fs cu sk n True) p = lookup False (MModel c fs cu sk n False) p"
  proof (cases p)
    case (Cons s q)
    then show ?thesis by (cases s) auto
  qed simp
  show "lookup False (MIndexed c xs n True) p = lookup False (MIndexed c xs n False) p"
  proof (cases p)
    case (Cons s q)
    then show ?thesis by (cases s) auto
  qed simp
qed

lemma inherited_scalar: "(is_scalar v \<Longrightarrow> u = v) \<Longrightarrow> inherited (MVal v) (MVal w) (MVal u)"
  by (auto simp: inherited_def dest!: lookup_Some)

lemma deepinherit_inherited:
  assumes "keeps_scalars run"
  shows "deepinherit T run a z = Inr r \<Longrightarrow> wf_val T t z \<Longrightarrow> inherited a z r"
    and "inherit_fields T run c fs gs = Inr fs' \<Longrightarrow> dict_wf gs \<Longrightarrow> all_wf T gs \<Longrightarrow>
      inherited_map (map_of fs) (map_of gs) (map_of fs')"
    and "inherit_indexed T run xs ys = Inr zs \<Longrightarrow> dict_wf ys \<Longrightarrow> all_wf T ys \<Longrightarrow>
      inherited_map (map_of xs) (map_of ys) (map_of zs)"
  using assms
proof (induction T run a z and T run c fs gs and T run xs ys
    arbitrary: r t and fs' and zs rule: deepinherit_inherit_fields_inherit_indexed.induct)
  case (1 T run self c' gs cu' sk' n' b')
  then obtain c fs cu sk n b where self: "self = MModel c fs cu sk n b" "c = c'"
    by (cases self) (auto split: if_splits)
  note parts = wf_model_parts [OF 1(3)]
  show ?case
  proof (cases "n \<or> b")
    case True
    then show ?thesis using 1(2) self by simp
  next
    case nb: False
    show ?thesis
    proof (cases n')
      case True
      then show ?thesis using 1(2) self nb by (auto simp: inherited_def)
    next
      case False
      with 1(2) self nb obtain fs' cu'' where r: "inherit_fields T run c fs gs = Inr fs'" "r = MModel c fs' cu'' sk n b"
        by auto
      have "inherited_map (map_of fs) (map_of gs) (map_of fs')"
        using 1(1) [OF self(1) _ nb False r(1)] self(2) parts 1(4) by (simp add: all_wf_def)
      then show ?thesis unfolding r(2) self using False by (rule inherited_model)
    qed
  qed
next
  case (2 T run self c' ys n' b')
  then obtain c xs n b where self: "self = MIndexed c xs n b" "c = c'"
    by (cases self) (auto split: if_splits)
  note parts = wf_indexed_parts [OF 2(3)]
  show ?case
  proof (cases "n \<or> b")
    case True
    then show ?thesis using 2(2) self by simp
  next
    case nb: False
    show ?thesis
    proof (cases n')
      case True
      then show ?thesis using 2(2) self nb by (auto simp: inherited_def)
    next
      case False
      with 2(2) self nb obtain zs where r: "inherit_indexed T run xs ys = Inr zs" "r = MIndexed c zs n b"
        by auto
      have "inherited_map (map_of xs) (map_of ys) (map_of zs)"
        using 2(1) [OF self(1) _ nb False r(1)] self(2) parts 2(4) by (simp add: all_wf_def)
      then show ?thesis unfolding r(2) self using False by (rule inherited_indexed)
    qed
  qed
next
  case (3 T run self c' ys n' b')
  then show ?case by (cases self) auto
next
  case (4 T run self v)
  then show ?case by (cases self) auto
next
  case (5 T run c fs)
  then show ?case by (simp add: inherited_map_refl)
next
  case (6 T run c fs f new gs)
  from 6(5) obtain v where v: "(case map_of fs f of None \<Rightarrow> Inr new
      | Some old \<Rightarrow>
          (if mval_eq old new then Inr old
           else rbind (field_type_of T c f) (\<lambda>ty.
             case ty of
               FClass d \<Rightarrow>
                 (case T d of Some (CList _) \<Rightarrow> Inr old | _ \<Rightarrow> deepinherit T run old new)
             | FDict \<Rightarrow>
                 (case old of
                    MVal v \<Rightarrow>
                      (case new of MVal w \<Rightarrow> rbind (merge_dict run ''keep'' ''use_existing'' v w) (\<lambda>u. Inr (MVal u)) | _ \<Rightarrow> Inl TypeError)
                  | _ \<Rightarrow> Inl TypeError)
             | FScalar _ \<Rightarrow> Inr old))) = Inr v"
      "inherit_fields T run c (AList.update f v fs) gs = Inr fs'"
    by (simp only: inherit_fields.simps rbind_Inr_iff) blast
  from 6(7) obtain t' where t': "wf_val T t' new" by auto
  have "case map_of fs f of None \<Rightarrow> v = new | Some x \<Rightarrow> inherited x new v"
  proof (cases "map_of fs f")
    case None
    then show ?thesis using v(1) by simp
  next
    case (Some old)
    show ?thesis
    proof (cases "mval_eq old new")
      case True
      then show ?thesis using v(1) Some by simp
    next
      case False
      with v(1) Some obtain ty where ty: "field_type_of T c f = Inr ty" by auto
      show ?thesis
      proof (cases ty)
        case (FScalar s)
        then show ?thesis using v(1) Some False ty by simp
      next
        case FDict
        then obtain a b u where "old = MVal a" "new = MVal b" "merge_dict run ''keep'' ''use_existing'' a b = Inr u" "v = MVal u"
          using v(1) Some False ty by (auto split: mval.splits)
        then show ?thesis using Some merge_dict_scalar [OF 6(8)] by (auto intro!: inherited_scalar)
      next
        case (FClass d)
        have head: "(case T d of Some (CList _) \<Rightarrow> Inr old | _ \<Rightarrow> deepinherit T run old new) = Inr v"
          using v(1) Some False ty FClass by simp
        show ?thesis
        proof (cases "T d")
          case None
          with head 6(1) [OF Some False ty FClass None _ t' 6(8)] Some show ?thesis by simp
        next
          case T: (Some ci)
          show ?thesis
          proof (cases ci)
            case (CModel m)
            with head T 6(2) [OF Some False ty FClass T CModel _ t' 6(8)] Some show ?thesis by simp
          next
            case (CList it)
            with head T Some show ?thesis by simp
          next
            case (CIndexed e pk)
            with head T 6(3) [OF Some False ty FClass T CIndexed _ t' 6(8)] Some show ?thesis by simp
          qed
        qed
      qed
    qed
  qed
  moreover have "inherited_map (map_of (AList.update f v fs)) (map_of gs) (map_of fs')"
    by (rule 6(4) [OF _ v(2)]) (use v(1) 6(6,7,8) in simp_all)
  ultimately show ?case using 6(6) by (intro inherited_map_step) auto
next
  case (7 T run xs)
  then show ?case by (simp add: inherited_map_refl)
next
  case (8 T run xs k new ys)
  from 8(6) obtain t' where t': "wf_val T t' new" by auto
  from 8(4) obtain v where v: "(case map_of xs k of None \<Rightarrow> Inr new | Some old \<Rightarrow> deepinherit T run old new) = Inr v"
      "inherit_indexed T run (AList.update k v xs) ys = Inr zs"
    by (auto split: option.splits)
  have "case map_of xs k of None \<Rightarrow> v = new | Some x \<Rightarrow> inherited x new v"
    using v(1) 8(2) t' 8(7) by (auto split: option.splits)
  moreover have "inherited_map (map_of (AList.update k v xs)) (map_of ys) (map_of zs)"
    using v 8(1,3) 8(5,6,7) by (cases "map_of xs k") auto
  ultimately show ?case using 8(5) by (intro inherited_map_step) auto
qed

section \<open>What a merge holds\<close>

text \<open>\<open>y\<close> is \<open>x\<close> after merging \<open>z\<close> into it.\<close>

definition merged :: "mval \<Rightarrow> mval \<Rightarrow> mval \<Rightarrow> bool" where
  "merged x z y \<longleftrightarrow>
     created_from_null y = created_from_null z \<and>
     (\<forall>p v. lookup True z p = Some v \<and> is_scalar v \<longrightarrow> (\<exists>w. lookup True y p = Some w \<and> py_eq w v)) \<and>
     (\<forall>p v. lookup False y p = Some v \<and> lookup False z p = None \<longrightarrow> lookup False x p = Some v)"

lemma scalar_eq_refl: "is_scalar v \<Longrightarrow> py_eq v v"
  by (cases v) (auto simp: is_scalar_def)

lemma merged_new: "merged x z z"
  by (auto simp: merged_def scalar_eq_refl)

lemma merged_eq: "mval_eq x z \<Longrightarrow> merged x z x"
  by (auto simp: merged_def mval_eq_null mval_eq_lookup)

definition merged_map :: "('k \<Rightarrow> mval option) \<Rightarrow> ('k \<Rightarrow> mval option) \<Rightarrow> ('k \<Rightarrow> mval option) \<Rightarrow> bool" where
  "merged_map xs zs ys \<longleftrightarrow>
     (\<forall>k. case zs k of
            None \<Rightarrow> ys k = xs k
          | Some z \<Rightarrow> (\<exists>y. ys k = Some y \<and> (case xs k of None \<Rightarrow> y = z | Some x \<Rightarrow> merged x z y)))"

lemma merged_map_step:
  assumes "merged_map (map_of (AList.update k v xs)) (map_of zs) ys" "k \<notin> set (dict_keys zs)"
    and "case map_of xs k of None \<Rightarrow> v = new | Some x \<Rightarrow> merged x new v"
  shows "merged_map (map_of xs) (map_of ((k, new) # zs)) ys"
  unfolding merged_map_def
proof
  fix j
  have none: "map_of zs k = None" using assms(2) by (simp add: dict_get_None)
  note at = assms(1) [unfolded merged_map_def, rule_format]
  show "case map_of ((k, new) # zs) j of
            None \<Rightarrow> ys j = map_of xs j
          | Some z \<Rightarrow> (\<exists>y. ys j = Some y \<and> (case map_of xs j of None \<Rightarrow> y = z | Some x \<Rightarrow> merged x z y))"
  proof (cases "j = k")
    case True
    with at [of k] none have "ys k = Some v" by (simp add: dict_update_get)
    then show ?thesis using True assms(3) by (auto split: option.splits)
  next
    case False
    then have "map_of ((k, new) # zs) j = map_of zs j" by simp
    then show ?thesis using at [of j] False by (simp only: dict_update_get if_False)
  qed
qed

lemma merged_model:
  assumes "merged_map (map_of (if n' then [] else fs)) (map_of gs) (map_of fs')"
  shows "merged (MModel c fs cu sk n b) (MModel c gs cu' sk' n' b') (MModel c fs' cu'' sk'' n' b'')"
  unfolding merged_def
proof (intro conjI allI impI)
  note at = assms [unfolded merged_map_def, rule_format]
  fix p v
  show "\<exists>w. lookup True (MModel c fs' cu'' sk'' n' b'') p = Some w \<and> py_eq w v"
    if h: "lookup True (MModel c gs cu' sk' n' b') p = Some v \<and> is_scalar v"
  proof -
    from h lookup_Some [of True "MModel c gs cu' sk' n' b'" p v] obtain f q z where
      "p = Field f # q" "map_of gs f = Some z" "lookup True z q = Some v" by auto
    with at [of f] h show ?thesis
      by (cases "map_of (if n' then [] else fs) f") (auto simp: merged_def scalar_eq_refl)
  qed
  show "lookup False (MModel c fs cu sk n b) p = Some v"
    if h: "lookup False (MModel c fs' cu'' sk'' n' b'') p = Some v \<and> lookup False (MModel c gs cu' sk' n' b') p = None"
  proof -
    from h lookup_Some [of False "MModel c fs' cu'' sk'' n' b''" p v] obtain f q y where
      f: "p = Field f # q" "map_of fs' f = Some y" "lookup False y q = Some v" by auto
    show ?thesis
    proof (cases "map_of gs f")
      case None
      with at [of f] f h show ?thesis by (auto split: if_splits)
    next
      case (Some z)
      with f h have "lookup False z q = None" by simp
      with Some at [of f] f show ?thesis
        by (cases "map_of (if n' then [] else fs) f") (auto simp: merged_def split: if_splits)
    qed
  qed
qed simp

text \<open>For an indexed list: null items are deleted.\<close>

definition merged_items :: "('k \<Rightarrow> mval option) \<Rightarrow> ('k \<Rightarrow> mval option) \<Rightarrow> ('k \<Rightarrow> mval option) \<Rightarrow> bool" where
  "merged_items xs zs ys \<longleftrightarrow>
     (\<forall>k. case zs k of
            None \<Rightarrow> ys k = xs k
          | Some z \<Rightarrow>
              if created_from_null z then ys k = None
              else (\<exists>y. ys k = Some y \<and> (case xs k of None \<Rightarrow> y = z | Some x \<Rightarrow> merged x z y)))"

lemma merged_indexed:
  assumes "merged_items (map_of xs) (map_of ys) (map_of zs)"
  shows "merged (MIndexed c xs n b) (MIndexed c ys n' b') (MIndexed c zs n' b'')"
  unfolding merged_def
proof (intro conjI allI impI)
  note at = assms [unfolded merged_items_def, rule_format]
  fix p v
  show "\<exists>w. lookup True (MIndexed c zs n' b'') p = Some w \<and> py_eq w v"
    if h: "lookup True (MIndexed c ys n' b') p = Some v \<and> is_scalar v"
  proof -
    from h lookup_Some [of True "MIndexed c ys n' b'" p v] obtain k q z where
      "p = Key k # q" "map_of ys k = Some z" "\<not> created_from_null z" "lookup True z q = Some v" by auto
    with at [of k] h show ?thesis by (cases "map_of xs k") (auto simp: merged_def scalar_eq_refl)
  qed
  show "lookup False (MIndexed c xs n b) p = Some v"
    if h: "lookup False (MIndexed c zs n' b'') p = Some v \<and> lookup False (MIndexed c ys n' b') p = None"
  proof -
    from h lookup_Some [of False "MIndexed c zs n' b''" p v] obtain k q y where
      k: "p = Key k # q" "map_of zs k = Some y" "lookup False y q = Some v" by auto
    show ?thesis
    proof (cases "map_of ys k")
      case None
      with at [of k] have "map_of xs k = Some y" using k(2) by simp
      with k show ?thesis by simp
    next
      case (Some z)
      with at [of k] k(2) have z: "\<not> created_from_null z" by (auto split: if_splits)
      with Some k(1) h have "lookup False z q = None" by simp
      with Some z at [of k] k h show ?thesis by (cases "map_of xs k") (auto simp: merged_def)
    qed
  qed
qed simp

definition typed_fields :: "class_table \<Rightarrow> string \<Rightarrow> (string \<times> mval) list \<Rightarrow> bool" where
  "typed_fields T c gs \<longleftrightarrow> (\<forall>(f, v) \<in> set gs. \<exists>i. field_of T c f = Some i \<and> wf_val T (field_ty i) v)"

lemma wf_model_typed:
  assumes "wf_val T ty (MModel c gs cu sk n b)"
  shows "dict_wf gs \<and> typed_fields T c gs"
proof -
  from assms obtain m where m: "T c = Some (CModel m)" by (auto split: option.splits class_info.splits)
  with assms have "dict_wf gs"
    "list_all (\<lambda>(f, v). case map_of (model_fields m) f of Some i \<Rightarrow> wf_val T (field_ty i) v | None \<Rightarrow> False) gs"
    by simp_all
  then show ?thesis using m by (fastforce simp: list_all_iff typed_fields_def field_of_def split: option.splits)
qed

lemma map_of_fold_update:
  "dict_wf xs \<Longrightarrow> map_of (fold (\<lambda>(k, x) acc. AList.update k x acc) xs pre) k
     = (case map_of xs k of None \<Rightarrow> map_of pre k | Some v \<Rightarrow> Some v)"
proof (induction xs arbitrary: pre)
  case (Cons p xs)
  obtain j v where [simp]: "p = (j, v)" by (cases p)
  from Cons.prems have "map_of xs j = None" by (simp add: map_of_eq_None_iff)
  with Cons show ?case by (auto simp: dict_update_get split: option.splits)
qed simp

text \<open>The result of the loop over the other items, given the own items and those to prepend.\<close>

definition merged_view ::
  "('k \<Rightarrow> mval option) \<Rightarrow> ('k \<Rightarrow> mval option) \<Rightarrow> ('k \<Rightarrow> mval option) \<Rightarrow> ('k \<Rightarrow> mval option) \<Rightarrow> bool" where
  "merged_view xs pre ys zs \<longleftrightarrow>
     (\<forall>k. case ys k of
            None \<Rightarrow> zs k = (case xs k of None \<Rightarrow> pre k | Some x \<Rightarrow> Some x)
          | Some z \<Rightarrow>
              if created_from_null z then zs k = None
              else (\<exists>y. zs k = Some y \<and> (case xs k of None \<Rightarrow> y = z | Some x \<Rightarrow> merged x z y)))"

lemma merged_view_items: "merged_view xs (\<lambda>_. None) ys zs \<Longrightarrow> merged_items xs ys zs"
proof -
  have id: "(case v of None \<Rightarrow> None | Some x \<Rightarrow> Some x) = v" for v :: "mval option" by (cases v) auto
  show "merged_view xs (\<lambda>_. None) ys zs \<Longrightarrow> merged_items xs ys zs"
    unfolding merged_view_def merged_items_def id .
qed

text \<open>One round: afterwards key \<open>k\<close> holds \<open>v\<close>, or nothing.\<close>

lemma merged_view_step:
  assumes "merged_view xs' pre' (map_of ys) zs" "k \<notin> set (dict_keys ys)"
    and "\<And>j. j \<noteq> k \<Longrightarrow> xs' j = xs j \<and> pre' j = pre j"
    and "(case xs' k of None \<Rightarrow> pre' k | Some x \<Rightarrow> Some x) = v"
    and "if created_from_null new then v = None
         else (\<exists>y. v = Some y \<and> (case xs k of None \<Rightarrow> y = new | Some x \<Rightarrow> merged x new y))"
  shows "merged_view xs pre (map_of ((k, new) # ys)) zs"
  unfolding merged_view_def
proof
  fix j
  have none: "map_of ys k = None" using assms(2) by (simp add: dict_get_None)
  note at = assms(1) [unfolded merged_view_def, rule_format]
  show "case map_of ((k, new) # ys) j of
            None \<Rightarrow> zs j = (case xs j of None \<Rightarrow> pre j | Some x \<Rightarrow> Some x)
          | Some z \<Rightarrow>
              if created_from_null z then zs j = None
              else (\<exists>y. zs j = Some y \<and> (case xs j of None \<Rightarrow> y = z | Some x \<Rightarrow> merged x z y))"
  proof (cases "j = k")
    case True
    with at [of k] none assms(4) have "zs k = v" by simp
    then show ?thesis using True assms(5) by simp
  next
    case False
    then have "map_of ((k, new) # ys) j = map_of ys j" by simp
    moreover have "xs' j = xs j" "pre' j = pre j" using assms(3) [OF False] by simp_all
    ultimately show ?thesis using at [of j] by (simp only:)
  qed
qed

lemma merged_dict: "merged (MVal v) (MVal (PDict d)) (MVal u)"
  by (auto simp: merged_def is_scalar_def dest!: lookup_Some)

text \<open>The own values met while merging are well-typed.\<close>

definition met_wf :: "class_table \<Rightarrow> ('k \<times> mval) list \<Rightarrow> ('k \<times> mval) list \<Rightarrow> bool" where
  "met_wf T xs ys \<longleftrightarrow> (\<forall>k x. k \<in> set (dict_keys ys) \<and> map_of xs k = Some x \<longrightarrow> (\<exists>t. wf_val T t x))"

lemma met_wf_Cons:
  "met_wf T xs ((k, new) # ys) \<Longrightarrow> k \<notin> set (dict_keys ys) \<Longrightarrow>
    met_wf T (AList.update k v xs) ys \<and> met_wf T (AList.delete k xs) ys \<and> met_wf T xs ys"
  by (auto simp: met_wf_def dict_update_get delete_conv')

lemma all_wf_met: "all_wf T xs \<Longrightarrow> met_wf T xs ys"
  by (auto simp: all_wf_def met_wf_def dest!: map_of_SomeD)

lemma deepmerge_merged:
  assumes "lm \<noteq> Keep"
  shows "deepmerge T run lm a z = Inr r \<Longrightarrow> wf_val T s a \<Longrightarrow> wf_val T t z \<Longrightarrow> merged a z r"
    and "merge_fields T run lm c fs gs = Inr fs' \<Longrightarrow> dict_wf gs \<Longrightarrow> typed_fields T c gs \<Longrightarrow> met_wf T fs gs \<Longrightarrow>
      merged_map (map_of fs) (map_of gs) (map_of fs')"
    and "merge_indexed T run lm xs pre ys = Inr zs \<Longrightarrow> dict_wf xs \<Longrightarrow> dict_wf ys \<Longrightarrow> all_wf T ys \<Longrightarrow> met_wf T xs ys \<Longrightarrow>
      (\<forall>k \<in> set (dict_keys ys). map_of pre k = None) \<Longrightarrow>
      merged_view (map_of xs) (map_of pre) (map_of ys) (map_of zs)"
  using assms
proof (induction T run lm a z and T run lm c fs gs and T run lm xs pre ys
    arbitrary: r s t and fs' and zs rule: deepmerge_merge_fields_merge_indexed.induct)
  case (1 T run lm self c' gs cu' sk' n' b')
  then obtain c fs cu sk n b where self: "self = MModel c fs cu sk n b" "c = c'"
    by (cases self) (auto split: if_splits)
  with 1(2) obtain fs' cu'' where r: "merge_fields T run lm c (if n' then [] else fs) gs = Inr fs'"
      "r = MModel c fs' cu'' sk n' b" by auto
  have "met_wf T (if n' then [] else fs) gs"
    using wf_model_parts [OF 1(3) [unfolded self(1)]] all_wf_met by (auto simp: all_wf_def met_wf_def)
  then have "merged_map (map_of (if n' then [] else fs)) (map_of gs) (map_of fs')"
    using 1(1) [OF self(1) _ r(1)] self(2) wf_model_typed [OF 1(4)] 1(5) by simp
  then show ?case unfolding r(2) self by (rule merged_model)
next
  case (2 T run lm self c' ys n' b')
  then obtain c xs n b where "self = MList c xs n b" "c = c'"
    by (cases self) (auto split: if_splits)
  with 2 show ?case by (auto simp: merged_def dest!: lookup_Some)
next
  case (3 T run lm self c' ys n' b')
  then obtain c xs n b where self: "self = MIndexed c xs n b" "c = c'"
    by (cases self) (auto split: if_splits)
  show ?case
  proof (cases "n \<or> n' \<or> lm = Replace")
    case True
    then have "r = MIndexed c ys n' b" using 3(2) self by simp
    moreover have "lookup live (MIndexed c ys n' b) p = lookup live (MIndexed c' ys n' b') p" for p live
      using self(2) by (cases p; cases "hd p") auto
    ultimately show ?thesis by (auto simp: merged_def scalar_eq_refl)
  next
    case False
    with 3(2,5) self obtain zs where r: "merge_indexed T run lm xs [] ys = Inr zs" "r = MIndexed c zs n b" by auto
    have "merged_view (map_of xs) (map_of []) (map_of ys) (map_of zs)"
      using 3(1) [OF self(1) _ False 3(5) r(1)] self wf_indexed_parts [OF 3(3) [unfolded self(1)]]
        wf_indexed_parts [OF 3(4)] 3(5) by (simp add: all_wf_def [symmetric] all_wf_met)
    then have "merged_items (map_of xs) (map_of ys) (map_of zs)" by (intro merged_view_items) simp
    moreover have "n = n'" using False by blast
    ultimately show ?thesis unfolding r(2) self using merged_indexed self(2) by blast
  qed
next
  case (4 T run lm self v)
  then show ?case by (cases self) auto
next
  case (5 T run lm c fs)
  then show ?case by (simp add: merged_map_def)
next
  case (6 T run lm c fs f new gs)
  from 6(3) obtain v where v: "(case map_of fs f of None \<Rightarrow> Inr new
      | Some old \<Rightarrow>
          (if mval_eq old new then Inr old
           else if \<not> is_instance old new then Inr new
           else rbind (field_type_of T c f) (\<lambda>ty.
             case ty of
               FClass _ \<Rightarrow> deepmerge T run lm old new
             | FDict \<Rightarrow>
                 (case old of
                    MVal v \<Rightarrow>
                      (case new of MVal w \<Rightarrow> rbind (merge_dict run (legacy_list_merge lm) ''override'' v w) (\<lambda>u. Inr (MVal u))
                       | _ \<Rightarrow> Inl TypeError)
                  | _ \<Rightarrow> Inl TypeError)
             | FScalar _ \<Rightarrow> Inr new))) = Inr v"
      "merge_fields T run lm c (AList.update f v fs) gs = Inr fs'"
    by (simp only: merge_fields.simps rbind_Inr_iff) blast
  from 6(5) obtain i where i: "field_of T c f = Some i" "wf_val T (field_ty i) new" by (auto simp: typed_fields_def)
  have "case map_of fs f of None \<Rightarrow> v = new | Some x \<Rightarrow> merged x new v"
  proof (cases "map_of fs f")
    case None
    then show ?thesis using v(1) by simp
  next
    case (Some old)
    then obtain s where s: "wf_val T s old" using 6(6) by (auto simp: met_wf_def)
    show ?thesis
    proof (cases "mval_eq old new \<or> \<not> is_instance old new")
      case True
      then show ?thesis using v(1) Some by (cases "mval_eq old new") (simp_all add: merged_new merged_eq)
    next
      case False
      then have ne: "\<not> mval_eq old new" and inst: "is_instance old new" by simp_all
      have ty: "field_type_of T c f = Inr (field_ty i)" using i by (simp add: field_type_of_def)
      show ?thesis
      proof (cases "field_ty i")
        case (FScalar t)
        then show ?thesis using v(1) Some ne inst ty by (simp add: merged_new)
      next
        case FDict
        then obtain a b u where ab: "old = MVal a" "new = MVal b" "v = MVal u"
          using v(1) Some ne inst ty by (auto split: mval.splits)
        then obtain d where "b = PDict d" using i FDict inst ne by (cases b) auto
        then show ?thesis using ab Some merged_dict by simp
      next
        case (FClass d)
        with v(1) Some ne inst ty have "deepmerge T run lm old new = Inr v" by simp
        from 6(1) [OF Some ne _ ty FClass this s i(2) 6(7)] inst Some show ?thesis by simp
      qed
    qed
  qed
  moreover have "merged_map (map_of (AList.update f v fs)) (map_of gs) (map_of fs')"
  proof (rule 6(2) [OF _ v(2) _ _ _ 6(7)])
    show "dict_wf gs" "typed_fields T c gs" using 6(4,5) by (simp_all add: typed_fields_def)
    show "met_wf T (AList.update f v fs) gs" using met_wf_Cons [OF 6(6)] 6(4) by simp
  qed (rule v(1))
  ultimately show ?case using 6(4) by (intro merged_map_step) auto
next
  case (7 T run lm xs pre)
  then show ?case by (auto simp: merged_view_def map_of_fold_update)
next
  case (8 T run lm xs pre k new ys)
  have fresh: "k \<notin> set (dict_keys ys)" "map_of pre k = None" "\<forall>j \<in> set (dict_keys ys). map_of pre j = None"
    and wf: "dict_wf xs" "dict_wf ys" "all_wf T ys" "\<exists>t. wf_val T t new"
    using 8(7-9,11) by auto
  note met = met_wf_Cons [OF 8(10) fresh(1)]
  show ?case
  proof (cases "created_from_null new")
    case True
    have "merged_view (map_of (AList.delete k xs)) (map_of pre) (map_of ys) (map_of zs)"
      using 8(1) [OF True _ _ wf(2,3)] 8(6,12) True wf(1) met fresh(3) by (simp add: distinct_delete)
    then show ?thesis
      by (rule merged_view_step) (use fresh True in \<open>simp_all add: delete_conv'\<close>)
  next
    case nn: False
    show ?thesis
    proof (cases "map_of xs k")
      case None
      show ?thesis
      proof (cases "prepends lm")
        case True
        have "merged_view (map_of xs) (map_of (AList.update k new pre)) (map_of ys) (map_of zs)"
        proof (rule 8(2) [OF nn None True _ wf(1-3) _ _ 8(12)])
          show "merge_indexed T run lm xs (AList.update k new pre) ys = Inr zs" using 8(6) nn None True by simp
          show "met_wf T xs ys" using met by blast
          show "\<forall>j \<in> set (dict_keys ys). map_of (AList.update k new pre) j = None"
            using fresh by (auto simp: dict_update_get)
        qed
        then show ?thesis
          by (rule merged_view_step) (use fresh nn None in \<open>simp_all add: dict_update_get\<close>)
      next
        case False
        have "merged_view (map_of (AList.update k new xs)) (map_of pre) (map_of ys) (map_of zs)"
        proof (rule 8(3) [OF nn None False _ dict_update_wf [OF wf(1)] wf(2,3) _ fresh(3) 8(12)])
          show "merge_indexed T run lm (AList.update k new xs) pre ys = Inr zs" using 8(6) nn None False by simp
          show "met_wf T (AList.update k new xs) ys" using met by blast
        qed
        then show ?thesis
          by (rule merged_view_step) (use fresh nn None in \<open>simp_all add: dict_update_get\<close>)
      qed
    next
      case (Some old)
      with nn 8(6) obtain x where x: "deepmerge T run lm old new = Inr x"
          "merge_indexed T run lm (AList.update k x xs) pre ys = Inr zs" by auto
      have "\<exists>s. wf_val T s old" by (rule 8(10) [unfolded met_wf_def, rule_format, of k]) (use Some in simp)
      then obtain s t where "wf_val T s old" "wf_val T t new" using wf(4) by blast
      then have m: "merged old new x" using 8(4) [OF nn Some x(1)] 8(12) by blast
      have "merged_view (map_of (AList.update k x xs)) (map_of pre) (map_of ys) (map_of zs)"
        using 8(5) [OF nn Some x(1,2) dict_update_wf [OF wf(1)] wf(2,3)] met fresh(3) 8(12) by blast
      then show ?thesis
        by (rule merged_view_step) (use fresh nn Some m in \<open>auto simp: dict_update_get\<close>)
    qed
  qed
qed

section \<open>What combining holds\<close>

text \<open>\<open>y\<close> holds everything \<open>x\<close> holds, and every scalar of \<open>z\<close>, up to equality.\<close>

definition combined :: "mval \<Rightarrow> mval \<Rightarrow> mval \<Rightarrow> bool" where
  "combined x z y \<longleftrightarrow>
     (\<forall>p v. lookup False x p = Some v \<longrightarrow> lookup False y p = Some v) \<and>
     (\<forall>p v. lookup False z p = Some v \<and> is_scalar v \<longrightarrow> (\<exists>w. lookup False y p = Some w \<and> py_eq w v))"

lemma combined_eq: "mval_eq x z \<Longrightarrow> combined x z x"
  by (auto simp: combined_def mval_eq_lookup)

lemma combined_new: "combined x z z \<longleftrightarrow> (\<forall>p v. lookup False x p = Some v \<longrightarrow> lookup False z p = Some v)"
  by (auto simp: combined_def scalar_eq_refl)

definition combined_map :: "('k \<Rightarrow> mval option) \<Rightarrow> ('k \<Rightarrow> mval option) \<Rightarrow> ('k \<Rightarrow> mval option) \<Rightarrow> bool" where
  "combined_map xs zs ys \<longleftrightarrow>
     (\<forall>k. (case (xs k, zs k) of
             (None, z) \<Rightarrow> ys k = z
           | (Some x, None) \<Rightarrow> ys k = Some x
           | (Some x, Some z) \<Rightarrow> (\<exists>y. ys k = Some y \<and> combined x z y)))"

lemma combined_map_step:
  assumes "combined_map (map_of (AList.update k v xs)) (map_of zs) ys" "k \<notin> set (dict_keys zs)"
    and "case map_of xs k of None \<Rightarrow> v = new | Some x \<Rightarrow> combined x new v"
  shows "combined_map (map_of xs) (map_of ((k, new) # zs)) ys"
  unfolding combined_map_def
proof
  fix j
  have none: "map_of zs k = None" using assms(2) by (simp add: dict_get_None)
  note at = assms(1) [unfolded combined_map_def, rule_format]
  show "case (map_of xs j, map_of ((k, new) # zs) j) of
             (None, z) \<Rightarrow> ys j = z
           | (Some x, None) \<Rightarrow> ys j = Some x
           | (Some x, Some z) \<Rightarrow> (\<exists>y. ys j = Some y \<and> combined x z y)"
  proof (cases "j = k")
    case True
    with at [of k] none have "ys k = Some v" by (simp add: dict_update_get)
    then show ?thesis using True assms(3) by (cases "map_of xs k") auto
  next
    case False
    then have "map_of ((k, new) # zs) j = map_of zs j" "map_of (AList.update k v xs) j = map_of xs j"
      by (simp_all add: dict_update_get)
    then show ?thesis using at [of j] by (simp only:)
  qed
qed

lemma combined_model:
  assumes "combined_map (map_of fs) (map_of gs) (map_of fs')"
  shows "combined (MModel c fs cu sk n b) (MModel c' gs cu' sk' n' b') (MModel c'' fs' cu'' sk'' n'' b'')"
  unfolding combined_def
proof (intro conjI allI impI)
  note at = assms [unfolded combined_map_def, rule_format]
  fix p v
  show "lookup False (MModel c'' fs' cu'' sk'' n'' b'') p = Some v"
    if h: "lookup False (MModel c fs cu sk n b) p = Some v"
  proof -
    from h lookup_Some [of False "MModel c fs cu sk n b" p v] obtain f q x where
      "p = Field f # q" "map_of fs f = Some x" "lookup False x q = Some v" by auto
    with at [of f] show ?thesis by (cases "map_of gs f") (auto simp: combined_def)
  qed
  show "\<exists>w. lookup False (MModel c'' fs' cu'' sk'' n'' b'') p = Some w \<and> py_eq w v"
    if h: "lookup False (MModel c' gs cu' sk' n' b') p = Some v \<and> is_scalar v"
  proof -
    from h lookup_Some [of False "MModel c' gs cu' sk' n' b'" p v] obtain f q z where
      "p = Field f # q" "map_of gs f = Some z" "lookup False z q = Some v" by auto
    with at [of f] h show ?thesis by (cases "map_of fs f") (auto simp: combined_def scalar_eq_refl)
  qed
qed

lemma model_compare_eq: "model_compare x y [] \<Longrightarrow> mval_eq x y"
  by (cases x; cases y) (auto simp: list_all_iff)

text \<open>Values found on the left of an equality are on its right, too.\<close>

lemma py_eq_scalar_left: "py_eq v w \<Longrightarrow> is_scalar v \<Longrightarrow> py_eq w v"
  by (cases v; cases w) (auto simp: is_scalar_def)

lemma mval_eq_lookup_right:
  "mval_eq x y \<Longrightarrow> lookup live x p = Some v \<Longrightarrow> is_scalar v \<Longrightarrow> \<exists>w. lookup live y p = Some w \<and> py_eq w v"
proof (induction x arbitrary: y p v)
  case (MVal u)
  then have "u = v" "p = []" by (auto dest!: lookup_Some)
  with MVal show ?case by (cases y) (auto dest: py_eq_scalar_left)
next
  case (MModel c fs cu sk n b)
  then obtain gs cu' sk' b' where y: "y = MModel c gs cu' sk' n b'"
      "list_all (\<lambda>(f, v). case map_of gs f of Some w \<Rightarrow> mval_eq v w | None \<Rightarrow> False) fs"
    by (cases y) auto
  from lookup_Some [OF MModel.prems(2)] obtain f x q where
    p: "p = Field f # q" "map_of fs f = Some x" "lookup live x q = Some v" by auto
  from p(2) have mem: "(f, x) \<in> set fs" by (rule dict_get_mem)
  with y(2) obtain w where w: "map_of gs f = Some w" "mval_eq x w" by (fastforce simp: list_all_iff split: option.splits)
  from MModel.IH [OF mem _ w(2) p(3) MModel.prems(3)] y(1) w(1) p(1) show ?case by simp
next
  case (MList c xs n b)
  then show ?case by (auto dest!: lookup_Some)
next
  case (MIndexed c xs n b)
  then obtain ys b' where y: "y = MIndexed c ys n b'"
      "list_all (\<lambda>(f, v). case map_of ys f of Some w \<Rightarrow> mval_eq v w | None \<Rightarrow> False) xs"
    by (cases y) auto
  from lookup_Some [OF MIndexed.prems(2)] obtain k x q where
    p: "p = Key k # q" "map_of xs k = Some x" "\<not> (live \<and> created_from_null x)" "lookup live x q = Some v" by auto
  from p(2) have mem: "(k, x) \<in> set xs" by (rule dict_get_mem)
  with y(2) obtain w where w: "map_of ys k = Some w" "mval_eq x w" by (fastforce simp: list_all_iff split: option.splits)
  from MIndexed.IH [OF mem _ w(2) p(4) MIndexed.prems(3)] y(1) w(1) p(1,3) mval_eq_null [OF w(2)] show ?case by simp
qed

text \<open>Appending the items of another list, filed under their keys.\<close>

lemma indexed_extend_combined:
  assumes "T c = Some (CIndexed d pk)" "dict_wf ys" "list_all (\<lambda>(k, x). filed_under pk k x) ys"
    and "indexed_extend T (MIndexed c xs n b) (map snd ys) = Inr r"
  shows "\<exists>zs. r = MIndexed c zs n b \<and> combined_map (map_of xs) (map_of ys) (map_of zs)"
  using assms(2-4)
proof (induction ys arbitrary: xs)
  case Nil
  then show ?case by (auto simp: combined_map_def split: option.splits)
next
  case (Cons p ys)
  obtain k x where [simp]: "p = (k, x)" by (cases p)
  from Cons.prems(2) obtain v where v: "get_defined_attr x pk = Some v" "dict_key v = Inr k"
    by (auto simp: filed_under_def split: option.splits)
  then have attr: "get_attr T x pk = Inr (v, x)" by (cases x) (auto simp: get_attr_def)
  have app: "indexed_append T (MIndexed c xs n b) x [] =
      (case map_of xs k of
         None \<Rightarrow> Inr (MIndexed c (AList.update k x xs) n b)
       | Some y \<Rightarrow> if model_compare x y [] then Inr (MIndexed c xs n b) else Inl AristaAvdDuplicateDataError)"
    by (simp add: indexed_append_def assms(1) attr v(2))
  show ?case
  proof (cases "map_of xs k")
    case None
    with Cons.prems(3) app have "indexed_extend T (MIndexed c (AList.update k x xs) n b) (map snd ys) = Inr r" by simp
    with Cons.IH Cons.prems(1,2) obtain zs where
      zs: "r = MIndexed c zs n b" "combined_map (map_of (AList.update k x xs)) (map_of ys) (map_of zs)" by auto
    from zs(2) have "combined_map (map_of xs) (map_of ((k, x) # ys)) (map_of zs)"
      by (rule combined_map_step) (use Cons.prems(1) None in auto)
    with zs(1) show ?thesis by (auto simp del: map_of.simps)
  next
    case (Some y)
    with Cons.prems(3) app have eq: "model_compare x y []"
        and ext: "indexed_extend T (MIndexed c xs n b) (map snd ys) = Inr r"
      by (auto split: if_splits)
    from eq have comb: "combined y x y"
      by (auto simp: combined_def dest: model_compare_eq mval_eq_lookup_right)
    from Cons.IH [OF _ _ ext] Cons.prems(1,2) obtain zs where
      zs: "r = MIndexed c zs n b" "combined_map (map_of xs) (map_of ys) (map_of zs)" by auto
    have "map_of (AList.update k y xs) = map_of xs" using Some by (auto simp: dict_update_get fun_eq_iff)
    with zs(2) have "combined_map (map_of (AList.update k y xs)) (map_of ys) (map_of zs)" by simp
    then have "combined_map (map_of xs) (map_of ((k, x) # ys)) (map_of zs)"
      by (rule combined_map_step) (use Cons.prems(1) Some comb in auto)
    with zs(1) show ?thesis by (auto simp del: map_of.simps)
  qed
qed

lemma combined_indexed:
  assumes "combined_map (map_of xs) (map_of ys) (map_of zs)"
  shows "combined (MIndexed c xs n b) (MIndexed c' ys n' b') (MIndexed c'' zs n'' b'')"
  unfolding combined_def
proof (intro conjI allI impI)
  note at = assms [unfolded combined_map_def, rule_format]
  fix p v
  show "lookup False (MIndexed c'' zs n'' b'') p = Some v" if h: "lookup False (MIndexed c xs n b) p = Some v"
  proof -
    from h lookup_Some [of False "MIndexed c xs n b" p v] obtain k q x where
      "p = Key k # q" "map_of xs k = Some x" "lookup False x q = Some v" by auto
    with at [of k] show ?thesis by (cases "map_of ys k") (auto simp: combined_def)
  qed
  show "\<exists>w. lookup False (MIndexed c'' zs n'' b'') p = Some w \<and> py_eq w v"
    if h: "lookup False (MIndexed c' ys n' b') p = Some v \<and> is_scalar v"
  proof -
    from h lookup_Some [of False "MIndexed c' ys n' b'" p v] obtain k q z where
      "p = Key k # q" "map_of ys k = Some z" "lookup False z q = Some v" by auto
    with at [of k] h show ?thesis by (cases "map_of xs k") (auto simp: combined_def scalar_eq_refl)
  qed
qed

lemma combine_combined:
  shows "combine T run a z = Inr r \<Longrightarrow> wf_val T t z \<Longrightarrow> combined a z r"
    and "combine_fields T run c fs gs = Inr fs' \<Longrightarrow> dict_wf gs \<Longrightarrow> all_wf T gs \<Longrightarrow>
      combined_map (map_of fs) (map_of gs) (map_of fs')"
proof (induction T run a z and T run c fs gs arbitrary: r t and fs' rule: combine_combine_fields.induct)
  case (1 T run self c' gs cu' sk' n' b')
  then obtain c fs cu sk n b where self: "self = MModel c fs cu sk n b" "c = c'"
    by (cases self) (auto split: if_splits)
  with 1(2) obtain fs' where r0: "combine_fields T run c fs gs = Inr fs'"
      "(case merge_custom run ''append_rp'' ''must_match'' cu cu' of
          Inr cu'' \<Rightarrow> Inr (MModel c fs' cu'' sk n b)
        | Inl ValueError \<Rightarrow> Inl AristaAvdDuplicateDataError
        | Inl e \<Rightarrow> Inl e) = Inr r"
    by (auto simp only: combine.simps mval.case simp_thms if_False rbind_Inr_iff)
  then obtain cu'' where "merge_custom run ''append_rp'' ''must_match'' cu cu' = Inr cu''"
    by (cases "merge_custom run ''append_rp'' ''must_match'' cu cu'") (auto split: py_exn.splits)
  with r0 have r: "combine_fields T run c fs gs = Inr fs'" "r = MModel c fs' cu'' sk n b" by simp_all
  have "combined_map (map_of fs) (map_of gs) (map_of fs')"
    using 1(1) [OF self(1) _ r(1)] self(2) wf_model_parts [OF 1(3)] by (simp add: all_wf_def)
  then show ?case unfolding r(2) self by (rule combined_model)
next
  case (2 T run self c' ys n' b')
  then show ?case by (cases self) (auto simp: combined_def dest!: lookup_Some split: if_splits)
next
  case (3 T run self c' ys n' b')
  then obtain c xs n b where self: "self = MIndexed c xs n b" "c = c'"
    by (cases self) (auto split: if_splits)
  from 3(2) obtain d pk where T: "T c' = Some (CIndexed d pk)" by (auto split: option.splits class_info.splits)
  with 3(2) have "dict_wf ys" "list_all (\<lambda>(k, x). filed_under pk k x) ys" by (auto simp: list_all_iff)
  moreover from 3(1) self have "indexed_extend T (MIndexed c xs n b) (map snd ys) = Inr r" by simp
  ultimately obtain zs where
    zs: "r = MIndexed c zs n b" "combined_map (map_of xs) (map_of ys) (map_of zs)"
    using indexed_extend_combined [where T = T and c = c and d = d and pk = pk and ys = ys] T self(2) by blast
  show ?case unfolding zs(1) self(1) using zs(2) by (rule combined_indexed)
next
  case (4 T run self v)
  then show ?case by (cases self) auto
next
  case (5 T run c fs)
  then show ?case by (auto simp: combined_map_def split: option.splits)
next
  case (6 T run c fs f new gs)
  from 6(3) obtain v where v: "(case map_of fs f of None \<Rightarrow> Inr new
      | Some old \<Rightarrow>
          rbind (field_type_of T c f) (\<lambda>ty.
            if is_class_type ty then combine T run old new
            else if mval_eq old new then Inr old
            else Inl AristaAvdDuplicateDataError)) = Inr v"
      "combine_fields T run c (AList.update f v fs) gs = Inr fs'"
    by (simp only: combine_fields.simps rbind_Inr_iff) blast
  from 6(5) obtain t' where t': "wf_val T t' new" by auto
  have "case map_of fs f of None \<Rightarrow> v = new | Some x \<Rightarrow> combined x new v"
  proof (cases "map_of fs f")
    case None
    then show ?thesis using v(1) by simp
  next
    case (Some old)
    with v(1) obtain ty where ty: "field_type_of T c f = Inr ty" by auto
    show ?thesis
    proof (cases "is_class_type ty")
      case True
      with v(1) Some ty have "combine T run old new = Inr v" by simp
      from 6(1) [OF Some ty True this t'] Some show ?thesis by simp
    next
      case False
      with v(1) Some ty show ?thesis by (auto simp: combined_eq split: if_splits)
    qed
  qed
  moreover have "combined_map (map_of (AList.update f v fs)) (map_of gs) (map_of fs')"
    by (rule 6(2) [OF _ v(2)]) (use v(1) 6(4,5) in simp_all)
  ultimately show ?case using 6(4) by (intro combined_map_step) auto
qed

section \<open>Properties\<close>

text \<open>Two objects of the example classes, and a merger that keeps the left value.\<close>

definition example_base :: mval where
  "example_base = MModel ''Port''
     [(''name'', MVal (PStr ''p'')),
      (''vlans'', MIndexed ''Vlans'' [(PInt 7, MModel ''Vlan'' [(''id'', MVal (PInt 7))] [] [] False False)] False False)]
     [] [] False False"

definition example_other :: mval where
  "example_other = MModel ''Port''
     [(''mtu'', MVal (PInt 9000)),
      (''vlans'', MIndexed ''Vlans''
         [(PInt 7, MModel ''Vlan'' [(''id'', MVal (PInt 7)), (''name'', MVal (PStr ''v7''))] [] [] False False),
          (PInt 8, MModel ''Vlan'' [(''id'', MVal (PInt 8))] [] [] False False)] False False)]
     [] [] False False"

definition keep_left :: merger where
  "keep_left cfg base new = Inr base"

lemma keep_left_keeps: "keeps_scalars keep_left"
  by (simp add: keeps_scalars_def keep_left_def)

lemma example_base_wf: "wf_val example_table (FClass ''Port'') example_base"
  by (simp add: example_base_def example_table_def example_fields_def scalar_ok_def filed_under_def get_field_name_def
      item_field_type_def startswith_def)

lemma example_other_wf: "wf_val example_table (FClass ''Port'') example_other"
  by (simp add: example_other_def example_table_def example_fields_def scalar_ok_def filed_under_def get_field_name_def
      item_field_type_def startswith_def)

text \<open>
  C14. Deep merging with any list strategy but \<open>keep\<close>: every scalar that is live in the other object
  stands at its path in the result (up to equality of Python), and whatever the result holds at a
  path that the other object does not know was in the object merged into.
\<close>

theorem deepmerge_other_wins:
  assumes "lm \<noteq> Keep" and "wf_val T s a" and "wf_val T t z" and "deepmerge T run lm a z = Inr r"
  shows "(\<forall>p v. lookup True z p = Some v \<and> is_scalar v \<longrightarrow> (\<exists>w. lookup True r p = Some w \<and> py_eq w v)) \<and>
    (\<forall>p v. lookup False r p = Some v \<and> lookup False z p = None \<longrightarrow> lookup False a p = Some v)"
  using deepmerge_merged(1) [OF assms(1,4,2,3)] unfolding merged_def by blast

lemma example_deepmerge:
  "\<exists>r. deepmerge example_table keep_left AppendUnique example_base example_other = Inr r"
  by (simp add: example_base_def example_other_def example_table_def example_fields_def field_type_of_def
      field_of_def prepends_def merge_custom_def)

theorem deepmerge_other_wins_witness:
  "\<exists>r. deepmerge example_table keep_left AppendUnique example_base example_other = Inr r \<and>
     (\<exists>w. lookup True r [Field ''vlans'', Key (PInt 7), Field ''name''] = Some w \<and> py_eq w (PStr ''v7''))"
proof -
  obtain r where r: "deepmerge example_table keep_left AppendUnique example_base example_other = Inr r"
    using example_deepmerge by blast
  have "lookup True example_other [Field ''vlans'', Key (PInt 7), Field ''name''] = Some (PStr ''v7'')"
    "is_scalar (PStr ''v7'')" by (simp_all add: example_other_def is_scalar_def)
  with deepmerge_other_wins [OF _ example_base_wf example_other_wf r] r show ?thesis by blast
qed


lemma example_deepinherit: "\<exists>r. deepinherit example_table keep_left example_base example_other = Inr r"
  by (simp add: example_base_def example_other_def example_table_def example_fields_def field_type_of_def
      field_of_def prepends_def merge_custom_def)


text \<open>
  A model that was neither created from null nor blocked inherits every field it has not set, as
  it is in the other model, and sets no field that neither of the two has set.
\<close>

theorem deepinherit_takes_unset:
  assumes "keeps_scalars run" and "wf_val T t (MModel c gs cu' sk' False b')"
    and "deepinherit T run (MModel c fs cu sk False False) (MModel c gs cu' sk' False b') = Inr r"
  shows "\<exists>fs' cu''. r = MModel c fs' cu'' sk False False \<and>
    (\<forall>f. map_of fs f = None \<longrightarrow> map_of fs' f = map_of gs f) \<and>
    (\<forall>f. map_of fs f \<noteq> None \<longrightarrow> map_of fs' f \<noteq> None)"
proof -
  from assms(3) obtain fs' cu'' where r: "r = MModel c fs' cu'' sk False False" "inherit_fields T run c fs gs = Inr fs'"
    by auto
  have "inherited_map (map_of fs) (map_of gs) (map_of fs')"
    using deepinherit_inherited(2) [OF assms(1) r(2)] wf_model_parts [OF assms(2)] by (simp add: all_wf_def)
  note at = this [unfolded inherited_map_def, rule_format]
  have "map_of fs f = None \<longrightarrow> map_of fs' f = map_of gs f" "map_of fs f \<noteq> None \<longrightarrow> map_of fs' f \<noteq> None" for f
    using at [of f] by (auto split: option.splits)
  with r(1) show ?thesis by blast
qed

theorem deepinherit_takes_unset_witness:
  "\<exists>r fs' cu''. deepinherit example_table keep_left example_base example_other = Inr r \<and>
     r = MModel ''Port'' fs' cu'' [] False False \<and> map_of fs' ''mtu'' = Some (MVal (PInt 9000))"
proof -
  obtain r where r: "deepinherit example_table keep_left example_base example_other = Inr r"
    using example_deepinherit by blast
  from deepinherit_takes_unset [OF keep_left_keeps
      example_other_wf [unfolded example_other_def] r [unfolded example_base_def example_other_def]]
  obtain fs' cu'' where "r = MModel ''Port'' fs' cu'' [] False False" "map_of fs' ''mtu'' = Some (MVal (PInt 9000))"
    by fastforce
  with r show ?thesis by blast
qed



end
