(* ===== verification/SchemaTypes.thy ===== *)
theory SchemaTypes
  imports SchemaMerge
begin

text \<open>
  Inheriting keeps objects well typed (\<open>pyavd/_schema/models\<close>): an object that inherits from another of
  its class has again only fields of the class with values of their types, and the items of its
  indexed lists stay filed under their primary keys.
\<close>

section \<open>Mergers of untyped data\<close>

text \<open>What is asked of the merger: it merges into dictionaries in place, adds no keys of its own, and
  leaves scalars as they are.\<close>

definition merger_typed :: "merger \<Rightarrow> bool" where
  "merger_typed run \<longleftrightarrow> keeps_scalars run \<and>
     (\<forall>cfg v w u. run cfg v w = Inr u \<longrightarrow>
        (pv_wf v \<and> pv_wf w \<longrightarrow> pv_wf u) \<and>
        (\<forall>a. v = PDict a \<longrightarrow> (\<exists>d. u = PDict d \<and>
           (\<forall>b. w = PDict b \<and> dict_wf a \<and> dict_wf b \<longrightarrow>
              dict_wf d \<and> set (dict_keys d) \<subseteq> set (dict_keys a) \<union> set (dict_keys b)))))"

lemma keep_left_typed: "merger_typed keep_left"
  using keep_left_keeps by (auto simp: merger_typed_def keep_left_def)

lemma merge_dict_run:
  assumes "merge_dict run lm sk v w = Inr u" "\<forall>xs. w \<noteq> PList xs"
  shows "\<exists>cfg. run cfg v w = Inr u"
  using assms by (cases w) (auto simp: merge_dict_def merge_def)

text \<open>The value of a \<open>dict\<close> field\<close>

definition dict_value :: "pv \<Rightarrow> bool" where
  "dict_value v \<longleftrightarrow> wf_val (\<lambda>_. None) FDict (MVal v)"

lemma dict_value_wf: "wf_val T FDict (MVal v) \<longleftrightarrow> dict_value v"
  by (simp add: dict_value_def)

lemma merge_dict_value:
  assumes "merger_typed run" "merge_dict run lm sk v w = Inr u" "dict_value v" "dict_value w"
  shows "dict_value u"
proof -
  have w: "\<forall>xs. w \<noteq> PList xs" "pv_wf w" using assms(4) by (auto simp: dict_value_def split: pv.splits)
  from merge_dict_run [OF assms(2) w(1)] obtain cfg where run: "run cfg v w = Inr u" by blast
  consider "v = PNone" | a where "v = PDict a" "pv_wf v" using assms(3) by (auto simp: dict_value_def split: pv.splits)
  then show ?thesis
  proof cases
    case 1
    then have "u = PNone" using assms(1) run unfolding merger_typed_def keeps_scalars_def by (auto simp: is_scalar_def)
    then show ?thesis by (simp add: dict_value_def)
  next
    case 2
    with assms(1) run w(2) obtain d where "u = PDict d" "pv_wf u" unfolding merger_typed_def by blast
    then show ?thesis by (simp add: dict_value_def)
  qed
qed

lemma merge_custom_keys:
  assumes "merger_typed run" "merge_custom run lm sk cu cu' = Inr d" "dict_wf cu" "dict_wf cu'"
  shows "dict_wf d \<and> set (dict_keys d) \<subseteq> set (dict_keys cu) \<union> set (dict_keys cu')"
proof (cases "cu' = []")
  case True
  with assms show ?thesis by (simp add: merge_custom_def)
next
  case False
  with assms(2) obtain u where u: "merge_dict run lm sk (PDict cu) (PDict cu') = Inr u"
      "(case u of PDict d \<Rightarrow> Inr d | _ \<Rightarrow> Inl TypeError) = (Inr d :: (py_exn, (string \<times> pv) list) result)"
    by (auto simp: merge_custom_def)
  then have "u = PDict d" by (auto split: pv.splits)
  with merge_dict_run [OF u(1)] obtain cfg where "run cfg (PDict cu) (PDict cu') = Inr (PDict d)" by auto
  with assms(1,3,4) show ?thesis unfolding merger_typed_def by blast
qed

section \<open>Inheriting\<close>

lemma wf_model_intro:
  assumes "T c = Some (CModel m)" "dict_wf fs" "typed_fields T c fs" "dict_wf cu"
    and "list_all (\<lambda>(k, _). startswith k ''_'' \<and> get_field_name m k = None) cu"
  shows "wf_val T (FClass c) (MModel c fs cu sk n b)"
  using assms by (auto simp: typed_fields_def field_of_def list_all_iff)

lemma wf_model_elim:
  assumes "wf_val T ty (MModel c fs cu sk n b)"
  obtains m where "ty = FClass c" "T c = Some (CModel m)" "dict_wf fs" "typed_fields T c fs" "dict_wf cu"
    "list_all (\<lambda>(k, _). startswith k ''_'' \<and> get_field_name m k = None) cu"
  using assms wf_model_typed [OF assms] by (auto split: option.splits class_info.splits)

lemma custom_keys_ok:
  assumes "list_all (\<lambda>(k, _). P k) cu" "list_all (\<lambda>(k, _). P k) cu'"
    and "set (dict_keys d) \<subseteq> set (dict_keys cu) \<union> set (dict_keys cu')"
  shows "list_all (\<lambda>(k, _). P k) d"
  using assms by (fastforce simp: list_all_iff)

lemma typed_fields_Cons [simp]:
  "typed_fields T c ((f, v) # gs) \<longleftrightarrow> (\<exists>i. field_of T c f = Some i \<and> wf_val T (field_ty i) v) \<and> typed_fields T c gs"
  by (auto simp: typed_fields_def)

lemma typed_fields_update:
  "typed_fields T c fs \<Longrightarrow> field_of T c f = Some i \<Longrightarrow> wf_val T (field_ty i) v \<Longrightarrow> typed_fields T c (AList.update f v fs)"
  using dict_update_all [of "\<lambda>(f, v). \<exists>i. field_of T c f = Some i \<and> wf_val T (field_ty i) v" fs f v]
  by (simp add: typed_fields_def list_all_iff)

lemma typed_fields_get:
  "typed_fields T c fs \<Longrightarrow> map_of fs f = Some v \<Longrightarrow> field_of T c f = Some i \<Longrightarrow> wf_val T (field_ty i) v"
  unfolding typed_fields_def by (fastforce dest: dict_get_mem)

text \<open>The items of an indexed list\<close>

definition typed_items :: "class_table \<Rightarrow> string \<Rightarrow> string \<Rightarrow> (pv \<times> mval) list \<Rightarrow> bool" where
  "typed_items T d pk xs \<longleftrightarrow> (\<forall>(k, x) \<in> set xs. wf_val T (FClass d) x \<and> filed_under pk k x)"

lemma typed_items_Cons [simp]:
  "typed_items T d pk ((k, x) # xs) \<longleftrightarrow> (wf_val T (FClass d) x \<and> filed_under pk k x) \<and> typed_items T d pk xs"
  by (auto simp: typed_items_def)

lemma typed_items_update:
  "typed_items T d pk xs \<Longrightarrow> wf_val T (FClass d) x \<Longrightarrow> filed_under pk k x \<Longrightarrow> typed_items T d pk (AList.update k x xs)"
  using dict_update_all [of "\<lambda>(k, x). wf_val T (FClass d) x \<and> filed_under pk k x" xs k x]
  by (simp add: typed_items_def list_all_iff)

lemma typed_items_get:
  "typed_items T d pk xs \<Longrightarrow> map_of xs k = Some x \<Longrightarrow> wf_val T (FClass d) x \<and> filed_under pk k x"
  unfolding typed_items_def by (fastforce dest: dict_get_mem)

lemma wf_indexed_iff:
  "T c = Some (CIndexed d pk) \<Longrightarrow>
    wf_val T ty (MIndexed c xs n b) \<longleftrightarrow> ty = FClass c \<and> dict_wf xs \<and> typed_items T d pk xs"
  by (auto simp: typed_items_def list_all_iff)

lemma wf_indexed_elim:
  assumes "wf_val T ty (MIndexed c xs n b)"
  obtains d pk where "ty = FClass c" "T c = Some (CIndexed d pk)" "dict_wf xs" "typed_items T d pk xs"
  using assms by (auto simp: typed_items_def list_all_iff split: option.splits class_info.splits)

text \<open>An item keeps its primary key when it inherits.\<close>

lemma dict_key_scalar:
  assumes "dict_key v = Inr k"
  obtains u where "v = MVal u" "is_scalar u"
proof (cases v)
  case (MVal u)
  with assms have "is_scalar u" by (cases u) (auto simp: is_scalar_def)
  with MVal that show ?thesis by blast
qed (use assms in auto)

lemma deepinherit_filed:
  assumes "keeps_scalars run" "deepinherit T run old new = Inr r" "wf_val T t new" "filed_under pk k old"
  shows "filed_under pk k r"
proof -
  from assms(4) obtain v where v: "get_defined_attr old pk = Some v" "dict_key v = Inr k"
    by (auto simp: filed_under_def split: option.splits)
  then obtain c fs cu sk n b where old: "old = MModel c fs cu sk n b" by (cases old) auto
  from v(2) obtain u where u: "v = MVal u" "is_scalar u" by (rule dict_key_scalar)
  have "inherited old new r" by (rule deepinherit_inherited(1) [OF assms(1,2,3)])
  moreover have "lookup False old [Field pk] = Some u" using v(1) u old by simp
  ultimately have "lookup False r [Field pk] = Some u" using u(2) unfolding inherited_def by blast
  then have "get_defined_attr r pk = Some v" by (auto dest!: lookup_Some simp: u(1))
  with v(2) show ?thesis by (simp add: filed_under_def)
qed

lemma deepinherit_wf:
  shows "deepinherit T run a z = Inr r \<Longrightarrow> wf_val T t a \<Longrightarrow> wf_val T t z \<Longrightarrow> merger_typed run \<Longrightarrow> wf_val T t r"
    and "inherit_fields T run c fs gs = Inr fs' \<Longrightarrow> dict_wf fs \<Longrightarrow> typed_fields T c fs \<Longrightarrow> typed_fields T c gs \<Longrightarrow>
      merger_typed run \<Longrightarrow> dict_wf fs' \<and> typed_fields T c fs'"
    and "inherit_indexed T run xs ys = Inr zs \<Longrightarrow> dict_wf xs \<Longrightarrow> typed_items T d pk xs \<Longrightarrow> typed_items T d pk ys \<Longrightarrow>
      merger_typed run \<Longrightarrow> dict_wf zs \<and> typed_items T d pk zs"
proof (induction T run a z and T run c fs gs and T run xs ys
    arbitrary: r t and fs' and zs d pk rule: deepinherit_inherit_fields_inherit_indexed.induct)
  case (1 T run self c' gs cu' sk' n' b')
  then obtain c fs cu sk n b where self: "self = MModel c fs cu sk n b" "c = c'"
    by (cases self) (auto split: if_splits)
  from 1(3) [unfolded self] obtain m where m: "t = FClass c'" "T c' = Some (CModel m)" "dict_wf fs" "typed_fields T c' fs"
      "dict_wf cu" "list_all (\<lambda>(k, _). startswith k ''_'' \<and> get_field_name m k = None) cu" by (rule wf_model_elim)
  from 1(4) obtain m' where m': "T c' = Some (CModel m')" "typed_fields T c' gs" "dict_wf cu'"
      "list_all (\<lambda>(k, _). startswith k ''_'' \<and> get_field_name m' k = None) cu'" by (rule wf_model_elim)
  note intro = wf_model_intro [where T = T and c = c' and m = m, OF m(2)]
  show ?case
  proof (cases "n \<or> b \<or> n'")
    case True
    with 1(2) self m show ?thesis by (auto split: if_splits intro!: intro)
  next
    case False
    with 1(2) self obtain fs' cu'' where r: "r = MModel c' fs' cu'' sk n b" "inherit_fields T run c' fs gs = Inr fs'"
        "merge_custom run ''keep'' ''use_existing'' cu cu' = Inr cu''" by auto
    have "dict_wf fs' \<and> typed_fields T c' fs'"
      using 1(1) [OF self(1)] self(2) False r(2) m(3,4) m'(2) 1(5) by auto
    moreover have "dict_wf cu'' \<and> set (dict_keys cu'') \<subseteq> set (dict_keys cu) \<union> set (dict_keys cu')"
      by (rule merge_custom_keys [OF 1(5) r(3) m(5) m'(3)])
    ultimately show ?thesis unfolding r(1) m(1)
      using custom_keys_ok [where P = "\<lambda>k. startswith k ''_'' \<and> get_field_name m k = None", OF m(6)] m'(1,4) m(2)
      by (intro intro) auto
  qed
next
  case (2 T run self c' ys n' b')
  then obtain c xs n b where self: "self = MIndexed c xs n b" "c = c'"
    by (cases self) (auto split: if_splits)
  from 2(3) [unfolded self] obtain d pk where d: "t = FClass c'" "T c' = Some (CIndexed d pk)" "dict_wf xs" "typed_items T d pk xs"
    by (rule wf_indexed_elim)
  from 2(4) obtain d' pk' where d': "T c' = Some (CIndexed d' pk')" "typed_items T d' pk' ys" by (rule wf_indexed_elim)
  show ?case
  proof (cases "n \<or> b \<or> n'")
    case True
    with 2(2) self d show ?thesis by (auto simp: typed_items_def list_all_iff split: if_splits)
  next
    case False
    with 2(2) self obtain zs where r: "r = MIndexed c' zs n b" "inherit_indexed T run xs ys = Inr zs" by auto
    have "dict_wf zs \<and> typed_items T d pk zs"
      using 2(1) [OF self(1)] self(2) False r(2) d(2,3,4) d' 2(5) by auto
    with d(1,2) show ?thesis unfolding r(1) by (simp add: wf_indexed_iff del: wf_val.simps)
  qed
next
  case (3 T run self c' ys n' b')
  then show ?case by (cases self) auto
next
  case (4 T run self v)
  then show ?case by (cases self) auto
next
  case (5 T run c fs)
  then show ?case by simp
next
  case (6 T run c fs f new gs)
  from 6(5) obtain v where v: "(case map_of fs f of None \<Rightarrow> Inr new
      | Some old \<Rightarrow>
          (if mval_eq old new then Inr old
           else rbind (field_type_of T c f) (\<lambda>ty.
             case ty of
               FClass d \<Rightarrow>
                 (case T d of Some (CList _) \<Rightarrow> Inr old | _ \<Rightarrow> deepinherit T run old new)
             | FDict \<Rightarrow>
                 (case old of
                    MVal v \<Rightarrow>
                      (case new of MVal w \<Rightarrow> rbind (merge_dict run ''keep'' ''use_existing'' v w) (\<lambda>u. Inr (MVal u)) | _ \<Rightarrow> Inl TypeError)
                  | _ \<Rightarrow> Inl TypeError)
             | FScalar _ \<Rightarrow> Inr old))) = Inr v"
      "inherit_fields T run c (AList.update f v fs) gs = Inr fs'"
    by (simp only: inherit_fields.simps rbind_Inr_iff) blast
  from 6(8) obtain i where i: "field_of T c f = Some i" "wf_val T (field_ty i) new" "typed_fields T c gs"
    unfolding typed_fields_Cons by blast
  have "wf_val T (field_ty i) v"
  proof (cases "map_of fs f")
    case None
    then show ?thesis using v(1) i(2) by simp
  next
    case (Some old)
    have old: "wf_val T (field_ty i) old" by (rule typed_fields_get [OF 6(7) Some i(1)])
    show ?thesis
    proof (cases "mval_eq old new")
      case True
      then show ?thesis using v(1) Some old by simp
    next
      case False
      have ty: "field_type_of T c f = Inr (field_ty i)" using i(1) by (simp add: field_type_of_def)
      show ?thesis
      proof (cases "field_ty i")
        case (FScalar s)
        then show ?thesis using v(1) Some False ty old by simp
      next
        case FDict
        then obtain a b u where u: "old = MVal a" "new = MVal b" "merge_dict run ''keep'' ''use_existing'' a b = Inr u" "v = MVal u"
          using v(1) Some False ty by (auto split: mval.splits)
        with merge_dict_value [OF 6(9) u(3)] old i(2) show ?thesis unfolding FDict by (simp only: dict_value_wf)
      next
        case (FClass d)
        have head: "(case T d of Some (CList _) \<Rightarrow> Inr old | _ \<Rightarrow> deepinherit T run old new) = Inr v"
          using v(1) Some False ty FClass by simp
        show ?thesis
        proof (cases "T d")
          case None
          with head have "deepinherit T run old new = Inr v" by simp
          from 6(1) [OF Some False ty FClass None this old i(2) 6(9)] show ?thesis .
        next
          case T: (Some ci)
          show ?thesis
          proof (cases ci)
            case (CModel m)
            with head T have "deepinherit T run old new = Inr v" by simp
            from 6(2) [OF Some False ty FClass T CModel this old i(2) 6(9)] show ?thesis .
          next
            case (CList it)
            with head T old show ?thesis by simp
          next
            case (CIndexed e pk)
            with head T have "deepinherit T run old new = Inr v" by simp
            from 6(3) [OF Some False ty FClass T CIndexed this old i(2) 6(9)] show ?thesis .
          qed
        qed
      qed
    qed
  qed
  from typed_fields_update [OF 6(7) i(1) this] show ?case
    by (intro 6(4) [OF _ v(2)]) (use v(1) 6(6,9) i(3) in \<open>simp_all add: dict_update_wf\<close>)
next
  case (7 T run xs)
  then show ?case by simp
next
  case (8 T run xs k new ys)
  from 8(7) have new: "wf_val T (FClass d) new" "filed_under pk k new" and ys: "typed_items T d pk ys"
    unfolding typed_items_Cons by blast+
  show ?case
  proof (cases "map_of xs k")
    case None
    with 8(4) have "inherit_indexed T run (AList.update k new xs) ys = Inr zs" by simp
    from 8(1) [OF None this dict_update_wf [OF 8(5)] typed_items_update [OF 8(6) new] ys 8(8)] show ?thesis .
  next
    case (Some old)
    with 8(4) obtain v where v: "deepinherit T run old new = Inr v" "inherit_indexed T run (AList.update k v xs) ys = Inr zs"
      by auto
    note old = typed_items_get [OF 8(6) Some]
    have "wf_val T (FClass d) v" by (rule 8(2) [OF Some v(1) conjunct1 [OF old] new(1) 8(8)])
    moreover have "filed_under pk k v"
      using deepinherit_filed [OF _ v(1) new(1) conjunct2 [OF old]] 8(8) by (simp add: merger_typed_def)
    ultimately show ?thesis
      using 8(3) [OF Some v(1) v(2) dict_update_wf [OF 8(5)] _ ys 8(8)] typed_items_update [OF 8(6)] by blast
  qed
qed

section \<open>Properties\<close>

text \<open>
  Inheriting keeps types: what an object of a class becomes by inheriting from another object of the
  class is well typed again, with the items of its indexed lists under their primary keys.
\<close>

theorem deepinherit_well_typed:
  assumes "merger_typed run" and "wf_val T ty a" and "wf_val T ty z" and "deepinherit T run a z = Inr r"
  shows "wf_val T ty r"
  by (rule deepinherit_wf(1) [OF assms(4,2,3,1)])

theorem deepinherit_well_typed_witness:
  "\<exists>r. deepinherit example_table keep_left example_base example_other = Inr r \<and>
     wf_val example_table (FClass ''Port'') r"
proof -
  obtain r where r: "deepinherit example_table keep_left example_base example_other = Inr r"
    using example_deepinherit by blast
  with deepinherit_well_typed [OF keep_left_typed example_base_wf example_other_wf r] show ?thesis by blast
qed

end
