(* ===== verification/Profiles.thy ===== *)
theory Profiles
  imports SchemaTypes
begin

text \<open>
  \<open>pyavd/_utils/profiles.py\<close>: a profile is resolved into a target object. The chain of parent profiles is
  loaded lazily into a mapping that starts with the target as the root profile, with the checks for
  cycles and missing profiles; then the data of each profile inherits from what its parent resolves
  to. Entries of the mapping refer to each other by their ids, and the catalog is the items of an
  indexed list.
\<close>

section \<open>The resolver\<close>

text \<open>The messages of \<open>AristaAvdInvalidInputsError\<close>, and errors of other operations\<close>

datatype profile_error =
    CycleDetected "string list"
  | UnresolvedProfile string "string list"
  | MissingProfile string
  | ProfileExn py_exn

record lazy_profile =
  profile_data :: mval
  profile_parent :: "string option"
  profile_children :: "string list"

record resolver =
  profile_mapping :: "(string, lazy_profile) dict"
  profile_catalog :: "(pv, mval) dict"

definition root_profile_id :: string where
  "root_profile_id = ''''"

definition new_resolver :: "mval \<Rightarrow> (pv, mval) dict \<Rightarrow> resolver" where
  "new_resolver target cat =
     \<lparr>profile_mapping = [(root_profile_id, \<lparr>profile_data = target, profile_parent = None, profile_children = []\<rparr>)],
      profile_catalog = cat\<rparr>"

text \<open>\<open>profile_data.parent_profile or ROOT_PROFILE_ID\<close>; the field is a text by its class. Reading it sets
  the default in the item of the catalog.\<close>

definition parent_profile :: "class_table \<Rightarrow> mval \<Rightarrow> (py_exn, string \<times> mval) result" where
  "parent_profile T item =
     rbind (get_attr T item ''parent_profile'') (\<lambda>(v, item').
       case v of
         MVal (PStr s) \<Rightarrow> Inr (s, item')
       | MVal PNone \<Rightarrow> Inr (root_profile_id, item')
       | _ \<Rightarrow> Inl TypeError)"

definition cycle_path :: "string \<Rightarrow> string list \<Rightarrow> string list" where
  "cycle_path pid visited = (let path = rev (dropWhile (\<lambda>x. x \<noteq> pid) visited) in path @ [hd path])"

definition add_profile :: "string \<Rightarrow> mval \<Rightarrow> resolver \<Rightarrow> resolver" where
  "add_profile pid item st =
     st\<lparr>profile_mapping := AList.update pid \<lparr>profile_data = item, profile_parent = None, profile_children = []\<rparr> (profile_mapping st),
        profile_catalog := AList.update (PStr pid) item (profile_catalog st)\<rparr>"

definition update_profile :: "string \<Rightarrow> (lazy_profile \<Rightarrow> lazy_profile) \<Rightarrow> resolver \<Rightarrow> resolver" where
  "update_profile pid f st =
     (case map_of (profile_mapping st) pid of
        None \<Rightarrow> st
      | Some l \<Rightarrow> st\<lparr>profile_mapping := AList.update pid (f l) (profile_mapping st)\<rparr>)"

definition link_profile :: "string \<Rightarrow> string \<Rightarrow> resolver \<Rightarrow> resolver" where
  "link_profile pid p st =
     update_profile pid (\<lambda>l. l\<lparr>profile_parent := Some p\<rparr>)
       (update_profile p (\<lambda>l. l\<lparr>profile_children := profile_children l @ [pid]\<rparr>) st)"

text \<open>\<open>__lazy_load_profile\<close>: also returns the state it leaves behind when it fails.\<close>

function load_profile ::
  "class_table \<Rightarrow> resolver \<Rightarrow> string \<Rightarrow> string list \<Rightarrow> (profile_error, string) result \<times> resolver" where
  "load_profile T st pid visited =
     (if pid \<in> set visited then (Inl (CycleDetected (cycle_path pid visited)), st)
      else if map_of (profile_mapping st) pid \<noteq> None then (Inr pid, st)
      else case map_of (profile_catalog st) (PStr pid) of
        None \<Rightarrow> (Inl (if visited = [] then MissingProfile pid else UnresolvedProfile pid (visited @ [pid])), st)
      | Some item \<Rightarrow>
          (case parent_profile T item of
             Inl e \<Rightarrow> (Inl (ProfileExn e), add_profile pid item st)
           | Inr r \<Rightarrow>
               (case load_profile T (add_profile pid (snd r) st) (fst r) (visited @ [pid]) of
                  (Inl e, st') \<Rightarrow> (Inl e, st')
                | (Inr p, st') \<Rightarrow> (Inr pid, link_profile pid p st'))))"
  by pat_completeness auto

definition unvisited :: "resolver \<Rightarrow> string list \<Rightarrow> nat" where
  "unvisited st visited = card (set (dict_keys (profile_catalog st)) - PStr ` set visited)"

lemma unvisited_decreases:
  assumes "map_of (profile_catalog st) (PStr pid) = Some item" "pid \<notin> set visited"
  shows "unvisited (add_profile pid x st) (visited @ [pid]) < unvisited st visited"
proof -
  let ?keys = "set (dict_keys (profile_catalog st))"
  have key: "PStr pid \<in> ?keys" using assms(1) by (force dest: dict_get_mem)
  then have "set (dict_keys (AList.update (PStr pid) x (profile_catalog st))) = ?keys"
    by (auto simp: dom_update)
  moreover have "?keys - PStr ` set (visited @ [pid]) \<subset> ?keys - PStr ` set visited"
    using key assms(2) by auto
  ultimately show ?thesis unfolding unvisited_def add_profile_def by (simp add: psubset_card_mono)
qed

termination load_profile
  by (relation "measure (\<lambda>(T, st, pid, visited). unvisited st visited)") (auto dest: unvisited_decreases)

declare load_profile.simps [simp del]

section \<open>Resolving\<close>

text \<open>\<open>_copy_data\<close>: the data is cast unless it has the class of the target.\<close>

fun class_name :: "mval \<Rightarrow> string option" where
  "class_name (MVal _) = None"
| "class_name (MModel c _ _ _ _ _) = Some c"
| "class_name (MList c _ _ _) = Some c"
| "class_name (MIndexed c _ _ _) = Some c"

definition copy_data :: "class_table \<Rightarrow> string \<Rightarrow> mval \<Rightarrow> (py_exn, mval) result" where
  "copy_data T cls data = (if class_name data = Some cls then Inr data else cast_as T True (FClass cls) data)"

text \<open>\<open>_deepinherit\<close>: the first argument bounds the depth of the recursion over the parents.\<close>

fun profile_deepinherit ::
  "nat \<Rightarrow> class_table \<Rightarrow> merger \<Rightarrow> string \<Rightarrow> (string, lazy_profile) dict \<Rightarrow> string \<Rightarrow> (py_exn, mval) result" where
  "profile_deepinherit 0 T run cls m pid = Inl RuntimeError"
| "profile_deepinherit (Suc n) T run cls m pid =
     (case map_of m pid of
        None \<Rightarrow> Inl KeyError
      | Some l \<Rightarrow>
          rbind (copy_data T cls (profile_data l)) (\<lambda>data.
            case profile_parent l of
              None \<Rightarrow> Inr data
            | Some p \<Rightarrow> rbind (profile_deepinherit n T run cls m p) (\<lambda>inherited. deepinherit T run data inherited)))"

text \<open>\<open>resolve_profile\<close>, with the catalog it leaves behind; the mapping has an entry for every level of the
  recursion.\<close>

definition resolve_profile ::
  "class_table \<Rightarrow> merger \<Rightarrow> mval \<Rightarrow> (pv, mval) dict \<Rightarrow> string \<Rightarrow> (profile_error, mval) result \<times> (pv, mval) dict" where
  "resolve_profile T run target cat pid =
     (case load_profile T (new_resolver target cat) pid [] of
        (Inl e, st) \<Rightarrow> (Inl e, profile_catalog st)
      | (Inr p, st) \<Rightarrow>
          (case profile_deepinherit (length (profile_mapping st)) T run (case class_name target of Some c \<Rightarrow> c | None \<Rightarrow> '''')
                  (profile_mapping st) p of
             Inl e \<Rightarrow> (Inl (ProfileExn e), profile_catalog st)
           | Inr x \<Rightarrow> (Inr x, profile_catalog st)))"

section \<open>Chains of parents\<close>

definition parent_of :: "class_table \<Rightarrow> (pv, mval) dict \<Rightarrow> string \<Rightarrow> string option" where
  "parent_of T cat pid =
     (case map_of cat (PStr pid) of
        None \<Rightarrow> None
      | Some item \<Rightarrow> (case parent_profile T item of Inl _ \<Rightarrow> None | Inr (p, _) \<Rightarrow> Some p))"

text \<open>The data of a profile, as it is once its parent was read\<close>

definition item_of :: "class_table \<Rightarrow> (pv, mval) dict \<Rightarrow> string \<Rightarrow> mval" where
  "item_of T cat pid =
     (case map_of cat (PStr pid) of
        None \<Rightarrow> MVal PNone
      | Some item \<Rightarrow> (case parent_profile T item of Inl _ \<Rightarrow> item | Inr (_, item') \<Rightarrow> item'))"

text \<open>Following the parents from \<open>p\<close> goes through \<open>ids\<close> and comes to \<open>q\<close>.\<close>

fun parents_lead :: "class_table \<Rightarrow> (pv, mval) dict \<Rightarrow> string \<Rightarrow> string list \<Rightarrow> string \<Rightarrow> bool" where
  "parents_lead T cat p [] q = (p = q)"
| "parents_lead T cat p (x # xs) q =
     (p = x \<and> (case parent_of T cat x of None \<Rightarrow> False | Some p' \<Rightarrow> parents_lead T cat p' xs q))"

text \<open>The data of a chain applied onto the target: each inherits from what the rest of the chain gives.\<close>

fun apply_chain :: "class_table \<Rightarrow> merger \<Rightarrow> string \<Rightarrow> mval \<Rightarrow> mval list \<Rightarrow> (py_exn, mval) result" where
  "apply_chain T run cls target [] = copy_data T cls target"
| "apply_chain T run cls target (d # ds) =
     rbind (copy_data T cls d) (\<lambda>data. rbind (apply_chain T run cls target ds) (deepinherit T run data))"

definition parents_readable :: "class_table \<Rightarrow> (pv, mval) dict \<Rightarrow> bool" where
  "parents_readable T cat \<longleftrightarrow>
     (\<forall>pid item. map_of cat (PStr pid) = Some item \<longrightarrow> (\<exists>r. parent_profile T item = Inr r))"

lemma get_attr_again:
  assumes "get_attr T x f = Inr (v, x')"
  shows "get_attr T x' f = Inr (v, x')"
proof (cases x)
  case (MModel c fs cu sk n b)
  show ?thesis
  proof (cases "map_of fs f")
    case None
    with assms MModel have "x' = MModel c (AList.update f v fs) cu sk n b" by (simp add: get_attr_def)
    then show ?thesis by (simp add: get_attr_def dict_update_get)
  next
    case (Some w)
    with assms MModel have "x' = x" by (simp add: get_attr_def)
    with assms show ?thesis by simp
  qed
qed (use assms in \<open>simp_all add: get_attr_def\<close>)

lemma parent_profile_again:
  assumes "parent_profile T item = Inr (p, item')"
  shows "parent_profile T item' = Inr (p, item')"
proof -
  obtain v x where v: "get_attr T item ''parent_profile'' = Inr (v, x)"
    using assms by (cases "get_attr T item ''parent_profile''") (auto simp: parent_profile_def)
  with assms have eq: "(case v of MVal (PStr s) \<Rightarrow> Inr (s, x) | MVal PNone \<Rightarrow> Inr (root_profile_id, x) | _ \<Rightarrow> Inl TypeError)
      = (Inr (p, item') :: (py_exn, string \<times> mval) result)"
    by (simp only: parent_profile_def rbind.simps prod.case)
  then have "x = item'" by (auto split: mval.splits pv.splits)
  with v have "get_attr T item' ''parent_profile'' = Inr (v, item')" by (blast dest: get_attr_again)
  with eq \<open>x = item'\<close> show ?thesis by (simp only: parent_profile_def rbind.simps prod.case)
qed

text \<open>Writing back an item whose parent was read changes nothing that matters.\<close>

lemma catalog_update:
  assumes "map_of cat (PStr pid) = Some item" "parent_profile T item = Inr (p, item')"
  shows "parent_of T (AList.update (PStr pid) item' cat) = parent_of T cat"
    and "item_of T (AList.update (PStr pid) item' cat) = item_of T cat"
  using assms parent_profile_again [OF assms(2)]
  by (auto simp: fun_eq_iff parent_of_def item_of_def dict_update_get)

lemma readable_update:
  assumes "map_of cat (PStr pid) = Some item" "parent_profile T item = Inr (p, item')" "parents_readable T cat"
  shows "parents_readable T (AList.update (PStr pid) item' cat)"
  using assms parent_profile_again [OF assms(2)] by (auto simp: parents_readable_def dict_update_get)

lemma parents_lead_cong:
  "parent_of T cat' = parent_of T cat \<Longrightarrow> parents_lead T cat' p ids q = parents_lead T cat p ids q"
  by (induction ids arbitrary: p) (auto split: option.splits)

section \<open>What is loaded and resolved\<close>

text \<open>The data and the parent of an entry\<close>

definition entry_of :: "resolver \<Rightarrow> string \<Rightarrow> (mval \<times> string option) option" where
  "entry_of st pid = map_option (\<lambda>l. (profile_data l, profile_parent l)) (map_of (profile_mapping st) pid)"

lemma entry_of_add:
  "entry_of (add_profile pid item st) k = (if k = pid then Some (item, None) else entry_of st k)"
  by (simp add: entry_of_def add_profile_def dict_update_get)

lemma entry_of_link:
  "entry_of (link_profile pid p st) k =
     (if k = pid then map_option (\<lambda>(d, _). (d, Some p)) (entry_of st k) else entry_of st k)"
  by (auto simp: entry_of_def link_profile_def update_profile_def dict_update_get split: option.splits)

lemma length_update_Some: "map_of d k = Some w \<Longrightarrow> length (AList.update k v d) = length d"
  by (induction d) (auto split: if_splits)

lemma length_link [simp]: "length (profile_mapping (link_profile pid p st)) = length (profile_mapping st)"
  by (auto simp: link_profile_def update_profile_def dict_update_get length_update_Some split: option.splits)

lemma catalog_add [simp]: "profile_catalog (add_profile pid item st) = AList.update (PStr pid) item (profile_catalog st)"
  by (simp add: add_profile_def)

text \<open>The ways loading can end: the chain comes to the root, comes back to a profile of the chain, or to a
  profile that is not in the catalog.\<close>

definition load_outcome ::
  "class_table \<Rightarrow> (pv, mval) dict \<Rightarrow> resolver \<Rightarrow> string \<Rightarrow> string list \<Rightarrow> string list \<Rightarrow> string \<Rightarrow>
     (profile_error, string) result \<times> resolver \<Rightarrow> bool" where
  "load_outcome T cat st pid visited ids q r \<longleftrightarrow>
     distinct (visited @ ids) \<and> root_profile_id \<notin> set ids \<and> parents_lead T cat pid ids q \<and>
     (if q \<in> set (visited @ ids) then fst r = Inl (CycleDetected (cycle_path q (visited @ ids)))
      else if q = root_profile_id then
        fst r = Inr pid \<and> length (profile_mapping (snd r)) = Suc (length visited + length ids) \<and>
        (\<forall>k. entry_of (snd r) k = (if k \<in> set ids then Some (item_of T cat k, parent_of T cat k) else entry_of st k))
      else map_of cat (PStr q) = None \<and>
        fst r = Inl (if visited @ ids = [] then MissingProfile q else UnresolvedProfile q (visited @ ids @ [q])))"

lemma load_profile_chain:
  assumes "parents_readable T (profile_catalog st)" "distinct visited" "root_profile_id \<notin> set visited"
    and "\<forall>k. map_of (profile_mapping st) k \<noteq> None \<longleftrightarrow> k = root_profile_id \<or> k \<in> set visited"
    and "length (profile_mapping st) = Suc (length visited)"
  shows "\<exists>ids q. load_outcome T (profile_catalog st) st pid visited ids q (load_profile T st pid visited)"
  using assms
proof (induction T st pid visited rule: load_profile.induct)
  case (1 T st pid visited)
  note unfold = load_profile.simps [of T st pid visited]
  let ?cat = "profile_catalog st"
  show ?case
  proof (cases "pid \<in> set visited")
    case True
    then have "load_profile T st pid visited = (Inl (CycleDetected (cycle_path pid visited)), st)" by (simp add: unfold)
    with True 1(3) show ?thesis by (intro exI [of _ "[]"] exI [of _ pid]) (simp add: load_outcome_def)
  next
    case new: False
    show ?thesis
    proof (cases "pid = root_profile_id")
      case True
      with 1(5) have "map_of (profile_mapping st) pid \<noteq> None" by blast
      with new have "load_profile T st pid visited = (Inr pid, st)" by (simp add: unfold)
      with True 1(3,4,6) show ?thesis by (intro exI [of _ "[]"] exI [of _ pid]) (simp add: load_outcome_def)
    next
      case False
      with 1(5) new have unmapped: "map_of (profile_mapping st) pid = None" by blast
      show ?thesis
      proof (cases "map_of ?cat (PStr pid)")
        case None
        with new unmapped have "load_profile T st pid visited =
            (Inl (if visited = [] then MissingProfile pid else UnresolvedProfile pid (visited @ [pid])), st)"
          by (simp add: unfold)
        with None False new 1(3) show ?thesis by (intro exI [of _ "[]"] exI [of _ pid]) (simp add: load_outcome_def)
      next
        case (Some item)
        with 1(2) obtain p item' where p: "parent_profile T item = Inr (p, item')"
          unfolding parents_readable_def by fastforce
        let ?st = "add_profile pid item' st"
        note upd = catalog_update [OF Some p]
        have own: "parent_of T ?cat pid = Some p" "item_of T ?cat pid = item'"
          using Some p by (simp_all add: parent_of_def item_of_def)
        have load: "load_profile T st pid visited =
            (case load_profile T ?st p (visited @ [pid]) of
               (Inl e, st') \<Rightarrow> (Inl e, st')
             | (Inr p', st') \<Rightarrow> (Inr pid, link_profile pid p' st'))"
          using new unmapped Some p by (simp add: unfold)
        have len: "length (profile_mapping ?st) = Suc (length (visited @ [pid]))"
          using unmapped 1(6) by (simp add: add_profile_def dict_update_new)
        have keys: "\<forall>k. map_of (profile_mapping ?st) k \<noteq> None \<longleftrightarrow> k = root_profile_id \<or> k \<in> set (visited @ [pid])"
          using 1(5) by (auto simp: add_profile_def dict_update_get)
        have "distinct (visited @ [pid])" "root_profile_id \<notin> set (visited @ [pid])"
          using new False 1(3,4) by auto
        from 1(1) [OF new _ Some p, unfolded fst_conv snd_conv catalog_add, OF _ readable_update [OF Some p 1(2)] this keys len] unmapped
        obtain ids q where "load_outcome T (profile_catalog ?st) ?st p (visited @ [pid]) ids q
            (load_profile T ?st p (visited @ [pid]))" by auto
        then have ih: "load_outcome T ?cat ?st p (visited @ [pid]) ids q (load_profile T ?st p (visited @ [pid]))"
          unfolding load_outcome_def catalog_add upd parents_lead_cong [OF upd(1)]
          using Some by (auto simp: dict_update_get split: if_splits)
        obtain r st' where r: "load_profile T ?st p (visited @ [pid]) = (r, st')" by fastforce
        have lead: "parents_lead T ?cat pid (pid # ids) q" and dist: "distinct (visited @ pid # ids)"
            "root_profile_id \<notin> set (pid # ids)"
          using ih own(1) False by (auto simp: load_outcome_def)
        have "load_outcome T ?cat st pid visited (pid # ids) q (load_profile T st pid visited)"
        proof (cases r)
          case (Inl e)
          with ih r load lead dist show ?thesis by (auto simp: load_outcome_def split: if_splits)
        next
          case (Inr p')
          with ih r have ok: "q = root_profile_id" "q \<notin> set (visited @ [pid] @ ids)" "p' = p"
              "length (profile_mapping st') = Suc (length (visited @ [pid]) + length ids)"
              "\<forall>k. entry_of st' k = (if k \<in> set ids then Some (item_of T ?cat k, parent_of T ?cat k) else entry_of ?st k)"
            by (simp_all add: load_outcome_def split: if_splits)
          have "entry_of (link_profile pid p st') k =
              (if k \<in> set (pid # ids) then Some (item_of T ?cat k, parent_of T ?cat k) else entry_of st k)" for k
            using ok(5) own dist(1) by (auto simp: entry_of_link entry_of_add)
          with ok(1-4) load r Inr lead dist show ?thesis by (simp add: load_outcome_def)
        qed
        then show ?thesis by blast
      qed
    qed
  qed
qed

lemma profile_deepinherit_chain:
  assumes "parents_lead T cat pid ids root_profile_id" "entry_of st root_profile_id = Some (target, None)"
    and "\<forall>k \<in> set ids. entry_of st k = Some (item_of T cat k, parent_of T cat k)" "length ids < n"
  shows "profile_deepinherit n T run cls (profile_mapping st) pid = apply_chain T run cls target (map (item_of T cat) ids)"
  using assms
proof (induction ids arbitrary: pid n)
  case Nil
  then obtain m l where "n = Suc m" "map_of (profile_mapping st) pid = Some l" "profile_data l = target" "profile_parent l = None"
    by (cases n) (auto simp: entry_of_def)
  then show ?case by simp
next
  case (Cons x xs)
  from Cons.prems(1) obtain p where p: "pid = x" "parent_of T cat x = Some p" "parents_lead T cat p xs root_profile_id"
    by (auto split: option.splits)
  from Cons.prems(4) obtain m where m: "n = Suc m" "length xs < m" by (cases n) auto
  from Cons.prems(3) p obtain l where l: "map_of (profile_mapping st) x = Some l" "profile_data l = item_of T cat x"
      "profile_parent l = Some p"
    by (auto simp: entry_of_def)
  have "profile_deepinherit m T run cls (profile_mapping st) p = apply_chain T run cls target (map (item_of T cat) xs)"
    using Cons.IH [OF p(3) Cons.prems(2) _ m(2)] Cons.prems(3) by simp
  with l p(1) m(1) show ?case by simp
qed

lemma new_resolver_entry: "entry_of (new_resolver target cat) k = (if k = root_profile_id then Some (target, None) else None)"
  by (simp add: entry_of_def new_resolver_def)

lemma resolve_profile_chain:
  assumes "parents_readable T cat" "class_name target = Some cls"
  shows "\<exists>ids q. distinct ids \<and> root_profile_id \<notin> set ids \<and> parents_lead T cat pid ids q \<and>
    (q \<notin> set ids \<and> q \<noteq> root_profile_id \<longrightarrow> map_of cat (PStr q) = None) \<and>
    fst (resolve_profile T run target cat pid) =
      (if q \<in> set ids then Inl (CycleDetected (cycle_path q ids))
       else if q = root_profile_id then
         (case apply_chain T run cls target (map (item_of T cat) ids) of Inl e \<Rightarrow> Inl (ProfileExn e) | Inr x \<Rightarrow> Inr x)
       else Inl (if ids = [] then MissingProfile q else UnresolvedProfile q (ids @ [q])))"
proof -
  let ?st = "new_resolver target cat"
  have cat: "profile_catalog ?st = cat" by (simp add: new_resolver_def)
  have "\<exists>ids q. load_outcome T (profile_catalog ?st) ?st pid [] ids q (load_profile T ?st pid [])"
    by (rule load_profile_chain) (use assms(1) in \<open>simp_all add: new_resolver_def\<close>)
  then obtain ids q where out: "load_outcome T cat ?st pid [] ids q (load_profile T ?st pid [])" unfolding cat by blast
  obtain r st where r: "load_profile T ?st pid [] = (r, st)" by fastforce
  have "fst (resolve_profile T run target cat pid) =
      (if q \<in> set ids then Inl (CycleDetected (cycle_path q ids))
       else if q = root_profile_id then
         (case apply_chain T run cls target (map (item_of T cat) ids) of Inl e \<Rightarrow> Inl (ProfileExn e) | Inr x \<Rightarrow> Inr x)
       else Inl (if ids = [] then MissingProfile q else UnresolvedProfile q (ids @ [q])))"
  proof (cases "q \<notin> set ids \<and> q = root_profile_id")
    case True
    then have q: "q \<notin> set ([] @ ids)" "q = root_profile_id" unfolding append_Nil by blast+
    with out [unfolded load_outcome_def if_not_P [OF q(1)] if_P [OF q(2)]] r have ok: "r = Inr pid" "length (profile_mapping st) = Suc (length ids)"
        "\<forall>k. entry_of st k = (if k \<in> set ids then Some (item_of T cat k, parent_of T cat k) else entry_of ?st k)"
        "parents_lead T cat pid ids root_profile_id"
      by simp_all
    have "profile_deepinherit (length (profile_mapping st)) T run cls (profile_mapping st) pid =
        apply_chain T run cls target (map (item_of T cat) ids)"
      by (rule profile_deepinherit_chain [OF ok(4)]) (use ok(2,3) True in \<open>auto simp: new_resolver_entry\<close>)
    with True r ok(1) assms(2) show ?thesis by (auto simp: resolve_profile_def split: sum.splits)
  next
    case False
    with out r show ?thesis by (auto simp: load_outcome_def resolve_profile_def split: if_splits)
  qed
  moreover have "distinct ids \<and> root_profile_id \<notin> set ids \<and> parents_lead T cat pid ids q"
    and "q \<notin> set ids \<and> q \<noteq> root_profile_id \<longrightarrow> map_of cat (PStr q) = None"
    using out by (auto simp: load_outcome_def)
  ultimately show ?thesis by blast
qed

text \<open>The nearest member of a list of data that holds something at a path\<close>

fun nearest_value :: "class_table \<Rightarrow> string \<Rightarrow> step list \<Rightarrow> mval list \<Rightarrow> pv option" where
  "nearest_value T cls p [] = None"
| "nearest_value T cls p (d # ds) =
     (case copy_data T cls d of
        Inl _ \<Rightarrow> None
      | Inr x \<Rightarrow> (case lookup False x p of Some v \<Rightarrow> Some v | None \<Rightarrow> nearest_value T cls p ds))"

lemma apply_chain_nearest:
  assumes "merger_typed run" "\<forall>d \<in> set (ds @ [target]). \<forall>x. copy_data T cls d = Inr x \<longrightarrow> wf_val T ty x"
    and "apply_chain T run cls target ds = Inr r"
  shows "wf_val T ty r \<and>
    (\<forall>p v. lookup False r p = Some v \<longrightarrow>
      (\<exists>w. nearest_value T cls p (ds @ [target]) = Some w \<and> (is_scalar w \<longrightarrow> v = w)))"
  using assms(2,3)
proof (induction ds arbitrary: r)
  case Nil
  then show ?case by simp
next
  case (Cons d ds)
  from Cons.prems(2) obtain x y where x: "copy_data T cls d = Inr x" "apply_chain T run cls target ds = Inr y"
      "deepinherit T run x y = Inr r" by auto
  have wx: "wf_val T ty x" using Cons.prems(1) x(1) by simp
  have "\<forall>d \<in> set (ds @ [target]). \<forall>x. copy_data T cls d = Inr x \<longrightarrow> wf_val T ty x" using Cons.prems(1) by simp
  from Cons.IH [OF this x(2)] have ih: "wf_val T ty y"
      "\<forall>p v. lookup False y p = Some v \<longrightarrow> (\<exists>w. nearest_value T cls p (ds @ [target]) = Some w \<and> (is_scalar w \<longrightarrow> v = w))"
    by blast+
  have inh: "inherited x y r"
    using deepinherit_inherited(1) [OF _ x(3) ih(1)] assms(1) by (simp add: merger_typed_def)
  have "\<exists>w. nearest_value T cls p ((d # ds) @ [target]) = Some w \<and> (is_scalar w \<longrightarrow> v = w)"
    if h: "lookup False r p = Some v" for p v
  proof (cases "lookup False x p")
    case None
    with inh h have "lookup False y p = Some v" unfolding inherited_def by blast
    with ih(2) have "\<exists>w. nearest_value T cls p (ds @ [target]) = Some w \<and> (is_scalar w \<longrightarrow> v = w)" by blast
    with None x(1) show ?thesis by simp
  next
    case (Some w)
    with inh have "is_scalar w \<longrightarrow> lookup False r p = Some w" unfolding inherited_def by blast
    with h Some x(1) show ?thesis by auto
  qed
  moreover have "wf_val T ty r" by (rule deepinherit_wf(1) [OF x(3) wx ih(1) assms(1)])
  ultimately show ?case by blast
qed

section \<open>Properties\<close>

text \<open>A catalog of two profiles, where the second is the parent of the first, and one that is its own
  parent.\<close>

definition profile_table :: class_table where
  "profile_table c =
     (if c = ''Profile'' then Some (CModel \<lparr>model_fields =
          [(''profile'', \<lparr>field_ty = FScalar TStr, field_default = None\<rparr>),
           (''parent_profile'', \<lparr>field_ty = FScalar TStr, field_default = None\<rparr>),
           (''mtu'', \<lparr>field_ty = FScalar TInt, field_default = None\<rparr>),
           (''speed'', \<lparr>field_ty = FScalar TStr, field_default = None\<rparr>)],
         key_to_field = [], field_to_key = [], allow_other_keys = False\<rparr>)
      else if c = ''Target'' then Some (CModel \<lparr>model_fields =
          [(''mtu'', \<lparr>field_ty = FScalar TInt, field_default = None\<rparr>),
           (''speed'', \<lparr>field_ty = FScalar TStr, field_default = None\<rparr>)],
         key_to_field = [], field_to_key = [], allow_other_keys = False\<rparr>)
      else None)"

definition profile_item :: "string \<Rightarrow> string \<Rightarrow> (string \<times> mval) list \<Rightarrow> mval" where
  "profile_item name par fs =
     MModel ''Profile'' ([(''profile'', MVal (PStr name)), (''parent_profile'', MVal (PStr par))] @ fs) [] [] False False"

definition example_catalog :: "(pv, mval) dict" where
  "example_catalog =
     [(PStr ''A'', profile_item ''A'' ''B'' [(''mtu'', MVal (PInt 9000))]),
      (PStr ''B'', profile_item ''B'' '''' [(''mtu'', MVal (PInt 1500)), (''speed'', MVal (PStr ''10g''))]),
      (PStr ''C'', profile_item ''C'' ''C'' [])]"

definition example_target :: mval where
  "example_target = MModel ''Target'' [] [] [] False False"

lemma example_catalog_readable: "parents_readable profile_table example_catalog"
  by (auto simp: parents_readable_def example_catalog_def profile_item_def parent_profile_def get_attr_def split: if_splits)

text \<open>
  C20. Resolving a profile ends in one of three ways for every catalog, whatever its parents refer to. It
  follows the parents from the selected profile: if the chain comes to the root, the result is the
  chain applied onto the target, each profile over its parent; if it comes back to a profile of the
  chain, the error names the cycle; if it comes to a profile the catalog does not have, the error
  names it, with the chain when it was reached by one.
\<close>

theorem resolve_profile_outcome:
  assumes "parents_readable T cat" and "class_name target = Some cls"
  shows "\<exists>ids q. distinct ids \<and> root_profile_id \<notin> set ids \<and> parents_lead T cat pid ids q \<and>
    (q \<notin> set ids \<and> q \<noteq> root_profile_id \<longrightarrow> map_of cat (PStr q) = None) \<and>
    fst (resolve_profile T run target cat pid) =
      (if q \<in> set ids then Inl (CycleDetected (cycle_path q ids))
       else if q = root_profile_id then
         (case apply_chain T run cls target (map (item_of T cat) ids) of Inl e \<Rightarrow> Inl (ProfileExn e) | Inr x \<Rightarrow> Inr x)
       else Inl (if ids = [] then MissingProfile q else UnresolvedProfile q (ids @ [q])))"
  by (rule resolve_profile_chain [OF assms])

theorem resolve_profile_outcome_witness:
  "fst (resolve_profile profile_table keep_left example_target example_catalog ''D'') = Inl (MissingProfile ''D'') \<and>
   parents_readable profile_table example_catalog"
proof -
  obtain ids q where r: "parents_lead profile_table example_catalog ''D'' ids q"
      "fst (resolve_profile profile_table keep_left example_target example_catalog ''D'') =
        (if q \<in> set ids then Inl (CycleDetected (cycle_path q ids))
         else if q = root_profile_id then
           (case apply_chain profile_table keep_left ''Target'' example_target (map (item_of profile_table example_catalog) ids)
              of Inl e \<Rightarrow> Inl (ProfileExn e) | Inr x \<Rightarrow> Inr x)
         else Inl (if ids = [] then MissingProfile q else UnresolvedProfile q (ids @ [q])))"
    using resolve_profile_outcome [OF example_catalog_readable, of example_target "''Target''" "''D''" keep_left]
    by (auto simp: example_target_def)
  have none: "parent_of profile_table example_catalog ''D'' = None"
    by (simp add: parent_of_def example_catalog_def)
  have "ids = []" using r(1) none by (cases ids) auto
  with r(1) have "q = ''D''" by simp
  with r(2) \<open>ids = []\<close>
  have "fst (resolve_profile profile_table keep_left example_target example_catalog ''D'') = Inl (MissingProfile ''D'')"
    by (simp add: root_profile_id_def)
  with example_catalog_readable show ?thesis by blast
qed

text \<open>
  C21. The nearest definition wins: what a resolved profile holds at a path is the value of the first
  profile of the chain that holds anything there, before its parents and before the target; a value
  of untyped data may be merged with what comes after it. The result has the type of the target.
\<close>

theorem resolved_profile_nearest:
  assumes "merger_typed run" and "parents_readable T cat" and "class_name target = Some cls"
    and "\<forall>d x. copy_data T cls d = Inr x \<and> (d = target \<or> (\<exists>k. d = item_of T cat k)) \<longrightarrow> wf_val T (FClass cls) x"
    and "fst (resolve_profile T run target cat pid) = Inr r"
  shows "wf_val T (FClass cls) r \<and>
    (\<exists>ids. parents_lead T cat pid ids root_profile_id \<and>
      (\<forall>p v. lookup False r p = Some v \<longrightarrow>
        (\<exists>w. nearest_value T cls p (map (item_of T cat) ids @ [target]) = Some w \<and> (is_scalar w \<longrightarrow> v = w))))"
proof -
  obtain ids q where c: "parents_lead T cat pid ids q" "fst (resolve_profile T run target cat pid) =
      (if q \<in> set ids then Inl (CycleDetected (cycle_path q ids))
       else if q = root_profile_id then
         (case apply_chain T run cls target (map (item_of T cat) ids) of Inl e \<Rightarrow> Inl (ProfileExn e) | Inr x \<Rightarrow> Inr x)
       else Inl (if ids = [] then MissingProfile q else UnresolvedProfile q (ids @ [q])))"
    using resolve_profile_chain [OF assms(2,3)] by blast
  with assms(5) have root: "q = root_profile_id" "apply_chain T run cls target (map (item_of T cat) ids) = Inr r"
    by (auto split: if_splits sum.splits)
  from assms(4) have "\<forall>d \<in> set (map (item_of T cat) ids @ [target]). \<forall>x. copy_data T cls d = Inr x \<longrightarrow> wf_val T (FClass cls) x"
    by auto
  from apply_chain_nearest [OF assms(1) this root(2)] c(1) root(1) show ?thesis by blast
qed

text \<open>The selected profile A, with 1500 from its parent hidden\<close>

definition example_resolved :: mval where
  "example_resolved = MModel ''Target'' [(''mtu'', MVal (PInt 9000)), (''speed'', MVal (PStr ''10g''))] [] [] False False"

lemma example_resolve:
  "fst (resolve_profile profile_table keep_left example_target example_catalog ''A'') = Inr example_resolved"
  by code_simp

lemma example_copies_wf:
  assumes "copy_data profile_table ''Target'' d = Inr x"
    and "d = example_target \<or> (\<exists>k. d = item_of profile_table example_catalog k)"
  shows "wf_val profile_table (FClass ''Target'') x"
proof -
  have "item_of profile_table example_catalog k =
      (if k = ''A'' then profile_item ''A'' ''B'' [(''mtu'', MVal (PInt 9000))]
       else if k = ''B'' then profile_item ''B'' '''' [(''mtu'', MVal (PInt 1500)), (''speed'', MVal (PStr ''10g''))]
       else if k = ''C'' then profile_item ''C'' ''C'' [] else MVal PNone)" for k
    by (simp add: item_of_def example_catalog_def parent_profile_def get_attr_def profile_item_def)
  with assms show ?thesis
    by (auto simp: copy_data_def example_target_def profile_item_def profile_table_def field_of_def scalar_ok_def split: if_splits)
qed

theorem resolved_profile_nearest_witness:
  "wf_val profile_table (FClass ''Target'') example_resolved \<and>
   lookup False example_resolved [Field ''mtu''] = Some (PInt 9000)"
proof -
  have cls: "class_name example_target = Some ''Target''" by (simp add: example_target_def)
  from resolved_profile_nearest [OF keep_left_typed example_catalog_readable cls _ example_resolve] example_copies_wf
  have "wf_val profile_table (FClass ''Target'') example_resolved" by blast
  then show ?thesis by (simp add: example_resolved_def)
qed

end
