(* ===== verification/RunOnce.thy ===== *)
theory RunOnce
  imports Prelude
begin

text \<open>
  \<open>pyavd/_utils/run_once.py\<close>: the decorators \<open>run_once\<close> and \<open>run_once_method\<close> as step relations over the
  calls of several threads. A call is a number; every read of the flag, every write of it and every
  acquisition of a lock is a step of its own, so the calls interleave in every order. The history
  variable \<open>bodies\<close> lists the calls that have started to run the decorated function.
\<close>

section \<open>One flag and its lock\<close>

record once =
  has_run :: bool
  lock_holder :: "nat option"
  bodies :: "nat list"

definition new_once :: once where
  "new_once = \<lparr>has_run = False, lock_holder = None, bodies = []\<rparr>"

text \<open>Where a call is: before the first check, before the lock, before the second check, before the flag
  is set, in the body, returned, or left with the exception of the body\<close>

datatype pc = Check | Acquire | Recheck | SetFlag | Body | Returned | Raised

inductive once_step :: "nat \<Rightarrow> once \<Rightarrow> pc \<Rightarrow> once \<Rightarrow> pc \<Rightarrow> bool" for t where
  fast_path: "has_run s \<Longrightarrow> once_step t s Check s Returned"
| slow_path: "\<not> has_run s \<Longrightarrow> once_step t s Check s Acquire"
| acquire: "lock_holder s = None \<Longrightarrow> once_step t s Acquire (s\<lparr>lock_holder := Some t\<rparr>) Recheck"
| late: "has_run s \<Longrightarrow> once_step t s Recheck (s\<lparr>lock_holder := None\<rparr>) Returned"
| first: "\<not> has_run s \<Longrightarrow> once_step t s Recheck s SetFlag"
| set_flag: "once_step t s SetFlag (s\<lparr>has_run := True, bodies := bodies s @ [t]\<rparr>) Body"
| body_returns: "once_step t s Body (s\<lparr>lock_holder := None\<rparr>) Returned"
| body_raises: "once_step t s Body (s\<lparr>lock_holder := None\<rparr>) Raised"

inductive_cases once_stepE: "once_step t s c s' c'"

fun in_section :: "pc option \<Rightarrow> bool" where
  "in_section (Some c) = (c = Recheck \<or> c = SetFlag \<or> c = Body)"
| "in_section None = False"

fun finished :: "pc option \<Rightarrow> bool" where
  "finished (Some c) = (c = Returned \<or> c = Raised)"
| "finished None = False"

text \<open>The calls that use the flag, and where they are\<close>

type_synonym callers = "nat \<Rightarrow> pc option"

definition once_inv :: "once \<Rightarrow> callers \<Rightarrow> bool" where
  "once_inv s P \<longleftrightarrow>
     (\<forall>t. lock_holder s = Some t \<longleftrightarrow> in_section (P t)) \<and>
     (\<forall>t. P t = Some SetFlag \<longrightarrow> \<not> has_run s) \<and>
     (has_run s \<longleftrightarrow> bodies s \<noteq> []) \<and> length (bodies s) \<le> 1 \<and>
     (\<forall>t. P t = Some Body \<or> finished (P t) \<longrightarrow> has_run s) \<and>
     (\<forall>t \<in> set (bodies s). P t = Some Body \<or> finished (P t))"

lemma once_inv_new:
  assumes "\<And>t. P t = None \<or> P t = Some Check"
  shows "once_inv new_once P"
proof -
  have "\<not> in_section (P t)" "P t \<noteq> Some SetFlag" "P t \<noteq> Some Body" "\<not> finished (P t)" for t
    using assms [of t] by auto
  then show ?thesis by (simp add: once_inv_def new_once_def)
qed

lemma once_inv_join:
  assumes "once_inv s P" "P t = None"
  shows "once_inv s (P(t \<mapsto> Check))"
proof -
  from assms have "lock_holder s \<noteq> Some t" "t \<notin> set (bodies s)" by (auto simp: once_inv_def)
  with assms show ?thesis by (auto simp: once_inv_def)
qed

text \<open>Two calls are never between the second check and the end of the body.\<close>

lemma once_inv_exclusive:
  "once_inv s P \<Longrightarrow> in_section (P t) \<Longrightarrow> in_section (P u) \<Longrightarrow> t = u"
  unfolding once_inv_def by (metis option.inject)

lemma once_inv_parts:
  assumes "once_inv s P"
  shows "lock_holder s = Some t \<longleftrightarrow> in_section (P t)" "P t = Some SetFlag \<Longrightarrow> \<not> has_run s"
    "has_run s \<longleftrightarrow> bodies s \<noteq> []" "length (bodies s) \<le> 1"
    "P t = Some Body \<or> finished (P t) \<Longrightarrow> has_run s"
    "t \<in> set (bodies s) \<Longrightarrow> P t = Some Body \<or> finished (P t)"
  using assms unfolding once_inv_def by blast+

lemma once_inv_step:
  assumes inv: "once_inv s P" and at: "P t = Some c" and step: "once_step t s c s' c'"
  shows "once_inv s' (P(t \<mapsto> c'))"
  unfolding once_inv_def
proof (intro conjI allI impI ballI)
  note parts = once_inv_parts [OF inv]
  fix u
  show "lock_holder s' = Some u \<longleftrightarrow> in_section ((P(t \<mapsto> c')) u)"
    using step at parts(1) [of u] parts(1) [of t] by (cases "u = t") (auto elim!: once_stepE)
  show "\<not> has_run s'" if "(P(t \<mapsto> c')) u = Some SetFlag"
    using that step at parts(2) [of u] once_inv_exclusive [OF inv, of t u] by (cases "u = t") (auto elim!: once_stepE)
  show "has_run s' \<longleftrightarrow> bodies s' \<noteq> []"
    using step parts(3) by (auto elim!: once_stepE)
  show "length (bodies s') \<le> 1"
    using step at parts(2) [of t] parts(3,4) by (auto elim!: once_stepE)
  show "has_run s'" if "(P(t \<mapsto> c')) u = Some Body \<or> finished ((P(t \<mapsto> c')) u)"
    using that step at parts(5) [of u] parts(5) [of t] by (cases "u = t") (auto elim!: once_stepE)
  show "(P(t \<mapsto> c')) u = Some Body \<or> finished ((P(t \<mapsto> c')) u)" if "u \<in> set (bodies s')"
    using that step at parts(6) [of u] by (cases "u = t") (auto elim!: once_stepE)
qed

section \<open>run_once\<close>

text \<open>The decorated function is called \<open>n\<close> times, by any threads.\<close>

record once_system =
  shared :: once
  calls :: callers

definition once_init :: "nat \<Rightarrow> once_system" where
  "once_init n = \<lparr>shared = new_once, calls = (\<lambda>t. if t < n then Some Check else None)\<rparr>"

inductive run_once :: "once_system \<Rightarrow> once_system \<Rightarrow> bool" where
  step: "calls s t = Some c \<Longrightarrow> once_step t (shared s) c o' c' \<Longrightarrow>
    run_once s (s\<lparr>shared := o', calls := (calls s)(t \<mapsto> c')\<rparr>)"

inductive_cases run_onceE: "run_once s s'"

inductive reachable_once :: "nat \<Rightarrow> once_system \<Rightarrow> bool" for n where
  init: "reachable_once n (once_init n)"
| step: "reachable_once n s \<Longrightarrow> run_once s s' \<Longrightarrow> reachable_once n s'"

lemma reachable_once_inv:
  "reachable_once n s \<Longrightarrow> once_inv (shared s) (calls s) \<and> (\<forall>t. calls s t \<noteq> None \<longleftrightarrow> t < n)"
proof (induction rule: reachable_once.induct)
  case init
  have "once_inv new_once (\<lambda>t. if t < n then Some Check else None)" by (rule once_inv_new) simp
  then show ?case by (simp add: once_init_def)
next
  case (step s s')
  from step(2) obtain t c o' c' where t: "calls s t = Some c" "once_step t (shared s) c o' c'"
      "s' = s\<lparr>shared := o', calls := (calls s)(t \<mapsto> c')\<rparr>" by (rule run_onceE)
  from step(3) t(1) have "once_inv o' ((calls s)(t \<mapsto> c'))"
    by (blast intro: once_inv_step [where P = "calls s" and t = t and c = c, OF _ t(1,2)])
  with t(3) have "once_inv (shared s') (calls s')" by (simp del: fun_upd_apply)
  moreover have "\<forall>u. calls s' u \<noteq> None \<longleftrightarrow> u < n" using step(3) t(1,3) by auto
  ultimately show ?case by blast
qed

text \<open>What is left to do for a call\<close>

fun remaining :: "pc option \<Rightarrow> nat" where
  "remaining (Some Check) = 5"
| "remaining (Some Acquire) = 4"
| "remaining (Some Recheck) = 3"
| "remaining (Some SetFlag) = 2"
| "remaining (Some Body) = 1"
| "remaining _ = 0"

lemma once_step_remaining: "once_step t s c s' c' \<Longrightarrow> remaining (Some c') < remaining (Some c)"
  by (auto elim!: once_stepE)

definition all_remaining :: "nat \<Rightarrow> once_system \<Rightarrow> nat" where
  "all_remaining n s = sum_list (map (\<lambda>t. remaining (calls s t)) [0..<n])"

lemma sum_update_less:
  fixes f g :: "nat \<Rightarrow> nat"
  assumes "t < n" "g t < f t" "\<And>u. u \<noteq> t \<Longrightarrow> g u = f u"
  shows "sum_list (map g [0..<n]) < sum_list (map f [0..<n])"
proof -
  have "sum g {0..<n} < sum f {0..<n}"
  proof (rule sum_strict_mono_ex1)
    show "\<forall>u \<in> {0..<n}. g u \<le> f u"
    proof
      fix u
      show "g u \<le> f u" using assms(2) assms(3) [of u] by (cases "u = t") auto
    qed
  qed (use assms(1,2) in auto)
  then show ?thesis by (simp add: interv_sum_list_conv_sum_set_nat)
qed

text \<open>A call that is not finished can go on, or waits for one that can.\<close>

lemma once_progress:
  assumes "once_inv s P" "P t = Some c" "\<not> finished (Some c)"
  shows "\<exists>u d s' d'. P u = Some d \<and> once_step u s d s' d'"
proof -
  have self: "\<exists>s' d'. once_step u s d s' d'" if "in_section (Some d)" for u d
    using that by (cases d; cases "has_run s") (auto intro: once_step.intros)
  show ?thesis
  proof (cases "c = Acquire")
    case True
    show ?thesis
    proof (cases "lock_holder s")
      case None
      with True assms(2) show ?thesis by (blast intro: once_step.acquire)
    next
      case (Some u)
      with once_inv_parts(1) [OF assms(1)] have "in_section (P u)" by blast
      then obtain d where "P u = Some d" "in_section (Some d)" by (cases "P u") auto
      with self show ?thesis by blast
    qed
  next
    case False
    show ?thesis
    proof (cases "in_section (Some c)")
      case True
      with self assms(2) show ?thesis by blast
    next
      case out: False
      with False assms(3) have "c = Check" by (cases c) auto
      with assms(2) show ?thesis by (cases "has_run s") (blast intro: once_step.intros)+
    qed
  qed
qed

section \<open>run_once_method\<close>

text \<open>An instance has a flag for each decorated method, created on the first call of the method under the
  init lock. A call first looks its flag up, then goes on as above with the flag it found.\<close>

datatype method_pc = Lookup | InitAcquire | InitCheck | InitCreate | Using nat pc

record instance_state =
  state_of :: "(string, nat) dict"
  init_holder :: "nat option"
  cells :: "once list"
  method_calls :: "nat \<Rightarrow> (string \<times> method_pc) option"

definition instance_init :: "(nat \<Rightarrow> string option) \<Rightarrow> instance_state" where
  "instance_init callee =
     \<lparr>state_of = [], init_holder = None, cells = [],
      method_calls = (\<lambda>t. map_option (\<lambda>m. (m, Lookup)) (callee t))\<rparr>"

definition goes :: "nat \<Rightarrow> string \<Rightarrow> method_pc \<Rightarrow> instance_state \<Rightarrow> instance_state" where
  "goes t m c s = s\<lparr>method_calls := (method_calls s)(t \<mapsto> (m, c))\<rparr>"

inductive run_once_method :: "instance_state \<Rightarrow> instance_state \<Rightarrow> bool" where
  found: "method_calls s t = Some (m, Lookup) \<Longrightarrow> map_of (state_of s) m = Some r \<Longrightarrow>
    run_once_method s (goes t m (Using r Check) s)"
| missing: "method_calls s t = Some (m, Lookup) \<Longrightarrow> map_of (state_of s) m = None \<Longrightarrow>
    run_once_method s (goes t m InitAcquire s)"
| init_lock: "method_calls s t = Some (m, InitAcquire) \<Longrightarrow> init_holder s = None \<Longrightarrow>
    run_once_method s (goes t m InitCheck (s\<lparr>init_holder := Some t\<rparr>))"
| init_found: "method_calls s t = Some (m, InitCheck) \<Longrightarrow> map_of (state_of s) m = Some r \<Longrightarrow>
    run_once_method s (goes t m (Using r Check) (s\<lparr>init_holder := None\<rparr>))"
| init_missing: "method_calls s t = Some (m, InitCheck) \<Longrightarrow> map_of (state_of s) m = None \<Longrightarrow>
    run_once_method s (goes t m InitCreate s)"
| init_create: "method_calls s t = Some (m, InitCreate) \<Longrightarrow>
    run_once_method s (goes t m (Using (length (cells s)) Check)
      (s\<lparr>state_of := AList.update m (length (cells s)) (state_of s), init_holder := None, cells := cells s @ [new_once]\<rparr>))"
| using_cell: "method_calls s t = Some (m, Using r c) \<Longrightarrow> once_step t (cells s ! r) c o' c' \<Longrightarrow>
    run_once_method s (goes t m (Using r c') (s\<lparr>cells := (cells s)[r := o']\<rparr>))"

inductive reachable_method :: "(nat \<Rightarrow> string option) \<Rightarrow> instance_state \<Rightarrow> bool" for callee where
  init: "reachable_method callee (instance_init callee)"
| step: "reachable_method callee s \<Longrightarrow> run_once_method s s' \<Longrightarrow> reachable_method callee s'"

fun initing :: "(string \<times> method_pc) option \<Rightarrow> bool" where
  "initing (Some (_, c)) = (c = InitCheck \<or> c = InitCreate)"
| "initing None = False"

text \<open>The calls that use the flag \<open>r\<close>\<close>

definition callers_of :: "(nat \<Rightarrow> (string \<times> method_pc) option) \<Rightarrow> nat \<Rightarrow> callers" where
  "callers_of mc r t = (case mc t of Some (_, Using r' c) \<Rightarrow> if r' = r then Some c else None | _ \<Rightarrow> None)"

lemma callers_of_update:
  "callers_of (mc(t \<mapsto> (m, Using r c))) r' = (callers_of mc r')(t := (if r = r' then Some c else None))"
  by (auto simp: callers_of_def fun_eq_iff)

lemma callers_of_other:
  "(\<And>r c. d \<noteq> Using r c) \<Longrightarrow> callers_of (mc(t \<mapsto> (m, d))) r' = (callers_of mc r')(t := None)"
  by (auto simp: callers_of_def fun_eq_iff split: method_pc.splits)

definition method_inv :: "(nat \<Rightarrow> string option) \<Rightarrow> instance_state \<Rightarrow> bool" where
  "method_inv callee s \<longleftrightarrow>
     (\<forall>t. init_holder s = Some t \<longleftrightarrow> initing (method_calls s t)) \<and>
     (\<forall>t m. method_calls s t = Some (m, InitCreate) \<longrightarrow> map_of (state_of s) m = None) \<and>
     (\<forall>m r. map_of (state_of s) m = Some r \<longrightarrow> r < length (cells s)) \<and>
     (\<forall>m m' r. map_of (state_of s) m = Some r \<and> map_of (state_of s) m' = Some r \<longrightarrow> m = m') \<and>
     (\<forall>t m r c. method_calls s t = Some (m, Using r c) \<longrightarrow> map_of (state_of s) m = Some r) \<and>
     (\<forall>r < length (cells s). once_inv (cells s ! r) (callers_of (method_calls s) r)) \<and>
     (\<forall>t. map_option fst (method_calls s t) = callee t)"

lemma method_inv_parts:
  assumes "method_inv callee s"
  shows "init_holder s = Some t \<longleftrightarrow> initing (method_calls s t)"
    "method_calls s t = Some (m, InitCreate) \<Longrightarrow> map_of (state_of s) m = None"
    "map_of (state_of s) m = Some r \<Longrightarrow> r < length (cells s)"
    "map_of (state_of s) m = Some r \<Longrightarrow> map_of (state_of s) m' = Some r \<Longrightarrow> m = m'"
    "method_calls s t = Some (m, Using r c) \<Longrightarrow> map_of (state_of s) m = Some r"
    "r < length (cells s) \<Longrightarrow> once_inv (cells s ! r) (callers_of (method_calls s) r)"
    "map_option fst (method_calls s t) = callee t"
  using assms unfolding method_inv_def by blast+

lemma method_inv_init: "method_inv callee (instance_init callee)"
proof -
  have "\<not> initing (map_option (\<lambda>m. (m, Lookup)) (callee t))" for t by (cases "callee t") auto
  then show ?thesis by (auto simp: method_inv_def instance_init_def option.map_comp o_def option.map_ident)
qed

text \<open>A call that moves on without using a flag\<close>

lemma once_inv_keep:
  assumes "once_inv s P" "P t = None"
  shows "once_inv s (P(t := None))"
proof -
  have "P(t := None) = P" using assms(2) by auto
  with assms(1) show ?thesis by simp
qed

text \<open>A call that uses no flag yet goes on to a place where it uses none, or starts to use one.\<close>

lemma cells_keep:
  assumes "method_inv callee s" "method_calls s t = Some (m, d)" "\<And>r c. d \<noteq> Using r c" "\<And>r c. d' \<noteq> Using r c"
    and "q < length (cells s)"
  shows "once_inv (cells s ! q) (callers_of ((method_calls s)(t \<mapsto> (m, d'))) q)"
proof -
  have "callers_of (method_calls s) q t = None" using assms(2,3) by (auto simp: callers_of_def split: method_pc.splits)
  with method_inv_parts(6) [OF assms(1,5)] show ?thesis
    unfolding callers_of_other [OF assms(4)] by (rule once_inv_keep)
qed

lemma cells_join:
  assumes "method_inv callee s" "method_calls s t = Some (m, d)" "\<And>r c. d \<noteq> Using r c" "q < length (cells s)"
  shows "once_inv (cells s ! q) (callers_of ((method_calls s)(t \<mapsto> (m, Using r Check))) q)"
proof -
  have "callers_of (method_calls s) q t = None" using assms(2,3) by (auto simp: callers_of_def split: method_pc.splits)
  with method_inv_parts(6) [OF assms(1,4)] show ?thesis
    unfolding callers_of_update using once_inv_join once_inv_keep by simp
qed

lemma method_inv_step:
  assumes inv: "method_inv callee s" and step: "run_once_method s s'"
  shows "method_inv callee s'"
proof -
  note parts = method_inv_parts [OF inv]
  have alone: "u = t" if "initing (method_calls s t)" "initing (method_calls s u)" for t u
    using that parts(1) [of t] parts(1) [of u] by simp
  from step show ?thesis
  proof cases
    case (found t m r)
    then show ?thesis unfolding method_inv_def
      using parts(1-5,7) parts(7) [of t] cells_join [OF inv found(2)] by (auto simp: goes_def)
  next
    case (missing t m)
    then show ?thesis unfolding method_inv_def
      using parts(1-5,7) parts(7) [of t] cells_keep [OF inv missing(2)] by (auto simp: goes_def)
  next
    case (init_lock t m)
    then show ?thesis unfolding method_inv_def
      using parts(1-5,7) parts(7) [of t] cells_keep [OF inv init_lock(2)] by (auto simp: goes_def)
  next
    case (init_found t m r)
    then show ?thesis unfolding method_inv_def
      using parts(1-5,7) parts(7) [of t] alone [of t] cells_join [OF inv init_found(2)] by (auto simp: goes_def)
  next
    case (init_missing t m)
    then show ?thesis unfolding method_inv_def
      using parts(1-5,7) parts(7) [of t] cells_keep [OF inv init_missing(2)] by (auto simp: goes_def)
  next
    case (init_create t m)
    have cells: "once_inv ((cells s @ [new_once]) ! q) (callers_of ((method_calls s)(t \<mapsto> (m, Using (length (cells s)) Check))) q)"
      if "q < Suc (length (cells s))" for q
    proof (cases "q = length (cells s)")
      case True
      have "callers_of (method_calls s) q u = None" for u
        using parts(3,5) True by (fastforce simp: callers_of_def split: option.splits method_pc.splits)
      then show ?thesis unfolding callers_of_update by (simp add: True nth_append once_inv_new)
    next
      case False
      with that have "q < length (cells s)" by simp
      with cells_join [where r = "length (cells s)" and q = q, OF inv init_create(2)] show ?thesis
        by (simp add: nth_append)
    qed
    have new: "map_of (state_of s) m = None" by (rule parts(2) [OF init_create(2)])
    have only: "\<not> initing (method_calls s u)" if "u \<noteq> t" for u using alone [of t u] that init_create(2) by auto
    have only': "method_calls s u \<noteq> Some (k, InitCreate)" if "u \<noteq> t" for u k using only [OF that] by auto
    have fresh: "map_of (state_of s) k \<noteq> Some (length (cells s))" for k
      using parts(3) [of k "length (cells s)"] by auto
    have inj: "m' = m''" if "(if m' = m then Some (length (cells s)) else map_of (state_of s) m') = Some q"
        "(if m'' = m then Some (length (cells s)) else map_of (state_of s) m'') = Some q" for m' m'' q
      using that fresh parts(4) [of m' q m''] by (cases "m' = m"; cases "m'' = m") auto
    have s': "s' = s\<lparr>state_of := AList.update m (length (cells s)) (state_of s), init_holder := None,
        cells := cells s @ [new_once], method_calls := (method_calls s)(t \<mapsto> (m, Using (length (cells s)) Check))\<rparr>"
      using init_create(1) by (simp add: goes_def)
    show ?thesis unfolding method_inv_def
    proof (intro conjI)
      show "\<forall>u. init_holder s' = Some u \<longleftrightarrow> initing (method_calls s' u)" using only s' by auto
      show "\<forall>u m. method_calls s' u = Some (m, InitCreate) \<longrightarrow> map_of (state_of s') m = None" using only' s' by auto
      show "\<forall>m r. map_of (state_of s') m = Some r \<longrightarrow> r < length (cells s')"
        using parts(3) s' by (auto simp: dict_update_get less_Suc_eq)
      show "\<forall>m m' r. map_of (state_of s') m = Some r \<and> map_of (state_of s') m' = Some r \<longrightarrow> m = m'"
      proof (intro allI impI)
        fix m' m'' q
        assume "map_of (state_of s') m' = Some q \<and> map_of (state_of s') m'' = Some q"
        then show "m' = m''" by (intro inj) (simp_all add: s' dict_update_get)
      qed
      show "\<forall>u m r c. method_calls s' u = Some (m, Using r c) \<longrightarrow> map_of (state_of s') m = Some r"
        using parts(5) new s' by (auto simp: dict_update_get)
      show "\<forall>r < length (cells s'). once_inv (cells s' ! r) (callers_of (method_calls s') r)"
        using cells s' by (simp del: fun_upd_apply)
      show "\<forall>u. map_option fst (method_calls s' u) = callee u" using parts(7) parts(7) [of t] init_create(2) s' by auto
    qed
  next
    case (using_cell t m r c o' c')
    have r: "r < length (cells s)" using parts(3,5) using_cell(2) by blast
    have at: "callers_of (method_calls s) q t = (if q = r then Some c else None)" for q
      using using_cell(2) by (simp add: callers_of_def)
    have cells: "once_inv ((cells s)[r := o'] ! q) (callers_of ((method_calls s)(t \<mapsto> (m, Using r c'))) q)"
      if "q < length (cells s)" for q
    proof (cases "q = r")
      case True
      with once_inv_step [where P = "callers_of (method_calls s) r", OF parts(6) [OF r] _ using_cell(3)] at r
      show ?thesis by (simp add: callers_of_update)
    next
      case False
      with once_inv_keep [OF parts(6) [OF that]] at show ?thesis by (simp add: callers_of_update)
    qed
    then show ?thesis unfolding method_inv_def
      using parts(1-5,7) parts(7) [of t] using_cell by (auto simp: goes_def)
  qed
qed

lemma reachable_method_inv: "reachable_method callee s \<Longrightarrow> method_inv callee s"
  by (induction rule: reachable_method.induct) (auto intro: method_inv_init method_inv_step)

section \<open>Properties\<close>

text \<open>The calls that have started a decorated method of the instance\<close>

definition started :: "instance_state \<Rightarrow> nat list" where
  "started s = concat (map bodies (cells s))"

lemma distinct_map_concat:
  assumes "\<forall>i < length xs. length (xs ! i) \<le> 1"
    and "\<forall>i < length xs. \<forall>j < length xs. i \<noteq> j \<longrightarrow> (\<forall>a \<in> set (xs ! i). \<forall>b \<in> set (xs ! j). f a \<noteq> f b)"
  shows "distinct (map f (concat xs))"
  using assms
proof (induction xs)
  case (Cons x xs)
  have "distinct (map f (concat xs))"
  proof (rule Cons.IH)
    show "\<forall>i < length xs. length (xs ! i) \<le> 1" using Cons.prems(1) by auto
    show "\<forall>i < length xs. \<forall>j < length xs. i \<noteq> j \<longrightarrow> (\<forall>a \<in> set (xs ! i). \<forall>b \<in> set (xs ! j). f a \<noteq> f b)"
    proof (intro allI impI)
      fix i j
      assume "i < length xs" "j < length xs" "i \<noteq> j"
      with Cons.prems(2) [rule_format, of "Suc i" "Suc j"] show "\<forall>a \<in> set (xs ! i). \<forall>b \<in> set (xs ! j). f a \<noteq> f b" by simp
    qed
  qed
  moreover have "distinct (map f x)" using Cons.prems(1) by (cases x) auto
  moreover have "f a \<noteq> f b" if "a \<in> set x" "b \<in> set (concat xs)" for a b
  proof -
    from that(2) obtain y where "y \<in> set xs" "b \<in> set y" by auto
    then obtain i where "i < length xs" "b \<in> set (xs ! i)" by (metis in_set_conv_nth)
    with that(1) Cons.prems(2) [rule_format, of 0 "Suc i"] show ?thesis by simp
  qed
  ultimately show ?case by auto
qed simp

lemma body_of_cell:
  assumes "method_inv callee s" "r < length (cells s)" "t \<in> set (bodies (cells s ! r))"
  obtains m where "callee t = Some m" "map_of (state_of s) m = Some r"
proof -
  from once_inv_parts(6) [OF method_inv_parts(6) [OF assms(1,2)] assms(3)]
  have "callers_of (method_calls s) r t \<noteq> None" by (cases "callers_of (method_calls s) r t") auto
  then obtain m c where "method_calls s t = Some (m, Using r c)"
    by (auto simp: callers_of_def split: option.splits method_pc.splits if_splits)
  with method_inv_parts(5) [OF assms(1) this] method_inv_parts(7) [OF assms(1), of t]
  show ?thesis by (intro that [of m]) simp_all
qed

text \<open>Two calls, one after the other, and a call of a method\<close>

definition two_calls :: "once \<Rightarrow> pc \<Rightarrow> pc \<Rightarrow> once_system" where
  "two_calls s a b = \<lparr>shared = s, calls = (\<lambda>t. if t = 0 then Some a else if t = 1 then Some b else None)\<rparr>"

definition done_once :: once where
  "done_once = \<lparr>has_run = True, lock_holder = None, bodies = [0]\<rparr>"

lemma two_calls_init: "once_init 2 = two_calls new_once Check Check"
  by (auto simp: once_init_def two_calls_def fun_eq_iff)

lemma two_calls_update:
  "(calls (two_calls s a b))(0 \<mapsto> a') = calls (two_calls s' a' b)"
  "(calls (two_calls s a b))(1 \<mapsto> b') = calls (two_calls s' a b')"
  by (auto simp: two_calls_def fun_eq_iff)

lemma two_calls_step:
  "once_step 0 s a s' a' \<Longrightarrow> run_once (two_calls s a b) (two_calls s' a' b)"
  "once_step 1 s b s' b' \<Longrightarrow> run_once (two_calls s a b) (two_calls s' a b')"
proof -
  show "run_once (two_calls s a b) (two_calls s' a' b)" if "once_step 0 s a s' a'"
    using run_once.step [of "two_calls s a b" 0 a s' a'] that unfolding two_calls_update [where s' = s']
    by (simp add: two_calls_def)
  show "run_once (two_calls s a b) (two_calls s' a b')" if "once_step 1 s b s' b'"
    using run_once.step [of "two_calls s a b" 1 b s' b'] that unfolding two_calls_update [where s' = s']
    by (simp add: two_calls_def)
qed

lemma first_call_steps:
  "once_step 0 new_once Check new_once Acquire"
  "once_step 0 new_once Acquire (new_once\<lparr>lock_holder := Some 0\<rparr>) Recheck"
  "once_step 0 (new_once\<lparr>lock_holder := Some 0\<rparr>) Recheck (new_once\<lparr>lock_holder := Some 0\<rparr>) SetFlag"
  "once_step 0 (new_once\<lparr>lock_holder := Some 0\<rparr>) SetFlag (done_once\<lparr>lock_holder := Some 0\<rparr>) Body"
  "once_step 0 (done_once\<lparr>lock_holder := Some 0\<rparr>) Body done_once Returned"
  "once_step 1 done_once Check done_once Returned"
  using once_step.slow_path [of new_once 0] once_step.acquire [of new_once 0]
    once_step.first [of "new_once\<lparr>lock_holder := Some 0\<rparr>" 0] once_step.set_flag [of 0 "new_once\<lparr>lock_holder := Some 0\<rparr>"]
    once_step.body_returns [of 0 "done_once\<lparr>lock_holder := Some 0\<rparr>"] once_step.fast_path [of done_once 1]
  by (simp_all add: new_once_def done_once_def)

lemma two_calls_reachable: "reachable_once 2 (two_calls done_once Returned Returned)"
proof -
  have "reachable_once 2 (two_calls new_once Check Check)"
    using reachable_once.init [of 2] by (simp only: two_calls_init)
  note reachable_once.step [OF this two_calls_step(1) [OF first_call_steps(1)]]
  note reachable_once.step [OF this two_calls_step(1) [OF first_call_steps(2)]]
  note reachable_once.step [OF this two_calls_step(1) [OF first_call_steps(3)]]
  note reachable_once.step [OF this two_calls_step(1) [OF first_call_steps(4)]]
  note reachable_once.step [OF this two_calls_step(1) [OF first_call_steps(5)]]
  from reachable_once.step [OF this two_calls_step(2) [OF first_call_steps(6)]] show ?thesis .
qed

definition one_call :: "(string, nat) dict \<Rightarrow> nat option \<Rightarrow> once list \<Rightarrow> method_pc \<Rightarrow> instance_state" where
  "one_call st h os c =
     \<lparr>state_of = st, init_holder = h, cells = os, method_calls = (\<lambda>t. if t = 0 then Some (''m'', c) else None)\<rparr>"

definition one_callee :: "nat \<Rightarrow> string option" where
  "one_callee t = (if t = 0 then Some ''m'' else None)"

lemma one_call_goes: "goes 0 ''m'' c (one_call st h os d) = one_call st h os c"
  by (auto simp: goes_def one_call_def)

lemma one_call_fields:
  "state_of (one_call st h os c) = st" "init_holder (one_call st h os c) = h" "cells (one_call st h os c) = os"
  "method_calls (one_call st h os c) 0 = Some (''m'', c)"
  by (simp_all add: one_call_def)

lemma one_call_updates:
  "one_call st h os c\<lparr>init_holder := h'\<rparr> = one_call st h' os c"
  "one_call st h os c\<lparr>state_of := st', init_holder := h', cells := os'\<rparr> = one_call st' h' os' c"
  by (simp_all add: one_call_def)

lemma one_call_using:
  assumes "once_step 0 s c s' c'"
  shows "run_once_method (one_call st h [s] (Using 0 c)) (one_call st h [s'] (Using 0 c'))"
proof -
  have "run_once_method (one_call st h [s] (Using 0 c))
      (goes 0 ''m'' (Using 0 c') (one_call st h [s'] (Using 0 c)))"
    using run_once_method.using_cell [of "one_call st h [s] (Using 0 c)" 0 "''m''" 0 c s' c'] assms
    by (simp add: one_call_def goes_def)
  then show ?thesis by (simp only: one_call_goes)
qed

lemma one_call_reachable: "reachable_method one_callee (one_call [(''m'', 0)] None [done_once] (Using 0 Returned))"
proof -
  have "instance_init one_callee = one_call [] None [] Lookup"
    by (auto simp: instance_init_def one_call_def one_callee_def)
  then have "reachable_method one_callee (one_call [] None [] Lookup)"
    using reachable_method.init [of one_callee] by simp
  moreover have "run_once_method (one_call [] None [] Lookup) (one_call [] None [] InitAcquire)"
    using run_once_method.missing [of "one_call [] None [] Lookup" 0 "''m''"] by (simp add: one_call_fields one_call_updates one_call_goes)
  ultimately have "reachable_method one_callee (one_call [] None [] InitAcquire)" by (rule reachable_method.step)
  moreover have "run_once_method (one_call [] None [] InitAcquire) (one_call [] (Some 0) [] InitCheck)"
    using run_once_method.init_lock [of "one_call [] None [] InitAcquire" 0 "''m''"] by (simp add: one_call_fields one_call_updates one_call_goes)
  ultimately have "reachable_method one_callee (one_call [] (Some 0) [] InitCheck)" by (rule reachable_method.step)
  moreover have "run_once_method (one_call [] (Some 0) [] InitCheck) (one_call [] (Some 0) [] InitCreate)"
    using run_once_method.init_missing [of "one_call [] (Some 0) [] InitCheck" 0 "''m''"] by (simp add: one_call_fields one_call_updates one_call_goes)
  ultimately have "reachable_method one_callee (one_call [] (Some 0) [] InitCreate)" by (rule reachable_method.step)
  moreover have "run_once_method (one_call [] (Some 0) [] InitCreate) (one_call [(''m'', 0)] None [new_once] (Using 0 Check))"
    using run_once_method.init_create [of "one_call [] (Some 0) [] InitCreate" 0 "''m''"] by (simp add: one_call_fields one_call_updates one_call_goes)
  ultimately have "reachable_method one_callee (one_call [(''m'', 0)] None [new_once] (Using 0 Check))" by (rule reachable_method.step)
  note reachable_method.step [OF this one_call_using [OF first_call_steps(1)]]
  note reachable_method.step [OF this one_call_using [OF first_call_steps(2)]]
  note reachable_method.step [OF this one_call_using [OF first_call_steps(3)]]
  note reachable_method.step [OF this one_call_using [OF first_call_steps(4)]]
  from reachable_method.step [OF this one_call_using [OF first_call_steps(5)]] show ?thesis .
qed

text \<open>
  C22. In every interleaving of calls by any number of threads, each decorated method of an instance runs
  at most once, whichever call creates its state; and a call that has returned knows the method was
  started, by itself or by another call.
\<close>

theorem run_once_method_once:
  assumes "reachable_method callee s"
  shows "distinct (map callee (started s)) \<and>
    (\<forall>t m r c. method_calls s t = Some (m, Using r c) \<and> finished (Some c) \<longrightarrow>
      (\<exists>u \<in> set (started s). callee u = Some m))"
proof (intro conjI allI impI)
  note inv = reachable_method_inv [OF assms]
  note parts = method_inv_parts [OF inv]
  show "distinct (map callee (started s))"
    unfolding started_def
  proof (rule distinct_map_concat)
    show "\<forall>i < length (map bodies (cells s)). length (map bodies (cells s) ! i) \<le> 1"
      using once_inv_parts(4) [OF parts(6)] by simp
    show "\<forall>i < length (map bodies (cells s)). \<forall>j < length (map bodies (cells s)). i \<noteq> j \<longrightarrow>
        (\<forall>a \<in> set (map bodies (cells s) ! i). \<forall>b \<in> set (map bodies (cells s) ! j). callee a \<noteq> callee b)"
    proof (intro allI impI ballI notI)
      fix i j a b
      assume h: "i < length (map bodies (cells s))" "j < length (map bodies (cells s))" "i \<noteq> j"
        "a \<in> set (map bodies (cells s) ! i)" "b \<in> set (map bodies (cells s) ! j)" "callee a = callee b"
      from h(1,4) obtain m where "callee a = Some m" "map_of (state_of s) m = Some i"
        by (auto elim: body_of_cell [OF inv])
      moreover from h(2,5) obtain m' where "callee b = Some m'" "map_of (state_of s) m' = Some j"
        by (auto elim: body_of_cell [OF inv])
      ultimately show False using h(3,6) by simp
    qed
  qed
  fix t m r c
  assume h: "method_calls s t = Some (m, Using r c) \<and> finished (Some c)"
  then have r: "map_of (state_of s) m = Some r" "r < length (cells s)" using parts(3,5) by blast+
  have "callers_of (method_calls s) r t = Some c" using h by (simp add: callers_of_def)
  with once_inv_parts(3,5) [OF parts(6) [OF r(2)]] h obtain u where u: "u \<in> set (bodies (cells s ! r))"
    by (metis list.set_intros(1) neq_Nil_conv)
  from body_of_cell [OF inv r(2) u] parts(4) [OF r(1)] have "callee u = Some m" by metis
  with u r(2) show "\<exists>u \<in> set (started s). callee u = Some m" unfolding started_def by auto
qed

theorem run_once_method_once_witness:
  "started (one_call [(''m'', 0)] None [done_once] (Using 0 Returned)) = [0] \<and>
   distinct (map one_callee (started (one_call [(''m'', 0)] None [done_once] (Using 0 Returned))))"
  using run_once_method_once [OF one_call_reachable] by (simp add: started_def one_call_def done_once_def)

text \<open>
  C23. Every call of a \<open>run_once\<close> function comes to an end, and then the function has run exactly once:
  each step leaves less to do, and when no step is left all calls have returned or raised.
\<close>

theorem run_once_completes:
  assumes "reachable_once n s"
  shows "(\<forall>s'. run_once s s' \<longrightarrow> all_remaining n s' < all_remaining n s) \<and>
    ((\<nexists>s'. run_once s s') \<longrightarrow> (\<forall>t < n. finished (calls s t)) \<and> (0 < n \<longrightarrow> length (bodies (shared s)) = 1))"
proof (intro conjI allI impI)
  from reachable_once_inv [OF assms] have inv: "once_inv (shared s) (calls s)" "\<And>t. calls s t \<noteq> None \<longleftrightarrow> t < n" by blast+
  show "all_remaining n s' < all_remaining n s" if "run_once s s'" for s'
  proof -
    from that obtain t c o' c' where t: "calls s t = Some c" "once_step t (shared s) c o' c'"
        "s' = s\<lparr>shared := o', calls := (calls s)(t \<mapsto> c')\<rparr>" by (rule run_onceE)
    from t(1) inv(2) have "t < n" by auto
    with t(1,3) once_step_remaining [OF t(2)] show ?thesis
      unfolding all_remaining_def by (intro sum_update_less [of t]) auto
  qed
  have ends: "finished (calls s t)" if stuck: "\<nexists>s'. run_once s s'" and "t < n" for t
  proof (rule ccontr)
    assume unfinished: "\<not> finished (calls s t)"
    from \<open>t < n\<close> inv(2) obtain c where c: "calls s t = Some c" by blast
    with unfinished once_progress [OF inv(1) c] obtain u d o' d' where
      "calls s u = Some d" "once_step u (shared s) d o' d'" by auto
    then have "\<exists>s'. run_once s s'" by (blast intro: run_once.step)
    with stuck show False by blast
  qed
  show "finished (calls s t)" if "\<nexists>s'. run_once s s'" "t < n" for t by (rule ends [OF that])
  show "length (bodies (shared s)) = 1" if "\<nexists>s'. run_once s s'" "0 < n"
  proof -
    from once_inv_parts(5) [OF inv(1), of 0] ends [OF that] have "has_run (shared s)" by blast
    with once_inv_parts(3,4) [OF inv(1)] show ?thesis by (cases "bodies (shared s)") auto
  qed
qed

theorem run_once_completes_witness:
  "(\<nexists>s'. run_once (two_calls done_once Returned Returned) s') \<and>
   length (bodies (shared (two_calls done_once Returned Returned))) = 1"
proof -
  have "\<nexists>s'. run_once (two_calls done_once Returned Returned) s'"
    by (auto elim!: run_onceE once_stepE simp: two_calls_def split: if_splits)
  with run_once_completes [OF two_calls_reachable] show ?thesis by simp
qed

text \<open>The abstract view: which call, if any, was the first\<close>

definition first_call :: "once_system \<Rightarrow> nat option" where
  "first_call s = (case bodies (shared s) of [] \<Rightarrow> None | t # _ \<Rightarrow> Some t)"

definition first_call_step :: "nat \<Rightarrow> nat option \<Rightarrow> nat option \<Rightarrow> bool" where
  "first_call_step n a b \<longleftrightarrow> b = a \<or> (a = None \<and> (\<exists>t < n. b = Some t))"

text \<open>
  C24. The flag, the lock and the two checks implement a single choice: every step of the calls is no step
  or the choice of the one call that runs the function, which is never changed.
\<close>

theorem run_once_refines_choice:
  assumes "reachable_once n s" and "run_once s s'"
  shows "first_call_step n (first_call s) (first_call s') \<and> length (bodies (shared s')) \<le> 1"
proof -
  from reachable_once_inv [OF assms(1)] have inv: "once_inv (shared s) (calls s)" "\<And>t. calls s t \<noteq> None \<longleftrightarrow> t < n" by blast+
  from assms(2) obtain t c o' c' where t: "calls s t = Some c" "once_step t (shared s) c o' c'"
      "s' = s\<lparr>shared := o', calls := (calls s)(t \<mapsto> c')\<rparr>" by (rule run_onceE)
  from t(1) inv(2) have "t < n" by auto
  have "bodies o' = bodies (shared s) \<or> (bodies (shared s) = [] \<and> bodies o' = [t])"
    using t(1,2) once_inv_parts(2,3) [OF inv(1)] by (auto elim!: once_stepE)
  with \<open>t < n\<close> t(3) once_inv_parts(4) [OF inv(1)] show ?thesis
    by (auto simp: first_call_step_def first_call_def)
qed

theorem run_once_refines_choice_witness:
  "reachable_once 2 (two_calls new_once Check Check) \<and>
   first_call_step 2 (first_call (two_calls new_once Check Check)) (first_call (two_calls new_once Acquire Check))"
proof -
  have "reachable_once 2 (two_calls new_once Check Check)"
    using reachable_once.init [of 2] by (simp only: two_calls_init)
  with run_once_refines_choice [OF this two_calls_step(1) [OF first_call_steps(1)]] show ?thesis by blast
qed

end
