(* ===== verification/CvErrors.thy ===== *)
theory CvErrors
  imports Prelude
begin

text \<open>
  \<open>pyavd/_cv/client/exceptions.py\<close>: the exceptions of the CloudVision client. All but \<open>PyExn\<close> are
  subclasses of \<open>CVClientException\<close>; \<open>PyExn\<close> stands for the exceptions of Python that the code can
  raise beside them. Messages are left out, values that other code reads are kept.
\<close>

datatype cv_exn =
    CVClientException
  | CVTimeoutError
  | CVResourceNotFound
  | CVResourceInvalidState
  | CVWorkspaceFailed
  | CVWorkspaceBuildTimeout
  | CVWorkspaceBuildFailed
  | CVWorkspaceSubmitFailed
  | CVWorkspaceSubmitFailedInactiveDevices
  | CVWorkspaceStateTimeout
  | CVChangeControlFailed
  | CVMessageSizeExceeded nat nat  \<comment> \<open>size and maximum\<close>
  | CVDuplicatedDevices
  | CVGRPCStatusUnavailable nat
  | CVManifestError
  | CVClientBulkAPIError nat  \<comment> \<open>number of errors\<close>
  | CVGRPCError
  | CVClientInvalidServerName
  | CVWorkspaceSynchronizationFailed
  | CVWorkspaceSynchronizationAttemptsExhausted nat
  | PyExn py_exn

fun is_client_exception :: "cv_exn \<Rightarrow> bool" where
  "is_client_exception (PyExn e) = False"
| "is_client_exception e = True"

text \<open>Operations that read and write a state and may fail; a failure keeps the state written so far.\<close>

type_synonym ('s, 'a) op = "'s \<Rightarrow> (cv_exn, 'a) result \<times> 's"

definition ret :: "'a \<Rightarrow> ('s, 'a) op" where
  "ret x s = (Inr x, s)"

definition fail :: "cv_exn \<Rightarrow> ('s, 'a) op" where
  "fail e s = (Inl e, s)"

definition seq :: "('s, 'a) op \<Rightarrow> ('a \<Rightarrow> ('s, 'b) op) \<Rightarrow> ('s, 'b) op" where
  "seq m f s = (case m s of (Inl e, s') \<Rightarrow> (Inl e, s') | (Inr x, s') \<Rightarrow> f x s')"

definition get_state :: "('s, 's) op" where
  "get_state s = (Inr s, s)"

definition modify_state :: "('s \<Rightarrow> 's) \<Rightarrow> ('s, unit) op" where
  "modify_state f s = (Inr (), f s)"

lemma seq_Inr: "seq m f s = (Inr y, s') \<longleftrightarrow> (\<exists>x t. m s = (Inr x, t) \<and> f x t = (Inr y, s'))"
  by (auto simp: seq_def split: prod.splits sum.splits)

lemma seq_Inl: "seq m f s = (Inl e, s') \<longleftrightarrow> m s = (Inl e, s') \<or> (\<exists>x t. m s = (Inr x, t) \<and> f x t = (Inl e, s'))"
  by (auto simp: seq_def split: prod.splits sum.splits)

lemma op_simps [simp]:
  "ret x s = (Inr x, s)" "fail e s = (Inl e, s)" "get_state s = (Inr s, s)" "modify_state f s = (Inr (), f s)"
  by (simp_all add: ret_def fail_def get_state_def modify_state_def)

text \<open>An operation on the first component of a pair, a change of the second one, and the use of a result
  that may be None\<close>

definition on_client :: "('s, 'a) op \<Rightarrow> ('s \<times> 'l, 'a) op" where
  "on_client f s = (case f (fst s) of (r, c) \<Rightarrow> (r, (c, snd s)))"

definition on_lists :: "('l \<Rightarrow> 'l) \<Rightarrow> ('s \<times> 'l, unit) op" where
  "on_lists g = modify_state (\<lambda>(c, l). (c, g l))"

definition iterate_over :: "'a option \<Rightarrow> ('s, 'a) op" where
  "iterate_over x = (case x of None \<Rightarrow> fail (PyExn TypeError) | Some y \<Rightarrow> ret y)"

section \<open>What holds after an operation\<close>

text \<open>\<open>after m Q E s\<close>: run in \<open>s\<close>, the operation ends in a result and a state with \<open>Q\<close> or in a failure and a
  state with \<open>E\<close>. The equations compute it backwards through an operation.\<close>

named_theorems after_simps "postconditions computed through operations"

definition after :: "('s, 'a) op \<Rightarrow> ('a \<Rightarrow> 's \<Rightarrow> bool) \<Rightarrow> (cv_exn \<Rightarrow> 's \<Rightarrow> bool) \<Rightarrow> 's \<Rightarrow> bool" where
  "after m Q E s = (case m s of (Inr x, s') \<Rightarrow> Q x s' | (Inl e, s') \<Rightarrow> E e s')"

lemma after_ret [after_simps]: "after (ret x) Q E s = Q x s"
  by (simp add: after_def)

lemma after_fail [after_simps]: "after (fail e) Q E s = E e s"
  by (simp add: after_def)

lemma after_get_state [after_simps]: "after get_state Q E s = Q s s"
  by (simp add: after_def)

lemma after_on_lists [after_simps]: "after (on_lists g) Q E (c, l) = Q () (c, g l)"
  by (simp add: after_def on_lists_def)

lemma after_iterate [after_simps]:
  "after (iterate_over x) Q E s = (case x of None \<Rightarrow> E (PyExn TypeError) s | Some y \<Rightarrow> Q y s)"
  by (simp add: after_def iterate_over_def split: option.splits)

lemma after_seq [after_simps]: "after (seq m f) Q E s = after m (\<lambda>x. after (f x) Q E) E s"
  by (auto simp: after_def seq_def split: prod.splits sum.splits)

lemma after_on_client [after_simps]:
  "after (on_client f) Q E (c, l) = after f (\<lambda>x c'. Q x (c', l)) (\<lambda>e c'. E e (c', l)) c"
  by (auto simp: after_def on_client_def split: prod.splits sum.splits)

lemma after_mono:
  "after m Q E s \<Longrightarrow> (\<And>x t. Q x t \<Longrightarrow> Q' x t) \<Longrightarrow> (\<And>e t. E e t \<Longrightarrow> E' e t) \<Longrightarrow> after m Q' E' s"
  by (auto simp: after_def split: prod.splits sum.splits)

lemma after_conj:
  "after m Q E s \<Longrightarrow> after m Q' E' s \<Longrightarrow> after m (\<lambda>x t. Q x t \<and> Q' x t) (\<lambda>e t. E e t \<and> E' e t) s"
  by (auto simp: after_def split: prod.splits sum.splits)

lemma after_any: "(\<And>x t. Q x t) \<Longrightarrow> (\<And>e t. E e t) \<Longrightarrow> after m Q E s"
  by (simp add: after_def split: prod.splits sum.splits)

lemma after_if: "after (if b then m else n) Q E s = (if b then after m Q E s else after n Q E s)"
  by simp

lemma afterD: "after m Q E s \<Longrightarrow> m s = (Inr x, s') \<Longrightarrow> Q x s'" "after m Q E s \<Longrightarrow> m s = (Inl e, s') \<Longrightarrow> E e s'"
  by (simp_all add: after_def)

text \<open>An invariant of the state that an operation keeps, whether it fails or not\<close>

definition keeps :: "('s \<Rightarrow> bool) \<Rightarrow> ('s, 'a) op \<Rightarrow> bool" where
  "keeps I m \<longleftrightarrow> (\<forall>s. I s \<longrightarrow> I (snd (m s)))"

named_theorems keeps_intros "operations that keep an invariant"

lemma keeps_basic [keeps_intros]: "keeps I (ret x)" "keeps I (fail e)" "keeps I get_state" "keeps I (iterate_over y)"
  by (simp_all add: keeps_def iterate_over_def split: option.splits)

lemma keeps_seq [keeps_intros]: "keeps I m \<Longrightarrow> (\<And>x. keeps I (f x)) \<Longrightarrow> keeps I (seq m f)"
  unfolding keeps_def seq_def by (auto split: prod.splits sum.splits)

lemma keeps_if [keeps_intros]: "(b \<Longrightarrow> keeps I m) \<Longrightarrow> (\<not> b \<Longrightarrow> keeps I n) \<Longrightarrow> keeps I (if b then m else n)"
  by simp

lemma keeps_option [keeps_intros]:
  "(y = None \<Longrightarrow> keeps I m) \<Longrightarrow> (\<And>x. y = Some x \<Longrightarrow> keeps I (f x)) \<Longrightarrow> keeps I (case y of None \<Rightarrow> m | Some x \<Rightarrow> f x)"
  by (cases y) auto

lemma keeps_list [keeps_intros]:
  "(ys = [] \<Longrightarrow> keeps I m) \<Longrightarrow> (\<And>x xs. ys = x # xs \<Longrightarrow> keeps I (f x xs)) \<Longrightarrow> keeps I (case ys of [] \<Rightarrow> m | x # xs \<Rightarrow> f x xs)"
  by (cases ys) auto

lemma keeps_prod [keeps_intros]: "(\<And>x y. keeps I (f x y)) \<Longrightarrow> keeps I (case p of (x, y) \<Rightarrow> f x y)"
  by (cases p) auto

lemma keeps_let [keeps_intros]: "(\<And>x. keeps I (f x)) \<Longrightarrow> keeps I (let x = e in f x)"
  by (simp add: Let_def)

lemma keepsI: "(\<And>s x t. I s \<Longrightarrow> m s = (x, t) \<Longrightarrow> I t) \<Longrightarrow> keeps I m"
  unfolding keeps_def by (metis prod.collapse)

lemma keepsD: "keeps I m \<Longrightarrow> m s = (x, t) \<Longrightarrow> I s \<Longrightarrow> I t"
  unfolding keeps_def by (metis snd_conv)

lemma keeps_after: "keeps I m \<Longrightarrow> I s \<Longrightarrow> after m (\<lambda>_. I) (\<lambda>_. I) s"
  by (auto simp: keeps_def after_def split: prod.splits sum.splits)

lemma keeps_on_lists: "(\<And>c l. I (c, l) \<Longrightarrow> I (c, g l)) \<Longrightarrow> keeps I (on_lists g)"
  by (auto simp: keeps_def on_lists_def)

lemma keeps_on_client: "(\<And>c c' l. I (c, l) \<Longrightarrow> snd (f c) = c' \<Longrightarrow> I (c', l)) \<Longrightarrow> keeps I (on_client f)"
  by (auto simp: keeps_def on_client_def split: prod.splits)

text \<open>Going on with the result or with the exception\<close>

definition handle :: "('s, 'a) op \<Rightarrow> ('a \<Rightarrow> ('s, 'b) op) \<Rightarrow> (cv_exn \<Rightarrow> ('s, 'b) op) \<Rightarrow> ('s, 'b) op" where
  "handle m f h s = (case m s of (Inr x, s') \<Rightarrow> f x s' | (Inl e, s') \<Rightarrow> h e s')"

lemma after_handle [after_simps]:
  "after (handle m f h) Q E s = after m (\<lambda>x. after (f x) Q E) (\<lambda>e. after (h e) Q E) s"
  by (auto simp: after_def handle_def split: prod.splits sum.splits)

text \<open>Catching the exceptions of the client, with a handler\<close>

definition catch_client :: "('s, unit) op \<Rightarrow> (cv_exn \<Rightarrow> ('s, unit) op) \<Rightarrow> ('s, unit) op" where
  "catch_client m handler s =
     (case m s of
        (Inl e, s') \<Rightarrow> (if is_client_exception e then handler e s' else (Inl e, s'))
      | (Inr x, s') \<Rightarrow> (Inr x, s'))"

lemma after_catch_client [after_simps]:
  "after (catch_client m h) Q E s = after m Q (\<lambda>e t. if is_client_exception e then after (h e) Q E t else E e t) s"
  by (auto simp: after_def catch_client_def split: prod.splits sum.splits)

end
