(* ===== verification/CvVersion.thy ===== *)
theory CvVersion
  imports Regex
begin

text \<open>
  \<open>pyavd/_cv/client/versioning.py\<close> and the decorator \<open>LimitCvVersion\<close> of \<open>async_decorators.py\<close>: versions of
  CloudVision, the registration of variants of a method for ranges of versions, and the choice of the
  variant for the version of the connected server.
\<close>

section \<open>Versions\<close>

record cv_version =
  version :: string
  version_value :: nat

definition cvaas_version_string :: string where
  "cvaas_version_string = ''CVaaS''"

text \<open>\<open>fullmatch\<close>\<close>

definition re_fullmatch :: "rx \<Rightarrow> string \<Rightarrow> (nat \<times> string) list option" where
  "re_fullmatch r s =
     map_option (\<lambda>(p, s', g). g) (find (\<lambda>(p, s', g). s' = []) (rx_match r (None, s, [])))"

definition version_rx :: rx where
  "version_rx =
     RAlt (rx_seq [RRep (RSet is_digit) 4 4, RChr CHR ''.'', RRep (RSet is_digit) 1 2, RChr CHR ''.'',
             RRep (RSet is_digit) 1 2, ROpt (RSeq (RChr CHR ''.'') (RPlus is_digit))])
          (rx_seq (map RChr cvaas_version_string))"

text \<open>\<open>f"{element:0>n}"\<close>\<close>

definition zero_pad :: "nat \<Rightarrow> string \<Rightarrow> string" where
  "zero_pad n s = replicate (n - length s) CHR ''0'' @ s"

definition version_as_value :: "string \<Rightarrow> nat" where
  "version_as_value v =
     (if v = cvaas_version_string then 99999999
      else let es = split_on CHR ''.'' v
           in nat_of_str (zero_pad 4 (es ! 0) @ zero_pad 2 (es ! 1) @ zero_pad 2 (es ! 2)))"

definition new_version :: "string \<Rightarrow> (py_exn, cv_version) result" where
  "new_version v =
     (if re_fullmatch version_rx v = None then Inl ValueError
      else Inr \<lparr>version = v, version_value = version_as_value v\<rparr>)"

definition version_le :: "cv_version \<Rightarrow> cv_version \<Rightarrow> bool" where
  "version_le a b \<longleftrightarrow> version_value a \<le> version_value b"

definition version_lt :: "cv_version \<Rightarrow> cv_version \<Rightarrow> bool" where
  "version_lt a b \<longleftrightarrow> version_value a < version_value b"

section \<open>Variants of a method\<close>

type_synonym version_range = "cv_version \<times> cv_version"

definition new_limit :: "string \<Rightarrow> string \<Rightarrow> (py_exn, version_range) result" where
  "new_limit min_ver max_ver =
     rbind (new_version min_ver) (\<lambda>mn. rbind (new_version max_ver) (\<lambda>mx.
       if version_lt mx mn then Inl ValueError else Inr (mn, mx)))"

text \<open>The variants by name of the function, in the order of their registration\<close>

type_synonym 'f versioned_funcs = "(string, (version_range \<times> 'f) list) dict"

definition overlaps :: "version_range \<Rightarrow> version_range \<Rightarrow> bool" where
  "overlaps existing new \<longleftrightarrow> version_le (fst existing) (snd new) \<and> version_le (fst new) (snd existing)"

definition variants :: "'f versioned_funcs \<Rightarrow> string \<Rightarrow> (version_range \<times> 'f) list" where
  "variants funcs name = (case map_of funcs name of None \<Rightarrow> [] | Some vs \<Rightarrow> vs)"

text \<open>A new range never equals one that is there: equal ranges overlap.\<close>

definition register :: "'f versioned_funcs \<Rightarrow> version_range \<Rightarrow> string \<Rightarrow> 'f \<Rightarrow> (py_exn, 'f versioned_funcs) result" where
  "register funcs rng name f =
     (if list_ex (\<lambda>(existing, _). overlaps existing rng) (variants funcs name) then Inl ValueError
      else Inr (AList.update name (variants funcs name @ [(rng, f)]) funcs))"

definition version_in_range :: "cv_version \<Rightarrow> version_range \<Rightarrow> bool" where
  "version_in_range v rng \<longleftrightarrow> version_le (fst rng) v \<and> version_le v (snd rng)"

text \<open>\<open>wrapper_cv_version\<close>\<close>

definition dispatch :: "'f versioned_funcs \<Rightarrow> string \<Rightarrow> cv_version \<Rightarrow> (py_exn, 'f) result" where
  "dispatch funcs name v =
     (case map_of funcs name of
        None \<Rightarrow> Inl KeyError
      | Some vs \<Rightarrow> (case find (\<lambda>(rng, _). version_in_range v rng) vs of Some (_, f) \<Rightarrow> Inr f | None \<Rightarrow> Inl LookupError))"

text \<open>The decorated methods of a class, one after the other\<close>

fun register_all :: "'f versioned_funcs \<Rightarrow> (version_range \<times> string \<times> 'f) list \<Rightarrow> (py_exn, 'f versioned_funcs) result" where
  "register_all funcs [] = Inr funcs"
| "register_all funcs ((rng, name, f) # regs) = rbind (register funcs rng name f) (\<lambda>fs. register_all fs regs)"

section \<open>Which variant is called\<close>

lemma in_both_overlaps: "version_in_range v a \<Longrightarrow> version_in_range v b \<Longrightarrow> overlaps a b"
  by (auto simp: version_in_range_def overlaps_def version_le_def)

lemma overlaps_sym: "overlaps a b \<longleftrightarrow> overlaps b a"
  by (auto simp: overlaps_def)

text \<open>What a list of registrations adds for a name\<close>

definition added :: "string \<Rightarrow> (version_range \<times> string \<times> 'f) list \<Rightarrow> (version_range \<times> 'f) list" where
  "added name regs = map (\<lambda>(rng, _, f). (rng, f)) (filter (\<lambda>(_, n, _). n = name) regs)"

lemma register_variants:
  assumes "register funcs rng name f = Inr funcs'"
  shows "variants funcs' n = variants funcs n @ (if n = name then [(rng, f)] else [])"
    and "map_of funcs' n = None \<longleftrightarrow> map_of funcs n = None \<and> n \<noteq> name"
  using assms by (auto simp: register_def variants_def dict_update_get split: if_splits option.splits)

lemma register_all_variants:
  "register_all funcs regs = Inr funcs' \<Longrightarrow>
    variants funcs' n = variants funcs n @ added n regs \<and>
    (map_of funcs' n = None \<longleftrightarrow> map_of funcs n = None \<and> added n regs = [])"
proof (induction funcs regs arbitrary: rule: register_all.induct)
  case (1 funcs)
  then show ?case by (simp add: added_def)
next
  case (2 funcs rng name f regs)
  then obtain fs where fs: "register funcs rng name f = Inr fs" "register_all fs regs = Inr funcs'" by auto
  with 2(1) [OF fs] register_variants [OF fs(1), of n] show ?case by (auto simp: added_def)
qed

lemma register_all_disjoint:
  assumes "register_all funcs regs = Inr funcs'"
    and "\<And>n. pairwise (\<lambda>a b. \<not> overlaps (fst a) (fst b)) (set (variants funcs n))"
  shows "pairwise (\<lambda>a b. \<not> overlaps (fst a) (fst b)) (set (variants funcs' n))"
  using assms
proof (induction funcs regs arbitrary: rule: register_all.induct)
  case (1 funcs)
  then show ?case by simp
next
  case (2 funcs rng name f regs)
  then obtain fs where fs: "register funcs rng name f = Inr fs" "register_all fs regs = Inr funcs'" by auto
  from fs(1) have "\<forall>a \<in> set (variants funcs name). \<not> overlaps (fst a) rng"
    by (auto simp: register_def list_ex_iff split: if_splits)
  then have new: "\<not> overlaps (fst a) rng \<and> \<not> overlaps rng (fst a)" if "a \<in> set (variants funcs name)" for a
    using that overlaps_sym by blast
  have "pairwise (\<lambda>a b. \<not> overlaps (fst a) (fst b)) (set (variants fs m))" for m
  proof (cases "m = name")
    case True
    then have "set (variants fs m) = insert (rng, f) (set (variants funcs name))"
      by (simp add: register_variants(1) [OF fs(1)])
    with 2(3) [of name] new show ?thesis by (simp only: pairwise_insert fst_conv) blast
  next
    case False
    then have "variants fs m = variants funcs m" by (simp add: register_variants(1) [OF fs(1)])
    with 2(3) [of m] show ?thesis by simp
  qed
  from 2(1) [OF fs this] show ?case .
qed

lemma find_unique:
  assumes "x \<in> set xs" "P x" "\<And>y. y \<in> set xs \<Longrightarrow> P y \<Longrightarrow> y = x"
  shows "find P xs = Some x"
proof (cases "find P xs")
  case None
  with assms(1,2) show ?thesis by (auto simp: find_None_iff)
next
  case (Some y)
  then have "y \<in> set xs" "P y" by (auto simp: find_Some_iff)
  with Some assms(3) show ?thesis by blast
qed

section \<open>Properties\<close>

text \<open>
  C25. Once the variants of the methods are registered without an error, the choice of a variant does not
  depend on the order of registration: for a version in the range of a variant exactly that variant
  is called, and for a version in no range of the method the call fails.
\<close>

theorem dispatch_registered:
  assumes "register_all [] regs = Inr funcs"
  shows "(\<forall>rng name f v. (rng, name, f) \<in> set regs \<and> version_in_range v rng \<longrightarrow> dispatch funcs name v = Inr f) \<and>
    (\<forall>name v. (\<forall>rng f. (rng, name, f) \<in> set regs \<longrightarrow> \<not> version_in_range v rng) \<longrightarrow>
      dispatch funcs name v = Inl (if name \<in> (fst \<circ> snd) ` set regs then LookupError else KeyError))"
proof (intro conjI allI impI)
  have vars: "variants funcs n = added n regs" "map_of funcs n = None \<longleftrightarrow> added n regs = []" for n
    using register_all_variants [OF assms, of n] by (simp_all add: variants_def)
  have pw: "pairwise (\<lambda>a b. \<not> overlaps (fst a) (fst b)) (set (added n regs))" for n
    using register_all_disjoint [OF assms, of n] by (simp add: variants_def vars [symmetric])
  have mem: "(r, f) \<in> set (added n regs) \<longleftrightarrow> (r, n, f) \<in> set regs" for r n f
    by (force simp: added_def)
  fix rng name f v
  assume h: "(rng, name, f) \<in> set regs \<and> version_in_range v rng"
  then have "(rng, f) \<in> set (added name regs)" using mem by simp
  then have "added name regs \<noteq> []" by auto
  then obtain vs where vs: "map_of funcs name = Some vs" "vs = added name regs"
    using vars [of name] by (auto simp: variants_def split: option.splits)
  have "find (\<lambda>(rng, _). version_in_range v rng) vs = Some (rng, f)"
  proof (rule find_unique)
    show "(rng, f) \<in> set vs" using h mem vs(2) by simp
    fix y
    assume y: "y \<in> set vs" "case y of (rng, _) \<Rightarrow> version_in_range v rng"
    then have "overlaps (fst y) rng" using h in_both_overlaps [of v "fst y" rng] by (simp add: case_prod_beta)
    with pw [of name] y(1) vs(2) \<open>(rng, f) \<in> set vs\<close> show "y = (rng, f)" by (force simp: pairwise_def)
  qed (use h in simp)
  with vs(1) show "dispatch funcs name v = Inr f" by (simp add: dispatch_def)
next
  have vars: "variants funcs n = added n regs" "map_of funcs n = None \<longleftrightarrow> added n regs = []" for n
    using register_all_variants [OF assms, of n] by (simp_all add: variants_def)
  have mem: "(r, f) \<in> set (added n regs) \<longleftrightarrow> (r, n, f) \<in> set regs" for r n f
    by (force simp: added_def)
  fix name v
  assume h: "\<forall>rng f. (rng, name, f) \<in> set regs \<longrightarrow> \<not> version_in_range v rng"
  have named: "name \<in> (fst \<circ> snd) ` set regs \<longleftrightarrow> added name regs \<noteq> []"
    by (force simp: added_def filter_empty_conv)
  show "dispatch funcs name v = Inl (if name \<in> (fst \<circ> snd) ` set regs then LookupError else KeyError)"
  proof (cases "map_of funcs name")
    case None
    with vars [of name] named show ?thesis by (simp add: dispatch_def)
  next
    case (Some vs)
    with vars [of name] have vs: "vs = added name regs" "added name regs \<noteq> []" by (auto simp: variants_def)
    have "find (\<lambda>(rng, _). version_in_range v rng) vs = None"
      using h mem vs(1) by (auto simp: find_None_iff)
    with Some named vs(2) show ?thesis by (simp add: dispatch_def)
  qed
qed

definition ver :: "nat \<Rightarrow> cv_version" where
  "ver n = \<lparr>version = [], version_value = n\<rparr>"

theorem dispatch_registered_witness:
  "new_version ''2024.1.0'' = Inr \<lparr>version = ''2024.1.0'', version_value = 20240100\<rparr> \<and>
   (\<exists>funcs. register_all [] [((ver 20240100, ver 20250399), ''get'', 1), ((ver 20260100, ver 99999999), ''get'', 2 :: nat)] = Inr funcs \<and>
     dispatch funcs ''get'' (ver 20260200) = Inr 2)"
proof -
  have "\<exists>funcs. register_all [] [((ver 20240100, ver 20250399), ''get'', 1), ((ver 20260100, ver 99999999), ''get'', 2 :: nat)] = Inr funcs"
    by (simp add: register_def variants_def overlaps_def version_le_def ver_def)
  then obtain funcs where
    f: "register_all [] [((ver 20240100, ver 20250399), ''get'', 1), ((ver 20260100, ver 99999999), ''get'', 2 :: nat)] = Inr funcs" by blast
  have "version_in_range (ver 20260200) (ver 20260100, ver 99999999)" by (simp add: version_in_range_def version_le_def ver_def)
  with dispatch_registered [OF f] have "dispatch funcs ''get'' (ver 20260200) = Inr 2" by auto
  moreover have "re_fullmatch version_rx ''2024.1.0'' \<noteq> None" by code_simp
  moreover have "version_as_value ''2024.1.0'' = 20240100"
    by (simp add: version_as_value_def cvaas_version_string_def zero_pad_def nat_of_str_def digit_val_def) 
  ultimately show ?thesis using f by (auto simp: new_version_def)
qed

end
