(* ===== verification/CvRequest.thy ===== *)
theory CvRequest
  imports CvErrors CvVersion PyData
begin

text \<open>
  The decorator \<open>GRPCRequestHandler\<close> of \<open>pyavd/_cv/client/async_decorators.py\<close>: conversion of the errors of
  a call, retries with exponential backoff, and splitting of a list argument when the message is too
  large. The decorated function, which sends the request, is an argument: it reads and writes the
  state of the server (\<open>'w\<close>) and gives a result or a failure. The delays slept are recorded.
\<close>

section \<open>Failures of a call\<close>

datatype grpc_status = NOT_FOUND | CANCELLED | UNAVAILABLE | RESOURCE_EXHAUSTED | UNKNOWN | OTHER_STATUS

text \<open>What the decorated function raises\<close>

datatype call_failure =
    ClientFailure cv_exn
  | AsyncioTimeout
  | GRPCFailure grpc_status string
  | StreamTerminated string
  | OtherFailure

type_synonym ('w, 'r) call = "'w \<Rightarrow> (call_failure, 'r) result \<times> 'w"

record grpc_handler =
  max_retries :: nat
  initial_delay :: nat
  factor :: nat
  list_field :: "string option"
  min_items_for_splitting_attempt :: nat
  check_bulk_response_errors :: bool
  retry_on_stream_reset :: bool

definition new_handler :: "nat \<Rightarrow> nat \<Rightarrow> nat \<Rightarrow> string option \<Rightarrow> nat \<Rightarrow> bool \<Rightarrow> bool \<Rightarrow> grpc_handler" where
  "new_handler retries delay fac field min_items bulk reset =
     \<lparr>max_retries = retries, initial_delay = delay, factor = fac, list_field = field,
      min_items_for_splitting_attempt = max 2 min_items, check_bulk_response_errors = bulk,
      retry_on_stream_reset = reset\<rparr>"

text \<open>The patterns for the size of a message and the error code of a reset, as literals around numbers\<close>

definition rx_lits :: "string \<Rightarrow> rx \<Rightarrow> rx" where
  "rx_lits lit r = foldr (\<lambda>c. RSeq (RChr c)) lit r"

definition msg_size_exceeded_rx :: rx where
  "msg_size_exceeded_rx =
     rx_lits ''grpc: received message larger than max ('' (RSeq (RGroup 1 (RPlus is_digit))
       (rx_lits '' vs. '' (RSeq (RGroup 2 (RPlus is_digit)) (RChr CHR '')''))))"

definition stream_reset_rx :: rx where
  "stream_reset_rx = rx_lits ''Stream reset by remote party, error_code: '' (RGroup 1 (RPlus is_digit))"

definition msg_size_exceeded :: "string \<Rightarrow> (nat \<times> nat) option" where
  "msg_size_exceeded msg =
     (case re_fullmatch msg_size_exceeded_rx msg of
        None \<Rightarrow> None
      | Some g \<Rightarrow>
          (case (re_group g 1, re_group g 2) of
             (Some sz, Some mx) \<Rightarrow> Some (nat_of_str sz, nat_of_str mx)
           | _ \<Rightarrow> None))"

definition stream_error_code :: "string \<Rightarrow> nat option" where
  "stream_error_code msg =
     Option.bind (re_fullmatch stream_reset_rx msg) (\<lambda>g. map_option nat_of_str (re_group g 1))"

section \<open>Server names\<close>

definition endswith :: "string \<Rightarrow> string \<Rightarrow> bool" where
  "endswith s t \<longleftrightarrow> length t \<le> length s \<and> drop (length s - length t) s = t"

definition cv_base_fqdns :: "string list" where
  "cv_base_fqdns =
     [''arista.io'', ''cv-prod-us-central1-a.arista.io'', ''cv-prod-us-central1-b.arista.io'',
      ''cv-prod-us-central1-c.arista.io'', ''cv-prod-us-4.arista.io'', ''cv-prod-apnortheast-1.arista.io'',
      ''cv-prod-euwest-2.arista.io'', ''cv-prod-eu-3.arista.io'', ''cv-prod-ausoutheast-1.arista.io'',
      ''cv-prod-na-northeast1-b.arista.io'', ''cv-prod-uk-1.arista.io'', ''cv-prod-india-1.arista.io'',
      ''cv-staging.corp.arista.io'', ''cv-dev.corp.arista.io'', ''cv-play.corp.arista.io'']"

text \<open>\<open>partition(".")\<close>: the text before and after the first dot\<close>

definition partition_dot :: "string \<Rightarrow> string \<times> string" where
  "partition_dot s = (takeWhile (\<lambda>c. c \<noteq> CHR ''.'') s, drop 1 (dropWhile (\<lambda>c. c \<noteq> CHR ''.'') s))"

text \<open>The hint to a wrong server name; the texts of the hints are left out.\<close>

datatype fqdn_hint = NoHint | StreamingEndpoint string | MissingPrefix string | UnknownFqdn string

definition invalid_cvaas_fqdn :: "string list \<Rightarrow> cv_version \<Rightarrow> bool \<times> fqdn_hint" where
  "invalid_cvaas_fqdn servers v =
     (let server = (case servers of s # _ \<Rightarrow> s | [] \<Rightarrow> []) in
      if \<not> endswith server ''arista.io'' then (False, NoHint)
      else if version v \<noteq> cvaas_version_string then (False, NoHint)
      else let (prefix, base) = partition_dot server in
        if base \<in> set cv_base_fqdns \<and> prefix = ''www'' then (False, NoHint)
        else if base \<in> set cv_base_fqdns \<and> prefix = ''apiserver'' then (True, StreamingEndpoint base)
        else if server \<in> set cv_base_fqdns then (True, MissingPrefix server)
        else (True, UnknownFqdn server))"

section \<open>Retries\<close>

datatype verdict = Raise cv_exn | RetryAfter nat | RetryNow

definition wait_before_retry_or_raise :: "grpc_handler \<Rightarrow> nat \<Rightarrow> verdict" where
  "wait_before_retry_or_raise h attempt =
     (if attempt \<le> max_retries h then RetryAfter (initial_delay h * factor h ^ (attempt - 1))
      else Raise (CVGRPCStatusUnavailable attempt))"

text \<open>The match on the exception; \<open>wrong_fqdn\<close> tells if the name of the server is known to be wrong. An
  exhausted resource that is not the size of the message is tried again at once.\<close>

definition on_failure :: "grpc_handler \<Rightarrow> bool \<Rightarrow> nat \<Rightarrow> call_failure \<Rightarrow> verdict" where
  "on_failure h wrong_fqdn attempt e =
     (case e of
        ClientFailure x \<Rightarrow> Raise x
      | AsyncioTimeout \<Rightarrow> Raise CVTimeoutError
      | GRPCFailure status msg \<Rightarrow>
          (case status of
             NOT_FOUND \<Rightarrow> Raise CVResourceNotFound
           | CANCELLED \<Rightarrow> Raise CVTimeoutError
           | UNAVAILABLE \<Rightarrow> wait_before_retry_or_raise h attempt
           | RESOURCE_EXHAUSTED \<Rightarrow>
               (case msg_size_exceeded msg of
                  Some (sz, mx) \<Rightarrow> Raise (CVMessageSizeExceeded sz mx)
                | None \<Rightarrow> RetryNow)
           | UNKNOWN \<Rightarrow> Raise (if wrong_fqdn then CVClientInvalidServerName else CVGRPCError)
           | OTHER_STATUS \<Rightarrow> Raise CVGRPCError)
      | StreamTerminated msg \<Rightarrow>
          (if retry_on_stream_reset h then
             (if stream_error_code msg \<noteq> Some 2 then Raise CVClientException
              else wait_before_retry_or_raise h attempt)
           else Raise CVClientException)
      | OtherFailure \<Rightarrow> Raise CVClientException)"

text \<open>The state: the server and the delays slept\<close>

type_synonym 'w client_state = "'w \<times> nat list"

fun attempts :: "grpc_handler \<Rightarrow> bool \<Rightarrow> ('w, 'r) call \<Rightarrow> nat list \<Rightarrow> ('w client_state, 'r option) op" where
  "attempts h fq call [] (w, slept) = (Inr None, (w, slept))"
| "attempts h fq call (attempt # rest) (w, slept) =
     (case call w of
        (Inr r, w') \<Rightarrow> (Inr (Some r), (w', slept))
      | (Inl e, w') \<Rightarrow>
          (case on_failure h fq attempt e of
             Raise x \<Rightarrow> (Inl x, (w', slept))
           | RetryAfter delay \<Rightarrow> attempts h fq call rest (w', slept @ [delay])
           | RetryNow \<Rightarrow> attempts h fq call rest (w', slept)))"

definition execute_single_call_with_retries ::
  "grpc_handler \<Rightarrow> bool \<Rightarrow> ('w, 'r) call \<Rightarrow> ('w client_state, 'r option) op" where
  "execute_single_call_with_retries h fq call = attempts h fq call [1 ..< max_retries h + 2]"

section \<open>Splitting\<close>

text \<open>The loop over the chunks; a list is split only from two items on (the constructor bounds the
  attribute already); extending the results with None is a type error.\<close>

fun run_chunks :: "('i list \<Rightarrow> ('s, 'r list option) op) \<Rightarrow> 'i list list \<Rightarrow> ('s, 'r list) op" where
  "run_chunks f [] s = (Inr [], s)"
| "run_chunks f (c # cs) s =
     (case f c s of
        (Inl e, s') \<Rightarrow> (Inl e, s')
      | (Inr None, s') \<Rightarrow> (Inl (PyExn TypeError), s')
      | (Inr (Some rs), s') \<Rightarrow>
          (case run_chunks f cs s' of
             (Inl e, s'') \<Rightarrow> (Inl e, s'')
           | (Inr rs', s'') \<Rightarrow> (Inr (rs @ rs'), s'')))"

lemma run_chunks_cong [fundef_cong]:
  assumes "cs = cs'" "s = s'" "\<And>c t. c \<in> set cs' \<Longrightarrow> f c t = g c t"
  shows "run_chunks f cs s = run_chunks g cs' s'"
  using assms
proof (induction cs arbitrary: cs' s s')
  case (Cons c cs)
  then have "f c s' = g c s'" "\<And>t. run_chunks f cs t = run_chunks g cs t" by auto
  with Cons.prems(1,2) show ?case by (auto split: prod.splits sum.splits option.splits)
qed simp

definition chunk_size :: "nat \<Rightarrow> nat \<Rightarrow> nat \<Rightarrow> nat" where
  "chunk_size items sz mx = max 1 (items div max 2 ((sz + mx - 1) div mx))"

lemma chunk_shorter:
  assumes "c \<in> set (batch_from (chunk_size (length xs) sz mx) xs)" "2 \<le> length xs"
  shows "length c < length xs"
proof -
  let ?n = "chunk_size (length xs) sz mx"
  have "length xs div max 2 ((sz + mx - 1) div mx) \<le> length xs div 2" by (rule div_le_mono2) auto
  then have "0 < ?n" "?n < length xs" using assms(2) by (auto simp: chunk_size_def)
  with batch_from_props [OF this(1), of xs] assms(1) show ?thesis
    by (fastforce simp: in_set_conv_nth)
qed

function execute_with_splitting ::
  "grpc_handler \<Rightarrow> bool \<Rightarrow> ('i list \<Rightarrow> ('w, 'r list) call) \<Rightarrow> 'i list \<Rightarrow> ('w client_state, 'r list option) op" where
  "execute_with_splitting h fq call xs s =
     (if list_field h = None \<or> length xs < max 2 (min_items_for_splitting_attempt h)
      then execute_single_call_with_retries h fq (call xs) s
      else case execute_single_call_with_retries h fq (call xs) s of
        (Inl (CVMessageSizeExceeded sz mx), s') \<Rightarrow>
          (if mx = 0 then (Inl (PyExn ZeroDivisionError), s')
           else case run_chunks (execute_with_splitting h fq call)
                       (batch_from (chunk_size (length xs) sz mx) xs) s' of
             (Inl e, s'') \<Rightarrow> (Inl e, s'')
           | (Inr rs, s'') \<Rightarrow> (Inr (Some rs), s''))
      | r \<Rightarrow> r)"
  by pat_completeness auto
termination
  by (relation "measure (\<lambda>(h, fq, call, xs, s). length xs)") (auto intro: chunk_shorter)

declare execute_with_splitting.simps [simp del]

text \<open>The wrapper: \<open>is_error\<close> tells a response that is a tuple with an error.\<close>

definition raise_on_bulk_response_errors :: "('r \<Rightarrow> bool) \<Rightarrow> 'r list \<Rightarrow> (cv_exn, unit) result" where
  "raise_on_bulk_response_errors is_error responses =
     (let found = length (filter is_error responses)
      in if 0 < found then Inl (CVClientBulkAPIError found) else Inr ())"

definition grpc_request ::
  "grpc_handler \<Rightarrow> bool \<Rightarrow> ('r \<Rightarrow> bool) \<Rightarrow> ('i list \<Rightarrow> ('w, 'r list) call) \<Rightarrow> 'i list \<Rightarrow> ('w client_state, 'r list option) op" where
  "grpc_request h fq is_error call xs s =
     (case execute_with_splitting h fq call xs s of
        (Inl e, s') \<Rightarrow> (Inl e, s')
      | (Inr r, s') \<Rightarrow>
          (case r of
             Some rs \<Rightarrow>
               (if check_bulk_response_errors h \<and> rs \<noteq> []
                then case raise_on_bulk_response_errors is_error rs of Inl e \<Rightarrow> (Inl e, s') | Inr _ \<Rightarrow> (Inr r, s')
                else (Inr r, s'))
           | None \<Rightarrow> (Inr None, s')))"

section \<open>The message of a size limit\<close>

definition size_message :: "nat \<Rightarrow> nat \<Rightarrow> string" where
  "size_message n mx =
     ''grpc: received message larger than max ('' @ nat_str n @ '' vs. '' @ nat_str mx @ '')''"

lemma rx_lits_match: "\<exists>p'. rx_match (rx_lits lit r) (p, lit @ t, g) = rx_match r (p', t, g)"
proof (induction lit arbitrary: p)
  case (Cons c lit)
  have "rx_match (rx_lits (c # lit) r) (p, (c # lit) @ t, g) = rx_match (rx_lits lit r) (Some c, lit @ t, g)"
    by (simp add: rx_lits_def)
  with Cons.IH [of "Some c"] show ?case by simp
qed (auto simp: rx_lits_def)

lemma rx_group_digits:
  assumes "t = [] \<or> \<not> is_digit (hd t)"
  shows "\<exists>p' ys. rx_match (RSeq (RGroup k (RPlus is_digit)) r) (p, nat_str n @ t, g) =
    rx_match r (p', t, (k, nat_str n) # g) @ ys"
proof -
  obtain zs where z: "rx_match (RPlus is_digit) (p, nat_str n @ t, g) = (Some (last (nat_str n)), t, g) # zs"
    using rx_plus_hd [of "nat_str n" is_digit t p g] assms by auto
  have grp: "rx_match (RGroup k q) (p, u, g) =
      map (\<lambda>(p', s', g'). (p', s', (k, take (length u - length s') u) # g')) (rx_match q (p, u, g))" for q u
    by simp
  have "rx_match (RGroup k (RPlus is_digit)) (p, nat_str n @ t, g) =
      (Some (last (nat_str n)), t, (k, nat_str n) # g) #
      map (\<lambda>(p', s', g'). (p', s', (k, take (length (nat_str n @ t) - length s') (nat_str n @ t)) # g')) zs"
    unfolding grp z by (simp del: nat_str.simps)
  moreover have "rx_match (RSeq q r) x = concat (map (rx_match r) (rx_match q x))" for q x by simp
  ultimately show ?thesis by (auto simp del: nat_str.simps rx_match.simps)
qed

lemma msg_size_exceeded_message: "msg_size_exceeded (size_message n mx) = Some (n, mx)"
proof -
  let ?r2 = "RSeq (RGroup 2 (RPlus is_digit)) (RChr CHR '')'')"
  let ?t1 = "'' vs. '' @ nat_str mx @ '')''"
  obtain p1 where "rx_match msg_size_exceeded_rx (None, size_message n mx, []) =
      rx_match (RSeq (RGroup 1 (RPlus is_digit)) (rx_lits '' vs. '' ?r2)) (p1, nat_str n @ ?t1, [])"
    unfolding msg_size_exceeded_rx_def size_message_def using rx_lits_match by blast
  moreover obtain p2 ys2 where "rx_match (RSeq (RGroup 1 (RPlus is_digit)) (rx_lits '' vs. '' ?r2)) (p1, nat_str n @ ?t1, []) =
      rx_match (rx_lits '' vs. '' ?r2) (p2, ?t1, [(1, nat_str n)]) @ ys2"
    using rx_group_digits [of ?t1 1 "rx_lits '' vs. '' ?r2" p1 n "[]"] by (auto simp: is_digit_def)
  moreover obtain p3 where "rx_match (rx_lits '' vs. '' ?r2) (p2, ?t1, [(1, nat_str n)]) =
      rx_match ?r2 (p3, nat_str mx @ '')'', [(1, nat_str n)])"
    using rx_lits_match by blast
  moreover obtain p4 ys4 where "rx_match ?r2 (p3, nat_str mx @ '')'', [(1, nat_str n)]) =
      rx_match (RChr CHR '')'') (p4, '')'', [(2, nat_str mx), (1, nat_str n)]) @ ys4"
    using rx_group_digits [of "'')''" 2 "RChr CHR '')''" p3 mx "[(1, nat_str n)]"] by (auto simp: is_digit_def)
  ultimately obtain ys where
    "rx_match msg_size_exceeded_rx (None, size_message n mx, []) =
       (Some CHR '')'', [], [(2, nat_str mx), (1, nat_str n)]) # ys"
    by (simp del: nat_str.simps)
  then show ?thesis
    by (simp add: msg_size_exceeded_def re_fullmatch_def re_group_def del: nat_str.simps)
qed

section \<open>What retries do\<close>

text \<open>The server after \<open>n\<close> calls\<close>

definition server_after :: "('w, 'r) call \<Rightarrow> nat \<Rightarrow> 'w \<Rightarrow> 'w" where
  "server_after call n w = ((\<lambda>v. snd (call v)) ^^ n) w"

lemma server_after_Suc: "server_after call (Suc n) w = server_after call n (snd (call w))"
  by (simp add: server_after_def funpow_Suc_right del: funpow.simps)

text \<open>The failures that are worth another attempt\<close>

definition transient :: "grpc_handler \<Rightarrow> call_failure \<Rightarrow> bool" where
  "transient h e =
     (case e of
        GRPCFailure status _ \<Rightarrow> status = UNAVAILABLE
      | StreamTerminated msg \<Rightarrow> retry_on_stream_reset h \<and> stream_error_code msg = Some 2
      | _ \<Rightarrow> False)"

lemma on_failure_transient: "transient h e \<Longrightarrow> on_failure h fq attempt e = wait_before_retry_or_raise h attempt"
  by (auto simp: transient_def on_failure_def split: call_failure.splits)

lemma attempts_transient:
  assumes "\<And>i. i < k \<Longrightarrow> \<exists>e. fst (call (server_after call i w)) = Inl e \<and> transient h e"
    and "a + k \<le> Suc (max_retries h)" "0 < a"
  shows "attempts h fq call [a ..< max_retries h + 2] (w, slept) =
    attempts h fq call [a + k ..< max_retries h + 2]
      (server_after call k w, slept @ map (\<lambda>i. initial_delay h * factor h ^ (a - 1 + i)) [0 ..< k])"
  using assms
proof (induction k arbitrary: a w slept)
  case 0
  then show ?case by (simp add: server_after_def)
next
  case (Suc k)
  from Suc.prems(1) [of 0] obtain e w' where e: "call w = (Inl e, w')" "transient h e"
    by (cases "call w") (auto simp: server_after_def)
  have le: "a \<le> max_retries h" using Suc.prems(2) by simp
  then have "[a ..< max_retries h + 2] = a # [Suc a ..< max_retries h + 2]" by (simp add: upt_conv_Cons)
  with e on_failure_transient [OF e(2), of fq a] le
  have step: "attempts h fq call [a ..< max_retries h + 2] (w, slept) =
      attempts h fq call [Suc a ..< max_retries h + 2] (w', slept @ [initial_delay h * factor h ^ (a - 1)])"
    by (simp add: wait_before_retry_or_raise_def)
  have after: "server_after call i w' = server_after call (Suc i) w" for i
    using e(1) by (simp add: server_after_Suc)
  have "\<exists>e. fst (call (server_after call i w')) = Inl e \<and> transient h e" if "i < k" for i
    unfolding after by (rule Suc.prems(1)) (use that in simp)
  from Suc.IH [OF this, of "Suc a" "slept @ [initial_delay h * factor h ^ (a - 1)]"] Suc.prems(2,3)
  have "attempts h fq call [Suc a ..< max_retries h + 2] (w', slept @ [initial_delay h * factor h ^ (a - 1)]) =
      attempts h fq call [Suc a + k ..< max_retries h + 2] (server_after call k w',
        (slept @ [initial_delay h * factor h ^ (a - 1)]) @ map (\<lambda>i. initial_delay h * factor h ^ (Suc a - 1 + i)) [0 ..< k])"
    by simp
  moreover have "map (\<lambda>i. initial_delay h * factor h ^ (a - 1 + i)) [0 ..< Suc k] =
      (initial_delay h * factor h ^ (a - 1)) # map (\<lambda>i. initial_delay h * factor h ^ (Suc a - 1 + i)) [0 ..< k]"
    using Suc.prems(3) by (simp add: upt_conv_Cons map_Suc_upt [symmetric] o_def del: upt_Suc)
  ultimately show ?case unfolding step after by simp
qed

section \<open>What splitting does\<close>

text \<open>A server that takes the items of a call: it answers a call it accepts with the results of the items,
  and a call it refuses has no effect.\<close>

definition serves :: "('i list \<Rightarrow> ('w, 'r list) call) \<Rightarrow> ('i \<Rightarrow> 'r) \<Rightarrow> ('w \<Rightarrow> 'i list) \<Rightarrow> bool" where
  "serves call f accepted \<longleftrightarrow>
     (\<forall>ys w. case call ys w of
        (Inr rs, w') \<Rightarrow> rs = map f ys \<and> accepted w' = accepted w @ ys
      | (Inl _, w') \<Rightarrow> accepted w' = accepted w)"

lemma attempts_serves:
  assumes "serves call f accepted" "attempts h fq (call ys) as (w, slept) = (r, (w', slept'))"
  shows "(case r of
      Inr (Some rs) \<Rightarrow> rs = map f ys \<and> accepted w' = accepted w @ ys
    | _ \<Rightarrow> accepted w' = accepted w)"
  using assms(2)
proof (induction as arbitrary: w slept)
  case (Cons a as)
  obtain q v where call: "call ys w = (q, v)" by fastforce
  have srv: "case q of Inr rs \<Rightarrow> rs = map f ys \<and> accepted v = accepted w @ ys | Inl _ \<Rightarrow> accepted v = accepted w"
    using assms(1) [unfolded serves_def, rule_format, where ys = ys and w = w] call by simp
  show ?case
  proof (cases q)
    case (Inr rs)
    with Cons.prems call srv show ?thesis by auto
  next
    case (Inl e)
    with Cons.prems Cons.IH call srv show ?thesis
      by (cases "on_failure h fq a e") (fastforce split: sum.splits option.splits)+
  qed
qed auto

text \<open>The items accepted while the chunks were run are the first ones, each once and in their order.\<close>

definition processed :: "('i \<Rightarrow> 'r) \<Rightarrow> ('w \<Rightarrow> 'i list) \<Rightarrow> 'i list \<Rightarrow> 'w \<Rightarrow> (cv_exn, 'r list option) result \<Rightarrow> 'w \<Rightarrow> bool" where
  "processed f accepted xs w r w' \<longleftrightarrow>
     (case r of
        Inr (Some rs) \<Rightarrow> rs = map f xs \<and> accepted w' = accepted w @ xs
      | _ \<Rightarrow> \<exists>ys zs. xs = ys @ zs \<and> accepted w' = accepted w @ ys)"

lemma run_chunks_processed:
  assumes "\<And>c w sl r w' sl'. c \<in> set cs \<Longrightarrow> g c (w, sl) = (r, (w', sl')) \<Longrightarrow> processed f accepted c w r w'"
    and "run_chunks g cs (w, sl) = (r, (w', sl'))"
  shows "processed f accepted (concat cs) w (map_sum id Some r) w'"
  using assms
proof (induction cs arbitrary: w sl r w' sl')
  case Nil
  then show ?case by (auto simp: processed_def)
next
  case (Cons c cs)
  obtain q v vs where c: "g c (w, sl) = (q, (v, vs))" by (metis prod.collapse)
  have pc: "processed f accepted c w q v" by (rule Cons.prems(1) [OF _ c]) simp
  show ?case
  proof (cases q)
    case (Inl e)
    with Cons.prems(2) c pc show ?thesis by (force simp: processed_def)
  next
    case (Inr x)
    show ?thesis
    proof (cases x)
      case None
      with Inr Cons.prems(2) c pc show ?thesis by (force simp: processed_def)
    next
      case (Some rs)
      obtain q' v' vs' where rest: "run_chunks g cs (v, vs) = (q', (v', vs'))" by (metis prod.collapse)
      have "processed f accepted (concat cs) v (map_sum id Some q') v'"
        by (rule Cons.IH [OF _ rest]) (use Cons.prems(1) in auto)
      moreover have own: "rs = map f c" "accepted v = accepted w @ c" using pc Inr Some by (simp_all add: processed_def)
      ultimately show ?thesis
      proof (cases q')
        case (Inl e)
        with \<open>processed f accepted (concat cs) v (map_sum id Some q') v'\<close> obtain ys zs where
          "concat cs = ys @ zs" "accepted v' = accepted v @ ys" by (auto simp: processed_def)
        then have "concat (c # cs) = (c @ ys) @ zs" "accepted v' = accepted w @ (c @ ys)" using own by simp_all
        moreover have "r = Inl e" "w' = v'" using Inl Inr Some Cons.prems(2) c rest by auto
        ultimately show ?thesis by (fastforce simp: processed_def)
      next
        case (Inr rs')
        with own \<open>q = Inr x\<close> Some Cons.prems(2) c rest \<open>processed f accepted (concat cs) v (map_sum id Some q') v'\<close>
        show ?thesis by (auto simp: processed_def)
      qed
    qed
  qed
qed

lemma batch_from_concat: "concat (batch_from (chunk_size n sz mx) xs) = xs"
  using batch_from_props [of "chunk_size n sz mx" xs] by (simp add: chunk_size_def)

lemma execute_processed:
  assumes "serves call f accepted"
  shows "execute_with_splitting h fq call xs (w, sl) = (r, (w', sl')) \<Longrightarrow> processed f accepted xs w r w'"
proof (induction "length xs" arbitrary: xs w sl r w' sl' rule: less_induct)
  case less
  obtain q v vs where single: "execute_single_call_with_retries h fq (call xs) (w, sl) = (q, (v, vs))"
    by (metis prod.collapse)
  have direct: "processed f accepted xs w q v"
    using attempts_serves [OF assms single [unfolded execute_single_call_with_retries_def]]
    by (auto simp: processed_def split: sum.splits option.splits)
  show ?case
  proof (cases "list_field h = None \<or> length xs < max 2 (min_items_for_splitting_attempt h) \<or>
      (\<forall>sz mx. q \<noteq> Inl (CVMessageSizeExceeded sz mx))")
    case True
    then have "execute_with_splitting h fq call xs (w, sl) = (q, (v, vs))"
      using single by (subst execute_with_splitting.simps) (auto split: sum.splits cv_exn.splits)
    with less.prems direct show ?thesis by simp
  next
    case False
    then obtain sz mx where q: "q = Inl (CVMessageSizeExceeded sz mx)" and two: "2 \<le> length xs"
        and splits: "\<not> (list_field h = None \<or> length xs < max 2 (min_items_for_splitting_attempt h))" by auto
    have acc: "accepted v = accepted w"
      using attempts_serves [OF assms single [unfolded execute_single_call_with_retries_def]] q by simp
    let ?cs = "batch_from (chunk_size (length xs) sz mx) xs"
    have eq: "execute_with_splitting h fq call xs (w, sl) =
        (if mx = 0 then (Inl (PyExn ZeroDivisionError), (v, vs))
         else case run_chunks (execute_with_splitting h fq call) ?cs (v, vs) of
             (Inl e, s'') \<Rightarrow> (Inl e, s'')
           | (Inr rs, s'') \<Rightarrow> (Inr (Some rs), s''))"
      by (subst execute_with_splitting.simps) (simp only: splits single q if_False prod.case sum.case cv_exn.case)
    show ?thesis
    proof (cases "mx = 0")
      case True
      with eq less.prems acc show ?thesis by (auto simp: processed_def)
    next
      case mx: False
      obtain q' v' vs' where run: "run_chunks (execute_with_splitting h fq call) ?cs (v, vs) = (q', (v', vs'))"
        by (metis prod.collapse)
      have "processed f accepted c w r w'"
        if "c \<in> set ?cs" "execute_with_splitting h fq call c (w, sl) = (r, (w', sl'))" for c w sl r w' sl'
        by (rule less.hyps [OF chunk_shorter [OF that(1) two] that(2)])
      from run_chunks_processed [OF this run] have "processed f accepted xs v (map_sum id Some q') v'"
        by (simp add: batch_from_concat)
      with eq run mx less.prems acc show ?thesis by (cases q') (auto simp: processed_def)
    qed
  qed
qed

text \<open>A server that takes messages up to a limit, where each item adds its weight, and puts the items of
  a message it takes into its state. How the items are grouped does not matter to it.\<close>

definition limited_call :: "('i \<Rightarrow> nat) \<Rightarrow> nat \<Rightarrow> ('w \<Rightarrow> 'i list \<Rightarrow> 'w) \<Rightarrow> ('i \<Rightarrow> 'r) \<Rightarrow> 'i list \<Rightarrow> ('w, 'r list) call" where
  "limited_call wt cap put f ys w =
     (let n = sum_list (map wt ys)
      in if n \<le> cap then (Inr (map f ys), put w ys)
         else (Inl (GRPCFailure RESOURCE_EXHAUSTED (size_message n cap)), w))"

definition puts_items :: "('w \<Rightarrow> 'i list \<Rightarrow> 'w) \<Rightarrow> bool" where
  "puts_items put \<longleftrightarrow> (\<forall>w. put w [] = w) \<and> (\<forall>w xs ys. put (put w xs) ys = put w (xs @ ys))"

lemma limited_single:
  "execute_single_call_with_retries h fq (limited_call wt cap put f ys) (w, sl) =
     (if sum_list (map wt ys) \<le> cap then (Inr (Some (map f ys)), (put w ys, sl))
      else (Inl (CVMessageSizeExceeded (sum_list (map wt ys)) cap), (w, sl)))"
proof -
  have "[1 ..< max_retries h + 2] = 1 # [2 ..< max_retries h + 2]" by (simp add: upt_conv_Cons numeral_2_eq_2)
  then show ?thesis
    by (simp add: execute_single_call_with_retries_def limited_call_def Let_def on_failure_def msg_size_exceeded_message)
qed

lemma run_chunks_all:
  assumes "puts_items put" "\<And>c w. c \<in> set cs \<Longrightarrow> g c (w, sl) = (Inr (Some (map f c)), (put w c, sl))"
  shows "run_chunks g cs (w, sl) = (Inr (map f (concat cs)), (put w (concat cs), sl))"
  using assms by (induction cs arbitrary: w) (auto simp: puts_items_def)

lemma limited_splitting:
  assumes "list_field h \<noteq> None" "min_items_for_splitting_attempt h \<le> 2" "0 < cap" "puts_items put"
    and "\<forall>x \<in> set xs. wt x \<le> cap"
  shows "execute_with_splitting h fq (limited_call wt cap put f) xs (w, sl) = (Inr (Some (map f xs)), (put w xs, sl))"
  using assms(5)
proof (induction "length xs" arbitrary: xs w rule: less_induct)
  case less
  have small: "sum_list (map wt xs) \<le> cap" if "length xs < 2"
    using less.prems that by (cases xs) auto
  let ?cs = "batch_from (chunk_size (length xs) (sum_list (map wt xs)) cap) xs"
  have sub: "\<forall>x \<in> set c. wt x \<le> cap" if "c \<in> set ?cs" for c
  proof
    fix x
    assume "x \<in> set c"
    with that have "x \<in> set (concat ?cs)" by auto
    with less.prems show "wt x \<le> cap" by (simp add: batch_from_concat)
  qed
  have run: "run_chunks (execute_with_splitting h fq (limited_call wt cap put f)) ?cs (w, sl) = (Inr (map f xs), (put w xs, sl))"
    if "2 \<le> length xs"
  proof -
    have "execute_with_splitting h fq (limited_call wt cap put f) c (v, sl) = (Inr (Some (map f c)), (put v c, sl))"
      if "c \<in> set ?cs" for c v
      using less.hyps [OF chunk_shorter [OF that \<open>2 \<le> length xs\<close>] sub [OF that]] .
    from run_chunks_all [OF assms(4) this] show ?thesis by (simp add: batch_from_concat)
  qed
  show ?case
    using assms(1-3) small run by (subst execute_with_splitting.simps) (auto simp: limited_single)
qed

section \<open>Properties\<close>

text \<open>
  C26. A call that fails with a transient failure (the server is unavailable, or it reset the stream and
  the handler retries that) is tried again after delays that grow by the factor: the first success
  within \<open>max_retries\<close> retries is the result, and after one more failure the call fails as unavailable,
  with no delay after the last attempt.
\<close>

theorem transient_failures_retried:
  assumes "\<And>i. i < k \<Longrightarrow> \<exists>e. fst (call (server_after call i w)) = Inl e \<and> transient h e"
  shows "(k \<le> max_retries h \<and> fst (call (server_after call k w)) = Inr r \<longrightarrow>
      execute_single_call_with_retries h fq call (w, slept) =
        (Inr (Some r), (server_after call (Suc k) w, slept @ map (\<lambda>i. initial_delay h * factor h ^ i) [0 ..< k]))) \<and>
    (k = Suc (max_retries h) \<longrightarrow>
      execute_single_call_with_retries h fq call (w, slept) =
        (Inl (CVGRPCStatusUnavailable k),
         (server_after call k w, slept @ map (\<lambda>i. initial_delay h * factor h ^ i) [0 ..< max_retries h])))"
proof (intro conjI impI)
  assume ok: "k \<le> max_retries h \<and> fst (call (server_after call k w)) = Inr r"
  have "attempts h fq call [1 ..< max_retries h + 2] (w, slept) =
      attempts h fq call [1 + k ..< max_retries h + 2]
        (server_after call k w, slept @ map (\<lambda>i. initial_delay h * factor h ^ (1 - 1 + i)) [0 ..< k])"
    by (rule attempts_transient) (use assms ok in auto)
  moreover have "[1 + k ..< max_retries h + 2] = (1 + k) # [2 + k ..< max_retries h + 2]"
    using ok by (simp add: upt_conv_Cons)
  ultimately show "execute_single_call_with_retries h fq call (w, slept) =
      (Inr (Some r), (server_after call (Suc k) w, slept @ map (\<lambda>i. initial_delay h * factor h ^ i) [0 ..< k]))"
    using ok by (cases "call (server_after call k w)")
      (auto simp: execute_single_call_with_retries_def server_after_def)
next
  assume k: "k = Suc (max_retries h)"
  have "attempts h fq call [1 ..< max_retries h + 2] (w, slept) =
      attempts h fq call [1 + max_retries h ..< max_retries h + 2]
        (server_after call (max_retries h) w, slept @ map (\<lambda>i. initial_delay h * factor h ^ (1 - 1 + i)) [0 ..< max_retries h])"
    by (rule attempts_transient) (use assms k in auto)
  moreover obtain e where "fst (call (server_after call (max_retries h) w)) = Inl e" "transient h e"
    using assms [of "max_retries h"] k by auto
  moreover have "[1 + max_retries h ..< max_retries h + 2] = [k]" using k by simp
  ultimately show "execute_single_call_with_retries h fq call (w, slept) =
      (Inl (CVGRPCStatusUnavailable k),
       (server_after call k w, slept @ map (\<lambda>i. initial_delay h * factor h ^ i) [0 ..< max_retries h]))"
    using k by (cases "call (server_after call (max_retries h) w)")
      (auto simp: execute_single_call_with_retries_def server_after_def on_failure_transient wait_before_retry_or_raise_def)
qed

text \<open>A server that is unavailable until its counter is 2\<close>

definition busy_call :: "(nat, nat) call" where
  "busy_call w = (if w < 2 then (Inl (GRPCFailure UNAVAILABLE []), Suc w) else (Inr w, Suc w))"

theorem transient_failures_retried_witness:
  "execute_single_call_with_retries (new_handler 5 1 2 None 2 False False) False busy_call (0, []) =
     (Inr (Some 2), (3, [1, 2]))"
proof -
  have after: "server_after busy_call i 0 = i" for i
    by (induction i) (simp_all add: server_after_def busy_call_def)
  have "\<exists>e. fst (busy_call (server_after busy_call i 0)) = Inl e \<and> transient (new_handler 5 1 2 None 2 False False) e"
    if "i < 2" for i
    using that by (simp add: after busy_call_def transient_def)
  from transient_failures_retried [where call = busy_call and k = 2 and w = 0 and r = 2 and fq = False and slept = "[]", OF this]
  show ?thesis
    by (simp add: after busy_call_def new_handler_def upt_conv_Cons numeral_2_eq_2)
qed

text \<open>
  C27. Splitting is transparent: whatever the server refuses, an answer is the answer to the whole list,
  with the results in the order of the items and every item accepted exactly once and in order; when
  the request fails, the items accepted are the first ones of the list, each once.
\<close>

theorem splitting_transparent:
  assumes "serves call f accepted" and "execute_with_splitting h fq call xs (w, sl) = (r, (w', sl'))"
  shows "case r of
      Inr (Some rs) \<Rightarrow> rs = map f xs \<and> accepted w' = accepted w @ xs
    | _ \<Rightarrow> \<exists>ys zs. xs = ys @ zs \<and> accepted w' = accepted w @ ys"
  using execute_processed [OF assms] by (simp add: processed_def)

theorem splitting_transparent_witness:
  "serves (limited_call id 5 (@) Suc) Suc id \<and>
   execute_with_splitting (new_handler 0 1 2 (Some ''items'') 2 False False) False (limited_call id 5 (@) Suc) [3, 4, 1] ([], []) =
     (Inr (Some [4, 5, 2]), ([3, 4, 1], []))"
proof -
  have srv: "serves (limited_call id 5 (@) Suc) Suc id" by (simp add: serves_def limited_call_def Let_def)
  have run: "execute_with_splitting (new_handler 0 1 2 (Some ''items'') 2 False False) False (limited_call id 5 (@) Suc) [3, 4, 1] ([], []) =
      (Inr (Some (map Suc [3, 4, 1])), ([] @ [3, 4, 1], []))"
    by (rule limited_splitting) (simp_all add: new_handler_def puts_items_def)
  from splitting_transparent [OF srv run] run srv show ?thesis by simp
qed

text \<open>
  C28. Splitting ends with an answer whenever it can: if the server refuses a message only for its size
  and every single item fits, the request succeeds without a delay, however the items are grouped.
\<close>

theorem splitting_succeeds:
  assumes "list_field h \<noteq> None" and "min_items_for_splitting_attempt h \<le> 2" and "0 < cap"
    and "puts_items put" and "\<forall>x \<in> set xs. wt x \<le> cap"
  shows "execute_with_splitting h fq (limited_call wt cap put f) xs (w, sl) = (Inr (Some (map f xs)), (put w xs, sl))"
  by (rule limited_splitting [OF assms])

theorem splitting_succeeds_witness:
  "execute_with_splitting (new_handler 5 1 2 (Some ''items'') 2 False False) False (limited_call id 5 (@) Suc) [3, 4, 1] ([], []) =
     (Inr (Some [4, 5, 2]), ([3, 4, 1], []))"
  using splitting_succeeds [of "new_handler 5 1 2 (Some ''items'') 2 False False" 5 "(@)" "[3, 4, 1]" id False Suc "[]" "[]"]
  by (simp add: new_handler_def puts_items_def)

end
