(* ===== verification/CvModels.thy ===== *)
theory CvModels
  imports CvErrors
begin

text \<open>
  The data of the deployment to CloudVision, \<open>pyavd/_cv/workflows/models.py\<close>. Devices are shared: tags and
  configs refer to a device object that the workflow updates, so they hold a reference (\<open>dev_ref\<close>) into a
  store of devices. Fields that no modelled code reads (descriptions of templates, credentials) are left out.
\<close>

section \<open>Devices\<close>

record avd_device =
  avd_hostname :: string
  avd_serial_number :: "string option"
  avd_system_mac_address :: "string option"

record cv_device =
  avd_device :: avd_device
  serial_number :: "string option"
  system_mac_address :: "string option"
  exists_on_cv :: "bool option"
  streaming :: "bool option"

type_synonym dev_ref = nat
type_synonym devices = "dev_ref \<Rightarrow> cv_device"

abbreviation hostname :: "cv_device \<Rightarrow> string" where
  "hostname d \<equiv> avd_hostname (avd_device d)"

text \<open>\<open>s or None\<close>: the empty string counts as not set\<close>

definition or_none :: "string option \<Rightarrow> string option" where
  "or_none s = (if s = Some [] then None else s)"

definition is_set :: "string option \<Rightarrow> bool" where
  "is_set s \<longleftrightarrow> or_none s \<noteq> None"

definition new_device :: "avd_device \<Rightarrow> string option \<Rightarrow> string option \<Rightarrow> cv_device" where
  "new_device a serial mac =
     \<lparr>avd_device = a,
      serial_number = (if is_set serial then serial else or_none (avd_serial_number a)),
      system_mac_address = (if is_set mac then mac else or_none (avd_system_mac_address a)),
      exists_on_cv = None, streaming = None\<rparr>"

section \<open>Tags\<close>

datatype element_type = Device | Interface | Unspecified

record cv_tag =
  tag_type :: element_type
  tag_label :: string
  tag_value :: string

record cv_tag_assignment =
  asg_type :: element_type
  asg_label :: string
  asg_value :: string
  asg_device :: string
  asg_interface :: "string option"

text \<open>\<open>CVDeviceTag\<close> and \<open>CVInterfaceTag\<close>: label, value, device and, for an interface, its name\<close>

datatype workflow_tag =
    CVDeviceTag string string "dev_ref option"
  | CVInterfaceTag string string "dev_ref option" "string option"

fun wf_device :: "workflow_tag \<Rightarrow> dev_ref option" where
  "wf_device (CVDeviceTag l v d) = d"
| "wf_device (CVInterfaceTag l v d i) = d"

fun as_cv_tag :: "workflow_tag \<Rightarrow> cv_tag" where
  "as_cv_tag (CVDeviceTag l v d) = \<lparr>tag_type = Device, tag_label = l, tag_value = v\<rparr>"
| "as_cv_tag (CVInterfaceTag l v d i) = \<lparr>tag_type = Interface, tag_label = l, tag_value = v\<rparr>"

fun as_cv_tag_assignment :: "devices \<Rightarrow> workflow_tag \<Rightarrow> cv_tag_assignment option" where
  "as_cv_tag_assignment devs (CVDeviceTag l v d) =
     (case d of None \<Rightarrow> None
      | Some r \<Rightarrow> (case serial_number (devs r) of None \<Rightarrow> None
          | Some s \<Rightarrow> Some \<lparr>asg_type = Device, asg_label = l, asg_value = v, asg_device = s, asg_interface = None\<rparr>))"
| "as_cv_tag_assignment devs (CVInterfaceTag l v d i) =
     (case d of None \<Rightarrow> None
      | Some r \<Rightarrow> (case serial_number (devs r) of None \<Rightarrow> None
          | Some s \<Rightarrow> (case i of None \<Rightarrow> None
              | Some n \<Rightarrow> Some \<lparr>asg_type = Interface, asg_label = l, asg_value = v, asg_device = s, asg_interface = Some n\<rparr>)))"

section \<open>Workspaces\<close>

datatype requested_state = ReqPending | ReqBuilt | ReqSubmitted | ReqAbandoned | ReqDeleted

datatype workspace_state =
    Pending | Built | Submitted | BuildFailed | SubmitFailed | SynchronizationFailed | Abandoned | Deleted

record build_warnings_config =
  warnings_enabled :: bool
  suppress_patterns :: "string list"
  suppress_portfast :: bool

record avd_workspace =
  ws_requested :: requested_state
  ws_force :: bool
  ws_build_warnings :: build_warnings_config
  ws_max_sync_retries :: nat

definition new_avd_workspace :: "requested_state \<Rightarrow> bool \<Rightarrow> build_warnings_config \<Rightarrow> int \<Rightarrow> (py_exn, avd_workspace) result" where
  "new_avd_workspace req force bw retries =
     (if retries < 0 then Inl ValueError
      else Inr \<lparr>ws_requested = req, ws_force = force, ws_build_warnings = bw, ws_max_sync_retries = nat retries\<rparr>)"

text \<open>A validation error or warning: message, line and configlet\<close>

type_synonym validation = "string \<times> int option \<times> string option"

record device_build_result =
  result_device :: dev_ref
  result_errors :: "validation list"
  result_warnings :: "validation list"

record cv_workspace =
  avd_ws :: avd_workspace
  ws_state :: "workspace_state option"
  change_control_id :: "string option"
  build_id :: "string option"
  device_build_results :: "device_build_result list"
  synchronization_required :: bool

definition new_workspace :: "avd_workspace \<Rightarrow> cv_workspace" where
  "new_workspace a =
     \<lparr>avd_ws = a, ws_state = None, change_control_id = None, build_id = None, device_build_results = [],
      synchronization_required = False\<rparr>"

definition workspace_reset :: "cv_workspace \<Rightarrow> cv_workspace" where
  "workspace_reset w =
     w\<lparr>ws_state := Some Pending, build_id := None, device_build_results := [], synchronization_required := False\<rparr>"

section \<open>Change controls\<close>

datatype cc_requested = CCReqPendingApproval | CCReqApproved | CCReqRunning | CCReqCompleted | CCReqDeleted

datatype cc_state = PendingApproval | Approved | Running | Completed | DeletedCC | Failed | Scheduled

record avd_change_control =
  avd_cc_name :: "string option"
  avd_cc_description :: "string option"
  cc_requested :: cc_requested

record cv_change_control =
  avd_cc :: avd_change_control
  cc_id :: "string option"
  cc_state :: "cc_state option"
  cc_name :: "string option"
  cc_description :: "string option"

definition new_change_control :: "avd_change_control \<Rightarrow> string option \<Rightarrow> string option \<Rightarrow> string option \<Rightarrow> cv_change_control" where
  "new_change_control a i nm descr =
     \<lparr>avd_cc = a, cc_id = i, cc_state = None,
      cc_name = (if is_set nm then nm else or_none (avd_cc_name a)),
      cc_description = (if is_set descr then descr else or_none (avd_cc_description a))\<rparr>"

definition default_avd_change_control :: avd_change_control where
  "default_avd_change_control = \<lparr>avd_cc_name = None, avd_cc_description = None, cc_requested = CCReqPendingApproval\<rparr>"

end
