(* ===== verification/CvTags.thy ===== *)
theory CvTags
  imports CvModels CvRequest "HOL-Library.Product_Lexorder"
begin

text \<open>
  Tags: the tag methods of the client (\<open>pyavd/_cv/client/tag.py\<close>, with the list helpers of \<open>client/utils.py\<close> and
  \<open>client/models.py\<close>) and the workflow that deploys them (\<open>_cv/workflows/deploy_tags_to_cv.py\<close>). The workspace of
  a deployment is fixed, so its id is left out. The generated gRPC stubs are a record of calls. A Python
  set that is turned into a list is modelled by the list without repetitions.
\<close>

section \<open>Playing back the changes of a workspace\<close>

fun remove_item_from_list :: "('a \<Rightarrow> 'a \<Rightarrow> bool) \<Rightarrow> 'a \<Rightarrow> 'a list \<Rightarrow> 'a list" where
  "remove_item_from_list m itm [] = []"
| "remove_item_from_list m itm (x # xs) = (if m x itm then xs else x # remove_item_from_list m itm xs)"

fun upsert_item_in_list :: "('a \<Rightarrow> 'a \<Rightarrow> bool) \<Rightarrow> 'a \<Rightarrow> 'a list \<Rightarrow> 'a list" where
  "upsert_item_in_list m itm [] = [itm]"
| "upsert_item_in_list m itm (x # xs) = (if m x itm then itm # xs else x # upsert_item_in_list m itm xs)"

definition match_tags :: "cv_tag \<Rightarrow> cv_tag \<Rightarrow> bool" where
  "match_tags a b \<longleftrightarrow> tag_type a = tag_type b \<and> tag_label a = tag_label b \<and> tag_value a = tag_value b"

definition match_tag_assignments :: "cv_tag_assignment \<Rightarrow> cv_tag_assignment \<Rightarrow> bool" where
  "match_tag_assignments a b \<longleftrightarrow>
     asg_type a = asg_type b \<and> asg_label a = asg_label b \<and> asg_value a = asg_value b \<and>
     asg_device a = asg_device b \<and> asg_interface a = asg_interface b"

text \<open>A config of the workspace is an item and whether it is removed.\<close>

definition play_back :: "('a \<Rightarrow> 'a \<Rightarrow> bool) \<Rightarrow> ('a \<times> bool) list \<Rightarrow> 'a list \<Rightarrow> 'a list" where
  "play_back m configs items =
     foldl (\<lambda>its (x, rm). if rm then remove_item_from_list m x its else upsert_item_in_list m x its) items configs"

text \<open>\<open>from_api\<close> keeps the text before the last \<open>@\<close> of an interface id; tags keep all their fields.\<close>

definition rsplit_at :: "string \<Rightarrow> string" where
  "rsplit_at s =
     (if CHR ''@'' \<in> set s then rev (drop 1 (dropWhile (\<lambda>c. c \<noteq> CHR ''@'') (rev s))) else s)"

definition assignment_from_api :: "cv_tag_assignment \<Rightarrow> cv_tag_assignment" where
  "assignment_from_api a = a\<lparr>asg_interface := map_option rsplit_at (asg_interface a)\<rparr>"

section \<open>The client\<close>

datatype creator_type = User | System | External

record 'w tag_stub =
  tags_get_all :: "element_type \<Rightarrow> creator_type \<Rightarrow> ('w, cv_tag list) call"
  tag_configs_get_all :: "element_type \<Rightarrow> ('w, (cv_tag \<times> bool) list) call"
  tag_configs_set_some :: "cv_tag list \<Rightarrow> ('w, cv_tag list) call"
  assignments_get_all :: "element_type \<Rightarrow> creator_type \<Rightarrow> ('w, cv_tag_assignment list) call"
  assignment_configs_get_all :: "element_type \<Rightarrow> ('w, (cv_tag_assignment \<times> bool) list) call"
  assignment_configs_set_some :: "(cv_tag_assignment \<times> bool) list \<Rightarrow> ('w, cv_tag_assignment list) call"

text \<open>The body of \<open>get_tags\<close> and of \<open>get_tag_assignments\<close>: the mainline, then the changes of the workspace\<close>

definition get_with_changes ::
  "('a \<Rightarrow> 'a \<Rightarrow> bool) \<Rightarrow> ('w, 'a list) call \<Rightarrow> ('w, ('a \<times> bool) list) call \<Rightarrow> creator_type \<Rightarrow> ('w, 'a list) call" where
  "get_with_changes m mainline changes creator w =
     (case mainline w of
        (Inl e, w') \<Rightarrow> (Inl e, w')
      | (Inr items, w') \<Rightarrow>
          (if creator \<in> {System, External} then (Inr items, w')
           else case changes w' of
             (Inl e, w'') \<Rightarrow> (Inl e, w'')
           | (Inr configs, w'') \<Rightarrow> (Inr (play_back m configs items), w'')))"

definition reading_handler :: grpc_handler where
  "reading_handler = new_handler 5 1 2 None 2 False True"

definition writing_handler :: "string \<Rightarrow> grpc_handler" where
  "writing_handler field = new_handler 5 1 2 (Some field) 2 False False"

definition get_tags :: "bool \<Rightarrow> 'w tag_stub \<Rightarrow> element_type \<Rightarrow> creator_type \<Rightarrow> ('w client_state, cv_tag list option) op" where
  "get_tags fq st ty creator =
     grpc_request reading_handler fq (\<lambda>_. False)
       (\<lambda>_::unit list. get_with_changes match_tags (tags_get_all st ty creator) (tag_configs_get_all st ty) creator) []"

definition set_tags :: "bool \<Rightarrow> 'w tag_stub \<Rightarrow> cv_tag list \<Rightarrow> ('w client_state, cv_tag list option) op" where
  "set_tags fq st = grpc_request (writing_handler ''tags'') fq (\<lambda>_. False) (tag_configs_set_some st)"

definition get_tag_assignments ::
  "bool \<Rightarrow> 'w tag_stub \<Rightarrow> element_type \<Rightarrow> creator_type \<Rightarrow> ('w client_state, cv_tag_assignment list option) op" where
  "get_tag_assignments fq st ty creator =
     grpc_request reading_handler fq (\<lambda>_. False)
       (\<lambda>_::unit list. get_with_changes match_tag_assignments
          (assignments_get_all st ty creator) (assignment_configs_get_all st ty) creator) []"

definition set_tag_assignments ::
  "bool \<Rightarrow> 'w tag_stub \<Rightarrow> cv_tag_assignment list \<Rightarrow> ('w client_state, cv_tag_assignment list option) op" where
  "set_tag_assignments fq st =
     grpc_request (writing_handler ''tag_assignments'') fq (\<lambda>_. False)
       (\<lambda>as. assignment_configs_set_some st (map (\<lambda>a. (a, False)) as))"

definition delete_tag_assignments ::
  "bool \<Rightarrow> 'w tag_stub \<Rightarrow> cv_tag_assignment list \<Rightarrow> ('w client_state, cv_tag_assignment list option) op" where
  "delete_tag_assignments fq st =
     grpc_request (writing_handler ''tag_assignments'') fq (\<lambda>_. False)
       (\<lambda>as. assignment_configs_set_some st (map (\<lambda>a. (a, True)) as))"

text \<open>The methods that the workflow calls\<close>

record 's tag_client =
  client_get_tags :: "element_type \<Rightarrow> creator_type \<Rightarrow> ('s, cv_tag list option) op"
  client_set_tags :: "cv_tag list \<Rightarrow> ('s, cv_tag list option) op"
  client_get_assignments :: "element_type \<Rightarrow> creator_type \<Rightarrow> ('s, cv_tag_assignment list option) op"
  client_set_assignments :: "cv_tag_assignment list \<Rightarrow> ('s, cv_tag_assignment list option) op"
  client_delete_assignments :: "cv_tag_assignment list \<Rightarrow> ('s, cv_tag_assignment list option) op"

definition grpc_tag_client :: "bool \<Rightarrow> 'w tag_stub \<Rightarrow> 'w client_state tag_client" where
  "grpc_tag_client fq st =
     \<lparr>client_get_tags = get_tags fq st, client_set_tags = set_tags fq st,
      client_get_assignments = get_tag_assignments fq st, client_set_assignments = set_tag_assignments fq st,
      client_delete_assignments = delete_tag_assignments fq st\<rparr>"

section \<open>The workflow\<close>

text \<open>The three lists that the workflow updates in place\<close>

record tag_lists =
  skipped_tags :: "workflow_tag list"
  deployed_tags :: "workflow_tag list"
  removed_tags :: "workflow_tag list"

type_synonym 's tag_run = "'s \<times> tag_lists"

definition on_cv :: "devices \<Rightarrow> workflow_tag \<Rightarrow> bool" where
  "on_cv devs t = (case wf_device t of None \<Rightarrow> True | Some d \<Rightarrow> exists_on_cv (devs d) = Some True)"

definition difference :: "'a list \<Rightarrow> 'a list \<Rightarrow> 'a list" where
  "difference xs ys = filter (\<lambda>x. x \<notin> set ys) (remdups xs)"

text \<open>The dictionary from serial numbers to devices, as its pairs in order\<close>

definition serial_pairs :: "devices \<Rightarrow> workflow_tag list \<Rightarrow> (string \<times> dev_ref) list" where
  "serial_pairs devs ts =
     List.map_filter (\<lambda>t. Option.bind (wf_device t) (\<lambda>d. map_option (\<lambda>s. (s, d)) (serial_number (devs d)))) ts"

definition devices_by_serial_number :: "devices \<Rightarrow> workflow_tag list \<Rightarrow> string \<Rightarrow> dev_ref option" where
  "devices_by_serial_number devs ts = map_of (dict_of (serial_pairs devs ts))"

definition to_unassign ::
  "bool \<Rightarrow> (string \<Rightarrow> dev_ref option) \<Rightarrow> cv_tag_assignment list \<Rightarrow> cv_tag_assignment list \<Rightarrow> cv_tag_assignment list" where
  "to_unassign strict by_serial desired existing =
     filter (\<lambda>a. by_serial (asg_device a) \<noteq> None \<and> (strict \<or> asg_label a \<in> set (map asg_label desired)) \<and> a \<notin> set desired)
       (remdups existing)"

fun element_str :: "element_type \<Rightarrow> string" where
  "element_str Device = ''device''"
| "element_str Interface = ''interface''"
| "element_str Unspecified = ''unspecified''"

definition assignment_key :: "cv_tag_assignment \<Rightarrow> string \<times> string \<times> string \<times> string \<times> string" where
  "assignment_key a =
     (asg_label a, asg_value a, asg_device a, (case asg_interface a of None \<Rightarrow> [] | Some i \<Rightarrow> i), element_str (asg_type a))"

definition removed_tag :: "element_type \<Rightarrow> (string \<Rightarrow> dev_ref option) \<Rightarrow> cv_tag_assignment \<Rightarrow> workflow_tag" where
  "removed_tag ty by_serial a =
     (if ty = Interface then CVInterfaceTag (asg_label a) (asg_value a) (by_serial (asg_device a)) (asg_interface a)
      else CVDeviceTag (asg_label a) (asg_value a) (by_serial (asg_device a)))"

definition tags_type :: "workflow_tag list \<Rightarrow> element_type" where
  "tags_type ts = (case ts of CVInterfaceTag _ _ _ _ # _ \<Rightarrow> Interface | _ \<Rightarrow> Device)"

text \<open>The three parts of the workflow: adding missing tags, adding missing assignments, and removing others\<close>

definition add_tags :: "'s tag_client \<Rightarrow> element_type \<Rightarrow> workflow_tag list \<Rightarrow> ('s tag_run, unit) op" where
  "add_tags client ty todo =
     seq (on_client (client_get_tags client ty User)) (\<lambda>got.
     seq (iterate_over got) (\<lambda>existing.
       let missing = difference (map as_cv_tag todo) existing
       in if missing = [] then ret ()
          else seq (on_client (client_set_tags client missing)) (\<lambda>_. ret ())))"

definition add_assignments ::
  "'s tag_client \<Rightarrow> element_type \<Rightarrow> cv_tag_assignment list \<Rightarrow> ('s tag_run, cv_tag_assignment list) op" where
  "add_assignments client ty desired =
     seq (on_client (client_get_assignments client ty User)) (\<lambda>got.
     seq (iterate_over got) (\<lambda>api.
       let existing = map assignment_from_api api; missing = difference desired existing
       in if missing = [] then ret existing
          else seq (on_client (client_set_assignments client missing)) (\<lambda>_. ret existing)))"

definition remove_assignments ::
  "'s tag_client \<Rightarrow> devices \<Rightarrow> element_type \<Rightarrow> bool \<Rightarrow> cv_tag_assignment list \<Rightarrow> cv_tag_assignment list \<Rightarrow> ('s tag_run, unit) op" where
  "remove_assignments client devs ty strict desired existing =
     seq get_state (\<lambda>s.
       let by_serial = devices_by_serial_number devs (deployed_tags (snd s));
           others = to_unassign strict by_serial desired existing
       in if others = [] then ret ()
          else seq (on_client (client_delete_assignments client others)) (\<lambda>_.
            on_lists (\<lambda>l. l\<lparr>removed_tags := removed_tags l @ map (removed_tag ty by_serial) (sort_key assignment_key others)\<rparr>)))"

definition deploy_tags_to_cv ::
  "'s tag_client \<Rightarrow> devices \<Rightarrow> bool \<Rightarrow> workflow_tag list \<Rightarrow> ('s tag_run, unit) op" where
  "deploy_tags_to_cv client devs strict tags =
     (if tags = [] then ret ()
      else
        let ty = tags_type tags; todo = filter (on_cv devs) tags;
            assigned = filter (\<lambda>t. wf_device t \<noteq> None) todo;
            desired = List.map_filter (as_cv_tag_assignment devs) assigned
        in seq (on_lists (\<lambda>l. l\<lparr>skipped_tags := skipped_tags l @ filter (\<lambda>t. \<not> on_cv devs t) tags\<rparr>)) (\<lambda>_.
           if todo = [] then ret ()
           else seq (add_tags client ty todo) (\<lambda>_.
             seq (on_lists (\<lambda>l. l\<lparr>deployed_tags := deployed_tags l @ filter (\<lambda>t. wf_device t = None) todo\<rparr>)) (\<lambda>_.
             seq (add_assignments client ty desired) (\<lambda>existing.
             seq (on_lists (\<lambda>l. l\<lparr>deployed_tags := deployed_tags l @ assigned\<rparr>)) (\<lambda>_.
               remove_assignments client devs ty strict desired existing))))))"

section \<open>Sets of items under the helpers\<close>

lemma match_eq: "match_tags = (=)" "match_tag_assignments = (=)"
  by (auto simp: match_tags_def match_tag_assignments_def fun_eq_iff)

lemma set_remove_item: "distinct xs \<Longrightarrow> set (remove_item_from_list (=) x xs) = set xs - {x} \<and> distinct (remove_item_from_list (=) x xs)"
  by (induction xs) auto

lemma set_upsert_item: "distinct xs \<Longrightarrow> set (upsert_item_in_list (=) x xs) = insert x (set xs) \<and> distinct (upsert_item_in_list (=) x xs)"
  by (induction xs) auto

definition change_set :: "'a set \<Rightarrow> ('a \<times> bool) list \<Rightarrow> 'a set" where
  "change_set A configs = foldl (\<lambda>A (x, rm). if rm then A - {x} else insert x A) A configs"

lemma change_set_append: "change_set A (xs @ ys) = change_set (change_set A xs) ys"
  by (simp add: change_set_def)

lemma set_play_back:
  "distinct items \<Longrightarrow> set (play_back (=) configs items) = change_set (set items) configs \<and> distinct (play_back (=) configs items)"
proof (induction configs arbitrary: items)
  case (Cons c configs)
  obtain x rm where "c = (x, rm)" by (cases c)
  with Cons.IH [of "if rm then remove_item_from_list (=) x items else upsert_item_in_list (=) x items"]
    set_remove_item [OF Cons.prems, of x] set_upsert_item [OF Cons.prems, of x] show ?case
    by (cases rm) (simp_all add: play_back_def change_set_def)
qed (simp add: play_back_def change_set_def)

lemma change_set_add: "change_set A (map (\<lambda>x. (x, False)) xs) = A \<union> set xs"
  by (induction xs arbitrary: A) (auto simp: change_set_def)

lemma change_set_remove: "change_set A (map (\<lambda>x. (x, True)) xs) = A - set xs"
  by (induction xs arbitrary: A) (auto simp: change_set_def)

lemma set_difference [simp]: "set (difference xs ys) = set xs - set ys"
  by (auto simp: difference_def)

lemma rsplit_at_plain: "CHR ''@'' \<notin> set s \<Longrightarrow> rsplit_at s = s"
  by (simp add: rsplit_at_def)

definition plain :: "cv_tag_assignment \<Rightarrow> bool" where
  "plain a \<longleftrightarrow> (case asg_interface a of None \<Rightarrow> True | Some i \<Rightarrow> CHR ''@'' \<notin> set i)"

lemma from_api_plain: "plain a \<Longrightarrow> assignment_from_api a = a"
  by (cases "asg_interface a") (auto simp: plain_def assignment_from_api_def rsplit_at_plain)

definition serials :: "devices \<Rightarrow> workflow_tag list \<Rightarrow> string set" where
  "serials devs ts = set (map fst (serial_pairs devs ts))"

lemma by_serial_dom: "devices_by_serial_number devs ts s \<noteq> None \<longleftrightarrow> s \<in> serials devs ts"
  unfolding devices_by_serial_number_def serials_def dict_of_get map_of_eq_None_iff by simp

lemma serials_append: "serials devs (xs @ ys) = serials devs xs \<union> serials devs ys"
  by (induction xs) (auto simp: serials_def serial_pairs_def List.map_filter_simps split: option.splits)

lemma serials_unassigned: "serials devs (filter (\<lambda>t. wf_device t = None) ts) = {}"
  by (induction ts) (auto simp: serials_def serial_pairs_def List.map_filter_simps)

lemma serials_Cons: "serials devs (t # ts) =
    (case wf_device t of None \<Rightarrow> {} | Some d \<Rightarrow> set_option (serial_number (devs d))) \<union> serials devs ts"
  by (auto simp: serials_def serial_pairs_def List.map_filter_simps split: option.splits)

lemma serials_assigned: "serials devs (filter (\<lambda>t. wf_device t \<noteq> None) ts) = serials devs ts"
  by (induction ts) (auto simp: serials_Cons split: option.splits)

text \<open>The assignments that a list of tags asks for\<close>

definition desired_assignments :: "devices \<Rightarrow> workflow_tag list \<Rightarrow> cv_tag_assignment list" where
  "desired_assignments devs tags =
     List.map_filter (as_cv_tag_assignment devs) (filter (\<lambda>t. wf_device t \<noteq> None) (filter (on_cv devs) tags))"

lemma set_map_filter: "set (List.map_filter f xs) = {y. \<exists>x \<in> set xs. f x = Some y}"
  by (induction xs) (auto simp: List.map_filter_simps split: option.splits)

text \<open>Tags of one type whose interface names have no \<open>@\<close>\<close>

definition one_type :: "workflow_tag list \<Rightarrow> bool" where
  "one_type tags \<longleftrightarrow>
     (\<forall>t \<in> set tags. case t of
        CVDeviceTag _ _ _ \<Rightarrow> tags_type tags = Device
      | CVInterfaceTag _ _ _ i \<Rightarrow> tags_type tags = Interface \<and> (\<forall>n. i = Some n \<longrightarrow> CHR ''@'' \<notin> set n))"

lemma desired_valid:
  assumes "one_type tags" "a \<in> set (desired_assignments devs tags)"
  shows "asg_type a = tags_type tags" "plain a"
    "\<lparr>tag_type = asg_type a, tag_label = asg_label a, tag_value = asg_value a\<rparr> \<in> as_cv_tag ` set (filter (on_cv devs) tags)"
    "asg_device a \<in> serials devs (filter (on_cv devs) tags)"
proof -
  from assms(2) obtain t where t: "t \<in> set tags" "on_cv devs t" "as_cv_tag_assignment devs t = Some a"
    by (auto simp: desired_assignments_def set_map_filter)
  from assms(1) t(1) have ty: "case t of CVDeviceTag _ _ _ \<Rightarrow> tags_type tags = Device
      | CVInterfaceTag _ _ _ i \<Rightarrow> tags_type tags = Interface \<and> (\<forall>n. i = Some n \<longrightarrow> CHR ''@'' \<notin> set n)"
    unfolding one_type_def by blast
  with t(3) show "asg_type a = tags_type tags" "plain a"
    by (auto simp: plain_def split: workflow_tag.splits option.splits)
  have "\<lparr>tag_type = asg_type a, tag_label = asg_label a, tag_value = asg_value a\<rparr> = as_cv_tag t"
    using t(3) by (cases t) (auto split: option.splits)
  with t(1,2) show "\<lparr>tag_type = asg_type a, tag_label = asg_label a, tag_value = asg_value a\<rparr> \<in> as_cv_tag ` set (filter (on_cv devs) tags)"
    by auto
  obtain d where "wf_device t = Some d" "serial_number (devs d) = Some (asg_device a)"
    using t(3) by (cases t) (auto split: option.splits)
  then have "asg_device a \<in> serials devs (t # zs)" for zs by (simp add: serials_Cons)
  moreover from t obtain ys zs where "filter (on_cv devs) tags = ys @ t # zs"
    by (metis (mono_tags, lifting) mem_Collect_eq set_filter split_list)
  ultimately show "asg_device a \<in> serials devs (filter (on_cv devs) tags)"
    by (simp add: serials_append)
qed

section \<open>The workflow over a service of tags\<close>

definition tag_of :: "cv_tag_assignment \<Rightarrow> cv_tag" where
  "tag_of a = \<lparr>tag_type = asg_type a, tag_label = asg_label a, tag_value = asg_value a\<rparr>"

text \<open>
  What the workflow relies on: for tags of one type the client answers with the tags and assignments
  that are in effect in the workspace, a tag that is set is known from then on, an assignment of a known
  tag can be set, and one that is deleted is no longer in effect.
\<close>

locale tag_service =
  fixes client :: "'s tag_client" and ty :: element_type and ok :: "'s \<Rightarrow> bool"
    and known :: "'s \<Rightarrow> cv_tag set" and assigned :: "'s \<Rightarrow> cv_tag_assignment set"
  assumes get_tags_law: "ok s \<Longrightarrow> \<exists>ts s'. client_get_tags client ty User s = (Inr (Some ts), s') \<and> ok s' \<and>
      known s' = known s \<and> assigned s' = assigned s \<and> set ts = known s"
    and set_tags_law: "ok s \<Longrightarrow> (\<And>t. t \<in> set ts \<Longrightarrow> tag_type t = ty) \<Longrightarrow>
      \<exists>r s'. client_set_tags client ts s = (Inr r, s') \<and> ok s' \<and> known s' = known s \<union> set ts \<and> assigned s' = assigned s"
    and get_assignments_law: "ok s \<Longrightarrow> \<exists>as s'. client_get_assignments client ty User s = (Inr (Some as), s') \<and> ok s' \<and>
      known s' = known s \<and> assigned s' = assigned s \<and> assignment_from_api ` set as = assigned s"
    and set_assignments_law: "ok s \<Longrightarrow> (\<And>a. a \<in> set as \<Longrightarrow> asg_type a = ty \<and> plain a \<and> tag_of a \<in> known s) \<Longrightarrow>
      \<exists>r s'. client_set_assignments client as s = (Inr r, s') \<and> ok s' \<and> known s' = known s \<and> assigned s' = assigned s \<union> set as"
    and delete_assignments_law: "ok s \<Longrightarrow> set as \<subseteq> assigned s \<Longrightarrow>
      \<exists>r s'. client_delete_assignments client as s = (Inr r, s') \<and> ok s' \<and> known s' = known s \<and> assigned s' = assigned s - set as"
begin

lemma add_tags_effect:
  assumes "ok s" "\<And>t. t \<in> set todo \<Longrightarrow> tag_type (as_cv_tag t) = ty"
  shows "\<exists>s'. add_tags client ty todo (s, l) = (Inr (), (s', l)) \<and> ok s' \<and>
    known s' = known s \<union> as_cv_tag ` set todo \<and> assigned s' = assigned s"
proof -
  from get_tags_law [OF assms(1)] obtain ts s1 where
    got: "client_get_tags client ty User s = (Inr (Some ts), s1)" "ok s1" "known s1 = known s" "assigned s1 = assigned s" "set ts = known s"
    by blast
  let ?m = "difference (map as_cv_tag todo) ts"
  show ?thesis
  proof (cases "?m = []")
    case True
    then have "set ?m = {}" by simp
    then have "as_cv_tag ` set todo \<subseteq> known s" using got(5) by simp
    with True got show ?thesis by (auto simp: add_tags_def seq_def on_client_def iterate_over_def Let_def)
  next
    case False
    have "tag_type t = ty" if "t \<in> set ?m" for t using that assms(2) by auto
    from set_tags_law [OF got(2) this] obtain r s2 where
      put: "client_set_tags client ?m s1 = (Inr r, s2)" "ok s2" "known s2 = known s1 \<union> set ?m" "assigned s2 = assigned s1"
      by blast
    have "known s2 = known s \<union> as_cv_tag ` set todo" using put(3) got by auto
    with False got put show ?thesis by (simp add: add_tags_def seq_def on_client_def iterate_over_def Let_def)
  qed
qed

lemma add_assignments_effect:
  assumes "ok s" "\<And>a. a \<in> set desired \<Longrightarrow> asg_type a = ty \<and> plain a \<and> tag_of a \<in> known s"
  shows "\<exists>existing s'. add_assignments client ty desired (s, l) = (Inr existing, (s', l)) \<and> ok s' \<and>
    set existing = assigned s \<and> assigned s' = assigned s \<union> set desired"
proof -
  from get_assignments_law [OF assms(1)] obtain as s1 where
    got: "client_get_assignments client ty User s = (Inr (Some as), s1)" "ok s1" "known s1 = known s" "assigned s1 = assigned s"
      "assignment_from_api ` set as = assigned s"
    by blast
  let ?m = "difference desired (map assignment_from_api as)"
  show ?thesis
  proof (cases "?m = []")
    case True
    then have "set ?m = {}" by simp
    then have "set desired \<subseteq> assigned s" using got(5) by simp
    with True got show ?thesis by (auto simp: add_assignments_def seq_def on_client_def iterate_over_def Let_def)
  next
    case False
    have "asg_type a = ty \<and> plain a \<and> tag_of a \<in> known s1" if "a \<in> set ?m" for a using that assms(2) got(3) by auto
    from set_assignments_law [OF got(2) this] obtain r s2 where
      put: "client_set_assignments client ?m s1 = (Inr r, s2)" "ok s2" "assigned s2 = assigned s1 \<union> set ?m" by blast
    have "assigned s2 = assigned s \<union> set desired" using put(3) got by auto
    with False got put show ?thesis by (simp add: add_assignments_def seq_def on_client_def iterate_over_def Let_def)
  qed
qed

lemma remove_assignments_effect:
  assumes "ok s" "assigned s = set existing \<union> set desired"
  shows "\<exists>s' l'. remove_assignments client devs ty strict desired existing (s, l) = (Inr (), (s', l')) \<and> ok s' \<and>
    assigned s' = {a \<in> set existing. \<not> (asg_device a \<in> serials devs (deployed_tags l) \<and>
        (strict \<or> asg_label a \<in> asg_label ` set desired))} \<union> set desired \<and>
    skipped_tags l' = skipped_tags l \<and> deployed_tags l' = deployed_tags l \<and>
    set (removed_tags l') = set (removed_tags l) \<union>
      removed_tag ty (devices_by_serial_number devs (deployed_tags l)) `
        {a \<in> set existing. asg_device a \<in> serials devs (deployed_tags l) \<and>
          (strict \<or> asg_label a \<in> asg_label ` set desired) \<and> a \<notin> set desired}"
proof -
  let ?by = "devices_by_serial_number devs (deployed_tags l)"
  let ?o = "to_unassign strict ?by desired existing"
  have o: "set ?o = {a \<in> set existing. asg_device a \<in> serials devs (deployed_tags l) \<and>
          (strict \<or> asg_label a \<in> asg_label ` set desired) \<and> a \<notin> set desired}"
    unfolding to_unassign_def set_filter by_serial_dom by auto
  show ?thesis
  proof (cases "?o = []")
    case True
    then have "set ?o = {}" by simp
    with True assms o show ?thesis by (auto simp: remove_assignments_def seq_def Let_def)
  next
    case False
    have "set ?o \<subseteq> assigned s" unfolding o assms(2) by blast
    from delete_assignments_law [OF assms(1) this] obtain r s2 where
      del: "client_delete_assignments client ?o s = (Inr r, s2)" "ok s2" "assigned s2 = assigned s - set ?o" by blast
    have "assigned s2 = {a \<in> set existing. \<not> (asg_device a \<in> serials devs (deployed_tags l) \<and>
        (strict \<or> asg_label a \<in> asg_label ` set desired))} \<union> set desired"
      unfolding del(3) o assms(2) by blast
    with False del o show ?thesis
      by (simp add: remove_assignments_def seq_def Let_def on_client_def on_lists_def image_Un)
  qed
qed

lemma deploy_tags_effect_core:
  fixes devs tags
  assumes "ok s" "one_type tags" "tags = [] \<or> tags_type tags = ty" "deployed_tags l = []"
  defines "D \<equiv> set (desired_assignments devs tags)" and "S \<equiv> serials devs (filter (on_cv devs) tags)"
  shows "\<exists>s' l'. deploy_tags_to_cv client devs strict tags (s, l) = (Inr (), (s', l')) \<and> ok s' \<and>
    assigned s' = {a \<in> assigned s. \<not> (asg_device a \<in> S \<and> (strict \<or> asg_label a \<in> asg_label ` D))} \<union> D \<and>
    skipped_tags l' = skipped_tags l @ filter (\<lambda>t. \<not> on_cv devs t) tags \<and>
    set (deployed_tags l') = set (filter (on_cv devs) tags) \<and>
    set (removed_tags l') = set (removed_tags l) \<union>
      removed_tag (tags_type tags) (devices_by_serial_number devs (deployed_tags l')) `
        {a \<in> assigned s. asg_device a \<in> S \<and> (strict \<or> asg_label a \<in> asg_label ` D) \<and> a \<notin> D}"
proof (cases "filter (on_cv devs) tags = []")
  case True
  then have "D = {}" "S = {}" by (simp_all add: D_def S_def desired_assignments_def serials_def serial_pairs_def List.map_filter_simps)
  with True assms(1,4) show ?thesis
    by (auto simp: deploy_tags_to_cv_def seq_def on_lists_def Let_def)
next
  case False
  then have ne: "tags \<noteq> []" by auto
  with assms(3) have ty: "tags_type tags = ty" by simp
  let ?todo = "filter (on_cv devs) tags"
  let ?asg = "filter (\<lambda>t. wf_device t \<noteq> None) ?todo"
  let ?l1 = "l\<lparr>skipped_tags := skipped_tags l @ filter (\<lambda>t. \<not> on_cv devs t) tags\<rparr>"
  let ?l2 = "?l1\<lparr>deployed_tags := filter (\<lambda>t. wf_device t = None) ?todo @ ?asg\<rparr>"
  have types: "tag_type (as_cv_tag t) = ty" if "t \<in> set ?todo" for t
  proof -
    from that have "t \<in> set tags" by auto
    with assms(2) ty show ?thesis unfolding one_type_def by (cases t) fastforce+
  qed
  obtain s1 where add: "add_tags client ty ?todo (s, ?l1) = (Inr (), (s1, ?l1))" "ok s1"
      "known s1 = known s \<union> as_cv_tag ` set ?todo" "assigned s1 = assigned s"
    using add_tags_effect [OF assms(1) types] by blast
  have valid: "asg_type a = ty \<and> plain a \<and> tag_of a \<in> known s1" if "a \<in> set (desired_assignments devs tags)" for a
    using desired_valid [OF assms(2) that] ty add(3) by (auto simp: tag_of_def)
  obtain existing s2 where asg: "add_assignments client ty (desired_assignments devs tags)
        (s1, ?l1\<lparr>deployed_tags := filter (\<lambda>t. wf_device t = None) ?todo\<rparr>) =
        (Inr existing, (s2, ?l1\<lparr>deployed_tags := filter (\<lambda>t. wf_device t = None) ?todo\<rparr>))" "ok s2"
      "set existing = assigned s1" "assigned s2 = assigned s1 \<union> D"
    using add_assignments_effect [OF add(2) valid] unfolding D_def by blast
  have S: "serials devs (deployed_tags ?l2) = S"
  proof -
    have "deployed_tags ?l2 = filter (\<lambda>t. wf_device t = None) ?todo @ ?asg" by simp
    then show ?thesis unfolding S_def by (simp only: serials_append serials_unassigned serials_assigned Un_empty_left)
  qed
  obtain s3 l3 where rem: "remove_assignments client devs ty strict (desired_assignments devs tags) existing (s2, ?l2) = (Inr (), (s3, l3))"
      "ok s3"
      "assigned s3 = {a \<in> assigned s. \<not> (asg_device a \<in> S \<and> (strict \<or> asg_label a \<in> asg_label ` D))} \<union> D"
      "skipped_tags l3 = skipped_tags ?l2" "deployed_tags l3 = deployed_tags ?l2"
      "set (removed_tags l3) = set (removed_tags ?l2) \<union> removed_tag ty (devices_by_serial_number devs (deployed_tags ?l2)) `
        {a \<in> assigned s. asg_device a \<in> S \<and> (strict \<or> asg_label a \<in> asg_label ` D) \<and> a \<notin> D}"
    using remove_assignments_effect [OF asg(2), of existing "desired_assignments devs tags" devs strict ?l2]
    unfolding asg(3,4) add(4) S D_def [symmetric] by blast
  have "deploy_tags_to_cv client devs strict tags (s, l) = (Inr (), (s3, l3))"
    using ne False add(1) asg(1) rem(1) assms(4) ty
    by (simp add: deploy_tags_to_cv_def seq_def on_lists_def Let_def desired_assignments_def)
  moreover have "set (deployed_tags l3) = set ?todo" unfolding rem(5) by auto
  ultimately show ?thesis using rem ty by auto
qed

text \<open>A second run finds everything in place.\<close>

lemma deploy_tags_again:
  fixes devs tags
  assumes "ok s" "one_type tags" "tags = [] \<or> tags_type tags = ty"
    and "deploy_tags_to_cv client devs strict tags (s, \<lparr>skipped_tags = [], deployed_tags = [], removed_tags = []\<rparr>) = (r, (s1, l1))"
  shows "\<exists>s2 l2. deploy_tags_to_cv client devs strict tags (s1, \<lparr>skipped_tags = [], deployed_tags = [], removed_tags = []\<rparr>) =
      (Inr (), (s2, l2)) \<and> assigned s2 = assigned s1 \<and> removed_tags l2 = []"
proof -
  let ?l = "\<lparr>skipped_tags = [], deployed_tags = [], removed_tags = []\<rparr>"
  let ?D = "set (desired_assignments devs tags)" and ?S = "serials devs (filter (on_cv devs) tags)"
  have one: "ok s1" "assigned s1 = {a \<in> assigned s. \<not> (asg_device a \<in> ?S \<and> (strict \<or> asg_label a \<in> asg_label ` ?D))} \<union> ?D"
    using deploy_tags_effect_core [where l = ?l and strict = strict and devs = devs, OF assms(1-3)] assms(4) by auto
  then have none: "{a \<in> assigned s1. asg_device a \<in> ?S \<and> (strict \<or> asg_label a \<in> asg_label ` ?D) \<and> a \<notin> ?D} = {}"
    and same: "{a \<in> assigned s1. \<not> (asg_device a \<in> ?S \<and> (strict \<or> asg_label a \<in> asg_label ` ?D))} \<union> ?D = assigned s1"
    by blast+
  from deploy_tags_effect_core [where l = ?l and strict = strict and devs = devs, OF one(1) assms(2,3)] show ?thesis
    unfolding none same by auto
qed

end

section \<open>A service of tags\<close>

text \<open>
  A store that answers as the tag service does: the mainline, and the log of the changes in the
  workspace. It refuses messages of more than \<open>cap\<close> items.
\<close>

record tag_store =
  mainline_tags :: "cv_tag list"
  tag_log :: "(cv_tag \<times> bool) list"
  mainline_assignments :: "cv_tag_assignment list"
  assignment_log :: "(cv_tag_assignment \<times> bool) list"

definition store_stub :: "nat \<Rightarrow> tag_store tag_stub" where
  "store_stub cap =
     \<lparr>tags_get_all = (\<lambda>ty creator w. (Inr (filter (\<lambda>t. tag_type t = ty) (mainline_tags w)), w)),
      tag_configs_get_all = (\<lambda>ty w. (Inr (filter (\<lambda>c. tag_type (fst c) = ty) (tag_log w)), w)),
      tag_configs_set_some = limited_call (\<lambda>_. Suc 0) cap (\<lambda>w ts. w\<lparr>tag_log := tag_log w @ map (\<lambda>t. (t, False)) ts\<rparr>) id,
      assignments_get_all = (\<lambda>ty creator w. (Inr (filter (\<lambda>a. asg_type a = ty) (mainline_assignments w)), w)),
      assignment_configs_get_all = (\<lambda>ty w. (Inr (filter (\<lambda>c. asg_type (fst c) = ty) (assignment_log w)), w)),
      assignment_configs_set_some = limited_call (\<lambda>_. Suc 0) cap (\<lambda>w cs. w\<lparr>assignment_log := assignment_log w @ cs\<rparr>) fst\<rparr>"

definition known_in :: "element_type \<Rightarrow> tag_store \<Rightarrow> cv_tag set" where
  "known_in ty w = change_set (set (filter (\<lambda>t. tag_type t = ty) (mainline_tags w))) (filter (\<lambda>c. tag_type (fst c) = ty) (tag_log w))"

definition assigned_in :: "element_type \<Rightarrow> tag_store \<Rightarrow> cv_tag_assignment set" where
  "assigned_in ty w =
     change_set (set (filter (\<lambda>a. asg_type a = ty) (mainline_assignments w))) (filter (\<lambda>c. asg_type (fst c) = ty) (assignment_log w))"

definition store_ok :: "tag_store \<Rightarrow> bool" where
  "store_ok w \<longleftrightarrow> distinct (mainline_tags w) \<and> distinct (mainline_assignments w) \<and>
     list_all plain (mainline_assignments w) \<and> list_all (\<lambda>c. plain (fst c)) (assignment_log w)"

lemma change_set_sub: "change_set A configs \<subseteq> A \<union> fst ` set configs"
proof (induction configs arbitrary: A)
  case (Cons c configs)
  obtain x rm where c: "c = (x, rm)" by (cases c)
  have "change_set A (c # configs) = change_set (if rm then A - {x} else insert x A) configs" by (simp add: c change_set_def)
  with Cons.IH [of "if rm then A - {x} else insert x A"] show ?case unfolding c by (auto split: if_splits)
qed (simp add: change_set_def)

lemma limited_map:
  "(\<lambda>xs. limited_call (\<lambda>_. Suc 0) cap put f (map g xs)) = limited_call (\<lambda>_. Suc 0) cap (\<lambda>w xs. put w (map g xs)) (f \<circ> g)"
  by (auto simp: limited_call_def fun_eq_iff Let_def o_def)

lemma reading_request:
  assumes "call [] w = (Inr r, w')"
  shows "grpc_request reading_handler fq p call [] (w, sl) = (Inr (Some r), (w', sl))"
proof -
  have "[1 ..< max_retries reading_handler + 2] = 1 # [2 ..< max_retries reading_handler + 2]"
    by (simp add: upt_conv_Cons numeral_2_eq_2)
  with assms have "execute_with_splitting reading_handler fq call [] (w, sl) = (Inr (Some r), (w', sl))"
    by (subst execute_with_splitting.simps) (simp add: execute_single_call_with_retries_def reading_handler_def new_handler_def)
  then show ?thesis by (simp add: grpc_request_def reading_handler_def new_handler_def)
qed

lemma writing_request:
  assumes "0 < cap" "puts_items put"
  shows "grpc_request (writing_handler field) fq p (limited_call (\<lambda>_. Suc 0) cap put f) xs (w, sl) = (Inr (Some (map f xs)), (put w xs, sl))"
proof -
  have "execute_with_splitting (writing_handler field) fq (limited_call (\<lambda>_. Suc 0) cap put f) xs (w, sl) =
      (Inr (Some (map f xs)), (put w xs, sl))"
    by (rule limited_splitting) (use assms in \<open>simp_all add: writing_handler_def new_handler_def Suc_le_eq\<close>)
  then show ?thesis by (simp add: grpc_request_def writing_handler_def new_handler_def)
qed

lemma store_reads:
  assumes "store_ok w"
  shows "\<exists>ts. get_tags fq (store_stub cap) ty User (w, sl) = (Inr (Some ts), (w, sl)) \<and> set ts = known_in ty w"
    "\<exists>as. get_tag_assignments fq (store_stub cap) ty User (w, sl) = (Inr (Some as), (w, sl)) \<and>
      assignment_from_api ` set as = assigned_in ty w"
proof -
  have d: "distinct (filter (\<lambda>t. tag_type t = ty) (mainline_tags w))" "distinct (filter (\<lambda>a. asg_type a = ty) (mainline_assignments w))"
    using assms by (simp_all add: store_ok_def)
  show "\<exists>ts. get_tags fq (store_stub cap) ty User (w, sl) = (Inr (Some ts), (w, sl)) \<and> set ts = known_in ty w"
    unfolding get_tags_def known_in_def
    by (rule exI, rule conjI, rule reading_request)
       (use set_play_back [OF d(1)] in \<open>auto simp: get_with_changes_def store_stub_def match_eq\<close>)
  have "assigned_in ty w \<subseteq> set (mainline_assignments w) \<union> fst ` set (assignment_log w)"
    unfolding assigned_in_def using change_set_sub by fastforce
  then have "assignment_from_api a = a" if "a \<in> assigned_in ty w" for a
    using that assms by (intro from_api_plain) (auto simp: store_ok_def list_all_iff)
  then have img: "assignment_from_api ` assigned_in ty w = assigned_in ty w" by force
  show "\<exists>as. get_tag_assignments fq (store_stub cap) ty User (w, sl) = (Inr (Some as), (w, sl)) \<and>
      assignment_from_api ` set as = assigned_in ty w"
    unfolding get_tag_assignments_def
    by (rule exI, rule conjI, rule reading_request)
       (use set_play_back [OF d(2)] img in \<open>auto simp: get_with_changes_def store_stub_def match_eq assigned_in_def\<close>)
qed

lemma change_set_filter_append:
  "change_set A (filter p (xs @ ys)) = change_set (change_set A (filter p xs)) (filter p ys)"
  by (simp add: change_set_append)

lemma store_set_tags:
  assumes "store_ok w" "0 < cap" "\<And>t. t \<in> set ts \<Longrightarrow> tag_type t = ty"
  shows "\<exists>r w'. set_tags fq (store_stub cap) ts (w, sl) = (Inr r, (w', sl)) \<and> store_ok w' \<and>
    known_in ty w' = known_in ty w \<union> set ts \<and> assigned_in ty w' = assigned_in ty w"
proof -
  let ?put = "\<lambda>w ts. w\<lparr>tag_log := tag_log w @ map (\<lambda>t. (t, False)) ts\<rparr>"
  have "puts_items ?put" by (simp add: puts_items_def)
  have "set_tags fq (store_stub cap) ts (w, sl) = (Inr (Some (map id ts)), (?put w ts, sl))"
    by (simp only: set_tags_def store_stub_def tag_stub.simps writing_request [OF assms(2) \<open>puts_items ?put\<close>])
  then have "set_tags fq (store_stub cap) ts (w, sl) = (Inr (Some ts), (?put w ts, sl))" by simp
  moreover have "filter (\<lambda>c. tag_type (fst c) = ty) (map (\<lambda>t. (t, False)) ts) = map (\<lambda>t. (t, False)) ts"
    using assms(3) by (auto simp: filter_id_conv)
  then have "known_in ty (?put w ts) = known_in ty w \<union> set ts"
    by (simp add: known_in_def change_set_append change_set_add)
  moreover have "store_ok (?put w ts)" "assigned_in ty (?put w ts) = assigned_in ty w"
    using assms(1) by (simp_all add: store_ok_def assigned_in_def)
  ultimately show ?thesis by blast
qed

lemma store_change_assignments:
  fixes rm
  assumes "store_ok w" "0 < cap" "\<And>a. a \<in> set as \<Longrightarrow> asg_type a = ty \<and> plain a"
  defines "w' \<equiv> w\<lparr>assignment_log := assignment_log w @ map (\<lambda>a. (a, rm)) as\<rparr>"
  shows "grpc_request (writing_handler ''tag_assignments'') fq (\<lambda>_. False)
      (\<lambda>as. assignment_configs_set_some (store_stub cap) (map (\<lambda>a. (a, rm)) as)) as (w, sl) = (Inr (Some as), (w', sl))"
    "store_ok w'" "known_in ty w' = known_in ty w"
    "assigned_in ty w' = change_set (assigned_in ty w) (map (\<lambda>a. (a, rm)) as)"
proof -
  let ?put = "\<lambda>w as. w\<lparr>assignment_log := assignment_log w @ map (\<lambda>a. (a, rm)) as\<rparr>"
  have "puts_items ?put" by (simp add: puts_items_def)
  have "grpc_request (writing_handler ''tag_assignments'') fq (\<lambda>_. False)
      (\<lambda>as. assignment_configs_set_some (store_stub cap) (map (\<lambda>a. (a, rm)) as)) as (w, sl) =
      (Inr (Some (map (fst \<circ> (\<lambda>a. (a, rm))) as)), (?put w as, sl))"
    by (simp only: store_stub_def tag_stub.simps limited_map writing_request [OF assms(2) \<open>puts_items ?put\<close>])
  then show "grpc_request (writing_handler ''tag_assignments'') fq (\<lambda>_. False)
      (\<lambda>as. assignment_configs_set_some (store_stub cap) (map (\<lambda>a. (a, rm)) as)) as (w, sl) = (Inr (Some as), (w', sl))"
    by (simp add: w'_def o_def)
  show "store_ok w'" "known_in ty w' = known_in ty w"
    using assms(1,3) by (simp_all add: store_ok_def known_in_def w'_def list_all_iff ball_Un)
  have "filter (\<lambda>c. asg_type (fst c) = ty) (map (\<lambda>a. (a, rm)) as) = map (\<lambda>a. (a, rm)) as"
    using assms(3) by (auto simp: filter_id_conv)
  then show "assigned_in ty w' = change_set (assigned_in ty w) (map (\<lambda>a. (a, rm)) as)"
    by (simp add: assigned_in_def w'_def change_set_append)
qed

lemma assigned_in_valid:
  assumes "store_ok w" "a \<in> assigned_in ty w"
  shows "asg_type a = ty" "plain a"
proof -
  have "a \<in> set (filter (\<lambda>a. asg_type a = ty) (mainline_assignments w)) \<union> fst ` set (filter (\<lambda>c. asg_type (fst c) = ty) (assignment_log w))"
    using assms(2) unfolding assigned_in_def by (rule subsetD [OF change_set_sub, rotated])
  with assms(1) show "asg_type a = ty" "plain a" by (auto simp: store_ok_def list_all_iff)
qed

interpretation stored: tag_service "grpc_tag_client fq (store_stub (Suc cap))" ty "\<lambda>s. store_ok (fst s)"
    "\<lambda>s. known_in ty (fst s)" "\<lambda>s. assigned_in ty (fst s)"
  for fq cap ty
proof unfold_locales
  fix s :: "tag_store client_state" and ts as
  obtain w sl where s: "s = (w, sl)" by (cases s)
  assume "store_ok (fst s)"
  then have ok: "store_ok w" by (simp add: s)
  show "\<exists>ts s'. client_get_tags (grpc_tag_client fq (store_stub (Suc cap))) ty User s = (Inr (Some ts), s') \<and> store_ok (fst s') \<and>
      known_in ty (fst s') = known_in ty (fst s) \<and> assigned_in ty (fst s') = assigned_in ty (fst s) \<and> set ts = known_in ty (fst s)"
    using store_reads(1) [OF ok, of fq "Suc cap" ty sl] ok unfolding s by (auto simp: grpc_tag_client_def)
  show "\<exists>as s'. client_get_assignments (grpc_tag_client fq (store_stub (Suc cap))) ty User s = (Inr (Some as), s') \<and> store_ok (fst s') \<and>
      known_in ty (fst s') = known_in ty (fst s) \<and> assigned_in ty (fst s') = assigned_in ty (fst s) \<and>
      assignment_from_api ` set as = assigned_in ty (fst s)"
    using store_reads(2) [OF ok, of fq "Suc cap" ty sl] ok unfolding s by (auto simp: grpc_tag_client_def)
  show "\<exists>r s'. client_set_tags (grpc_tag_client fq (store_stub (Suc cap))) ts s = (Inr r, s') \<and> store_ok (fst s') \<and>
      known_in ty (fst s') = known_in ty (fst s) \<union> set ts \<and> assigned_in ty (fst s') = assigned_in ty (fst s)"
    if types: "\<And>t. t \<in> set ts \<Longrightarrow> tag_type t = ty"
  proof -
    obtain r w' where "set_tags fq (store_stub (Suc cap)) ts (w, sl) = (Inr r, (w', sl))" "store_ok w'"
        "known_in ty w' = known_in ty w \<union> set ts" "assigned_in ty w' = assigned_in ty w"
      using store_set_tags [where cap = "Suc cap" and sl = sl and fq = fq, OF ok zero_less_Suc types] by blast
    then show ?thesis unfolding s grpc_tag_client_def by auto
  qed
  show "\<exists>r s'. client_set_assignments (grpc_tag_client fq (store_stub (Suc cap))) as s = (Inr r, s') \<and> store_ok (fst s') \<and>
      known_in ty (fst s') = known_in ty (fst s) \<and> assigned_in ty (fst s') = assigned_in ty (fst s) \<union> set as"
    if valid: "\<And>a. a \<in> set as \<Longrightarrow> asg_type a = ty \<and> plain a \<and> tag_of a \<in> known_in ty (fst s)"
  proof -
    have "asg_type a = ty \<and> plain a" if "a \<in> set as" for a using valid that by blast
    note new = store_change_assignments [where cap = "Suc cap" and rm = False, OF ok zero_less_Suc this]
    from new(2-4) new(1) [where sl = sl and fq = fq] show ?thesis
      unfolding s grpc_tag_client_def set_tag_assignments_def tag_client.simps change_set_add by (metis fst_conv)
  qed
  show "\<exists>r s'. client_delete_assignments (grpc_tag_client fq (store_stub (Suc cap))) as s = (Inr r, s') \<and> store_ok (fst s') \<and>
      known_in ty (fst s') = known_in ty (fst s) \<and> assigned_in ty (fst s') = assigned_in ty (fst s) - set as"
    if "set as \<subseteq> assigned_in ty (fst s)"
  proof -
    have "asg_type a = ty \<and> plain a" if "a \<in> set as" for a
      using assigned_in_valid [OF ok, of a ty] \<open>set as \<subseteq> assigned_in ty (fst s)\<close> that by (auto simp: s)
    note new = store_change_assignments [where cap = "Suc cap" and rm = True, OF ok zero_less_Suc this]
    from new(2-4) new(1) [where sl = sl and fq = fq] show ?thesis
      unfolding s grpc_tag_client_def delete_tag_assignments_def tag_client.simps change_set_remove by (metis fst_conv)
  qed
qed

definition no_lists :: tag_lists where
  "no_lists = \<lparr>skipped_tags = [], deployed_tags = [], removed_tags = []\<rparr>"

section \<open>Property\<close>

text \<open>
  C31. Deploying tags through the client, whatever the size of messages the service takes: afterwards
  the assignments in effect are the desired ones and those that were there before, less the ones of a
  targeted device (when not strict: with a label that is deployed too). Tags of devices that are
  not on CloudVision are skipped, all others are reported as deployed, the assignments taken away
  are reported as removed, and deploying the same tags again takes nothing away.
\<close>

theorem deploy_tags_effect:
  assumes "store_ok w" and "one_type tags"
  shows "let client = grpc_tag_client fq (store_stub (Suc cap)); ty = tags_type tags;
      D = set (desired_assignments devs tags); S = serials devs (filter (on_cv devs) tags)
    in \<exists>w' sl' l'. deploy_tags_to_cv client devs strict tags ((w, sl), no_lists) = (Inr (), ((w', sl'), l')) \<and>
      assigned_in ty w' = {a \<in> assigned_in ty w. \<not> (asg_device a \<in> S \<and> (strict \<or> asg_label a \<in> asg_label ` D))} \<union> D \<and>
      skipped_tags l' = filter (\<lambda>t. \<not> on_cv devs t) tags \<and>
      set (deployed_tags l') = set (filter (on_cv devs) tags) \<and>
      set (removed_tags l') = removed_tag ty (devices_by_serial_number devs (deployed_tags l')) ` (assigned_in ty w - assigned_in ty w') \<and>
      (\<exists>s2 l2. deploy_tags_to_cv client devs strict tags ((w', sl'), no_lists) = (Inr (), (s2, l2)) \<and>
        assigned_in ty (fst s2) = assigned_in ty w' \<and> removed_tags l2 = [])"
proof -
  let ?D = "set (desired_assignments devs tags)" and ?S = "serials devs (filter (on_cv devs) tags)"
  let ?client = "grpc_tag_client fq (store_stub (Suc cap))" and ?ty = "tags_type tags"
  let ?A = "{a \<in> assigned_in ?ty w. \<not> (asg_device a \<in> ?S \<and> (strict \<or> asg_label a \<in> asg_label ` ?D))} \<union> ?D"
  have gone: "{a \<in> assigned_in ?ty w. asg_device a \<in> ?S \<and> (strict \<or> asg_label a \<in> asg_label ` ?D) \<and> a \<notin> ?D} = assigned_in ?ty w - ?A"
    by blast
  obtain w' sl' l' where run: "deploy_tags_to_cv ?client devs strict tags ((w, sl), no_lists) = (Inr (), ((w', sl'), l'))"
      "assigned_in ?ty w' = ?A" "skipped_tags l' = filter (\<lambda>t. \<not> on_cv devs t) tags" "set (deployed_tags l') = set (filter (on_cv devs) tags)"
      "set (removed_tags l') = removed_tag ?ty (devices_by_serial_number devs (deployed_tags l')) ` (assigned_in ?ty w - ?A)"
    using stored.deploy_tags_effect_core [where s = "(w, sl)" and tags = tags and ty = ?ty and l = no_lists and fq = fq and cap = cap and strict = strict and devs = devs] assms
    unfolding fst_conv gone by (auto simp: no_lists_def)
  moreover obtain s2 l2 where "deploy_tags_to_cv ?client devs strict tags ((w', sl'), no_lists) = (Inr (), (s2, l2))"
      "assigned_in ?ty (fst s2) = assigned_in ?ty w'" "removed_tags l2 = []"
    using stored.deploy_tags_again [where s = "(w, sl)" and tags = tags and ty = ?ty and fq = fq and cap = cap and devs = devs and strict = strict and r = "Inr ()"
        and ?s1.0 = "(w', sl')" and ?l1.0 = l'] assms run(1)
    unfolding no_lists_def by auto
  ultimately show ?thesis unfolding Let_def by blast
qed

definition example_devices :: devices where
  "example_devices r =
     \<lparr>avd_device = \<lparr>avd_hostname = ''leaf'', avd_serial_number = None, avd_system_mac_address = None\<rparr>,
      serial_number = Some (if r = 0 then ''S1'' else ''S2''), system_mac_address = None,
      exists_on_cv = Some (r = 0), streaming = None\<rparr>"

definition example_assignment :: "string \<Rightarrow> string \<Rightarrow> string \<Rightarrow> cv_tag_assignment" where
  "example_assignment l v s = \<lparr>asg_type = Device, asg_label = l, asg_value = v, asg_device = s, asg_interface = None\<rparr>"

lemma example_fields:
  "asg_device (example_assignment l v s) = s" "asg_label (example_assignment l v s) = l"
  "example_assignment l v s = example_assignment l' v' s' \<longleftrightarrow> l = l' \<and> v = v' \<and> s = s'"
  by (simp_all add: example_assignment_def)

definition example_store :: tag_store where
  "example_store =
     \<lparr>mainline_tags = [], tag_log = [],
      mainline_assignments = [example_assignment ''role'' ''spine'' ''S1'', example_assignment ''dc'' ''1'' ''S1'', example_assignment ''role'' ''spine'' ''S9''],
      assignment_log = []\<rparr>"

theorem deploy_tags_effect_witness:
  "\<exists>w' sl' l'. deploy_tags_to_cv (grpc_tag_client False (store_stub (Suc 0))) example_devices False
      [CVDeviceTag ''role'' ''leaf'' (Some 0), CVDeviceTag ''role'' ''leaf'' (Some 7), CVDeviceTag ''x'' ''y'' None]
      ((example_store, []), no_lists) = (Inr (), ((w', sl'), l')) \<and>
    assigned_in Device w' = {example_assignment ''role'' ''leaf'' ''S1'', example_assignment ''dc'' ''1'' ''S1'', example_assignment ''role'' ''spine'' ''S9''}"
proof -
  let ?tags = "[CVDeviceTag ''role'' ''leaf'' (Some 0), CVDeviceTag ''role'' ''leaf'' (Some 7), CVDeviceTag ''x'' ''y'' None]"
  have ok: "store_ok example_store" "one_type ?tags"
    by (simp_all add: store_ok_def example_store_def example_assignment_def plain_def one_type_def tags_type_def)
  have on: "filter (on_cv example_devices) ?tags = [CVDeviceTag ''role'' ''leaf'' (Some 0), CVDeviceTag ''x'' ''y'' None]"
    by (simp add: on_cv_def example_devices_def)
  have ty: "tags_type ?tags = Device" by (simp add: tags_type_def)
  have des: "desired_assignments example_devices ?tags = [example_assignment ''role'' ''leaf'' ''S1'']"
    unfolding desired_assignments_def on by (simp add: List.map_filter_simps example_devices_def example_assignment_def)
  have ser: "serials example_devices (filter (on_cv example_devices) ?tags) = {''S1''}"
    unfolding on by (simp add: serials_def serial_pairs_def List.map_filter_simps example_devices_def)
  have before: "assigned_in Device example_store =
      {example_assignment ''role'' ''spine'' ''S1'', example_assignment ''dc'' ''1'' ''S1'', example_assignment ''role'' ''spine'' ''S9''}"
    by (simp add: assigned_in_def change_set_def example_store_def example_assignment_def)
  have sets: "{a \<in> assigned_in Device example_store. \<not> (asg_device a \<in> {''S1''} \<and> (False \<or> asg_label a \<in> asg_label ` {example_assignment ''role'' ''leaf'' ''S1''}))} \<union>
      {example_assignment ''role'' ''leaf'' ''S1''} =
    {example_assignment ''role'' ''leaf'' ''S1'', example_assignment ''dc'' ''1'' ''S1'', example_assignment ''role'' ''spine'' ''S9''}"
    unfolding before by (auto simp: example_fields)
  from deploy_tags_effect [OF ok, of False 0 example_devices False "[]"] show ?thesis
    unfolding Let_def ty des ser list.set sets
    by (elim exE conjE) (rule exI, rule exI, rule exI, rule conjI, assumption+)
qed

end
