(* ===== verification/CvWorkspace.thy ===== *)
theory CvWorkspace
  imports CvModels
begin

text \<open>
  The life of a workspace: \<open>create_workspace_on_cv\<close>, \<open>finalize_workspace_on_cv\<close> and \<open>rebase_workspace_on_cv\<close> of
  \<open>pyavd/_cv/workflows\<close>, and the two waiting methods of \<open>client/workspace.py\<close>. The other methods of the client only
  send one request each and are the fields of a record; what they answer or raise is up to the server.
\<close>

section \<open>The client\<close>

datatype api_state = API_UNSPECIFIED | API_PENDING | API_SUBMITTED | API_ABANDONED | API_CONFLICTS | API_ROLLED_BACK

datatype response_status = StatusUnspecified | StatusSuccess | StatusFail | StatusInProgress

datatype response_code = CodeUnspecified | InactiveDevicesExist | DecommissionDevicesIncomplete | SynchronizationRequired

record response =
  resp_status :: response_status
  resp_code :: response_code

text \<open>An update of the workspace, with its responses by the id of the request\<close>

record api_workspace =
  api_state :: api_state
  needs_rebase :: bool
  last_build_id :: "string option"
  cc_ids :: "string list"
  responses :: "(string \<times> response) list"

record build_details =
  detail_device :: string
  detail_errors :: "validation list"
  detail_warnings :: "validation list"

text \<open>Requests answer with the id of the request; the subscription with the updates until it ends, and with
  the exception that ended it, if any.\<close>

record 's ws_client =
  get_workspace :: "('s, api_state) op"
  create_workspace :: "('s, unit) op"
  build_workspace :: "('s, string) op"
  submit_workspace :: "bool \<Rightarrow> ('s, string) op"
  rebase_workspace :: "('s, string) op"
  abandon_workspace :: "('s, unit) op"
  delete_workspace :: "('s, unit) op"
  subscribe_workspace :: "('s, api_workspace list \<times> cv_exn option) op"
  get_workspace_build_details :: "string \<Rightarrow> ('s, build_details list) op"

fun first_response :: "string \<Rightarrow> api_workspace list \<Rightarrow> (response \<times> api_workspace) option" where
  "first_response rid [] = None"
| "first_response rid (u # us) =
     (case map_of (responses u) rid of
        Some r \<Rightarrow> (if resp_status r \<in> {StatusSuccess, StatusFail} then Some (r, u) else first_response rid us)
      | None \<Rightarrow> first_response rid us)"

definition wait_for_workspace_response :: "'s ws_client \<Rightarrow> string \<Rightarrow> ('s, response \<times> api_workspace) op" where
  "wait_for_workspace_response c rid =
     seq (subscribe_workspace c) (\<lambda>(updates, err).
       case first_response rid updates of
         Some r \<Rightarrow> ret r
       | None \<Rightarrow> fail (case err of Some e \<Rightarrow> e | None \<Rightarrow> CVResourceNotFound))"

definition wait_for_workspace_state :: "'s ws_client \<Rightarrow> api_state \<Rightarrow> ('s, api_workspace) op" where
  "wait_for_workspace_state c st =
     seq (subscribe_workspace c) (\<lambda>(updates, err).
       case find (\<lambda>u. api_state u = st) updates of
         Some u \<Rightarrow> ret u
       | None \<Rightarrow> fail (case err of Some e \<Rightarrow> e | None \<Rightarrow> CVWorkspaceFailed))"

section \<open>The part of the result that these workflows update\<close>

datatype warning =
    NonStreamingDevices "(string \<times> string option) list"
  | BadPattern string
  | DeviceNotTargeted string
  | DuplicatedDevicesWarning
  | MissingDevices "avd_device list"
  | ManifestMissing nat
  | MetadataStudioMissing
  | HopCountIgnored
  | AppProfilesIgnored
  | ApplicationsIgnored
  | LocationIgnored
  | UnsupportedExitPolicy string string string  \<comment> \<open>name, type, hostname\<close>
  | ZscalerIgnored

record run =
  workspace :: cv_workspace
  warnings :: "warning list"

type_synonym ('s, 'x) on_run = "'s \<times> 'x run_scheme"

definition the_ws :: "('s \<times> 'x run_scheme, cv_workspace) op" where
  "the_ws = seq get_state (\<lambda>s. ret (workspace (snd s)))"

definition set_ws :: "(cv_workspace \<Rightarrow> cv_workspace) \<Rightarrow> ('s \<times> 'x run_scheme, unit) op" where
  "set_ws f = on_lists (\<lambda>r. r\<lparr>workspace := f (workspace r)\<rparr>)"

definition warn :: "warning list \<Rightarrow> ('s \<times> 'x run_scheme, unit) op" where
  "warn ws = on_lists (\<lambda>r. r\<lparr>warnings := warnings r @ ws\<rparr>)"

section \<open>Creation\<close>

definition create_workspace_on_cv :: "'s ws_client \<Rightarrow> ('s \<times> 'x run_scheme, unit) op" where
  "create_workspace_on_cv c =
     handle (on_client (get_workspace c))
       (\<lambda>st. if st = API_PENDING then set_ws (\<lambda>w. w\<lparr>ws_state := Some Pending\<rparr>) else fail CVResourceInvalidState)
       (\<lambda>e. if e = CVResourceNotFound then
              seq (on_client (create_workspace c)) (\<lambda>_.
              seq (on_client (wait_for_workspace_state c API_PENDING)) (\<lambda>_.
                set_ws (\<lambda>w. w\<lparr>ws_state := Some Pending\<rparr>)))
            else fail e)"

section \<open>Details of the build\<close>

text \<open>\<open>compile\<close> is \<open>re.compile\<close> for the patterns of the user: None for a pattern with an error, else the full match.\<close>

type_synonym pattern = "string \<Rightarrow> bool"

definition portfast_pattern :: string where
  "portfast_pattern =
     ''^! portfast should only be enabled on ports connected to a single host. Connecting hubs, concentrators, switches, bridges, etc. '' @
     ''to this interface when portfast is enabled can cause temporary bridging loops. Use with CAUTION.$''"

definition prepare_suppress_patterns ::
  "(string \<Rightarrow> pattern option) \<Rightarrow> build_warnings_config \<Rightarrow> pattern list \<times> warning list" where
  "prepare_suppress_patterns compile cfg =
     (let ps = remdups (suppress_patterns cfg @ (if suppress_portfast cfg then [portfast_pattern] else []))
      in (List.map_filter compile ps, map BadPattern (filter (\<lambda>p. compile p = None) ps)))"

definition warning_is_suppressed :: "pattern list \<Rightarrow> validation \<Rightarrow> bool" where
  "warning_is_suppressed ps v \<longleftrightarrow> (\<exists>p \<in> set ps. p (fst v))"

definition has_unsuppressed_warnings :: "pattern list \<Rightarrow> build_details \<Rightarrow> bool" where
  "has_unsuppressed_warnings ps d \<longleftrightarrow> ps = [] \<or> (\<exists>v \<in> set (detail_warnings d). \<not> warning_is_suppressed ps v)"

definition should_include :: "build_warnings_config \<Rightarrow> pattern list \<Rightarrow> build_details \<Rightarrow> bool" where
  "should_include cfg ps d \<longleftrightarrow>
     detail_errors d \<noteq> [] \<or> (warnings_enabled cfg \<and> detail_warnings d \<noteq> [] \<and> has_unsuppressed_warnings ps d)"

definition build_warnings_list :: "build_warnings_config \<Rightarrow> pattern list \<Rightarrow> build_details \<Rightarrow> validation list" where
  "build_warnings_list cfg ps d =
     (if warnings_enabled cfg then filter (\<lambda>v. \<not> warning_is_suppressed ps v) (detail_warnings d) else [])"

fun build_results ::
  "build_warnings_config \<Rightarrow> pattern list \<Rightarrow> devices \<Rightarrow> dev_ref list \<Rightarrow> build_details list \<Rightarrow> device_build_result list \<times> warning list" where
  "build_results cfg ps devs refs [] = ([], [])"
| "build_results cfg ps devs refs (d # ds) =
     (let (rs, ws) = build_results cfg ps devs refs ds
      in if \<not> should_include cfg ps d then (rs, ws)
         else case find (\<lambda>r. serial_number (devs r) = Some (detail_device d)) refs of
           None \<Rightarrow> (rs, DeviceNotTargeted (detail_device d) # ws)
         | Some r \<Rightarrow>
             (\<lparr>result_device = r, result_errors = detail_errors d, result_warnings = build_warnings_list cfg ps d\<rparr> # rs, ws))"

definition process_workspace_build_details ::
  "'s ws_client \<Rightarrow> (string \<Rightarrow> pattern option) \<Rightarrow> devices \<Rightarrow> dev_ref list \<Rightarrow> ('s \<times> 'x run_scheme, device_build_result list) op" where
  "process_workspace_build_details c compile devs refs =
     seq the_ws (\<lambda>w.
       if \<not> is_set (build_id w) then ret []
       else seq (on_client (get_workspace_build_details c (the (build_id w)))) (\<lambda>details.
         if details = [] then ret []
         else
           let cfg = ws_build_warnings (avd_ws w);
               (ps, bad) = (if warnings_enabled cfg then prepare_suppress_patterns compile cfg else ([], []));
               (results, ws) = build_results cfg ps devs refs details
           in seq (warn (bad @ ws)) (\<lambda>_. ret results)))"

section \<open>Finalization\<close>

fun as_state :: "requested_state \<Rightarrow> workspace_state" where
  "as_state ReqPending = Pending"
| "as_state ReqBuilt = Built"
| "as_state ReqSubmitted = Submitted"
| "as_state ReqAbandoned = Abandoned"
| "as_state ReqDeleted = Deleted"

definition non_streaming :: "devices \<Rightarrow> dev_ref list \<Rightarrow> (string \<times> string option) list" where
  "non_streaming devs refs =
     map (\<lambda>r. (hostname (devs r), serial_number (devs r))) (filter (\<lambda>r. streaming (devs r) \<noteq> Some True) refs)"

definition submit_and_wait :: "'s ws_client \<Rightarrow> devices \<Rightarrow> dev_ref list \<Rightarrow> ('s \<times> 'x run_scheme, unit) op" where
  "submit_and_wait c devs refs =
     seq the_ws (\<lambda>w.
     seq (on_client (submit_workspace c (ws_force (avd_ws w)))) (\<lambda>rid.
     seq (on_client (wait_for_workspace_response c rid)) (\<lambda>(result, cvws).
     seq (if non_streaming devs refs = [] then ret () else warn [NonStreamingDevices (non_streaming devs refs)]) (\<lambda>_.
       if resp_status result \<noteq> StatusSuccess then
         seq (set_ws (\<lambda>w. w\<lparr>ws_state := Some SubmitFailed\<rparr>)) (\<lambda>_.
           case resp_code result of
             SynchronizationRequired \<Rightarrow> set_ws (\<lambda>w. w\<lparr>synchronization_required := True\<rparr>)
           | InactiveDevicesExist \<Rightarrow> fail CVWorkspaceSubmitFailedInactiveDevices
           | _ \<Rightarrow> fail CVWorkspaceSubmitFailed)
       else
         seq (set_ws (\<lambda>w. w\<lparr>ws_state := Some Submitted\<rparr>)) (\<lambda>_.
           case cc_ids cvws of i # _ \<Rightarrow> set_ws (\<lambda>w. w\<lparr>change_control_id := Some i\<rparr>) | [] \<Rightarrow> ret ())))))"

definition finalize_built :: "'s ws_client \<Rightarrow> devices \<Rightarrow> dev_ref list \<Rightarrow> requested_state \<Rightarrow> ('s \<times> 'x run_scheme, unit) op" where
  "finalize_built c devs refs req =
     (case req of
        ReqSubmitted \<Rightarrow> submit_and_wait c devs refs
      | ReqAbandoned \<Rightarrow> seq (on_client (abandon_workspace c)) (\<lambda>_. set_ws (\<lambda>w. w\<lparr>ws_state := Some Abandoned\<rparr>))
      | ReqDeleted \<Rightarrow> seq (on_client (delete_workspace c)) (\<lambda>_. set_ws (\<lambda>w. w\<lparr>ws_state := Some Deleted\<rparr>))
      | _ \<Rightarrow> ret ())"

definition build_failed :: "'s ws_client \<Rightarrow> requested_state \<Rightarrow> ('s \<times> 'x run_scheme, unit) op" where
  "build_failed c req =
     seq (set_ws (\<lambda>w. w\<lparr>ws_state := Some BuildFailed\<rparr>)) (\<lambda>_.
     seq (if req = ReqAbandoned
          then seq (on_client (abandon_workspace c)) (\<lambda>_. set_ws (\<lambda>w. w\<lparr>ws_state := Some Abandoned\<rparr>))
          else ret ()) (\<lambda>_.
       fail CVWorkspaceBuildFailed))"

text \<open>From the answer to the build on\<close>

definition finish_build ::
  "'s ws_client \<Rightarrow> (string \<Rightarrow> pattern option) \<Rightarrow> devices \<Rightarrow> dev_ref list \<Rightarrow> requested_state \<Rightarrow> response \<Rightarrow> ('s \<times> 'x run_scheme, unit) op" where
  "finish_build c compile devs refs req result =
     seq (process_workspace_build_details c compile devs refs) (\<lambda>results.
     seq (set_ws (\<lambda>w. w\<lparr>device_build_results := results\<rparr>)) (\<lambda>_.
       if resp_status result \<noteq> StatusSuccess then build_failed c req
       else seq (set_ws (\<lambda>w. w\<lparr>ws_state := Some Built\<rparr>)) (\<lambda>_. finalize_built c devs refs req)))"

definition finalize_workspace_on_cv ::
  "'s ws_client \<Rightarrow> (string \<Rightarrow> pattern option) \<Rightarrow> devices \<Rightarrow> dev_ref list \<Rightarrow> ('s \<times> 'x run_scheme, unit) op" where
  "finalize_workspace_on_cv c compile devs refs =
     seq the_ws (\<lambda>w. let req = ws_requested (avd_ws w) in
       if ws_state w = Some (as_state req) \<or> req = ReqPending then ret ()
       else
         seq (on_client (build_workspace c)) (\<lambda>rid.
         seq (on_client (wait_for_workspace_response c rid)) (\<lambda>(result, cvws).
           if needs_rebase cvws then set_ws (\<lambda>w. w\<lparr>synchronization_required := True\<rparr>)
           else seq (set_ws (\<lambda>w. w\<lparr>build_id := last_build_id cvws\<rparr>)) (\<lambda>_. finish_build c compile devs refs req result))))"

definition rebase_workspace_on_cv :: "'s ws_client \<Rightarrow> ('s \<times> 'x run_scheme, unit) op" where
  "rebase_workspace_on_cv c =
     seq (on_client (rebase_workspace c)) (\<lambda>rid.
     seq (on_client (wait_for_workspace_response c rid)) (\<lambda>(result, _).
       if resp_status result \<noteq> StatusSuccess then
         seq (set_ws (\<lambda>w. w\<lparr>ws_state := Some SynchronizationFailed\<rparr>)) (\<lambda>_. fail CVWorkspaceSynchronizationFailed)
       else set_ws (\<lambda>w. w\<lparr>synchronization_required := False\<rparr>)))"

section \<open>What the workflows send\<close>

text \<open>A client that keeps a log of the requests it sent, failed ones included, and of the updates it got\<close>

datatype ws_event =
    Read | AskedCreate | AskedBuild "string option" | AskedSubmit bool | AskedRebase | AskedAbandon | AskedDelete
  | Updates "api_workspace list"

definition log_call :: "('a option \<Rightarrow> ws_event) \<Rightarrow> ('s, 'a) op \<Rightarrow> ('s \<times> ws_event list, 'a) op" where
  "log_call ev m s =
     (case m (fst s) of
        (Inr x, t) \<Rightarrow> (Inr x, (t, snd s @ [ev (Some x)]))
      | (Inl e, t) \<Rightarrow> (Inl e, (t, snd s @ [ev None])))"

definition logged :: "'s ws_client \<Rightarrow> ('s \<times> ws_event list) ws_client" where
  "logged c =
     \<lparr>get_workspace = log_call (\<lambda>_. Read) (get_workspace c),
      create_workspace = log_call (\<lambda>_. AskedCreate) (create_workspace c),
      build_workspace = log_call AskedBuild (build_workspace c),
      submit_workspace = (\<lambda>force. log_call (\<lambda>_. AskedSubmit force) (submit_workspace c force)),
      rebase_workspace = log_call (\<lambda>_. AskedRebase) (rebase_workspace c),
      abandon_workspace = log_call (\<lambda>_. AskedAbandon) (abandon_workspace c),
      delete_workspace = log_call (\<lambda>_. AskedDelete) (delete_workspace c),
      subscribe_workspace = log_call (\<lambda>u. case u of Some (us, _) \<Rightarrow> Updates us | None \<Rightarrow> Read) (subscribe_workspace c),
      get_workspace_build_details = (\<lambda>b. log_call (\<lambda>_. Read) (get_workspace_build_details c b))\<rparr>"

lemma logged_calls [simp]:
  "get_workspace (logged c) = log_call (\<lambda>_. Read) (get_workspace c)"
  "create_workspace (logged c) = log_call (\<lambda>_. AskedCreate) (create_workspace c)"
  "build_workspace (logged c) = log_call AskedBuild (build_workspace c)"
  "submit_workspace (logged c) force = log_call (\<lambda>_. AskedSubmit force) (submit_workspace c force)"
  "rebase_workspace (logged c) = log_call (\<lambda>_. AskedRebase) (rebase_workspace c)"
  "abandon_workspace (logged c) = log_call (\<lambda>_. AskedAbandon) (abandon_workspace c)"
  "delete_workspace (logged c) = log_call (\<lambda>_. AskedDelete) (delete_workspace c)"
  "subscribe_workspace (logged c) = log_call (\<lambda>u. case u of Some (us, _) \<Rightarrow> Updates us | None \<Rightarrow> Read) (subscribe_workspace c)"
  "get_workspace_build_details (logged c) b = log_call (\<lambda>_. Read) (get_workspace_build_details c b)"
  by (simp_all add: logged_def)

lemma after_log_call:
  "(\<And>x t. Q x (t, l @ [ev (Some x)])) \<Longrightarrow> (\<And>e t. E e (t, l @ [ev None])) \<Longrightarrow> after (log_call ev m) Q E (s, l)"
  by (auto simp: after_def log_call_def split: prod.splits sum.splits)

lemma after_wait [after_simps]:
  "after (wait_for_workspace_response c rid) Q E s =
     after (subscribe_workspace c) (\<lambda>(us, err) t.
       case first_response rid us of Some r \<Rightarrow> Q r t | None \<Rightarrow> E (case err of Some e \<Rightarrow> e | None \<Rightarrow> CVResourceNotFound) t) E s"
  unfolding wait_for_workspace_response_def after_simps
  by (rule arg_cong [where f = "\<lambda>Q. after _ Q E s"]) (auto simp: fun_eq_iff after_simps split: option.splits)

lemma after_the_ws [after_simps]: "after the_ws Q E (c, r) = Q (workspace r) (c, r)"
  by (simp add: the_ws_def after_simps)

lemma after_set_ws [after_simps]: "after (set_ws f) Q E (c, r) = Q () (c, r\<lparr>workspace := f (workspace r)\<rparr>)"
  by (simp add: set_ws_def after_simps)

lemma after_warn [after_simps]: "after (warn ws) Q E (c, r) = Q () (c, r\<lparr>warnings := warnings r @ ws\<rparr>)"
  by (simp add: warn_def after_simps)

text \<open>Fetching the details sends nothing and leaves the workspace as it is.\<close>

lemma after_build_details:
  assumes "\<And>x t l' r'. l' = l \<or> l' = l @ [Read] \<Longrightarrow> workspace r' = workspace r \<Longrightarrow> Q x ((t, l'), r')"
    and "\<And>e t l' r'. l' = l \<or> l' = l @ [Read] \<Longrightarrow> workspace r' = workspace r \<Longrightarrow> E e ((t, l'), r')"
  shows "after (process_workspace_build_details (logged c) compile devs refs) Q E ((s, l), r)"
proof (cases "is_set (build_id (workspace r))")
  case True
  then show ?thesis
    unfolding process_workspace_build_details_def after_simps
    by (auto simp: after_simps Let_def split: prod.splits intro!: after_log_call assms)
qed (simp add: process_workspace_build_details_def after_simps assms)

text \<open>The build that a log starts with succeeded and does not ask for a rebase.\<close>

fun built_ok :: "ws_event list \<Rightarrow> bool" where
  "built_ok (AskedBuild (Some rid) # Updates us # _) =
     (case first_response rid us of Some (r, u) \<Rightarrow> resp_status r = StatusSuccess \<and> \<not> needs_rebase u | None \<Rightarrow> False)"
| "built_ok _ = False"

definition finalize_log_ok :: "avd_workspace \<Rightarrow> ws_event list \<Rightarrow> bool" where
  "finalize_log_ok a evs \<longleftrightarrow>
     (\<forall>f. AskedSubmit f \<in> set evs \<longrightarrow> ws_requested a = ReqSubmitted \<and> f = ws_force a \<and> built_ok evs) \<and>
     (AskedDelete \<in> set evs \<longrightarrow> ws_requested a = ReqDeleted \<and> built_ok evs) \<and>
     (AskedAbandon \<in> set evs \<longrightarrow> ws_requested a = ReqAbandoned) \<and>
     length (filter (\<lambda>e. \<exists>f. e = AskedSubmit f) evs) \<le> 1 \<and> length (filter (\<lambda>e. \<exists>i. e = AskedBuild i) evs) \<le> 1"

text \<open>The events of the submission\<close>

definition submit_events :: "bool \<Rightarrow> ws_event list \<Rightarrow> bool" where
  "submit_events f evs \<longleftrightarrow> (\<exists>xs. evs = AskedSubmit f # xs \<and> (xs = [] \<or> xs = [Read] \<or> (\<exists>us. xs = [Updates us])))"

lemma after_submit:
  assumes "\<And>t evs r'. submit_events (ws_force (avd_ws (workspace r))) evs \<Longrightarrow> avd_ws (workspace r') = avd_ws (workspace r) \<Longrightarrow>
      ws_state (workspace r') = Some Submitted \<or> synchronization_required (workspace r') \<Longrightarrow> Q () ((t, l @ evs), r')"
    and "\<And>e t evs r'. submit_events (ws_force (avd_ws (workspace r))) evs \<Longrightarrow> avd_ws (workspace r') = avd_ws (workspace r) \<Longrightarrow>
      E e ((t, l @ evs), r')"
  shows "after (submit_and_wait (logged c) devs refs) Q E ((s, l), r)"
  unfolding submit_and_wait_def after_simps
  using assms by (auto simp: after_simps submit_events_def split: option.splits list.splits response_code.splits prod.splits intro!: after_log_call)

lemma submit_events_filter:
  assumes "submit_events f evs"
  shows "\<And>g. AskedSubmit g \<in> set evs \<longleftrightarrow> g = f" "AskedDelete \<notin> set evs" "AskedAbandon \<notin> set evs"
    "length (filter (\<lambda>e. \<exists>f. e = AskedSubmit f) evs) = 1" "filter (\<lambda>e. \<exists>i. e = AskedBuild i) evs = []"
  using assms by (auto simp: submit_events_def)

text \<open>After a build that succeeded, an event list of one of the three endings is fine.\<close>

lemma finalize_log_ok_built:
  assumes "first_response rid us = Some (q, u)" "resp_status q = StatusSuccess" "\<not> needs_rebase u"
    and "ws = [] \<or> ws = [Read]"
    and "evs = [] \<or> (ws_requested a = ReqSubmitted \<and> submit_events (ws_force a) evs) \<or>
      (ws_requested a = ReqAbandoned \<and> evs = [AskedAbandon]) \<or> (ws_requested a = ReqDeleted \<and> evs = [AskedDelete])"
  shows "finalize_log_ok a ([AskedBuild (Some rid), Updates us] @ ws @ evs)"
proof -
  have ok: "built_ok ([AskedBuild (Some rid), Updates us] @ xs)" for xs using assms(1-3) by simp
  from assms(5) consider "evs = []" | "ws_requested a = ReqSubmitted" "submit_events (ws_force a) evs"
    | "ws_requested a = ReqAbandoned" "evs = [AskedAbandon]" | "ws_requested a = ReqDeleted" "evs = [AskedDelete]" by blast
  then show ?thesis
  proof cases
    case 2
    note f = submit_events_filter [OF 2(2)]
    have ws: "filter p ws = [] \<and> AskedSubmit g \<notin> set ws \<and> AskedDelete \<notin> set ws \<and> AskedAbandon \<notin> set ws"
      if "\<not> p Read" for p g using assms(4) that by auto
    show ?thesis
      using 2(1) f ok [of "ws @ evs"] ws unfolding finalize_log_ok_def by simp
  next
    case 4
    with ok [of "ws @ evs"] assms(4) show ?thesis by (auto simp: finalize_log_ok_def)
  qed (use assms(4) in \<open>auto simp: finalize_log_ok_def\<close>)
qed

lemma finalize_log_ok_other:
  "finalize_log_ok a []" "finalize_log_ok a [AskedBuild i]" "finalize_log_ok a [AskedBuild i, Read]"
  "finalize_log_ok a [AskedBuild i, Updates us]" "finalize_log_ok a [AskedBuild i, Updates us, Read]"
  "ws_requested a = ReqAbandoned \<Longrightarrow> finalize_log_ok a [AskedBuild i, Updates us, AskedAbandon]"
  "ws_requested a = ReqAbandoned \<Longrightarrow> finalize_log_ok a [AskedBuild i, Updates us, Read, AskedAbandon]"
  by (auto simp: finalize_log_ok_def)

lemma after_finalize_built:
  assumes "req = ws_requested (avd_ws (workspace r))" "req \<noteq> ReqPending" "ws_state (workspace r) = Some Built"
    and "\<And>t evs r'. evs = [] \<or> (req = ReqSubmitted \<and> submit_events (ws_force (avd_ws (workspace r))) evs) \<or>
        (req = ReqAbandoned \<and> evs = [AskedAbandon]) \<or> (req = ReqDeleted \<and> evs = [AskedDelete]) \<Longrightarrow>
      avd_ws (workspace r') = avd_ws (workspace r) \<Longrightarrow>
      ws_state (workspace r') = Some (as_state req) \<or> synchronization_required (workspace r') \<Longrightarrow> Q () ((t, l @ evs), r')"
    and "\<And>e t evs r'. evs = [] \<or> (req = ReqSubmitted \<and> submit_events (ws_force (avd_ws (workspace r))) evs) \<or>
        (req = ReqAbandoned \<and> evs = [AskedAbandon]) \<or> (req = ReqDeleted \<and> evs = [AskedDelete]) \<Longrightarrow>
      avd_ws (workspace r') = avd_ws (workspace r) \<Longrightarrow> E e ((t, l @ evs), r')"
  shows "after (finalize_built (logged c) devs refs req) Q E ((s, l), r)"
proof (cases req)
  case ReqSubmitted
  then show ?thesis unfolding finalize_built_def
    by (simp, intro after_submit) (rule assms(4,5); simp)+
next
  case ReqBuilt
  with assms(3) assms(4) [of "[]" r] show ?thesis by (simp add: finalize_built_def after_simps)
qed (use assms in \<open>auto simp: finalize_built_def after_simps intro!: after_log_call\<close>)

definition sent :: "avd_workspace \<Rightarrow> ws_event list \<Rightarrow> ws_event list \<Rightarrow> bool" where
  "sent a l l' \<longleftrightarrow> (\<exists>evs. l' = l @ evs \<and> finalize_log_ok a evs)"

lemma sentI: "finalize_log_ok a evs \<Longrightarrow> sent a l (l @ evs)"
  by (auto simp: sent_def)

lemmas sent_other = finalize_log_ok_other [THEN sentI]

definition finalized :: "avd_workspace \<Rightarrow> ws_event list \<Rightarrow> unit \<Rightarrow> ('s \<times> ws_event list) \<times> 'x run_scheme \<Rightarrow> bool" where
  "finalized a l x s \<longleftrightarrow> sent a l (snd (fst s)) \<and> avd_ws (workspace (snd s)) = a \<and>
     (ws_requested a = ReqPending \<or> ws_state (workspace (snd s)) = Some (as_state (ws_requested a)) \<or>
      synchronization_required (workspace (snd s)))"

definition not_finalized :: "avd_workspace \<Rightarrow> ws_event list \<Rightarrow> cv_exn \<Rightarrow> ('s \<times> ws_event list) \<times> 'x run_scheme \<Rightarrow> bool" where
  "not_finalized a l e s \<longleftrightarrow> sent a l (snd (fst s)) \<and> avd_ws (workspace (snd s)) = a"

lemma after_build_result:
  fixes r :: "'x run_scheme" and c :: "'s ws_client"
  assumes "avd_ws (workspace r) = a" "ws_requested a \<noteq> ReqPending"
    and "first_response rid us = Some (q, u)" "\<not> needs_rebase u"
  shows "after (finish_build (logged c) compile devs refs (ws_requested a) q)
      (finalized a l) (not_finalized a l) ((t, l @ [AskedBuild (Some rid), Updates us]), r)"
  unfolding finish_build_def
proof (subst after_seq, rule after_build_details)
  let ?l = "l @ [AskedBuild (Some rid), Updates us]"
  fix x l' and t :: 's and r' :: "'x run_scheme"
  assume "l' = ?l \<or> l' = ?l @ [Read]" and r': "workspace r' = workspace r"
  then obtain ws where ws: "ws = [] \<or> ws = [Read]" "l' = l @ [AskedBuild (Some rid), Updates us] @ ws" by auto
  show "after (seq (set_ws (\<lambda>w. w\<lparr>device_build_results := x\<rparr>)) (\<lambda>_.
       if resp_status q \<noteq> StatusSuccess then build_failed (logged c) (ws_requested a)
       else seq (set_ws (\<lambda>w. w\<lparr>ws_state := Some Built\<rparr>)) (\<lambda>_. finalize_built (logged c) devs refs (ws_requested a))))
      (finalized a l) (not_finalized a l) ((t, l'), r')"
  proof (cases "resp_status q = StatusSuccess")
    case True
    note ok = finalize_log_ok_built [OF assms(3) True assms(4) ws(1), THEN sentI]
    show ?thesis
      unfolding ws(2) using True
      by (simp add: after_simps, intro after_finalize_built)
        (use assms(1,2) r' ok in \<open>auto simp: finalized_def not_finalized_def\<close>)
  next
    case False
    then show ?thesis
      unfolding ws(2) using ws(1) assms(1) r' sent_other [of a]
      by (auto simp: build_failed_def after_simps not_finalized_def intro!: after_log_call)
  qed
qed (use assms(1) sent_other [of a] in \<open>auto simp: not_finalized_def\<close>)

lemma finalize_workspace_sends_core:
  assumes a: "avd_ws (workspace r) = a"
  shows "after (finalize_workspace_on_cv (logged c) compile devs refs) (finalized a l) (not_finalized a l) ((s, l), r)"
proof (cases "ws_state (workspace r) = Some (as_state (ws_requested a)) \<or> ws_requested a = ReqPending")
  case True
  with a sent_other(1) [of a l] show ?thesis
    by (auto simp: finalize_workspace_on_cv_def after_simps Let_def finalized_def)
next
  case req: False
  then show ?thesis
    unfolding finalize_workspace_on_cv_def after_simps Let_def a
    using sent_other [of a l] a
    by (auto simp: after_simps finalized_def not_finalized_def split: option.splits prod.splits intro!: after_log_call after_build_result)
qed


text \<open>A server for examples: it accepts every request and reports that the request succeeded.\<close>

definition agreeable :: "'s ws_client" where
  "agreeable =
     \<lparr>get_workspace = ret API_PENDING, create_workspace = ret (), build_workspace = ret ''b'',
      submit_workspace = (\<lambda>_. ret ''s''), rebase_workspace = ret ''r'', abandon_workspace = ret (), delete_workspace = ret (),
      subscribe_workspace = ret ([\<lparr>api_state = API_PENDING, needs_rebase = False, last_build_id = Some ''1'', cc_ids = [''cc''],
        responses = [(''b'', \<lparr>resp_status = StatusSuccess, resp_code = CodeUnspecified\<rparr>),
                     (''s'', \<lparr>resp_status = StatusSuccess, resp_code = CodeUnspecified\<rparr>)]\<rparr>], None),
      get_workspace_build_details = (\<lambda>_. ret [])\<rparr>"

definition quiet_warnings :: build_warnings_config where
  "quiet_warnings = \<lparr>warnings_enabled = False, suppress_patterns = [], suppress_portfast = False\<rparr>"


end
