(* ===== verification/CvInputs.thy ===== *)
theory CvInputs
  imports CvWorkspace PyData
begin

text \<open>
  The checks of the devices before a deployment: \<open>verify_inputs.py\<close> (overlapping serial numbers and MAC addresses) and
  \<open>verify_devices_on_cv.py\<close> (the devices in the inventory and in the topology studio) of \<open>pyavd/_cv/workflows\<close>. A
  set is modelled by the list of its elements without repetitions.
\<close>

section \<open>Duplicated devices\<close>

record duplicated_devices =
  dup_serial :: "(string \<times> dev_ref list) list"
  dup_mac_unset_or_mixed :: "(string \<times> dev_ref list) list"
  dup_mac_set :: "(string \<times> dev_ref list) list"

definition detected :: "duplicated_devices \<Rightarrow> bool" where
  "detected d \<longleftrightarrow> dup_serial d \<noteq> [] \<or> dup_mac_unset_or_mixed d \<noteq> [] \<or> dup_mac_set d \<noteq> []"

definition duplicates :: "(dev_ref \<Rightarrow> string option) \<Rightarrow> dev_ref list \<Rightarrow> (string \<times> dev_ref list) list" where
  "duplicates attr refs = groupby_obj (\<lambda>r. the (attr r)) (filter (\<lambda>r. attr r \<noteq> None) refs) True"

definition identify_duplicated_devices :: "devices \<Rightarrow> dev_ref list \<Rightarrow> duplicated_devices" where
  "identify_duplicated_devices devs refs =
     (let macs = duplicates (\<lambda>r. system_mac_address (devs r)) refs;
          safe = (\<lambda>(m, g). \<forall>r \<in> set g. is_set (serial_number (devs r)))
      in \<lparr>dup_serial = duplicates (\<lambda>r. serial_number (devs r)) refs,
          dup_mac_unset_or_mixed = filter (\<lambda>g. \<not> safe g) macs,
          dup_mac_set = filter safe macs\<rparr>)"

definition duplicated_devices_handler :: "duplicated_devices \<Rightarrow> bool \<Rightarrow> (cv_exn, warning list) result" where
  "duplicated_devices_handler d strict =
     (if dup_serial d \<noteq> [] \<or> dup_mac_unset_or_mixed d \<noteq> [] \<or> (dup_mac_set d \<noteq> [] \<and> strict)
      then Inl CVDuplicatedDevices else Inr [DuplicatedDevicesWarning])"

definition verify_device_inputs :: "devices \<Rightarrow> dev_ref list \<Rightarrow> bool \<Rightarrow> (cv_exn, warning list) result" where
  "verify_device_inputs devs refs strict =
     (let d = identify_duplicated_devices devs refs
      in if detected d then duplicated_devices_handler d strict else Inr [])"

section \<open>Devices on CloudVision\<close>

datatype streaming_status = StreamingUnspecified | StreamingInactive | StreamingActive

fun get_device_streaming_state :: "streaming_status \<Rightarrow> bool option" where
  "get_device_streaming_state StreamingActive = Some True"
| "get_device_streaming_state StreamingInactive = Some False"
| "get_device_streaming_state StreamingUnspecified = None"

record found_device =
  found_id :: string
  found_mac :: string
  found_hostname :: string
  found_status :: streaming_status

text \<open>Serial number, MAC address and hostname: what the inventory is asked for, and an input of the topology studio\<close>

type_synonym device_tuple = "string option \<times> string option \<times> string option"

record topology_input =
  topo_device :: string
  topo_hostname :: string
  topo_mac :: "string option"

record 's inventory_client =
  get_inventory_devices :: "device_tuple list \<Rightarrow> ('s, found_device list) op"
  get_topology_studio_inputs :: "string list \<Rightarrow> ('s, topology_input list) op"
  set_topology_studio_inputs :: "(string option \<times> string \<times> string option) list \<Rightarrow> ('s, unit) op"

definition query_tuple :: "cv_device \<Rightarrow> device_tuple" where
  "query_tuple d =
     (serial_number d, system_mac_address d,
      if is_set (serial_number d) \<or> is_set (system_mac_address d) then None else Some (hostname d))"

definition found_by :: "(found_device \<Rightarrow> string) \<Rightarrow> found_device list \<Rightarrow> string \<Rightarrow> found_device option" where
  "found_by key fs = map_of (dict_of (map (\<lambda>f. (key f, f)) fs))"

text \<open>The device as the inventory knows it, None if it is missing\<close>

definition identify_device :: "found_device list \<Rightarrow> cv_device \<Rightarrow> cv_device option" where
  "identify_device fs d =
     (case serial_number d of
        Some s \<Rightarrow>
          map_option (\<lambda>f. d\<lparr>exists_on_cv := Some True, system_mac_address := Some (found_mac f),
            streaming := get_device_streaming_state (found_status f)\<rparr>) (found_by found_id fs s)
      | None \<Rightarrow>
          (case system_mac_address d of
             Some m \<Rightarrow>
               map_option (\<lambda>f. d\<lparr>exists_on_cv := Some True, serial_number := Some (found_id f),
                 streaming := get_device_streaming_state (found_status f)\<rparr>) (found_by found_mac fs m)
           | None \<Rightarrow>
               map_option (\<lambda>f. d\<lparr>exists_on_cv := Some True, serial_number := Some (found_id f),
                 system_mac_address := Some (found_mac f), streaming := get_device_streaming_state (found_status f)\<rparr>)
                 (found_by found_hostname fs (hostname d))))"

fun identify_devices :: "found_device list \<Rightarrow> dev_ref list \<Rightarrow> devices \<Rightarrow> devices \<times> dev_ref list" where
  "identify_devices fs [] devs = (devs, [])"
| "identify_devices fs (r # rs) devs =
     (case identify_device fs (devs r) of
        None \<Rightarrow> identify_devices fs rs (devs(r := (devs r)\<lparr>exists_on_cv := Some False\<rparr>))
      | Some d \<Rightarrow> (case identify_devices fs rs (devs(r := d)) of (devs', ex) \<Rightarrow> (devs', r # ex)))"

definition missing_devices_handler :: "avd_device list \<Rightarrow> bool \<Rightarrow> (cv_exn, warning) result" where
  "missing_devices_handler missing skip =
     (if skip then Inr (MissingDevices (remdups missing)) else Inl CVResourceNotFound)"

text \<open>The store of the devices is part of the state from here on.\<close>

record dev_run = run +
  device_store :: devices

definition the_devices :: "('s \<times> 'x dev_run_scheme, devices) op" where
  "the_devices = seq get_state (\<lambda>s. ret (device_store (snd s)))"

definition set_devices :: "devices \<Rightarrow> ('s \<times> 'x dev_run_scheme, unit) op" where
  "set_devices devs = on_lists (\<lambda>r. r\<lparr>device_store := devs\<rparr>)"

definition of_result :: "(cv_exn, 'a) result \<Rightarrow> ('s, 'a) op" where
  "of_result r = (case r of Inl e \<Rightarrow> fail e | Inr x \<Rightarrow> ret x)"

definition verify_devices_in_inventory ::
  "'s inventory_client \<Rightarrow> dev_ref list \<Rightarrow> bool \<Rightarrow> ('s \<times> 'x dev_run_scheme, dev_ref list) op" where
  "verify_devices_in_inventory c refs skip =
     seq the_devices (\<lambda>devs.
     seq (on_client (get_inventory_devices c
            (remdups (map (\<lambda>r. query_tuple (devs r)) (filter (\<lambda>r. exists_on_cv (devs r) = None) refs))))) (\<lambda>fs.
       let (devs', ex) = identify_devices fs refs devs;
           missing = map (\<lambda>r. avd_device (devs' r)) (filter (\<lambda>r. exists_on_cv (devs' r) \<noteq> Some True) refs)
       in seq (set_devices devs') (\<lambda>_.
          if missing = [] then ret ex
          else seq (of_result (missing_devices_handler missing skip)) (\<lambda>w. seq (warn [w]) (\<lambda>_. ret ex)))))"

definition topology_updates ::
  "devices \<Rightarrow> dev_ref list \<Rightarrow> topology_input list \<Rightarrow> (string option \<times> string \<times> string option) list" where
  "topology_updates devs refs inputs =
     filter (\<lambda>(serial, name, mac).
         case Option.bind serial (map_of (dict_of (map (\<lambda>i. (topo_device i, i)) inputs))) of
           None \<Rightarrow> True
         | Some i \<Rightarrow> name \<noteq> topo_hostname i \<or> mac \<noteq> topo_mac i)
       (remdups (map (\<lambda>r. (serial_number (devs r), hostname (devs r), system_mac_address (devs r))) refs))"

definition verify_devices_in_topology_studio ::
  "'s inventory_client \<Rightarrow> dev_ref list \<Rightarrow> ('s \<times> 'x dev_run_scheme, unit) op" where
  "verify_devices_in_topology_studio c refs =
     seq the_devices (\<lambda>devs.
     seq (on_client (get_topology_studio_inputs c (remdups (List.map_filter (\<lambda>r. serial_number (devs r)) refs)))) (\<lambda>inputs.
       if topology_updates devs refs inputs = [] then ret ()
       else on_client (set_topology_studio_inputs c (topology_updates devs refs inputs))))"

definition verify_devices_on_cv ::
  "'s inventory_client \<Rightarrow> dev_ref list \<Rightarrow> bool \<Rightarrow> ('s \<times> 'x dev_run_scheme, unit) op" where
  "verify_devices_on_cv c refs skip =
     (if refs = [] then ret ()
      else seq (verify_devices_in_inventory c refs skip) (\<lambda>ex. verify_devices_in_topology_studio c ex))"

section \<open>Lemmas\<close>

lemma duplicates_mem:
  "(k, g) \<in> set (duplicates attr refs) \<longleftrightarrow> g = filter (\<lambda>r. attr r = Some k) refs \<and> 1 < length g"
proof -
  have "filter (\<lambda>r. the (attr r) = k) (filter (\<lambda>r. attr r \<noteq> None) refs) = filter (\<lambda>r. attr r = Some k) refs"
    by (induction refs) auto
  then show ?thesis
    using groupby_obj_groups [of "\<lambda>r. the (attr r)" "filter (\<lambda>r. attr r \<noteq> None) refs" True]
    unfolding duplicates_def by simp
qed

lemma two_in_filter:
  "1 < length (filter P xs) \<longleftrightarrow> (\<exists>i j. i < j \<and> j < length xs \<and> P (xs ! i) \<and> P (xs ! j))"
proof
  assume "1 < length (filter P xs)"
  then obtain y z rest where "filter P xs = y # z # rest" by (cases "filter P xs" rule: remdups_adj.cases) auto
  from filter_eq_ConsD [OF this] obtain us vs where 1: "xs = us @ y # vs" "P y" "filter P vs = z # rest" by auto
  from filter_eq_ConsD [OF 1(3)] obtain us' vs' where 2: "vs = us' @ z # vs'" "P z" by auto
  have "xs ! length us = y" "xs ! (length us + Suc (length us')) = z" "length us + Suc (length us') < length xs"
    unfolding 1 2 by (simp_all add: nth_append)
  then show "\<exists>i j. i < j \<and> j < length xs \<and> P (xs ! i) \<and> P (xs ! j)"
    using 1(2) 2(2) by (metis less_add_Suc1 add_Suc_right)
next
  assume "\<exists>i j. i < j \<and> j < length xs \<and> P (xs ! i) \<and> P (xs ! j)"
  then obtain i j where ij: "i < j" "j < length xs" "P (xs ! i)" "P (xs ! j)" by blast
  then have "{i, j} \<subseteq> {k. k < length xs \<and> P (xs ! k)}" by auto
  then have "card {i, j} \<le> card {k. k < length xs \<and> P (xs ! k)}" by (rule card_mono [rotated]) simp
  then show "1 < length (filter P xs)" using ij(1) by (simp add: length_filter_conv_card)
qed

lemma duplicates_nonempty:
  "duplicates attr refs \<noteq> [] \<longleftrightarrow>
     (\<exists>i j k. i < j \<and> j < length refs \<and> attr (refs ! i) = Some k \<and> attr (refs ! j) = Some k)"
proof -
  have "duplicates attr refs \<noteq> [] \<longleftrightarrow> (\<exists>k g. (k, g) \<in> set (duplicates attr refs))"
    by (cases "duplicates attr refs") auto
  also have "\<dots> \<longleftrightarrow> (\<exists>k. 1 < length (filter (\<lambda>r. attr r = Some k) refs))" unfolding duplicates_mem by simp
  also have "\<dots> \<longleftrightarrow> (\<exists>i j k. i < j \<and> j < length refs \<and> attr (refs ! i) = Some k \<and> attr (refs ! j) = Some k)"
    unfolding two_in_filter by fast
  finally show ?thesis .
qed

lemma dup_mixed_nonempty:
  "dup_mac_unset_or_mixed (identify_duplicated_devices devs refs) \<noteq> [] \<longleftrightarrow>
     (\<exists>i j k. i \<noteq> j \<and> i < length refs \<and> j < length refs \<and> system_mac_address (devs (refs ! i)) = Some k \<and>
        system_mac_address (devs (refs ! j)) = Some k \<and> \<not> is_set (serial_number (devs (refs ! i))))" (is "?L \<longleftrightarrow> ?R")
proof -
  have "?L \<longleftrightarrow> (\<exists>k g. (k, g) \<in> set (duplicates (\<lambda>r. system_mac_address (devs r)) refs) \<and>
      (\<exists>r \<in> set g. \<not> is_set (serial_number (devs r))))"
    by (auto simp: identify_duplicated_devices_def Let_def filter_empty_conv)
  also have "\<dots> \<longleftrightarrow> ?R"
  proof
    assume "\<exists>k g. (k, g) \<in> set (duplicates (\<lambda>r. system_mac_address (devs r)) refs) \<and> (\<exists>r \<in> set g. \<not> is_set (serial_number (devs r)))"
    then obtain k g r where kg: "(k, g) \<in> set (duplicates (\<lambda>r. system_mac_address (devs r)) refs)" "r \<in> set g"
        "\<not> is_set (serial_number (devs r))" by blast
    then have g: "g = filter (\<lambda>r. system_mac_address (devs r) = Some k) refs"
      and "1 < length (filter (\<lambda>r. system_mac_address (devs r) = Some k) refs)" unfolding duplicates_mem by blast+
    from this(2) obtain i j where
      ij: "i < j" "j < length refs" "system_mac_address (devs (refs ! i)) = Some k" "system_mac_address (devs (refs ! j)) = Some k"
      unfolding two_in_filter by blast
    from kg g have r: "r \<in> set refs" "system_mac_address (devs r) = Some k" "\<not> is_set (serial_number (devs r))" by auto
    from r(1) obtain n where n: "n < length refs" "refs ! n = r" by (auto simp: in_set_conv_nth)
    show ?R
    proof (cases "n = i")
      case True
      with n r ij show ?R by (intro exI [of _ n] exI [of _ j]) auto
    next
      case False
      with n r ij show ?R by (intro exI [of _ n] exI [of _ i]) auto
    qed
  next
    assume ?R
    then obtain i j k where r: "i \<noteq> j" "i < length refs" "j < length refs" "system_mac_address (devs (refs ! i)) = Some k"
        "system_mac_address (devs (refs ! j)) = Some k" "\<not> is_set (serial_number (devs (refs ! i)))" by blast
    then have "1 < length (filter (\<lambda>r. system_mac_address (devs r) = Some k) refs)"
      unfolding two_in_filter by (metis linorder_neqE_nat)
    with r show "\<exists>k g. (k, g) \<in> set (duplicates (\<lambda>r. system_mac_address (devs r)) refs) \<and> (\<exists>r \<in> set g. \<not> is_set (serial_number (devs r)))"
      unfolding duplicates_mem
      by (intro exI [of _ k] exI [of _ "filter (\<lambda>r. system_mac_address (devs r) = Some k) refs"])
        (auto intro!: exI [of _ "refs ! i"])
  qed
  finally show ?thesis .
qed

lemma identify_parts:
  "dup_serial (identify_duplicated_devices devs refs) = duplicates (\<lambda>r. serial_number (devs r)) refs"
  "duplicates (\<lambda>r. system_mac_address (devs r)) refs = [] \<longleftrightarrow>
    dup_mac_unset_or_mixed (identify_duplicated_devices devs refs) = [] \<and> dup_mac_set (identify_duplicated_devices devs refs) = []"
proof -
  show "duplicates (\<lambda>r. system_mac_address (devs r)) refs = [] \<longleftrightarrow>
    dup_mac_unset_or_mixed (identify_duplicated_devices devs refs) = [] \<and> dup_mac_set (identify_duplicated_devices devs refs) = []"
    unfolding identify_duplicated_devices_def Let_def
    by (cases "duplicates (\<lambda>r. system_mac_address (devs r)) refs") auto
qed (simp add: identify_duplicated_devices_def Let_def)

text \<open>Two entries of the list have the same value of an attribute.\<close>

definition shared :: "(dev_ref \<Rightarrow> string option) \<Rightarrow> dev_ref list \<Rightarrow> nat \<Rightarrow> nat \<Rightarrow> bool" where
  "shared attr refs i j \<longleftrightarrow>
     i \<noteq> j \<and> i < length refs \<and> j < length refs \<and> attr (refs ! i) \<noteq> None \<and> attr (refs ! j) = attr (refs ! i)"

lemma duplicates_shared: "duplicates attr refs \<noteq> [] \<longleftrightarrow> (\<exists>i j. shared attr refs i j)"
proof
  assume "duplicates attr refs \<noteq> []"
  then obtain i j k where "i < j" "j < length refs" "attr (refs ! i) = Some k" "attr (refs ! j) = Some k"
    unfolding duplicates_nonempty by blast
  then have "shared attr refs i j" by (simp add: shared_def)
  then show "\<exists>i j. shared attr refs i j" by blast
next
  assume "\<exists>i j. shared attr refs i j"
  then obtain i j k where s: "i \<noteq> j" "i < length refs" "j < length refs" "attr (refs ! i) = Some k" "attr (refs ! j) = Some k"
    by (auto simp: shared_def)
  then show "duplicates attr refs \<noteq> []"
    unfolding duplicates_nonempty by (cases "i < j") (blast, metis linorder_neqE_nat)
qed

text \<open>What identifies a device: its serial number, else its MAC address, else its hostname\<close>

definition matches_device :: "cv_device \<Rightarrow> found_device \<Rightarrow> bool" where
  "matches_device d f \<longleftrightarrow>
     (case serial_number d of
        Some s \<Rightarrow> found_id f = s
      | None \<Rightarrow> (case system_mac_address d of Some m \<Rightarrow> found_mac f = m | None \<Rightarrow> found_hostname f = hostname d))"

lemma found_by_Some: "found_by key fs k = Some f \<Longrightarrow> f \<in> set fs \<and> key f = k"
  unfolding found_by_def dict_of_get by (drule map_of_SomeD) auto

lemma found_by_None: "found_by key fs k = None \<longleftrightarrow> (\<forall>f \<in> set fs. key f \<noteq> k)"
  unfolding found_by_def dict_of_get map_of_eq_None_iff by force

lemma identify_device_Some:
  assumes "identify_device fs d = Some d'"
  shows "\<exists>f \<in> set fs. matches_device d f \<and> serial_number d' = Some (found_id f) \<and> system_mac_address d' = Some (found_mac f) \<and>
    exists_on_cv d' = Some True \<and> avd_device d' = avd_device d"
proof -
  from assms consider s f where "serial_number d = Some s" "found_by found_id fs s = Some f"
      "d' = d\<lparr>exists_on_cv := Some True, system_mac_address := Some (found_mac f), streaming := get_device_streaming_state (found_status f)\<rparr>"
    | m f where "serial_number d = None" "system_mac_address d = Some m" "found_by found_mac fs m = Some f"
      "d' = d\<lparr>exists_on_cv := Some True, serial_number := Some (found_id f), streaming := get_device_streaming_state (found_status f)\<rparr>"
    | f where "serial_number d = None" "system_mac_address d = None" "found_by found_hostname fs (hostname d) = Some f"
      "d' = d\<lparr>exists_on_cv := Some True, serial_number := Some (found_id f), system_mac_address := Some (found_mac f),
        streaming := get_device_streaming_state (found_status f)\<rparr>"
    by (auto simp: identify_device_def split: option.splits)
  then show ?thesis
    by cases (use found_by_Some in \<open>fastforce simp: matches_device_def\<close>)+
qed

lemma identify_device_None: "identify_device fs d = None \<longleftrightarrow> (\<forall>f \<in> set fs. \<not> matches_device d f)"
  by (auto simp: identify_device_def matches_device_def found_by_None split: option.splits)

definition identified :: "found_device list \<Rightarrow> cv_device \<Rightarrow> cv_device" where
  "identified fs d = (case identify_device fs d of Some d' \<Rightarrow> d' | None \<Rightarrow> d\<lparr>exists_on_cv := Some False\<rparr>)"

lemma identified_exists: "exists_on_cv (identified fs d) = Some (identify_device fs d \<noteq> None)"
  using identify_device_Some [of fs d] by (auto simp: identified_def split: option.splits)

lemma identify_devices_map:
  "distinct refs \<Longrightarrow> identify_devices fs refs devs =
     ((\<lambda>r. if r \<in> set refs then identified fs (devs r) else devs r), filter (\<lambda>r. identify_device fs (devs r) \<noteq> None) refs)"
proof (induction refs arbitrary: devs)
  case (Cons r refs)
  have same: "filter (\<lambda>x. identify_device fs ((devs(r := d)) x) \<noteq> None) refs = filter (\<lambda>x. identify_device fs (devs x) \<noteq> None) refs" for d
    by (rule filter_cong) (use Cons.prems in auto)
  have IH: "identify_devices fs refs (devs(r := d)) = ((\<lambda>x. if x \<in> set refs then identified fs ((devs(r := d)) x) else (devs(r := d)) x),
      filter (\<lambda>x. identify_device fs ((devs(r := d)) x) \<noteq> None) refs)" for d
    by (rule Cons.IH) (use Cons.prems in simp)
  show ?case
    unfolding identify_devices.simps IH same
    using Cons.prems by (cases "identify_device fs (devs r)") (auto simp: identified_def fun_eq_iff)
qed auto

lemma verify_inventory_run:
  assumes "distinct refs" "device_store r = devs"
    and "get_inventory_devices c (remdups (map (\<lambda>x. query_tuple (devs x)) (filter (\<lambda>x. exists_on_cv (devs x) = None) refs))) s = (Inr fs, s1)"
  defines "devs' \<equiv> \<lambda>x. if x \<in> set refs then identified fs (devs x) else devs x"
    and "ex \<equiv> filter (\<lambda>x. identify_device fs (devs x) \<noteq> None) refs"
    and "missing \<equiv> map (\<lambda>x. avd_device (devs x)) (filter (\<lambda>x. identify_device fs (devs x) = None) refs)"
  shows "verify_devices_in_inventory c refs skip (s, r) =
    (if missing = [] then (Inr ex, (s1, r\<lparr>device_store := devs'\<rparr>))
     else if skip then (Inr ex, (s1, r\<lparr>device_store := devs', warnings := warnings r @ [MissingDevices (remdups missing)]\<rparr>))
     else (Inl CVResourceNotFound, (s1, r\<lparr>device_store := devs'\<rparr>)))"
proof -
  have gone: "map (\<lambda>x. avd_device (devs' x)) (filter (\<lambda>x. exists_on_cv (devs' x) \<noteq> Some True) refs) = missing"
    unfolding missing_def
    by (rule map_cong [OF filter_cong]) (simp_all add: devs'_def identified_exists, simp add: identified_def)
  have none: "filter (\<lambda>x. exists_on_cv (devs' x) \<noteq> Some True) refs = [] \<longleftrightarrow> missing = []"
    unfolding gone [symmetric] by simp
  have ident: "identify_devices fs refs devs = (devs', ex)"
    by (simp add: identify_devices_map [OF assms(1)] devs'_def ex_def)
  show ?thesis
    using assms(2,3) gone none
    by (cases "missing = []")
      (simp_all add: verify_devices_in_inventory_def the_devices_def set_devices_def seq_def on_client_def on_lists_def
        ident Let_def missing_devices_handler_def of_result_def warn_def)
qed

section \<open>Properties\<close>

text \<open>
  C34. The check of the device inputs: it fails exactly when two entries have the same serial number, when
  two entries have the same MAC address and one of them has no serial number, or, if that is
  asked for, when two entries have the same MAC address at all; otherwise a shared MAC address is a
  warning, and without one there is no warning.
\<close>

theorem verify_device_inputs_outcome:
  "verify_device_inputs devs refs strict =
     (let serial = (\<lambda>r. serial_number (devs r)); mac = (\<lambda>r. system_mac_address (devs r))
      in if (\<exists>i j. shared serial refs i j) \<or> (\<exists>i j. shared mac refs i j \<and> (strict \<or> serial (refs ! i) \<in> {None, Some []}))
         then Inl CVDuplicatedDevices
         else Inr (if \<exists>i j. shared mac refs i j then [DuplicatedDevicesWarning] else []))"
proof -
  let ?d = "identify_duplicated_devices devs refs"
  let ?mac = "\<lambda>r. system_mac_address (devs r)" and ?serial = "\<lambda>r. serial_number (devs r)"
  have mixed: "dup_mac_unset_or_mixed ?d \<noteq> [] \<longleftrightarrow> (\<exists>i j. shared ?mac refs i j \<and> \<not> is_set (?serial (refs ! i)))"
    unfolding dup_mixed_nonempty shared_def by (metis not_None_eq)
  have unset: "\<not> is_set x \<longleftrightarrow> x \<in> {None, Some []}" for x by (auto simp: is_set_def or_none_def)
  have mac: "dup_mac_unset_or_mixed ?d \<noteq> [] \<or> dup_mac_set ?d \<noteq> [] \<longleftrightarrow> (\<exists>i j. shared ?mac refs i j)"
    using identify_parts(2) [of devs refs] duplicates_shared [of ?mac refs] by blast
  have serial: "dup_serial ?d \<noteq> [] \<longleftrightarrow> (\<exists>i j. shared ?serial refs i j)"
    unfolding identify_parts(1) by (rule duplicates_shared)
  show ?thesis
    unfolding verify_device_inputs_def duplicated_devices_handler_def detected_def Let_def
    using mixed mac serial unfolding unset by (cases strict) (simp_all, blast+)
qed


definition inventory_device :: found_device where
  "inventory_device = \<lparr>found_id = ''S1'', found_mac = ''M1'', found_hostname = ''leaf1'', found_status = StreamingActive\<rparr>"

definition small_inventory :: "unit inventory_client" where
  "small_inventory =
     \<lparr>get_inventory_devices = (\<lambda>q s. (Inr [inventory_device], s)), get_topology_studio_inputs = (\<lambda>q s. (Inr [], s)),
      set_topology_studio_inputs = (\<lambda>q s. (Inr (), s))\<rparr>"

definition host_device :: "string \<Rightarrow> cv_device" where
  "host_device name = new_device \<lparr>avd_hostname = name, avd_serial_number = None, avd_system_mac_address = None\<rparr> None None"

definition host_run :: dev_run where
  "host_run = \<lparr>workspace = new_workspace \<lparr>ws_requested = ReqBuilt, ws_force = False,
      ws_build_warnings = \<lparr>warnings_enabled = True, suppress_patterns = [], suppress_portfast = False\<rparr>, ws_max_sync_retries = 0\<rparr>,
    warnings = [], device_store = (\<lambda>x. host_device (if x = 0 then ''leaf1'' else ''leaf2''))\<rparr>"


end
