(* ===== verification/CvChangeControl.thy ===== *)
theory CvChangeControl
  imports CvModels
begin

text \<open>
  The change control that a submitted workspace creates: \<open>finalize_change_control_on_cv\<close> of \<open>pyavd/_cv/workflows\<close> and the
  waiting method of \<open>client/change_control.py\<close>. The methods that send one request are the fields of a record.
\<close>

section \<open>The client\<close>

datatype api_cc_status = CC_UNSPECIFIED | CC_RUNNING | CC_COMPLETED | CC_SCHEDULED | CC_NOT_STARTED | CC_OTHER int

record api_change_control =
  api_status :: api_cc_status
  api_approved :: "bool option"
  api_error :: "string option"
  api_name :: "string option"
  api_notes :: "string option"
  api_time :: nat

record 's cc_client =
  get_change_control :: "string \<Rightarrow> ('s, api_change_control) op"
  set_change_control :: "string \<Rightarrow> string option \<Rightarrow> string option \<Rightarrow> ('s, unit) op"
  approve_change_control :: "string \<Rightarrow> nat \<Rightarrow> ('s, unit) op"
  start_change_control :: "string \<Rightarrow> ('s, unit) op"
  subscribe_change_control :: "string \<Rightarrow> ('s, api_change_control list \<times> cv_exn option) op"

definition wait_for_change_control_state :: "'s cc_client \<Rightarrow> string \<Rightarrow> api_cc_status \<Rightarrow> ('s, api_change_control) op" where
  "wait_for_change_control_state c i st =
     seq (subscribe_change_control c i) (\<lambda>(updates, err).
       case find (\<lambda>u. api_status u = st) updates of
         Some u \<Rightarrow> ret u
       | None \<Rightarrow> fail (case err of Some e \<Rightarrow> e | None \<Rightarrow> CVChangeControlFailed))"

section \<open>The state of a change control\<close>

text \<open>The map from the status of the service: no entry, an entry of None, or a state\<close>

fun status_to_final_state :: "api_cc_status \<Rightarrow> cc_state option option" where
  "status_to_final_state CC_COMPLETED = Some (Some Completed)"
| "status_to_final_state CC_NOT_STARTED = Some None"
| "status_to_final_state CC_RUNNING = Some (Some Running)"
| "status_to_final_state CC_SCHEDULED = Some (Some Scheduled)"
| "status_to_final_state CC_UNSPECIFIED = Some None"
| "status_to_final_state (CC_OTHER n) = None"

definition get_change_control_state :: "api_change_control \<Rightarrow> (cv_exn, cc_state) result" where
  "get_change_control_state u =
     (case status_to_final_state (api_status u) of
        None \<Rightarrow> Inl CVResourceInvalidState
      | Some (Some st) \<Rightarrow> Inr st
      | Some None \<Rightarrow>
          Inr (if api_approved u = Some True then Approved
               else if api_error u \<noteq> None then Failed else PendingApproval))"

section \<open>Finalization\<close>

definition the_cc :: "('s \<times> cv_change_control, cv_change_control) op" where
  "the_cc = seq get_state (\<lambda>s. ret (snd s))"

definition set_cc :: "(cv_change_control \<Rightarrow> cv_change_control) \<Rightarrow> ('s \<times> cv_change_control, unit) op" where
  "set_cc f = on_lists f"

definition set_cc_state :: "cc_state \<Rightarrow> ('s \<times> cv_change_control, unit) op" where
  "set_cc_state st = set_cc (\<lambda>c. c\<lparr>cc_state := Some st\<rparr>)"

text \<open>Reading the change control, with its state\<close>

definition read_change_control :: "'s cc_client \<Rightarrow> string \<Rightarrow> ('s \<times> cv_change_control, api_change_control) op" where
  "read_change_control c i =
     seq (on_client (get_change_control c i)) (\<lambda>u.
       case get_change_control_state u of
         Inl e \<Rightarrow> fail e
       | Inr st \<Rightarrow> seq (set_cc_state st) (\<lambda>_. ret u))"

definition approve_if_needed :: "'s cc_client \<Rightarrow> string \<Rightarrow> api_change_control \<Rightarrow> ('s \<times> cv_change_control, unit) op" where
  "approve_if_needed c i u =
     seq the_cc (\<lambda>cc.
       if cc_state cc = Some Approved then ret ()
       else seq (on_client (approve_change_control c i (api_time u))) (\<lambda>_. set_cc_state Approved))"

definition start_and_wait :: "'s cc_client \<Rightarrow> string \<Rightarrow> cc_requested \<Rightarrow> ('s \<times> cv_change_control, unit) op" where
  "start_and_wait c i req =
     seq (on_client (start_change_control c i)) (\<lambda>_.
     seq (set_cc_state Running) (\<lambda>_.
       if req = CCReqRunning then ret ()
       else
         seq (on_client (wait_for_change_control_state c i CC_COMPLETED)) (\<lambda>u.
           if api_error u \<noteq> None then seq (set_cc_state Failed) (\<lambda>_. fail CVChangeControlFailed)
           else set_cc_state Completed)))"

definition update_change_control ::
  "'s cc_client \<Rightarrow> string \<Rightarrow> api_change_control \<Rightarrow> ('s \<times> cv_change_control, api_change_control) op" where
  "update_change_control c i u =
     seq (set_cc (\<lambda>cc. cc\<lparr>cc_name := (case cc_name cc of None \<Rightarrow> api_name u | n \<Rightarrow> n),
       cc_description := (case cc_description cc of None \<Rightarrow> api_notes u | n \<Rightarrow> n)\<rparr>)) (\<lambda>_.
     seq the_cc (\<lambda>cc.
       if cc_name cc \<noteq> api_name u \<or> cc_description cc \<noteq> api_notes u
       then seq (on_client (set_change_control c i (cc_name cc) (cc_description cc))) (\<lambda>_. read_change_control c i)
       else ret u))"

text \<open>From the last reading on\<close>

definition finish_change_control :: "'s cc_client \<Rightarrow> string \<Rightarrow> api_change_control \<Rightarrow> ('s \<times> cv_change_control, unit) op" where
  "finish_change_control c i u =
     seq the_cc (\<lambda>cc. let req = cc_requested (avd_cc cc) in
       if req = CCReqPendingApproval then ret ()
       else seq (approve_if_needed c i u) (\<lambda>_.
         if req = CCReqApproved then ret () else start_and_wait c i req))"

definition finalize_change_control_on_cv :: "'s cc_client \<Rightarrow> string \<Rightarrow> ('s \<times> cv_change_control, unit) op" where
  "finalize_change_control_on_cv c i =
     seq (read_change_control c i) (\<lambda>u0.
     seq (update_change_control c i u0) (finish_change_control c i))"

section \<open>What is sent\<close>

datatype cc_event = CCGot api_change_control | CCRead | CCSet "string option" "string option" | CCApproved nat | CCStarted

definition log_cc :: "('a option \<Rightarrow> cc_event) \<Rightarrow> ('s, 'a) op \<Rightarrow> ('s \<times> cc_event list, 'a) op" where
  "log_cc ev m s =
     (case m (fst s) of
        (Inr x, t) \<Rightarrow> (Inr x, (t, snd s @ [ev (Some x)]))
      | (Inl e, t) \<Rightarrow> (Inl e, (t, snd s @ [ev None])))"

definition logged_cc :: "'s cc_client \<Rightarrow> ('s \<times> cc_event list) cc_client" where
  "logged_cc c =
     \<lparr>get_change_control = (\<lambda>i. log_cc (\<lambda>u. case u of Some u \<Rightarrow> CCGot u | None \<Rightarrow> CCRead) (get_change_control c i)),
      set_change_control = (\<lambda>i n d. log_cc (\<lambda>_. CCSet n d) (set_change_control c i n d)),
      approve_change_control = (\<lambda>i t. log_cc (\<lambda>_. CCApproved t) (approve_change_control c i t)),
      start_change_control = (\<lambda>i. log_cc (\<lambda>_. CCStarted) (start_change_control c i)),
      subscribe_change_control = (\<lambda>i. log_cc (\<lambda>_. CCRead) (subscribe_change_control c i))\<rparr>"

lemma logged_cc_calls [simp]:
  "get_change_control (logged_cc c) i = log_cc (\<lambda>u. case u of Some u \<Rightarrow> CCGot u | None \<Rightarrow> CCRead) (get_change_control c i)"
  "set_change_control (logged_cc c) i n d = log_cc (\<lambda>_. CCSet n d) (set_change_control c i n d)"
  "approve_change_control (logged_cc c) i t = log_cc (\<lambda>_. CCApproved t) (approve_change_control c i t)"
  "start_change_control (logged_cc c) i = log_cc (\<lambda>_. CCStarted) (start_change_control c i)"
  "subscribe_change_control (logged_cc c) i = log_cc (\<lambda>_. CCRead) (subscribe_change_control c i)"
  by (simp_all add: logged_cc_def)

lemma after_log_cc:
  "(\<And>x t. Q x (t, l @ [ev (Some x)])) \<Longrightarrow> (\<And>e t. E e (t, l @ [ev None])) \<Longrightarrow> after (log_cc ev m) Q E (s, l)"
  by (auto simp: after_def log_cc_def split: prod.splits sum.splits)

lemma after_the_cc [after_simps]: "after the_cc Q E (c, cc) = Q cc (c, cc)"
  by (simp add: the_cc_def after_simps)

lemma after_set_cc [after_simps]: "after (set_cc f) Q E (c, cc) = Q () (c, f cc)"
  by (simp add: set_cc_def after_simps)

lemma after_set_cc_state [after_simps]: "after (set_cc_state st) Q E (c, cc) = Q () (c, cc\<lparr>cc_state := Some st\<rparr>)"
  by (simp add: set_cc_state_def after_simps)

text \<open>
  The order of the events: a change control is approved only in the version that was read last, with the
  state it was in then, and is started only when it is approved.
\<close>

fun cc_order :: "api_change_control option \<Rightarrow> bool \<Rightarrow> cc_event list \<Rightarrow> bool" where
  "cc_order seen approved [] = True"
| "cc_order seen approved (CCGot u # evs) = cc_order (Some u) (get_change_control_state u = Inr Approved) evs"
| "cc_order seen approved (CCRead # evs) = cc_order seen approved evs"
| "cc_order seen approved (CCSet n d # evs) = cc_order None False evs"
| "cc_order seen approved (CCApproved t # evs) = (map_option api_time seen = Some t \<and> cc_order seen True evs)"
| "cc_order seen approved (CCStarted # evs) = (approved \<and> cc_order seen approved evs)"

fun cc_goal :: "cc_requested \<Rightarrow> cc_state option \<Rightarrow> bool" where
  "cc_goal CCReqPendingApproval st \<longleftrightarrow> st \<noteq> None"
| "cc_goal CCReqApproved st \<longleftrightarrow> st = Some Approved"
| "cc_goal CCReqRunning st \<longleftrightarrow> st = Some Running"
| "cc_goal CCReqCompleted st \<longleftrightarrow> st = Some Completed"
| "cc_goal CCReqDeleted st \<longleftrightarrow> st = Some Completed"

definition cc_sent :: "cc_requested \<Rightarrow> cc_event list \<Rightarrow> bool" where
  "cc_sent req evs \<longleftrightarrow> cc_order None False evs \<and>
     (req = CCReqPendingApproval \<longrightarrow> (\<forall>t. CCApproved t \<notin> set evs)) \<and>
     (req \<in> {CCReqPendingApproval, CCReqApproved} \<longrightarrow> CCStarted \<notin> set evs)"

text \<open>Reading: the state is the one of what was read.\<close>

lemma after_read_change_control:
  assumes "\<And>u t st. get_change_control_state u = Inr st \<Longrightarrow> Q u ((t, l @ [CCGot u]), cc\<lparr>cc_state := Some st\<rparr>)"
    and "\<And>e u t. E e ((t, l @ [CCGot u]), cc)" and "\<And>e t. E e ((t, l @ [CCRead]), cc)"
  shows "after (read_change_control (logged_cc c) i) Q E ((s, l), cc)"
  unfolding read_change_control_def after_simps
  by (auto simp: after_simps assms split: sum.splits intro!: after_log_cc)

lemma cc_order_append:
  "cc_order seen ap (xs @ [CCGot u] @ ys) \<longleftrightarrow> cc_order seen ap xs \<and> cc_order (Some u) (get_change_control_state u = Inr Approved) ys"
  by (induction seen ap xs rule: cc_order.induct) auto

text \<open>The events after the last reading\<close>

definition cc_tail :: "cc_requested \<Rightarrow> api_change_control \<Rightarrow> cc_event list \<Rightarrow> bool" where
  "cc_tail req u evs \<longleftrightarrow> cc_order (Some u) (get_change_control_state u = Inr Approved) evs \<and>
     (req = CCReqPendingApproval \<longrightarrow> (\<forall>t. CCApproved t \<notin> set evs)) \<and>
     (req \<in> {CCReqPendingApproval, CCReqApproved} \<longrightarrow> CCStarted \<notin> set evs)"

lemma after_approve_and_start:
  fixes u
  assumes "get_change_control_state u = Inr st" "cc_state cc = Some st" "req = cc_requested (avd_cc cc)"
    and "\<And>evs t cc'. cc_tail req u evs \<Longrightarrow> cc_goal req (cc_state cc') \<Longrightarrow> Q () ((t, l @ evs), cc')"
    and "\<And>evs e t cc'. cc_tail req u evs \<Longrightarrow> E e ((t, l @ evs), cc')"
  shows "after (if req = CCReqPendingApproval then ret ()
     else seq (approve_if_needed (logged_cc c) i u) (\<lambda>_.
       if req = CCReqApproved then ret () else start_and_wait (logged_cc c) i req)) Q E ((s, l), cc)"
proof (cases "req = CCReqPendingApproval")
  case True
  with assms(2) assms(4) [of "[]"] show ?thesis by (simp add: after_simps cc_tail_def)
next
  case not_pending: False
  have approved: "after (if req = CCReqApproved then ret () else start_and_wait (logged_cc c) i req) Q E ((t, l @ evs), cc')"
    if evs: "evs = [] \<and> get_change_control_state u = Inr Approved \<or> evs = [CCApproved (api_time u)]"
      and state: "cc_state cc' = Some Approved" for t evs cc'
  proof -
    have tail: "cc_tail req u evs" "req \<noteq> CCReqApproved \<Longrightarrow> cc_tail req u (evs @ [CCStarted])"
        "req \<noteq> CCReqApproved \<Longrightarrow> cc_tail req u (evs @ [CCStarted, CCRead])"
      using evs not_pending by (auto simp: cc_tail_def)
    show ?thesis
    proof (cases "req = CCReqApproved")
      case True
      with assms(4) [OF tail(1)] state show ?thesis by (simp add: after_simps)
    next
      case False
      have goal: "cc_goal req (Some Running)" if "req = CCReqRunning" using that by simp
      have goal': "cc_goal req (Some Completed)" if "req \<noteq> CCReqRunning" using that False not_pending by (cases req) auto
      note q = assms(4) [OF tail(2) [OF False]] assms(4) [OF tail(3) [OF False]] assms(5) [OF tail(2) [OF False]] assms(5) [OF tail(3) [OF False]]
      show ?thesis
        using False q goal goal'
        by (auto simp: start_and_wait_def wait_for_change_control_state_def after_simps split: option.splits prod.splits intro!: after_log_cc)
    qed
  qed
  show ?thesis
  proof (cases "st = Approved")
    case True
    with assms(1,2) not_pending approved [of "[]" cc s] show ?thesis by (simp add: approve_if_needed_def after_simps)
  next
    case False
    have "cc_tail req u [CCApproved (api_time u)]" using not_pending by (auto simp: cc_tail_def)
    with False assms(1,2,5) not_pending approved [of "[CCApproved (api_time u)]"] show ?thesis
      by (auto simp: approve_if_needed_def after_simps intro!: after_log_cc)
  qed
qed

lemma cc_sent_tail:
  assumes "cc_tail req u evs" "cc_order None False xs" "\<And>t. CCApproved t \<notin> set xs" "CCStarted \<notin> set xs"
  shows "cc_sent req (xs @ [CCGot u] @ evs)"
  using assms unfolding cc_sent_def cc_tail_def cc_order_append by auto

lemma cc_sent_reads:
  "cc_sent req [CCRead]" "cc_sent req [CCGot u]" "cc_sent req [CCGot u, CCSet n d]"
  "cc_sent req [CCGot u, CCSet n d, CCRead]" "cc_sent req [CCGot u, CCSet n d, CCGot v]"
  by (simp_all add: cc_sent_def)

lemma after_update_change_control:
  assumes "\<And>cc1. cc_state cc1 = cc_state cc \<Longrightarrow> avd_cc cc1 = avd_cc cc \<Longrightarrow> Q u ((s, l), cc1)"
    and "\<And>n d v st t cc1. get_change_control_state v = Inr st \<Longrightarrow> cc_state cc1 = Some st \<Longrightarrow> avd_cc cc1 = avd_cc cc \<Longrightarrow>
      Q v ((t, l @ [CCSet n d, CCGot v]), cc1)"
    and "\<And>e n d xs t cc1. xs = [] \<or> xs = [CCRead] \<or> (\<exists>v. xs = [CCGot v]) \<Longrightarrow> avd_cc cc1 = avd_cc cc \<Longrightarrow>
      E e ((t, l @ [CCSet n d] @ xs), cc1)"
  shows "after (update_change_control (logged_cc c) i u) Q E ((s, l), cc)"
proof -
  have read: "after (read_change_control (logged_cc c) i) Q E ((t, l @ [CCSet n d]), cc1)"
    if "avd_cc cc1 = avd_cc cc" for n d t cc1
    by (rule after_read_change_control) (use assms(2,3) that in auto)
  show ?thesis
    unfolding update_change_control_def after_simps
    using assms(1) assms(3) [of "[]"] read by (auto simp: after_simps Let_def intro!: after_log_cc)
qed


end
