(* ===== verification/CvManifest.thy ===== *)
theory CvManifest
  imports CvErrors
begin

text \<open>
  The static configuration manifest, \<open>AvdManifest\<close> and \<open>CVManifest\<close> of \<open>pyavd/_cv/workflows/models.py\<close>: the tree
  of containers that the user declares becomes a list of containers with generated ids. \<open>uuid\<close> is \<open>uuid5\<close>
  with the namespace of AVD.
\<close>

section \<open>Data\<close>

datatype match_policy = MatchAll | MatchFirst

datatype avd_container = AvdContainer
  (ac_name: string) (ac_tag_query: string) (ac_description: "string option") (ac_match_policy: match_policy)
  (ac_configlets: "string list") (ac_sub_containers: "avd_container list") (ac_preserve: bool)

record avd_configlet =
  acf_name :: string
  acf_file :: string

record avd_manifest =
  am_configlets :: "avd_configlet list"
  am_containers :: "avd_container list"
  am_preserve :: bool

record cv_configlet =
  cf_avd :: avd_configlet
  cf_id :: string
  cf_description :: string

abbreviation cf_name :: "cv_configlet \<Rightarrow> string" where
  "cf_name c \<equiv> acf_name (cf_avd c)"

definition cf_api_tuple :: "cv_configlet \<Rightarrow> string \<times> string \<times> string \<times> string" where
  "cf_api_tuple c = (cf_id c, cf_name c, cf_description c, acf_file (cf_avd c))"

record cv_container =
  cc_avd :: avd_container
  cc_cid :: string
  cc_is_root :: bool
  cc_configlet_ids :: "string list"
  cc_child_ids :: "string list"

record cv_manifest =
  mf_configlets :: "cv_configlet list"
  mf_containers :: "cv_container list"
  mf_preserve :: bool

section \<open>From the manifest of the user\<close>

definition entity_prefix :: string where
  "entity_prefix = ''avd_''"

definition generate_id :: "(string \<Rightarrow> string) \<Rightarrow> string \<Rightarrow> string" where
  "generate_id uuid key = entity_prefix @ uuid key"

fun configlet_map :: "(string \<Rightarrow> string) \<Rightarrow> avd_configlet list \<Rightarrow> (string, cv_configlet) dict \<Rightarrow> (cv_exn, (string, cv_configlet) dict) result" where
  "configlet_map uuid [] m = Inr m"
| "configlet_map uuid (c # cs) m =
     (if map_of m (acf_name c) \<noteq> None then Inl CVManifestError
      else configlet_map uuid cs (m @ [(acf_name c,
        \<lparr>cf_avd = c, cf_id = generate_id uuid (acf_name c), cf_description = ''Configlet created and uploaded by AVD.''\<rparr>)]))"

definition sub_path :: "string \<Rightarrow> string \<Rightarrow> string" where
  "sub_path parent name = (if parent \<noteq> [] then parent @ ''/'' @ name else name)"

definition attached_ids :: "(string, cv_configlet) dict \<Rightarrow> string list \<Rightarrow> (cv_exn, string list) result" where
  "attached_ids cfgs names =
     rmap (\<lambda>n. case map_of cfgs n of None \<Rightarrow> Inl CVManifestError | Some c \<Rightarrow> Inr (cf_id c)) names"

text \<open>\<open>_process_container_recursively\<close> answers with the id of the container and the map extended with its tree.\<close>

fun process_container ::
    "(string \<Rightarrow> string) \<Rightarrow> (string, cv_configlet) dict \<Rightarrow> string \<Rightarrow> avd_container \<Rightarrow> (string, cv_container) dict \<Rightarrow>
     (cv_exn, string \<times> (string, cv_container) dict) result"
and process_containers ::
    "(string \<Rightarrow> string) \<Rightarrow> (string, cv_configlet) dict \<Rightarrow> string \<Rightarrow> avd_container list \<Rightarrow> (string, cv_container) dict \<Rightarrow>
     (cv_exn, string list \<times> (string, cv_container) dict) result"
where
  "process_container uuid cfgs parent (AvdContainer name query descr policy configlets subs keep) m =
     (let path = sub_path parent name in
      rbind (process_containers uuid cfgs path subs m) (\<lambda>(child_ids, m').
      rbind (attached_ids cfgs configlets) (\<lambda>ids.
        let c = \<lparr>cc_avd = AvdContainer name query descr policy configlets subs keep, cc_cid = generate_id uuid path,
                 cc_is_root = (parent = []), cc_configlet_ids = ids, cc_child_ids = child_ids\<rparr>
        in if map_of m' path \<noteq> None then Inl CVManifestError
           else Inr (cc_cid c, m' @ [(path, c)]))))"
| "process_containers uuid cfgs parent [] m = Inr ([], m)"
| "process_containers uuid cfgs parent (c # cs) m =
     rbind (process_container uuid cfgs parent c m) (\<lambda>(i, m').
     rbind (process_containers uuid cfgs parent cs m') (\<lambda>(is, m''). Inr (i # is, m'')))"

definition from_avd_manifest :: "(string \<Rightarrow> string) \<Rightarrow> avd_manifest \<Rightarrow> (cv_exn, cv_manifest) result" where
  "from_avd_manifest uuid am =
     rbind (configlet_map uuid (am_configlets am) []) (\<lambda>cfgs.
     rbind (process_containers uuid cfgs [] (am_containers am) []) (\<lambda>(_, m).
       Inr \<lparr>mf_configlets = dict_values cfgs, mf_containers = dict_values m, mf_preserve = am_preserve am\<rparr>))"

section \<open>What the conversion does\<close>

text \<open>The containers of a tree with their paths and those of their parents, children first\<close>

fun tree_paths :: "string \<Rightarrow> avd_container \<Rightarrow> (string \<times> string \<times> avd_container) list"
  and forest_paths :: "string \<Rightarrow> avd_container list \<Rightarrow> (string \<times> string \<times> avd_container) list"
where
  "tree_paths parent (AvdContainer name query descr policy configlets subs keep) =
     forest_paths (sub_path parent name) subs @ [(sub_path parent name, parent, AvdContainer name query descr policy configlets subs keep)]"
| "forest_paths parent [] = []"
| "forest_paths parent (c # cs) = tree_paths parent c @ forest_paths parent cs"

definition converted :: "(string \<Rightarrow> string) \<Rightarrow> string \<times> string \<times> avd_container \<Rightarrow> cv_container" where
  "converted uuid = (\<lambda>(path, parent, c).
     \<lparr>cc_avd = c, cc_cid = generate_id uuid path, cc_is_root = (parent = []),
      cc_configlet_ids = map (generate_id uuid) (ac_configlets c),
      cc_child_ids = map (\<lambda>s. generate_id uuid (sub_path path (ac_name s))) (ac_sub_containers c)\<rparr>)"

definition attached :: "(string \<times> string \<times> avd_container) list \<Rightarrow> string set" where
  "attached t = (\<Union>(_, _, c) \<in> set t. set (ac_configlets c))"

lemma attached_append [simp]: "attached (s @ t) = attached s \<union> attached t" "attached [] = {}"
  by (auto simp: attached_def)

lemma attached_ids_result:
  assumes "\<And>n c. map_of cfgs n = Some c \<Longrightarrow> cf_id c = generate_id uuid n"
  shows "attached_ids cfgs names =
    (if set names \<subseteq> set (dict_keys cfgs) then Inr (map (generate_id uuid) names) else Inl CVManifestError)"
  unfolding attached_ids_def
proof (induction names)
  case (Cons n names)
  show ?case
  proof (cases "map_of cfgs n")
    case None
    then have "n \<notin> set (dict_keys cfgs)" by (simp add: dict_get_None)
    with None show ?thesis by simp
  next
    case (Some c)
    then have "n \<in> set (dict_keys cfgs)" by (metis dict_get_None option.distinct(1))
    with Cons Some assms [OF Some] show ?thesis by simp
  qed
qed simp

text \<open>Both results in one form: known configlets and paths that are new and distinct, or an error\<close>

definition outcome :: "(string \<Rightarrow> string) \<Rightarrow> (string, 'c) dict \<Rightarrow> (string, cv_container) dict \<Rightarrow> (string \<times> string \<times> avd_container) list \<Rightarrow> 'i \<Rightarrow>
  (cv_exn, 'i \<times> (string, cv_container) dict) result" where
  "outcome uuid cfgs m t i =
     (if attached t \<subseteq> set (dict_keys cfgs) \<and> distinct (dict_keys m @ map fst t)
      then Inr (i, m @ map (\<lambda>x. (fst x, converted uuid x)) t) else Inl CVManifestError)"

lemma process_container_result:
  "(\<And>n c. map_of cfgs n = Some c \<Longrightarrow> cf_id c = generate_id uuid n) \<Longrightarrow> distinct (dict_keys m) \<Longrightarrow>
     process_container uuid cfgs parent c m = outcome uuid cfgs m (tree_paths parent c) (generate_id uuid (sub_path parent (ac_name c)))"
  "(\<And>n c. map_of cfgs n = Some c \<Longrightarrow> cf_id c = generate_id uuid n) \<Longrightarrow> distinct (dict_keys m) \<Longrightarrow>
     process_containers uuid cfgs parent cs m =
       outcome uuid cfgs m (forest_paths parent cs) (map (\<lambda>c. generate_id uuid (sub_path parent (ac_name c))) cs)"
proof (induction uuid cfgs parent c m and uuid cfgs parent cs m rule: process_container_process_containers.induct)
  case (1 uuid cfgs parent name query descr policy configlets subs keep m)
  have IH: "process_containers uuid cfgs (sub_path parent name) subs m =
      outcome uuid cfgs m (forest_paths (sub_path parent name) subs) (map (\<lambda>c. generate_id uuid (sub_path (sub_path parent name) (ac_name c))) subs)"
    by (rule 1) (use 1 in auto)
  let ?subs = "forest_paths (sub_path parent name) subs"
  have ids: "attached_ids cfgs configlets =
      (if set configlets \<subseteq> set (dict_keys cfgs) then Inr (map (generate_id uuid) configlets) else Inl CVManifestError)"
    by (rule attached_ids_result) (rule 1(2))
  have new: "(\<exists>y. map_of (m @ map (\<lambda>x. (fst x, converted uuid x)) ?subs) path = Some y) \<longleftrightarrow>
      path \<in> set (dict_keys m) \<or> path \<in> set (map fst ?subs)" for path
  proof -
    have "map_of (m @ map (\<lambda>x. (fst x, converted uuid x)) ?subs) path = None \<longleftrightarrow>
        path \<notin> set (dict_keys m) \<and> path \<notin> set (map fst ?subs)"
      by (simp add: dict_get_None image_image del: map_of_append)
    then show ?thesis unfolding not_None_eq [symmetric] by (simp only: de_Morgan_conj not_not simp_thms)
  qed
  have this_one: "converted uuid (sub_path parent name, parent, AvdContainer name query descr policy configlets subs keep) =
      \<lparr>cc_avd = AvdContainer name query descr policy configlets subs keep, cc_cid = generate_id uuid (sub_path parent name),
       cc_is_root = (parent = []), cc_configlet_ids = map (generate_id uuid) configlets,
       cc_child_ids = map (\<lambda>s. generate_id uuid (sub_path (sub_path parent name) (ac_name s))) subs\<rparr>"
    by (simp add: converted_def)
  show ?case
  proof (cases "attached ?subs \<subseteq> set (dict_keys cfgs) \<and> distinct (dict_keys m @ map fst ?subs) \<and> set configlets \<subseteq> set (dict_keys cfgs)")
    case True
    have "attached (tree_paths parent (AvdContainer name query descr policy configlets subs keep)) = attached ?subs \<union> set configlets"
      by (auto simp: attached_def)
    with True show ?thesis
      unfolding process_container.simps IH outcome_def ids Let_def
      using 1(3) this_one by (simp add: new del: map_of_append)
  next
    case False
    then show ?thesis
      unfolding process_container.simps IH outcome_def ids Let_def by (auto simp: attached_def)
  qed
next
  case (2 uuid cfgs parent m)
  then show ?case by (simp add: outcome_def)
next
  case (3 uuid cfgs parent c cs m)
  have IH: "process_container uuid cfgs parent c m = outcome uuid cfgs m (tree_paths parent c) (generate_id uuid (sub_path parent (ac_name c)))"
    by (rule 3(1)) (use 3 in auto)
  show ?case
  proof (cases "attached (tree_paths parent c) \<subseteq> set (dict_keys cfgs) \<and> distinct (dict_keys m @ map fst (tree_paths parent c))")
    case True
    let ?m = "m @ map (\<lambda>x. (fst x, converted uuid x)) (tree_paths parent c)"
    have "process_containers uuid cfgs parent cs ?m =
        outcome uuid cfgs ?m (forest_paths parent cs) (map (\<lambda>c. generate_id uuid (sub_path parent (ac_name c))) cs)"
      by (rule 3(2) [OF _ refl]) (use 3 True in \<open>auto simp: IH outcome_def comp_def\<close>)
    with True show ?thesis by (auto simp: IH outcome_def comp_def)
  next
    case False
    then show ?thesis by (auto simp: IH outcome_def comp_def)
  qed
qed

definition converted_configlet :: "(string \<Rightarrow> string) \<Rightarrow> avd_configlet \<Rightarrow> cv_configlet" where
  "converted_configlet uuid c =
     \<lparr>cf_avd = c, cf_id = generate_id uuid (acf_name c), cf_description = ''Configlet created and uploaded by AVD.''\<rparr>"

lemma configlet_map_result:
  "distinct (dict_keys m) \<Longrightarrow> configlet_map uuid cs m =
     (if distinct (dict_keys m @ map acf_name cs) then Inr (m @ map (\<lambda>c. (acf_name c, converted_configlet uuid c)) cs)
      else Inl CVManifestError)"
proof (induction cs arbitrary: m)
  case (Cons c cs)
  show ?case
  proof (cases "acf_name c \<in> set (dict_keys m)")
    case False
    then have "configlet_map uuid cs (m @ [(acf_name c, converted_configlet uuid c)]) =
      (if distinct (dict_keys (m @ [(acf_name c, converted_configlet uuid c)]) @ map acf_name cs)
       then Inr ((m @ [(acf_name c, converted_configlet uuid c)]) @ map (\<lambda>c. (acf_name c, converted_configlet uuid c)) cs)
       else Inl CVManifestError)"
      by (intro Cons.IH) (use Cons.prems in simp)
    with False show ?thesis by (auto simp: dict_get_None converted_configlet_def)
  qed (auto simp: dict_get_None)
qed simp

text \<open>
  The conversion of a manifest either is the declared forest, each container once, after its sub-containers, with the ids
  generated from its path and from the names of its configlets, or it fails: exactly when two configlets have
  the same name, a container attaches a configlet that is not declared, or two containers
  have the same path.
\<close>

theorem from_avd_manifest_outcome:
  "from_avd_manifest uuid am =
     (let forest = forest_paths [] (am_containers am); names = map acf_name (am_configlets am)
      in if distinct names \<and> attached forest \<subseteq> set names \<and> distinct (map fst forest)
         then Inr \<lparr>mf_configlets = map (converted_configlet uuid) (am_configlets am),
           mf_containers = map (converted uuid) forest, mf_preserve = am_preserve am\<rparr>
         else Inl CVManifestError)"
proof (cases "distinct (map acf_name (am_configlets am))")
  case True
  let ?cfgs = "map (\<lambda>c. (acf_name c, converted_configlet uuid c)) (am_configlets am)"
  have "configlet_map uuid (am_configlets am) [] = Inr ?cfgs"
    using configlet_map_result [of "[]" uuid "am_configlets am"] True by simp
  moreover have "process_containers uuid ?cfgs [] (am_containers am) [] = outcome uuid ?cfgs [] (forest_paths [] (am_containers am))
      (map (\<lambda>c. generate_id uuid (sub_path [] (ac_name c))) (am_containers am))"
    by (rule process_container_result) (auto dest!: map_of_SomeD simp: converted_configlet_def)
  ultimately show ?thesis
    using True
    by (cases "attached (forest_paths [] (am_containers am)) \<subseteq> set (map acf_name (am_configlets am)) \<and>
        distinct (map fst (forest_paths [] (am_containers am)))")
      (auto simp: from_avd_manifest_def outcome_def comp_def Let_def)
next
  case False
  then show ?thesis using configlet_map_result [of "[]" uuid "am_configlets am"] by (simp add: from_avd_manifest_def)
qed

section \<open>What later steps rely on\<close>

text \<open>The ids of the containers are distinct and marked as generated, and only declared configlets are attached.\<close>

definition is_manifest_managed_id :: "string \<Rightarrow> bool" where
  "is_manifest_managed_id i = startswith i entity_prefix"

definition manifest_ok :: "cv_manifest \<Rightarrow> bool" where
  "manifest_ok m \<longleftrightarrow> distinct (map cc_cid (mf_containers m)) \<and> distinct (map cf_id (mf_configlets m)) \<and>
     (\<forall>c \<in> set (mf_containers m). is_manifest_managed_id (cc_cid c) \<and> set (cc_configlet_ids c) \<subseteq> cf_id ` set (mf_configlets m))"

lemma generate_id_managed [simp]: "is_manifest_managed_id (generate_id uuid key)"
  by (simp add: is_manifest_managed_id_def generate_id_def)

lemma from_avd_manifest_ok:
  assumes "from_avd_manifest uuid am = Inr m" "inj_on uuid (set (map fst (forest_paths [] (am_containers am))))"
    "inj_on uuid (set (map acf_name (am_configlets am)))"
  shows "manifest_ok m"
proof -
  let ?forest = "forest_paths [] (am_containers am)"
  have ok: "distinct (map fst ?forest)" "distinct (map acf_name (am_configlets am))" "attached ?forest \<subseteq> set (map acf_name (am_configlets am))"
    and m: "m = \<lparr>mf_configlets = map (converted_configlet uuid) (am_configlets am),
           mf_containers = map (converted uuid) ?forest, mf_preserve = am_preserve am\<rparr>"
    using assms(1) unfolding from_avd_manifest_outcome Let_def by (auto split: if_splits)
  have ids: "cc_cid (converted uuid x) = generate_id uuid (fst x)" for x by (simp add: converted_def split: prod.splits)
  have "inj_on (generate_id uuid) (set (map fst ?forest))"
    using assms(2) by (simp add: inj_on_def generate_id_def)
  then have "distinct (map (generate_id uuid) (map fst ?forest))" using ok(1) by (simp only: distinct_map simp_thms)
  have "inj_on (generate_id uuid) (set (map acf_name (am_configlets am)))"
    using assms(3) by (simp add: inj_on_def generate_id_def)
  then have "distinct (map (generate_id uuid) (map acf_name (am_configlets am)))" using ok(2) by (simp only: distinct_map simp_thms)
  then have configlets: "distinct (map cf_id (mf_configlets m))" by (simp add: m comp_def converted_configlet_def)
  have "distinct (map cc_cid (mf_containers m))" using \<open>distinct (map (generate_id uuid) (map fst ?forest))\<close> by (simp add: m comp_def ids)
  moreover have "set (cc_configlet_ids (converted uuid x)) \<subseteq> cf_id ` set (mf_configlets m)" if "x \<in> set ?forest" for x
  proof
    fix i assume i: "i \<in> set (cc_configlet_ids (converted uuid x))"
    obtain path parent c where x: "x = (path, parent, c)" by (metis prod.collapse)
    from i obtain n where n: "i = generate_id uuid n" "n \<in> set (ac_configlets c)" by (auto simp: x converted_def)
    from n(2) that have "n \<in> attached ?forest" by (force simp: x attached_def)
    with ok(3) obtain k where k: "k \<in> set (am_configlets am)" "n = acf_name k" by auto
    have "i = cf_id (converted_configlet uuid k)" by (simp add: n(1) k(2) converted_configlet_def)
    with k(1) show "i \<in> cf_id ` set (mf_configlets m)" by (simp add: m)
  qed
  ultimately show ?thesis using configlets by (simp add: manifest_ok_def m ids)
qed

end
