(* ===== verification/CvConfigs.thy ===== *)
theory CvConfigs
  imports CvInputs CvManifest
begin

text \<open>
  Device configurations and studio inputs: \<open>deploy_configs_to_cv.py\<close> and \<open>deploy_studio_inputs_to_cv.py\<close> of
  \<open>pyavd/_cv/workflows\<close>. Each configuration is a configlet \<open>avd-<serial>\<close> in a container of the same id below one
  root container. The calls of an \<open>asyncio.gather\<close> are made in the order given; all of them are
  made, then the first exception is raised.
\<close>

section \<open>Data and client\<close>

record eos_config =
  config_file :: string
  config_device :: dev_ref
  configlet_name :: "string option"

record container =
  cont_id :: string
  cont_name :: string
  cont_description :: string
  cont_query :: string
  cont_configlets :: "string list"
  cont_children :: "string list"
  cont_policy :: "match_policy option"

record studio_input =
  studio_id :: string
  studio_path :: "string list"
  studio_value :: pv

text \<open>Id, name, description and file of a configlet; id, name, description, configlets, query, children and match
  policy of a container, the last two may be left out; for one container also only its children can be set. The
  ids to read are given, or all are read.\<close>

type_synonym container_tuple =
  "string \<times> string \<times> string \<times> string list \<times> string \<times> string list option \<times> match_policy option"

record 's config_client =
  set_configlets_from_files :: "(string \<times> string \<times> string \<times> string) list \<Rightarrow> ('s, unit) op"
  get_configlets :: "string list option \<Rightarrow> ('s, (string \<times> string) list) op"
  delete_configlets :: "string list \<Rightarrow> ('s, unit) op"
  get_configlet_containers :: "string list option \<Rightarrow> ('s, container list) op"
  set_configlet_containers :: "container_tuple list \<Rightarrow> ('s, unit) op"
  create_configlet_container :: "string \<Rightarrow> string \<Rightarrow> string \<Rightarrow> string \<Rightarrow> ('s, unit) op"
  set_container_children :: "string \<Rightarrow> string list \<Rightarrow> ('s, unit) op"
  delete_configlet_container :: "string \<Rightarrow> ('s, unit) op"
  get_assignment_roots :: "('s, string list) op"
  set_assignment_roots :: "string list \<Rightarrow> ('s, unit) op"
  set_studio_inputs :: "studio_input \<Rightarrow> ('s, unit) op"

fun gather :: "('s, 'a) op list \<Rightarrow> ('s, 'a list) op" where
  "gather [] s = (Inr [], s)"
| "gather (m # ms) s =
     (case m s of (r, s') \<Rightarrow>
        (case gather ms s' of (rs, s'') \<Rightarrow>
           (case r of Inl e \<Rightarrow> (Inl e, s'') | Inr x \<Rightarrow> (map_sum id (\<lambda>xs. x # xs) rs, s''))))"

definition configlet_container_id :: string where
  "configlet_container_id = ''avd-configlets''"

text \<open>\<open>f"avd-{serial}"\<close>; a serial number that is not set prints as None.\<close>

definition serial_str :: "cv_device \<Rightarrow> string" where
  "serial_str d = (case serial_number d of None \<Rightarrow> ''None'' | Some s \<Rightarrow> s)"

definition device_configlet_id :: "cv_device \<Rightarrow> string" where
  "device_configlet_id d = ''avd-'' @ serial_str d"

definition config_description :: "cv_device \<Rightarrow> string" where
  "config_description d = ''Configuration created and uploaded by AVD for '' @ hostname d"

record config_run = dev_run +
  deployed_configs :: "eos_config list"
  skipped_configs :: "eos_config list"
  removed_configs :: "string list"
  deployed_studio_inputs :: "studio_input list"

text \<open>\<open>gather\<close> of two calls of different types: the second is made even when the first fails.\<close>

definition both :: "('s, 'a) op \<Rightarrow> ('s, 'b) op \<Rightarrow> ('s, 'a \<times> 'b) op" where
  "both m n s =
     (case m s of (p, t) \<Rightarrow> case n t of (q, u) \<Rightarrow>
        (case p of Inl e \<Rightarrow> Inl e | Inr x \<Rightarrow> (case q of Inl e \<Rightarrow> Inl e | Inr y \<Rightarrow> Inr (x, y)), u))"

section \<open>Deploying configurations\<close>

definition configlet_of :: "devices \<Rightarrow> eos_config \<Rightarrow> string \<times> string \<times> string \<times> string" where
  "configlet_of devs cfg =
     (let d = devs (config_device cfg)
      in (device_configlet_id d,
          (if is_set (configlet_name cfg) then the (configlet_name cfg) else ''AVD_'' @ hostname d),
          config_description d, config_file cfg))"

definition deploy_configlets_to_cv :: "'s config_client \<Rightarrow> eos_config list \<Rightarrow> ('s \<times> 'x dev_run_scheme, unit) op" where
  "deploy_configlets_to_cv c cfgs =
     seq the_devices (\<lambda>devs. on_client (set_configlets_from_files c (map (configlet_of devs) cfgs)))"

definition get_existing_container_ids :: "'s config_client \<Rightarrow> ('s, string list) op" where
  "get_existing_container_ids c =
     seq (get_configlet_containers c (Some [configlet_container_id])) (\<lambda>found.
     seq (case found of
            root # _ \<Rightarrow> ret (cont_children root)
          | [] \<Rightarrow> seq (create_configlet_container c configlet_container_id ''AVD Configurations''
                   ''Configurations created and uploaded by AVD'' ''device:*'') (\<lambda>_. ret [])) (\<lambda>children.
     seq (get_assignment_roots c) (\<lambda>roots.
     seq (if configlet_container_id \<in> set roots then ret ()
          else set_assignment_roots c (configlet_container_id # roots)) (\<lambda>_. ret children))))"

text \<open>The parameters of a container that are compared\<close>

definition container_params :: "container \<Rightarrow> string \<times> string \<times> string \<times> string list" where
  "container_params k = (cont_name k, cont_description k, cont_query k, cont_configlets k)"

definition wanted_params :: "cv_device \<Rightarrow> string \<times> string \<times> string \<times> string list" where
  "wanted_params d = (hostname d, config_description d, ''device:'' @ serial_str d, [device_configlet_id d])"

definition containers_to_update ::
  "devices \<Rightarrow> eos_config list \<Rightarrow> container list \<Rightarrow> container_tuple list" where
  "containers_to_update devs cfgs existing =
     map (\<lambda>cfg. case wanted_params (devs (config_device cfg)) of (n, descr, q, ids) \<Rightarrow>
            (device_configlet_id (devs (config_device cfg)), n, descr, ids, q, None, None))
       (filter (\<lambda>cfg. map_of (dict_of (map (\<lambda>k. (cont_id k, container_params k)) existing)) (device_configlet_id (devs (config_device cfg)))
            \<noteq> Some (wanted_params (devs (config_device cfg)))) cfgs)"

definition deploy_configlet_containers :: "'s config_client \<Rightarrow> devices \<Rightarrow> eos_config list \<Rightarrow> ('s, unit) op" where
  "deploy_configlet_containers c devs cfgs =
     seq (get_existing_container_ids c) (\<lambda>ids.
     seq (if ids = [] then ret [] else get_configlet_containers c (Some ids)) (\<lambda>existing.
       let updates = containers_to_update devs cfgs existing
       in seq (if updates = [] then ret () else set_configlet_containers c updates) (\<lambda>_.
          if fst ` set updates \<subseteq> cont_id ` set existing then ret ()
          else set_container_children c configlet_container_id (remdups (map fst updates @ map cont_id existing)))))"

definition deploy_configlet_containers_to_cv :: "'s config_client \<Rightarrow> eos_config list \<Rightarrow> ('s \<times> 'x dev_run_scheme, unit) op" where
  "deploy_configlet_containers_to_cv c cfgs = seq the_devices (\<lambda>devs. on_client (deploy_configlet_containers c devs cfgs))"

definition deploy_configs_to_cv :: "'s config_client \<Rightarrow> eos_config list \<Rightarrow> ('s \<times> 'x config_run_scheme, unit) op" where
  "deploy_configs_to_cv c cfgs =
     (if cfgs = [] then ret ()
      else seq the_devices (\<lambda>devs.
        let there = (\<lambda>cfg. exists_on_cv (devs (config_device cfg)) = Some True); todo = filter there cfgs
        in seq (on_lists (\<lambda>r. r\<lparr>skipped_configs := skipped_configs r @ filter (\<lambda>cfg. \<not> there cfg) cfgs\<rparr>)) (\<lambda>_.
           if todo = [] then ret ()
           else seq (deploy_configlets_to_cv c todo) (\<lambda>_.
             seq (deploy_configlet_containers_to_cv c todo) (\<lambda>_.
               on_lists (\<lambda>r. r\<lparr>deployed_configs := deployed_configs r @ todo\<rparr>))))))"

section \<open>Deleting leftovers\<close>

definition remove_root :: "'s config_client \<Rightarrow> ('s, unit) op" where
  "remove_root c =
     seq (delete_configlet_container c configlet_container_id) (\<lambda>_.
     seq (get_assignment_roots c) (\<lambda>roots.
       if configlet_container_id \<in> set roots then set_assignment_roots c (remove1 configlet_container_id roots) else ret ()))"

definition reconcile_root :: "'s config_client \<Rightarrow> string list \<Rightarrow> container list \<Rightarrow> ('s, unit) op" where
  "reconcile_root c targets containers =
     (case map_of (dict_of (map (\<lambda>k. (cont_id k, k)) containers)) configlet_container_id of
        None \<Rightarrow> ret ()
      | Some root \<Rightarrow>
          (let remaining = filter (\<lambda>i. i \<notin> set targets) (cont_children root)
           in if remaining \<noteq> []
              then if remaining \<noteq> cont_children root then set_container_children c configlet_container_id remaining else ret ()
              else remove_root c))"

definition delete_found :: "'s config_client \<Rightarrow> string list \<Rightarrow> (string \<times> string) list \<Rightarrow> container list \<Rightarrow> ('s, unit) op" where
  "delete_found c targets configlets containers =
     (let ids = filter (\<lambda>i. i \<noteq> configlet_container_id) (dict_keys (dict_of (map (\<lambda>k. (cont_id k, k)) containers)))
      in seq (gather (map (delete_configlet_container c) ids @
            (if configlets = [] then [] else [delete_configlets c (map fst configlets)]))) (\<lambda>_. ret ()))"

definition delete_configs_from_cv :: "'s config_client \<Rightarrow> (dev_ref \<times> bool) list \<Rightarrow> ('s \<times> 'x config_run_scheme, unit) op" where
  "delete_configs_from_cv c deployments =
     seq the_devices (\<lambda>devs.
       let targets = map (\<lambda>(r, _). device_configlet_id (devs r))
             (filter (\<lambda>(r, manifest). manifest \<and> is_set (serial_number (devs r))) deployments)
       in if targets = [] then ret ()
          else seq (on_client (both (get_configlets c (Some targets)) (get_configlet_containers c (Some (targets @ [configlet_container_id]))))) (\<lambda>(found, containers).
              let configlets = dict_of found
              in seq (on_client (delete_found c targets configlets containers)) (\<lambda>_.
                 seq (on_lists (\<lambda>r. r\<lparr>removed_configs := removed_configs r @ map snd configlets\<rparr>)) (\<lambda>_.
                   on_client (reconcile_root c targets containers)))))"

section \<open>Studio inputs\<close>

fun in_batches :: "('s, unit) op list list \<Rightarrow> ('s, unit) op" where
  "in_batches [] = ret ()"
| "in_batches (b # bs) = seq (gather b) (\<lambda>_. in_batches bs)"

definition deploy_studio_inputs_to_cv :: "'s config_client \<Rightarrow> studio_input list \<Rightarrow> ('s \<times> 'x config_run_scheme, unit) op" where
  "deploy_studio_inputs_to_cv c inputs =
     (if inputs = [] then ret ()
      else seq (on_client (in_batches (batch_from 20 (map (set_studio_inputs c) inputs)))) (\<lambda>_.
        on_lists (\<lambda>r. r\<lparr>deployed_studio_inputs := deployed_studio_inputs r @ inputs\<rparr>)))"

end
