(* ===== verification/CvContainers.thy ===== *)
theory CvContainers
  imports CvConfigs
begin

text \<open>
  The deployment of the manifest to the Static Configuration Studio,
  \<open>pyavd/_cv/workflows/deploy_static_config_studio_manifest_to_cv.py\<close>: the existing containers and the roots of the studio
  are read as one graph, the containers to push, skip, delete and preserve are planned, the
  plan is checked and applied, and configlets are pushed and cleaned up. Sets that the code iterates over
  are lists without duplicates.
\<close>

section \<open>Walking the container graph\<close>

definition kids_of :: "(string, string list) dict \<Rightarrow> string \<Rightarrow> string list" where
  "kids_of kids x = (case map_of kids x of None \<Rightarrow> [] | Some ys \<Rightarrow> ys)"

text \<open>The loop of both \<open>add_preserved_container_subtree\<close> and \<open>add_container_subtree_to_delete\<close>: the queue, and the ids
  collected so far; ids where \<open>stop\<close> holds are left out.\<close>

function walk :: "(string \<Rightarrow> bool) \<Rightarrow> (string, string list) dict \<Rightarrow> string list \<Rightarrow> string list \<Rightarrow> string list" where
  "walk stop kids [] acc = acc"
| "walk stop kids (x # queue) acc =
     (if stop x \<or> x \<in> set acc then walk stop kids queue acc
      else walk stop kids (queue @ kids_of kids x) (acc @ [x]))"
  by pat_completeness auto

termination
proof (relation "(\<lambda>(stop, kids, queue, acc). card (set (dict_keys kids) - set acc)) <*mlex*>
    measure (\<lambda>(stop, kids, queue, acc). length queue)", goal_cases)
  case 1
  then show ?case by (simp add: wf_mlex)
next
  case (2 stop kids x queue acc)
  then show ?case by (simp add: mlex_iff)
next
  case (3 stop kids x queue acc)
  show ?case
  proof (cases "x \<in> set (dict_keys kids)")
    case True
    with 3 have "card (set (dict_keys kids) - set (acc @ [x])) < card (set (dict_keys kids) - set acc)"
      by (intro psubset_card_mono) auto
    then show ?thesis by (simp add: mlex_iff)
  next
    case False
    then have "kids_of kids x = []" "set (dict_keys kids) - set (acc @ [x]) = set (dict_keys kids) - set acc"
      by (simp_all add: kids_of_def iffD2 [OF dict_get_None] Diff_insert0)
    then show ?thesis by (simp add: mlex_iff)
  qed
qed

text \<open>What a walk collects: the ids that are reachable from the start along ids where \<open>stop\<close> does not hold\<close>

inductive_set reach :: "(string \<Rightarrow> bool) \<Rightarrow> (string \<Rightarrow> string list) \<Rightarrow> string set \<Rightarrow> string set" for stop kids starts where
  start: "x \<in> starts \<Longrightarrow> \<not> stop x \<Longrightarrow> x \<in> reach stop kids starts"
| step: "x \<in> reach stop kids starts \<Longrightarrow> y \<in> set (kids x) \<Longrightarrow> \<not> stop y \<Longrightarrow> y \<in> reach stop kids starts"

lemma reach_not_stop: "x \<in> reach stop kids S \<Longrightarrow> \<not> stop x"
  by (induction rule: reach.induct) auto

lemma reach_empty [simp]: "reach stop kids {} = {}"
proof -
  have "x \<in> reach stop kids {} \<Longrightarrow> False" for x by (induction rule: reach.induct) auto
  then show ?thesis by auto
qed

text \<open>A set that contains the start, where it does not stop, and is closed contains all that is reached.\<close>

lemma reach_subset:
  assumes "\<And>x. x \<in> S \<Longrightarrow> \<not> stop x \<Longrightarrow> x \<in> A" "\<And>x y. x \<in> A \<Longrightarrow> y \<in> set (kids x) \<Longrightarrow> \<not> stop y \<Longrightarrow> y \<in> A"
  shows "reach stop kids S \<subseteq> A"
proof
  fix x assume "x \<in> reach stop kids S"
  then show "x \<in> A" by (induction rule: reach.induct) (use assms in auto)
qed

lemma reach_mono: "S \<subseteq> T \<Longrightarrow> reach stop kids S \<subseteq> reach stop kids T"
  by (rule reach_subset) (auto intro: reach.intros)

lemma reach_Un: "reach stop kids (S \<union> T) = reach stop kids S \<union> reach stop kids T"
proof
  show "reach stop kids (S \<union> T) \<subseteq> reach stop kids S \<union> reach stop kids T"
    by (rule reach_subset) (auto intro: reach.intros)
qed (simp add: reach_mono)

lemma reach_kids_cong:
  assumes "\<And>x. x \<in> reach stop kids S \<Longrightarrow> kids' x = kids x"
  shows "reach stop kids' S = reach stop kids S"
proof
  show "reach stop kids' S \<subseteq> reach stop kids S"
    by (rule reach_subset) (use assms in \<open>auto intro: reach.intros\<close>)
  show "reach stop kids S \<subseteq> reach stop kids' S"
  proof
    fix x assume "x \<in> reach stop kids S"
    then show "x \<in> reach stop kids' S" by (induction rule: reach.induct) (use assms in \<open>auto intro: reach.intros\<close>)
  qed
qed

definition closed :: "(string \<Rightarrow> bool) \<Rightarrow> (string \<Rightarrow> string list) \<Rightarrow> string set \<Rightarrow> string set \<Rightarrow> bool" where
  "closed stop kids A B \<longleftrightarrow> (\<forall>x \<in> A. \<forall>y \<in> set (kids x). stop y \<or> y \<in> B)"

lemma walk_set:
  "closed stop (kids_of kids) (set acc) (set acc \<union> set queue) \<Longrightarrow>
     set (walk stop kids queue acc) = set acc \<union> reach stop (kids_of kids) (set queue)"
proof (induction stop kids queue acc rule: walk.induct)
  case (1 stop kids acc)
  then show ?case by simp
next
  case (2 stop kids x queue acc)
  let ?r = "reach stop (kids_of kids)"
  show ?case
  proof (cases "stop x \<or> x \<in> set acc")
    case True
    have "?r (set (x # queue)) \<subseteq> set acc \<union> ?r (set queue)"
      by (rule reach_subset) (use True 2(3) in \<open>auto simp: closed_def intro: reach.intros\<close>)
    moreover have "?r (set queue) \<subseteq> ?r (set (x # queue))" by (rule reach_mono) auto
    moreover have "closed stop (kids_of kids) (set acc) (set acc \<union> set queue)" using True 2(3) by (auto simp: closed_def)
    ultimately show ?thesis using True 2(1) by auto
  next
    case False
    have "?r (set (x # queue)) \<subseteq> insert x (?r (set (queue @ kids_of kids x)))"
      by (rule reach_subset) (auto intro: reach.intros)
    moreover have "?r (set (queue @ kids_of kids x)) \<subseteq> ?r (set (x # queue))"
      by (rule reach_subset) (use False in \<open>auto intro: reach.intros\<close>)
    moreover have "x \<in> ?r (set (x # queue))" using False by (auto intro: reach.intros)
    moreover have "closed stop (kids_of kids) (set (acc @ [x])) (set (acc @ [x]) \<union> set (queue @ kids_of kids x))"
      using 2(3) by (auto simp: closed_def)
    ultimately show ?thesis using False 2(2) by auto
  qed
qed

declare walk.simps [simp del]

lemma walks_set:
  assumes "closed stop (kids_of kids) (set acc) (set acc)"
  shows "set (fold (\<lambda>x. walk stop kids [x]) xs acc) = set acc \<union> reach stop (kids_of kids) (set xs)"
  using assms
proof (induction xs arbitrary: acc)
  case (Cons x xs)
  have "closed stop (kids_of kids) (set acc) (set acc \<union> set [x])" using Cons.prems by (auto simp: closed_def)
  then have w: "set (walk stop kids [x] acc) = set acc \<union> reach stop (kids_of kids) {x}"
    by (simp add: walk_set)
  have "closed stop (kids_of kids) (set (walk stop kids [x] acc)) (set (walk stop kids [x] acc))"
    using Cons.prems unfolding w closed_def by (auto intro: reach.intros)
  then show ?case
    using Cons.IH w reach_Un [of stop "kids_of kids" "{x}" "set xs"] by auto
qed simp

section \<open>The existing state\<close>

definition studio_root_parent :: string where
  "studio_root_parent = ''<Static Configuration Studio roots>''"

record container_state =
  st_containers :: "container list"
  st_root_ids :: "string list"
  st_by_id :: "(string, container) dict"
  st_children :: "(string, string list) dict"
  st_parents :: "(string, string list) dict"
  st_managed :: "string list"
  st_manual :: "string list"

definition append_parent :: "string \<times> string \<Rightarrow> (string, string list) dict \<Rightarrow> (string, string list) dict" where
  "append_parent = (\<lambda>(child, parent) d. AList.update child (kids_of d child @ [parent]) d)"

definition build_existing_container_state :: "container list \<Rightarrow> string list \<Rightarrow> container_state" where
  "build_existing_container_state cs roots =
     \<lparr>st_containers = cs, st_root_ids = roots,
      st_by_id = dict_of (map (\<lambda>c. (cont_id c, c)) cs),
      st_children = dict_of (map (\<lambda>c. (cont_id c, cont_children c)) cs),
      st_parents = fold append_parent
        (concat (map (\<lambda>c. map (\<lambda>i. (i, cont_id c)) (cont_children c)) cs) @ map (\<lambda>r. (r, studio_root_parent)) roots) [],
      st_managed = remdups (filter is_manifest_managed_id (map cont_id cs)),
      st_manual = remdups (filter (\<lambda>i. \<not> is_manifest_managed_id i) (map cont_id cs))\<rparr>"

definition container_name :: "container_state \<Rightarrow> string \<Rightarrow> string" where
  "container_name st i =
     (case map_of (st_by_id st) i of None \<Rightarrow> i | Some c \<Rightarrow> if cont_name c = [] then i else cont_name c)"

section \<open>Planned containers\<close>

record planned_container =
  pl_container :: cv_container
  pl_child_ids :: "string list"

abbreviation pl_id :: "planned_container \<Rightarrow> string" where
  "pl_id p \<equiv> cc_cid (pl_container p)"

definition or_empty :: "string option \<Rightarrow> string" where
  "or_empty s = (case s of None \<Rightarrow> [] | Some t \<Rightarrow> t)"

definition api_tuple :: "planned_container \<Rightarrow> container_tuple" where
  "api_tuple p =
     (let c = pl_container p; a = cc_avd c
      in (cc_cid c, ac_name a, or_empty (ac_description a), cc_configlet_ids c, ac_tag_query a,
          Some (pl_child_ids p), Some (ac_match_policy a)))"

definition assignment_tuple :: "container \<Rightarrow> container_tuple" where
  "assignment_tuple a =
     (cont_id a, cont_name a, cont_description a, cont_configlets a, cont_query a, Some (cont_children a), cont_policy a)"

definition matches_configlet_assignment :: "planned_container \<Rightarrow> container \<Rightarrow> bool" where
  "matches_configlet_assignment p a \<longleftrightarrow> api_tuple p = assignment_tuple a"

text \<open>\<open>_resolve_child_ids_for_plan\<close>: the effective and the preserved children\<close>

definition resolve_child_ids :: "container_state \<Rightarrow> cv_container \<Rightarrow> container option \<Rightarrow> string list \<times> string list" where
  "resolve_child_ids st c existing =
     (case existing of
        None \<Rightarrow> (cc_child_ids c, [])
      | Some a \<Rightarrow>
          (if \<not> ac_preserve (cc_avd c) then (cc_child_ids c, [])
           else
             let desired = cc_child_ids c;
                 preserved = filter (\<lambda>i. i \<in> set (st_managed st) \<and> i \<notin> set desired) (cont_children a)
             in (filter (\<lambda>i. i \<in> set desired \<or> i \<in> set preserved) (cont_children a) @
                 filter (\<lambda>i. i \<notin> set (cont_children a)) desired, preserved)))"

section \<open>The plan\<close>

record container_plan =
  to_push :: "planned_container list"
  to_skip :: "planned_container list"
  to_delete :: "string list"
  preserved_ids :: "string list"
  new_root_ids :: "string list"

definition add_preserved :: "container_state \<Rightarrow> string list \<Rightarrow> string \<Rightarrow> string list \<Rightarrow> string list" where
  "add_preserved st desired i acc = walk (\<lambda>x. x \<in> set desired) (st_children st) [i] acc"

definition add_to_delete :: "container_state \<Rightarrow> string list \<Rightarrow> string list \<Rightarrow> string \<Rightarrow> string list \<Rightarrow> string list" where
  "add_to_delete st desired preserved i acc =
     walk (\<lambda>x. x \<in> set desired \<or> x \<in> set preserved \<or> map_of (st_by_id st) x = None) (st_children st) [i] acc"

text \<open>One desired container: pushed or skipped, the preserved ids, and the manual children it loses\<close>

definition plan_one ::
  "container_state \<Rightarrow> string list \<Rightarrow> cv_container \<Rightarrow>
   planned_container list \<times> planned_container list \<times> string list \<times> string list \<Rightarrow>
   planned_container list \<times> planned_container list \<times> string list \<times> string list" where
  "plan_one st desired c = (\<lambda>(push, skip, preserved, manual).
     let existing = map_of (st_by_id st) (cc_cid c);
         (effective, preserved_roots) = resolve_child_ids st c existing;
         preserved' = fold (add_preserved st desired) preserved_roots preserved;
         p = \<lparr>pl_container = c, pl_child_ids = effective\<rparr>
     in case existing of
          None \<Rightarrow> (push @ [p], skip, preserved', manual)
        | Some a \<Rightarrow>
            (if matches_configlet_assignment p a then (push, skip @ [p], preserved', manual)
             else (push @ [p], skip, preserved',
               remdups (manual @ filter (\<lambda>i. i \<notin> set effective \<and> i \<in> set (st_manual st)) (cont_children a)))))"

definition plan_root_ids :: "cv_manifest \<Rightarrow> string list \<Rightarrow> string list" where
  "plan_root_ids m roots =
     (let desired = map cc_cid (filter cc_is_root (mf_containers m))
      in if set desired - set roots \<noteq> {} then
           (let manual = filter (\<lambda>i. \<not> is_manifest_managed_id i) roots
            in if mf_preserve m
               then filter is_manifest_managed_id roots @ filter (\<lambda>i. i \<notin> set roots) desired @ manual
               else desired @ manual)
         else filter (\<lambda>i. mf_preserve m \<or> i \<in> set desired \<or> \<not> is_manifest_managed_id i) roots)"

definition build_container_plan :: "cv_manifest \<Rightarrow> container_state \<Rightarrow> container_plan" where
  "build_container_plan m st =
     (let desired = map cc_cid (mf_containers m);
          (push, skip, preserved, manual) = fold (plan_one st desired) (mf_containers m) ([], [], [], []);
          deleted = fold (add_to_delete st desired preserved) manual [];
          desired_roots = map cc_cid (filter cc_is_root (mf_containers m));
          preserved' = (if mf_preserve m
            then fold (add_preserved st desired) (filter (\<lambda>i. i \<notin> set desired_roots) (st_root_ids st)) preserved else preserved);
          deleted' = fold (add_to_delete st desired preserved')
            (filter (\<lambda>i. i \<notin> set desired \<and> i \<notin> set preserved') (st_managed st)) deleted
      in \<lparr>to_push = push, to_skip = skip, to_delete = deleted', preserved_ids = preserved',
          new_root_ids = plan_root_ids m (st_root_ids st)\<rparr>)"

definition touched_ids :: "container_plan \<Rightarrow> string set" where
  "touched_ids p = pl_id ` set (to_push p) \<union> set (to_delete p)"

text \<open>\<open>_validate_existing_container_state\<close>: managed containers, and their manual parents that stay\<close>

definition violations :: "container_state \<Rightarrow> container_plan \<Rightarrow> (string \<times> string) list" where
  "violations st p =
     concat (map (\<lambda>i. map (Pair i)
         (filter (\<lambda>q. q \<noteq> studio_root_parent \<and> \<not> is_manifest_managed_id q \<and> q \<notin> set (to_delete p))
           (remdups (kids_of (st_parents st) i))))
       (filter (\<lambda>i. i \<notin> set (preserved_ids p)) (st_managed st)))"

definition validate_existing :: "container_state \<Rightarrow> container_plan \<Rightarrow> (cv_exn, unit) result" where
  "validate_existing st p = (if violations st p \<noteq> [] then Inl CVManifestError else Inr ())"

section \<open>The workflow\<close>

record manifest_run = config_run +
  deployed_containers :: "avd_container list"
  skipped_containers :: "avd_container list"
  removed_containers :: "string list"
  deployed_configlets :: "avd_configlet list"
  removed_configlets :: "string list"

definition push_containers :: "'s config_client \<Rightarrow> container_plan \<Rightarrow> ('s \<times> 'x manifest_run_scheme, unit) op" where
  "push_containers c p =
     (if to_push p = [] then ret ()
      else seq (on_lists (\<lambda>r. r\<lparr>deployed_containers := deployed_containers r @ map (\<lambda>q. cc_avd (pl_container q)) (to_push p)\<rparr>)) (\<lambda>_.
        on_client (set_configlet_containers c (map api_tuple (to_push p)))))"

definition delete_containers ::
  "'s config_client \<Rightarrow> container_state \<Rightarrow> container_plan \<Rightarrow> ('s \<times> 'x manifest_run_scheme, unit) op" where
  "delete_containers c st p =
     (if to_delete p = [] then ret ()
      else seq (on_lists (\<lambda>r. r\<lparr>removed_containers := removed_containers r @ map (container_name st) (to_delete p)\<rparr>)) (\<lambda>_.
        seq (on_client (gather (map (delete_configlet_container c) (to_delete p)))) (\<lambda>_. ret ())))"

definition apply_container_plan ::
  "'s config_client \<Rightarrow> container_state \<Rightarrow> container_plan \<Rightarrow> ('s \<times> 'x manifest_run_scheme, unit) op" where
  "apply_container_plan c st p =
     seq (on_lists (\<lambda>r. r\<lparr>skipped_containers := skipped_containers r @ map (\<lambda>q. cc_avd (pl_container q)) (to_skip p)\<rparr>)) (\<lambda>_.
     seq (push_containers c p) (\<lambda>_.
     seq (delete_containers c st p) (\<lambda>_.
       if new_root_ids p \<noteq> st_root_ids st then on_client (set_assignment_roots c (new_root_ids p)) else ret ())))"

definition sync_containers ::
  "'s config_client \<Rightarrow> cv_manifest \<Rightarrow> ('s \<times> 'x manifest_run_scheme, container list \<times> string set \<times> string list) op" where
  "sync_containers c m =
     seq (on_client (both (get_configlet_containers c None) (get_assignment_roots c))) (\<lambda>(existing, roots).
       let st = build_existing_container_state existing roots; p = build_container_plan m st
       in seq (of_result (validate_existing st p)) (\<lambda>_.
          seq (apply_container_plan c st p) (\<lambda>_. ret (existing, touched_ids p, preserved_ids p))))"

text \<open>The configlets that are no longer used, with their names, and the containers outside of the plan that hold one\<close>

definition configlets_to_delete ::
  "cv_manifest \<Rightarrow> container list \<Rightarrow> string list \<Rightarrow> (string \<times> string) list \<Rightarrow> (string, string) dict" where
  "configlets_to_delete m existing preserved found =
     (let kept = concat (map cont_configlets (filter (\<lambda>a. cont_id a \<in> set preserved) existing))
      in dict_of (map (\<lambda>(i, n). (i, if n = [] then i else n))
           (filter (\<lambda>(i, n). is_manifest_managed_id i \<and> i \<notin> cf_id ` set (mf_configlets m) \<and> i \<notin> set kept) found)))"

definition holder_violations :: "container list \<Rightarrow> string set \<Rightarrow> string list \<Rightarrow> (string \<times> string) list" where
  "holder_violations existing touched ids =
     concat (map (\<lambda>i. map (\<lambda>a. (i, cont_id a))
       (filter (\<lambda>a. i \<in> set (cont_configlets a) \<and> cont_id a \<notin> touched) existing)) ids)"

definition sync_configlets ::
  "'s config_client \<Rightarrow> cv_manifest \<Rightarrow> container list \<times> string set \<times> string list \<Rightarrow> ('s \<times> 'x manifest_run_scheme, unit) op" where
  "sync_configlets c m = (\<lambda>(existing, touched, preserved).
     seq (if mf_configlets m = [] then ret ()
          else seq (on_lists (\<lambda>r. r\<lparr>deployed_configlets := deployed_configlets r @ map cf_avd (mf_configlets m)\<rparr>)) (\<lambda>_.
            on_client (set_configlets_from_files c (map cf_api_tuple (mf_configlets m))))) (\<lambda>_.
     seq (on_client (get_configlets c None)) (\<lambda>found.
       let gone = configlets_to_delete m existing preserved found
       in if gone = [] then ret ()
          else if holder_violations existing touched (dict_keys gone) \<noteq> [] then fail CVManifestError
          else seq (on_lists (\<lambda>r. r\<lparr>removed_configlets := removed_configlets r @ dict_values gone\<rparr>)) (\<lambda>_.
            on_client (delete_configlets c (dict_keys gone))))))"

definition deploy_static_config_studio_manifest_to_cv ::
  "(string \<Rightarrow> string) \<Rightarrow> 's config_client \<Rightarrow> avd_manifest \<Rightarrow> ('s \<times> 'x manifest_run_scheme, unit) op" where
  "deploy_static_config_studio_manifest_to_cv uuid c am =
     seq (of_result (from_avd_manifest uuid am)) (\<lambda>m.
       if mf_configlets m = [] \<and> mf_containers m = [] then ret ()
       else seq (sync_containers c m) (sync_configlets c m))"

section \<open>The plan as sets\<close>

abbreviation kids :: "container_state \<Rightarrow> string \<Rightarrow> string list" where
  "kids st \<equiv> kids_of (st_children st)"

definition desired_ids :: "cv_manifest \<Rightarrow> string set" where
  "desired_ids m = cc_cid ` set (mf_containers m)"

definition desired_root_ids :: "cv_manifest \<Rightarrow> string set" where
  "desired_root_ids m = cc_cid ` {c \<in> set (mf_containers m). cc_is_root c}"

definition existing_of :: "container_state \<Rightarrow> cv_container \<Rightarrow> container option" where
  "existing_of st c = map_of (st_by_id st) (cc_cid c)"

definition planned :: "container_state \<Rightarrow> cv_container \<Rightarrow> planned_container" where
  "planned st c = \<lparr>pl_container = c, pl_child_ids = fst (resolve_child_ids st c (existing_of st c))\<rparr>"

definition kept_children :: "container_state \<Rightarrow> cv_container \<Rightarrow> string list" where
  "kept_children st c = snd (resolve_child_ids st c (existing_of st c))"

definition unchanged :: "container_state \<Rightarrow> cv_container \<Rightarrow> bool" where
  "unchanged st c = (case existing_of st c of None \<Rightarrow> False | Some a \<Rightarrow> matches_configlet_assignment (planned st c) a)"

text \<open>The manual children that a changed container loses\<close>

definition lost_children :: "container_state \<Rightarrow> cv_container \<Rightarrow> string set" where
  "lost_children st c =
     (case existing_of st c of None \<Rightarrow> {}
      | Some a \<Rightarrow> if unchanged st c then {}
          else {i \<in> set (cont_children a). i \<notin> set (pl_child_ids (planned st c)) \<and> i \<in> set (st_manual st)})"

lemma plan_one_eq:
  "plan_one st desired c (push, skip, preserved, manual) =
     (push @ (if unchanged st c then [] else [planned st c]), skip @ (if unchanged st c then [planned st c] else []),
      fold (add_preserved st desired) (kept_children st c) preserved,
      (case existing_of st c of None \<Rightarrow> manual | Some a \<Rightarrow> if unchanged st c then manual
        else remdups (manual @ filter (\<lambda>i. i \<notin> set (pl_child_ids (planned st c)) \<and> i \<in> set (st_manual st)) (cont_children a))))"
  by (simp add: plan_one_def existing_of_def [symmetric] planned_def kept_children_def unchanged_def Let_def split: prod.split option.split)

lemma plan_fold:
  "\<exists>manual'. fold (plan_one st desired) cs (push, skip, preserved, manual) =
     (push @ map (planned st) (filter (\<lambda>c. \<not> unchanged st c) cs), skip @ map (planned st) (filter (unchanged st) cs),
      fold (add_preserved st desired) (concat (map (kept_children st) cs)) preserved, manual') \<and>
     set manual' = set manual \<union> (\<Union>c \<in> set cs. lost_children st c)"
proof (induction cs arbitrary: push skip preserved manual)
  case (Cons c cs)
  let ?manual = "case existing_of st c of None \<Rightarrow> manual | Some a \<Rightarrow> if unchanged st c then manual
        else remdups (manual @ filter (\<lambda>i. i \<notin> set (pl_child_ids (planned st c)) \<and> i \<in> set (st_manual st)) (cont_children a))"
  have lost: "set ?manual = set manual \<union> lost_children st c" by (auto simp: lost_children_def split: option.split)
  note IH = Cons.IH [of "push @ (if unchanged st c then [] else [planned st c])" "skip @ (if unchanged st c then [planned st c] else [])"
      "fold (add_preserved st desired) (kept_children st c) preserved" ?manual]
  then obtain manual' where "fold (plan_one st desired) (c # cs) (push, skip, preserved, manual) =
     (push @ map (planned st) (filter (\<lambda>c. \<not> unchanged st c) (c # cs)), skip @ map (planned st) (filter (unchanged st) (c # cs)),
      fold (add_preserved st desired) (concat (map (kept_children st) (c # cs))) preserved, manual')"
     "set manual' = set ?manual \<union> (\<Union>c \<in> set cs. lost_children st c)"
    by (cases "unchanged st c") (auto simp: plan_one_eq)
  then show ?case unfolding lost by auto
qed simp

text \<open>What is preserved starts at the preserved children and, if the user asks for it, at the other roots.\<close>

definition preserved_starts :: "cv_manifest \<Rightarrow> container_state \<Rightarrow> string set" where
  "preserved_starts m st = (\<Union>c \<in> set (mf_containers m). set (kept_children st c))"

definition root_starts :: "cv_manifest \<Rightarrow> container_state \<Rightarrow> string set" where
  "root_starts m st = (if mf_preserve m then set (st_root_ids st) - desired_root_ids m else {})"

definition below_kept :: "cv_manifest \<Rightarrow> container_state \<Rightarrow> string set \<Rightarrow> string set" where
  "below_kept m st S = reach (\<lambda>x. x \<in> desired_ids m) (kids st) S"

definition lost :: "cv_manifest \<Rightarrow> container_state \<Rightarrow> string set" where
  "lost m st = (\<Union>c \<in> set (mf_containers m). lost_children st c)"

definition stays :: "cv_manifest \<Rightarrow> container_state \<Rightarrow> string set \<Rightarrow> string \<Rightarrow> bool" where
  "stays m st P x \<longleftrightarrow> x \<in> desired_ids m \<or> x \<in> P \<or> map_of (st_by_id st) x = None"

definition stale :: "cv_manifest \<Rightarrow> container_state \<Rightarrow> string set \<Rightarrow> string set" where
  "stale m st P = set (st_managed st) - desired_ids m - P"

lemma closed_reach: "closed stop k (reach stop k S) (reach stop k S)"
  by (auto simp: closed_def intro: reach.intros)

lemma closed_weaken: "closed stop k A B \<Longrightarrow> (\<And>x. stop x \<Longrightarrow> stop' x) \<Longrightarrow> closed stop' k A B"
  by (auto simp: closed_def)

lemma build_plan_facts:
  fixes m :: cv_manifest and st :: container_state
  defines "p \<equiv> build_container_plan m st" and "P0 \<equiv> below_kept m st (preserved_starts m st)"
  shows "to_push p = map (planned st) (filter (\<lambda>c. \<not> unchanged st c) (mf_containers m))" (is ?pushes)
    and "to_skip p = map (planned st) (filter (unchanged st) (mf_containers m))" (is ?skips)
    and "set (preserved_ids p) = below_kept m st (preserved_starts m st \<union> root_starts m st)" (is ?keeps)
    and "set (to_delete p) = reach (stays m st P0) (kids st) (lost m st) \<union>
      reach (stays m st (set (preserved_ids p))) (kids st) (stale m st (set (preserved_ids p)))" (is ?deletes)
    and "new_root_ids p = plan_root_ids m (st_root_ids st)" (is ?new)
proof -
  let ?desired = "map cc_cid (mf_containers m)"
  let ?stop = "\<lambda>x. x \<in> set ?desired"
  let ?other_roots = "filter (\<lambda>i. i \<notin> set (map cc_cid (filter cc_is_root (mf_containers m)))) (st_root_ids st)"
  define first where "first = fold (add_preserved st ?desired) (concat (map (kept_children st) (mf_containers m))) []"
  define kept where "kept = (if mf_preserve m then fold (add_preserved st ?desired) ?other_roots first else first)"
  obtain manual where f: "fold (plan_one st ?desired) (mf_containers m) ([], [], [], []) =
     (map (planned st) (filter (\<lambda>c. \<not> unchanged st c) (mf_containers m)), map (planned st) (filter (unchanged st) (mf_containers m)), first, manual)"
     and manual: "set manual = lost m st"
    using plan_fold [of st ?desired "mf_containers m" "[]" "[]" "[]" "[]"] by (auto simp: lost_def first_def)
  define gone where "gone = fold (add_to_delete st ?desired first) manual []"
  have p: "p = \<lparr>to_push = map (planned st) (filter (\<lambda>c. \<not> unchanged st c) (mf_containers m)),
      to_skip = map (planned st) (filter (unchanged st) (mf_containers m)),
      to_delete = fold (add_to_delete st ?desired kept) (filter (\<lambda>i. i \<notin> set ?desired \<and> i \<notin> set kept) (st_managed st)) gone,
      preserved_ids = kept, new_root_ids = plan_root_ids m (st_root_ids st)\<rparr>"
    unfolding p_def build_container_plan_def Let_def f prod.case by (simp only: gone_def kept_def)
  show ?pushes ?skips ?new by (simp_all add: p)
  have walk: "fold (add_preserved st ?desired) xs acc = fold (\<lambda>x. walk ?stop (st_children st) [x]) xs acc" for xs acc
    by (rule fold_cong) (simp_all add: add_preserved_def fun_eq_iff)
  have stop: "reach ?stop (kids st) S = below_kept m st S" for S by (simp add: below_kept_def desired_ids_def)
  have first: "set first = P0"
    unfolding first_def walk using walks_set [of ?stop "st_children st" "[]" "concat (map (kept_children st) (mf_containers m))"]
    by (simp only: stop) (simp add: P0_def preserved_starts_def closed_def)
  have "closed ?stop (kids st) (set first) (set first)"
    unfolding first P0_def stop [symmetric] by (rule closed_reach)
  then have "set (fold (add_preserved st ?desired) ?other_roots first) = P0 \<union> below_kept m st (set ?other_roots)"
    unfolding walk using walks_set [of ?stop "st_children st" first ?other_roots] by (simp only: stop first)
  moreover have "set ?other_roots = set (st_root_ids st) - desired_root_ids m" by (auto simp: desired_root_ids_def)
  ultimately have kept: "set kept = below_kept m st (preserved_starts m st \<union> root_starts m st)"
    by (simp only: kept_def root_starts_def P0_def below_kept_def reach_Un reach_empty first if_distrib [of set] Un_empty_right split: if_split) simp
  then show ?keeps by (simp add: p)
  have del: "fold (add_to_delete st ?desired ks) xs acc = fold (\<lambda>x. walk (stays m st (set ks)) (st_children st) [x]) xs acc" for ks xs acc
  proof -
    have "(\<lambda>x. x \<in> set ?desired \<or> x \<in> set ks \<or> map_of (st_by_id st) x = None) = stays m st (set ks)"
      by (simp add: fun_eq_iff stays_def desired_ids_def)
    then show ?thesis by (intro fold_cong) (simp_all add: add_to_delete_def fun_eq_iff)
  qed
  have gone: "set gone = reach (stays m st P0) (kids st) (lost m st)"
    unfolding gone_def del first using walks_set [of "stays m st P0" "st_children st" "[]" manual] by (simp add: closed_def manual)
  have "P0 \<subseteq> set kept" unfolding kept P0_def below_kept_def reach_Un by simp
  then have "closed (stays m st (set kept)) (kids st) (set gone) (set gone)"
    unfolding gone by (intro closed_weaken [OF closed_reach]) (auto simp: stays_def)
  then have "set (to_delete p) = set gone \<union> reach (stays m st (set kept)) (kids st) (set (filter (\<lambda>i. i \<notin> set ?desired \<and> i \<notin> set kept) (st_managed st)))"
    unfolding p container_plan.simps del [of kept] by (rule walks_set)
  moreover have "set (filter (\<lambda>i. i \<notin> set ?desired \<and> i \<notin> set kept) (st_managed st)) = stale m st (set kept)"
    by (auto simp: stale_def desired_ids_def)
  ultimately show ?deletes by (simp only: gone p container_plan.simps)
qed

end
