(* ===== verification/CvStudio.thy ===== *)
theory CvStudio
  imports CvContainers
begin

text \<open>
  The deployment of the manifest against a studio that does what it is asked: a store of containers, of
  roots and of configlets, and the client on it. The properties say what the studio holds after a deployment, and
  that a second deployment of the same manifest changes nothing.
\<close>

section \<open>The existing state, read as a map\<close>

definition cmap :: "container list \<Rightarrow> string \<Rightarrow> container option" where
  "cmap cs = map_of (map (\<lambda>c. (cont_id c, c)) cs)"

abbreviation ids_distinct :: "container list \<Rightarrow> bool" where
  "ids_distinct cs \<equiv> distinct (map cont_id cs)"

lemma cmap_Some:
  assumes "ids_distinct cs"
  shows "cmap cs i = Some a \<longleftrightarrow> a \<in> set cs \<and> cont_id a = i"
proof -
  have "distinct (map fst (map (\<lambda>c. (cont_id c, c)) cs))" using assms by (simp add: comp_def)
  then have "cmap cs i = Some a \<longleftrightarrow> (i, a) \<in> set (map (\<lambda>c. (cont_id c, c)) cs)"
    unfolding cmap_def by (rule dict_mem_get [symmetric])
  then show ?thesis by auto
qed

lemma cmap_None: "cmap cs i = None \<longleftrightarrow> i \<notin> cont_id ` set cs"
proof -
  have "fst ` set (map (\<lambda>c. (cont_id c, c)) cs) = cont_id ` set cs" by (simp add: image_image)
  then show ?thesis by (simp only: cmap_def map_of_eq_None_iff)
qed

definition kids_in :: "(string \<Rightarrow> container option) \<Rightarrow> string \<Rightarrow> string list" where
  "kids_in f i = (case f i of None \<Rightarrow> [] | Some a \<Rightarrow> cont_children a)"

lemma kids_in_exists: "y \<in> set (kids_in f p) \<Longrightarrow> f p \<noteq> None"
  by (cases "f p") (auto simp: kids_in_def)

lemma append_parents: "kids_of (fold append_parent es d) i = kids_of d i @ map snd (filter (\<lambda>e. fst e = i) es)"
  by (induction es arbitrary: d) (auto simp: append_parent_def kids_of_def update_conv' split: prod.split)

lemma existing_state:
  fixes cs :: "container list" and roots :: "string list"
  defines "st \<equiv> build_existing_container_state cs roots"
  assumes "ids_distinct cs"
  shows "map_of (st_by_id st) = cmap cs" (is ?by_id)
    and "kids st = kids_in (cmap cs)" (is ?kids)
    and "set (st_managed st) = {i. cmap cs i \<noteq> None \<and> is_manifest_managed_id i}" (is ?managed)
    and "set (st_manual st) = {i. cmap cs i \<noteq> None \<and> \<not> is_manifest_managed_id i}" (is ?manual)
    and "st_root_ids st = roots" "st_containers st = cs"
    and "set (kids_of (st_parents st) i) = {cont_id a |a. a \<in> set cs \<and> i \<in> set (cont_children a)} \<union> (if i \<in> set roots then {studio_root_parent} else {})" (is ?parents)
proof -
  have id: "dict_of (map (\<lambda>c. (cont_id c, f c)) cs) = map (\<lambda>c. (cont_id c, f c)) cs" for f :: "container \<Rightarrow> 'x"
    by (rule dict_of_id) (use assms(2) in \<open>simp add: comp_def\<close>)
  show ?by_id by (simp add: st_def build_existing_container_state_def id cmap_def)
  have "map_of (map (\<lambda>c. (cont_id c, cont_children c)) cs) i = map_option cont_children (cmap cs i)" for i
    by (induction cs) (auto simp: cmap_def)
  then show ?kids
    by (simp add: st_def build_existing_container_state_def id kids_of_def kids_in_def fun_eq_iff split: option.split)
  show ?managed ?manual by (auto simp: st_def build_existing_container_state_def cmap_None)
  show "st_root_ids st = roots" "st_containers st = cs" by (simp_all add: st_def build_existing_container_state_def)
  have parents: "kids_of (st_parents st) i =
      map snd (filter (\<lambda>e. fst e = i) (concat (map (\<lambda>c. map (\<lambda>i. (i, cont_id c)) (cont_children c)) cs) @ map (\<lambda>r. (r, studio_root_parent)) roots))"
    unfolding st_def build_existing_container_state_def container_state.simps append_parents by (simp add: kids_of_def)
  show ?parents unfolding parents by (auto simp: image_iff)
qed

section \<open>The studio\<close>

record studio =
  sd_containers :: "container list"
  sd_roots :: "string list"
  sd_configlets :: "(string, string) dict"

definition new_container :: "container_tuple \<Rightarrow> container option \<Rightarrow> container" where
  "new_container = (\<lambda>(i, n, d, ids, q, children, policy) old.
     \<lparr>cont_id = i, cont_name = n, cont_description = d, cont_query = q, cont_configlets = ids,
      cont_children = (case children of Some ks \<Rightarrow> ks | None \<Rightarrow> (case old of None \<Rightarrow> [] | Some a \<Rightarrow> cont_children a)),
      cont_policy = (case policy of Some p \<Rightarrow> Some p | None \<Rightarrow> Some MatchAll)\<rparr>)"

definition put_container :: "container_tuple \<Rightarrow> container list \<Rightarrow> container list" where
  "put_container t cs =
     (let new = new_container t (cmap cs (fst t))
      in if cmap cs (fst t) = None then cs @ [new] else map (\<lambda>a. if cont_id a = fst t then new else a) cs)"

lemma new_container_id [simp]: "cont_id (new_container t old) = fst t"
  by (simp add: new_container_def split: prod.split)

definition set_children :: "string \<Rightarrow> string list \<Rightarrow> container list \<Rightarrow> container list" where
  "set_children i ks = map (\<lambda>a. if cont_id a = i then a\<lparr>cont_children := ks\<rparr> else a)"

definition chosen :: "string list option \<Rightarrow> string \<Rightarrow> bool" where
  "chosen ids i \<longleftrightarrow> (case ids of None \<Rightarrow> True | Some is \<Rightarrow> i \<in> set is)"

definition studio_client :: "studio config_client" where
  "studio_client =
     \<lparr>set_configlets_from_files = (\<lambda>ts. modify_state (\<lambda>s. s\<lparr>sd_configlets := fold (\<lambda>(i, n, _, _). AList.update i n) ts (sd_configlets s)\<rparr>)),
      get_configlets = (\<lambda>ids. seq get_state (\<lambda>s. ret (filter (\<lambda>(i, _). chosen ids i) (sd_configlets s)))),
      delete_configlets = (\<lambda>is. modify_state (\<lambda>s. s\<lparr>sd_configlets := filter (\<lambda>(i, _). i \<notin> set is) (sd_configlets s)\<rparr>)),
      get_configlet_containers = (\<lambda>ids. seq get_state (\<lambda>s. ret (filter (\<lambda>a. chosen ids (cont_id a)) (sd_containers s)))),
      set_configlet_containers = (\<lambda>ts. modify_state (\<lambda>s. s\<lparr>sd_containers := fold put_container ts (sd_containers s)\<rparr>)),
      create_configlet_container = (\<lambda>i n d q. modify_state (\<lambda>s. s\<lparr>sd_containers := put_container (i, n, d, [], q, None, None) (sd_containers s)\<rparr>)),
      set_container_children = (\<lambda>i ks. modify_state (\<lambda>s. s\<lparr>sd_containers := set_children i ks (sd_containers s)\<rparr>)),
      delete_configlet_container = (\<lambda>i. modify_state (\<lambda>s. s\<lparr>sd_containers := filter (\<lambda>a. cont_id a \<noteq> i) (sd_containers s)\<rparr>)),
      get_assignment_roots = seq get_state (\<lambda>s. ret (sd_roots s)),
      set_assignment_roots = (\<lambda>rs. modify_state (\<lambda>s. s\<lparr>sd_roots := rs\<rparr>)),
      set_studio_inputs = (\<lambda>_. ret ())\<rparr>"

lemma replace_ids: "cont_id k = i \<Longrightarrow> map cont_id (map (\<lambda>a. if cont_id a = i then k else a) cs) = map cont_id cs"
  by (induction cs) auto

lemma put_container_ids: "ids_distinct cs \<Longrightarrow> ids_distinct (put_container t cs)"
  by (cases "cmap cs (fst t) = None")
    (simp_all only: put_container_def Let_def if_True if_False replace_ids new_container_id, auto simp: cmap_None)

lemma cmap_replace: "cmap (map (\<lambda>a. if cont_id a = i then k else a) cs) j =
    (if j = i \<and> cont_id k = i \<and> cmap cs i \<noteq> None then Some k else cmap cs j)" if "cont_id k = i"
  using that by (induction cs) (auto simp: cmap_def)

lemma cmap_snoc: "cmap (cs @ [k]) j = (case cmap cs j of None \<Rightarrow> if j = cont_id k then Some k else None | Some a \<Rightarrow> Some a)"
  by (auto simp: cmap_def map_add_def split: option.split)

definition container_of :: "planned_container \<Rightarrow> container" where
  "container_of p =
     (let c = pl_container p; a = cc_avd c
      in \<lparr>cont_id = cc_cid c, cont_name = ac_name a, cont_description = or_empty (ac_description a), cont_query = ac_tag_query a,
          cont_configlets = cc_configlet_ids c, cont_children = pl_child_ids p, cont_policy = Some (ac_match_policy a)\<rparr>)"

lemma new_container_api: "new_container (api_tuple p) old = container_of p" "fst (api_tuple p) = pl_id p" "cont_id (container_of p) = pl_id p"
  by (simp_all add: new_container_def api_tuple_def container_of_def Let_def)

lemma cmap_put: "cmap (put_container (api_tuple p) cs) = (cmap cs)(pl_id p \<mapsto> container_of p)"
  by (auto simp: put_container_def new_container_api Let_def fun_eq_iff cmap_snoc cmap_replace split: option.split)

lemma cmap_puts:
  "distinct (map pl_id ps) \<Longrightarrow>
     cmap (fold put_container (map api_tuple ps) cs) i =
       (case map_of (map (\<lambda>p. (pl_id p, container_of p)) ps) i of Some a \<Rightarrow> Some a | None \<Rightarrow> cmap cs i)"
proof (induction ps arbitrary: cs)
  case (Cons p ps)
  then have "map_of (map (\<lambda>p. (pl_id p, container_of p)) ps) (pl_id p) = None" by (auto simp: map_of_eq_None_iff comp_def)
  with Cons show ?case by (auto simp: cmap_put split: option.split)
qed simp

lemma puts_ids: "ids_distinct cs \<Longrightarrow> ids_distinct (fold put_container ts cs)"
  by (induction ts arbitrary: cs) (simp_all add: put_container_ids)

lemma cmap_filter: "cmap (filter (\<lambda>a. P (cont_id a)) cs) i = (if P i then cmap cs i else None)"
  by (induction cs) (auto simp: cmap_def)

section \<open>A deployment to the studio\<close>

definition after_plan :: "container_plan \<Rightarrow> studio \<Rightarrow> studio" where
  "after_plan p sd =
     sd\<lparr>sd_containers := filter (\<lambda>a. cont_id a \<notin> set (to_delete p)) (fold put_container (map api_tuple (to_push p)) (sd_containers sd)),
        sd_roots := new_root_ids p\<rparr>"

definition container_results :: "container_state \<Rightarrow> container_plan \<Rightarrow> 'x manifest_run_scheme \<Rightarrow> 'x manifest_run_scheme" where
  "container_results st p r =
     r\<lparr>skipped_containers := skipped_containers r @ map (\<lambda>q. cc_avd (pl_container q)) (to_skip p),
       deployed_containers := deployed_containers r @ map (\<lambda>q. cc_avd (pl_container q)) (to_push p),
       removed_containers := removed_containers r @ map (container_name st) (to_delete p)\<rparr>"

lemma gather_deletes:
  "gather (map (delete_configlet_container studio_client) is) sd =
     (Inr (map (\<lambda>_. ()) is), sd\<lparr>sd_containers := filter (\<lambda>a. cont_id a \<notin> set is) (sd_containers sd)\<rparr>)"
proof (induction "is" arbitrary: sd)
  case (Cons i "is")
  have "delete_configlet_container studio_client i sd = (Inr (), sd\<lparr>sd_containers := filter (\<lambda>a. cont_id a \<noteq> i) (sd_containers sd)\<rparr>)"
    by (simp add: studio_client_def)
  then show ?case by (simp add: Cons.IH conj_commute)
qed simp

lemma push_run:
  "push_containers studio_client p (sd, r) =
     (Inr (), (sd\<lparr>sd_containers := fold put_container (map api_tuple (to_push p)) (sd_containers sd)\<rparr>,
       r\<lparr>deployed_containers := deployed_containers r @ map (\<lambda>q. cc_avd (pl_container q)) (to_push p)\<rparr>))"
  by (cases "to_push p") (simp_all add: push_containers_def seq_def on_client_def on_lists_def studio_client_def)

lemma delete_run:
  "delete_containers studio_client st p (sd, r) =
     (Inr (), (sd\<lparr>sd_containers := filter (\<lambda>a. cont_id a \<notin> set (to_delete p)) (sd_containers sd)\<rparr>,
       r\<lparr>removed_containers := removed_containers r @ map (container_name st) (to_delete p)\<rparr>))"
proof (cases "to_delete p = []")
  case False
  then show ?thesis by (simp add: delete_containers_def seq_def on_client_def on_lists_def gather_deletes del: gather.simps)
qed (simp add: delete_containers_def)

lemma apply_run:
  "st_root_ids st = sd_roots sd \<Longrightarrow>
     apply_container_plan studio_client st p (sd, r) = (Inr (), (after_plan p sd, container_results st p r))"
  by (simp add: apply_container_plan_def seq_def on_lists_def push_run delete_run)
    (simp add: after_plan_def container_results_def on_client_def studio_client_def)

lemma read_run:
  "both (get_configlet_containers studio_client None) (get_assignment_roots studio_client) sd =
     (Inr (sd_containers sd, sd_roots sd), sd)"
  by (simp add: both_def studio_client_def seq_def chosen_def)

lemma sync_containers_run:
  fixes sd :: studio and m :: cv_manifest
  defines "st \<equiv> build_existing_container_state (sd_containers sd) (sd_roots sd)"
  defines "p \<equiv> build_container_plan m st"
  shows "sync_containers studio_client m (sd, r) =
    (if violations st p \<noteq> [] then (Inl CVManifestError, (sd, r))
     else (Inr (sd_containers sd, touched_ids p, preserved_ids p), (after_plan p sd, container_results st p r)))"
proof -
  have "st_root_ids st = sd_roots sd" by (simp add: st_def build_existing_container_state_def)
  then show ?thesis
    unfolding sync_containers_def seq_def on_client_def fst_conv read_run snd_conv
    by (simp add: Let_def st_def [symmetric] p_def [symmetric] validate_existing_def of_result_def apply_run)
qed

definition pushed_configlets :: "cv_manifest \<Rightarrow> (string, string) dict \<Rightarrow> (string, string) dict" where
  "pushed_configlets m d = fold (\<lambda>c. AList.update (cf_id c) (cf_name c)) (mf_configlets m) d"

lemma sync_configlets_run:
  fixes sd :: studio and m :: cv_manifest and existing :: "container list" and preserved :: "string list"
  defines "found \<equiv> pushed_configlets m (sd_configlets sd)"
  defines "gone \<equiv> configlets_to_delete m existing preserved found"
  shows "\<exists>r'. sync_configlets studio_client m (existing, touched, preserved) (sd, r) =
    (if holder_violations existing touched (dict_keys gone) \<noteq> [] then (Inl CVManifestError, (sd\<lparr>sd_configlets := found\<rparr>, r'))
     else (Inr (), (sd\<lparr>sd_configlets := filter (\<lambda>(i, _). i \<notin> set (dict_keys gone)) found\<rparr>, r')))"
proof -
  have "fold (\<lambda>(i, n, _, _). AList.update i n) (map cf_api_tuple cs) d = fold (\<lambda>c. AList.update (cf_id c) (cf_name c)) cs d" for cs d
    by (induction cs arbitrary: d) (simp_all add: cf_api_tuple_def)
  then have push: "(if mf_configlets m = [] then ret ()
          else seq (on_lists (\<lambda>r. r\<lparr>deployed_configlets := deployed_configlets r @ map cf_avd (mf_configlets m)\<rparr>)) (\<lambda>_.
            on_client (set_configlets_from_files studio_client (map cf_api_tuple (mf_configlets m))))) (sd, r) =
      (Inr (), (sd\<lparr>sd_configlets := found\<rparr>, r\<lparr>deployed_configlets := deployed_configlets r @ map cf_avd (mf_configlets m)\<rparr>))"
    by (cases "mf_configlets m") (simp_all add: cf_api_tuple_def found_def pushed_configlets_def seq_def on_lists_def on_client_def studio_client_def)
  have get: "on_client (get_configlets studio_client None) (sd\<lparr>sd_configlets := found\<rparr>, q) = (Inr found, (sd\<lparr>sd_configlets := found\<rparr>, q))" for q :: "'a manifest_run_scheme"
    by (simp add: on_client_def studio_client_def seq_def chosen_def)
  show ?thesis
  proof (cases "gone = []")
    case True
    then show ?thesis
      unfolding sync_configlets_def prod.case seq_def push
      by (simp add: get gone_def [symmetric] holder_violations_def)
  next
    case False
    then show ?thesis
      unfolding sync_configlets_def prod.case seq_def push
      by (simp add: get gone_def [symmetric] Let_def, simp add: on_lists_def on_client_def studio_client_def)
  qed
qed

section \<open>What the studio holds after the plan\<close>

abbreviation state_of :: "studio \<Rightarrow> container_state" where
  "state_of sd \<equiv> build_existing_container_state (sd_containers sd) (sd_roots sd)"

abbreviation plan_for :: "cv_manifest \<Rightarrow> studio \<Rightarrow> container_plan" where
  "plan_for m sd \<equiv> build_container_plan m (state_of sd)"

lemma matched_container: "matches_configlet_assignment p a \<longleftrightarrow> a = container_of p"
  by (cases a) (auto simp: matches_configlet_assignment_def api_tuple_def assignment_tuple_def container_of_def Let_def)

lemma unchanged_iff: "unchanged st c \<longleftrightarrow> existing_of st c = Some (container_of (planned st c))"
  by (auto simp: unchanged_def matched_container split: option.split)

lemma existing_of_state: "ids_distinct (sd_containers sd) \<Longrightarrow> existing_of (state_of sd) c = cmap (sd_containers sd) (cc_cid c)"
  by (simp add: existing_of_def existing_state)

text \<open>What is deleted exists, is not desired and is not kept below a preserved child.\<close>

lemma to_delete_stays:
  assumes "ids_distinct (sd_containers sd)" "i \<in> set (to_delete (plan_for m sd))"
  shows "i \<notin> desired_ids m" "cmap (sd_containers sd) i \<noteq> None"
    "i \<notin> below_kept m (state_of sd) (preserved_starts m (state_of sd))"
proof -
  let ?P = "below_kept m (state_of sd) (preserved_starts m (state_of sd))"
  from assms(2) have "\<not> stays m (state_of sd) ?P i \<or> \<not> stays m (state_of sd) (set (preserved_ids (plan_for m sd))) i"
    unfolding build_plan_facts(4) by (auto dest: reach_not_stop)
  moreover have "?P \<subseteq> set (preserved_ids (plan_for m sd))"
    unfolding build_plan_facts(3) below_kept_def reach_Un by simp
  ultimately show "i \<notin> desired_ids m" "cmap (sd_containers sd) i \<noteq> None" "i \<notin> ?P"
    using assms(1) by (auto simp: stays_def existing_state)
qed

lemma planned_id [simp]: "pl_id (planned st c) = cc_cid c" "pl_container (planned st c) = c"
  by (simp_all add: planned_def)

lemma push_ids: "pl_id ` set (to_push (plan_for m sd)) \<subseteq> desired_ids m"
  by (auto simp: build_plan_facts(1) desired_ids_def)

lemma cmap_after:
  fixes sd :: studio and m :: cv_manifest
  defines "after_cs \<equiv> sd_containers (after_plan (plan_for m sd) sd)"
  assumes "ids_distinct (sd_containers sd)" "distinct (map cc_cid (mf_containers m))"
  shows "c \<in> set (mf_containers m) \<Longrightarrow> cmap after_cs (cc_cid c) = Some (container_of (planned (state_of sd) c))"
    and "i \<notin> desired_ids m \<Longrightarrow> cmap after_cs i = (if i \<in> set (to_delete (plan_for m sd)) then None else cmap (sd_containers sd) i)"
    and "ids_distinct after_cs"
proof -
  let ?st = "state_of sd" and ?push = "filter (\<lambda>c. \<not> unchanged (state_of sd) c) (mf_containers m)"
  have ids: "map (\<lambda>p. (pl_id p, container_of p)) (map (planned ?st) ?push) = map (\<lambda>c. (cc_cid c, container_of (planned ?st c))) ?push" by simp
  have dist: "distinct (map pl_id (to_push (plan_for m sd)))"
    using assms(3) by (simp add: build_plan_facts(1) comp_def distinct_map inj_on_def)
  have cm: "cmap after_cs i = (if i \<in> set (to_delete (plan_for m sd)) then None
      else case map_of (map (\<lambda>c. (cc_cid c, container_of (planned ?st c))) ?push) i of Some a \<Rightarrow> Some a | None \<Rightarrow> cmap (sd_containers sd) i)" for i
    unfolding after_cs_def after_plan_def by (simp add: cmap_filter [of "\<lambda>i. i \<notin> set (to_delete (plan_for m sd))"] cmap_puts [OF dist])
      (simp only: build_plan_facts(1) ids simp_thms)
  have keys: "map_of (map (\<lambda>c. (cc_cid c, container_of (planned ?st c))) ?push) i = None \<longleftrightarrow> i \<notin> cc_cid ` set ?push" for i
    by (simp only: map_of_eq_None_iff set_map image_image fst_conv)
  show "cmap after_cs (cc_cid c) = Some (container_of (planned ?st c))" if c: "c \<in> set (mf_containers m)"
  proof -
    have stays: "cc_cid c \<notin> set (to_delete (plan_for m sd))" using to_delete_stays(1) [OF assms(2)] c by (auto simp: desired_ids_def)
    show ?thesis
    proof (cases "unchanged ?st c")
      case True
      then have "cc_cid c \<notin> cc_cid ` set ?push" using assms(3) c by (auto simp: distinct_map inj_on_def)
      then have "map_of (map (\<lambda>c. (cc_cid c, container_of (planned ?st c))) ?push) (cc_cid c) = None" by (simp only: keys not_False_eq_True)
      with stays show ?thesis
        using True unfolding cm unchanged_iff existing_of_state [OF assms(2)] by (simp only: if_False option.case)
    next
      case False
      have "distinct (map fst (map (\<lambda>c. (cc_cid c, container_of (planned ?st c))) ?push))"
        using assms(3) by (simp add: comp_def distinct_map inj_on_def)
      then have "map_of (map (\<lambda>c. (cc_cid c, container_of (planned ?st c))) ?push) (cc_cid c) = Some (container_of (planned ?st c))"
        by (rule map_of_is_SomeI) (use False c in auto)
      with stays show ?thesis unfolding cm by simp
    qed
  qed
  show "cmap after_cs i = (if i \<in> set (to_delete (plan_for m sd)) then None else cmap (sd_containers sd) i)" if "i \<notin> desired_ids m"
  proof -
    have "i \<notin> cc_cid ` set ?push" using that by (auto simp: desired_ids_def)
    then have "map_of (map (\<lambda>c. (cc_cid c, container_of (planned ?st c))) ?push) i = None" by (simp only: keys not_False_eq_True)
    then show ?thesis unfolding cm by (simp only: option.case)
  qed
  show "ids_distinct after_cs"
    unfolding after_cs_def after_plan_def by (simp add: distinct_map_filter puts_ids [OF assms(2)])
qed

section \<open>The whole deployment as a function\<close>

definition gone_configlets :: "cv_manifest \<Rightarrow> studio \<Rightarrow> (string, string) dict" where
  "gone_configlets m sd =
     configlets_to_delete m (sd_containers sd) (preserved_ids (plan_for m sd)) (pushed_configlets m (sd_configlets sd))"

definition blocked :: "cv_manifest \<Rightarrow> studio \<Rightarrow> bool" where
  "blocked m sd \<longleftrightarrow> violations (state_of sd) (plan_for m sd) \<noteq> [] \<or>
     holder_violations (sd_containers sd) (touched_ids (plan_for m sd)) (dict_keys (gone_configlets m sd)) \<noteq> []"

definition studio_after :: "cv_manifest \<Rightarrow> studio \<Rightarrow> studio" where
  "studio_after m sd = (after_plan (plan_for m sd) sd)\<lparr>sd_configlets :=
     filter (\<lambda>(i, _). i \<notin> set (dict_keys (gone_configlets m sd))) (pushed_configlets m (sd_configlets sd))\<rparr>"

definition nonempty :: "cv_manifest \<Rightarrow> bool" where
  "nonempty m \<longleftrightarrow> mf_configlets m \<noteq> [] \<or> mf_containers m \<noteq> []"

lemma deploy_run:
  assumes m: "from_avd_manifest uuid am = Inr m" "nonempty m"
  shows "\<exists>sd' r'. deploy_static_config_studio_manifest_to_cv uuid studio_client am (sd, r) =
    (if blocked m sd then (Inl CVManifestError, (sd', r')) else (Inr (), (studio_after m sd, r')))"
proof -
  let ?st = "state_of sd" and ?p = "plan_for m sd"
  have deploy: "deploy_static_config_studio_manifest_to_cv uuid studio_client am (sd, r) =
      seq (sync_containers studio_client m) (sync_configlets studio_client m) (sd, r)"
    using m by (auto simp: deploy_static_config_studio_manifest_to_cv_def of_result_def seq_def nonempty_def)
  show ?thesis
  proof (cases "violations ?st ?p = []")
    case False
    then show ?thesis by (simp add: deploy blocked_def seq_def sync_containers_run)
  next
    case True
    have configlets: "sd_configlets (after_plan ?p sd) = sd_configlets sd" by (simp add: after_plan_def)
    obtain r' where "sync_configlets studio_client m (sd_containers sd, touched_ids ?p, preserved_ids ?p) (after_plan ?p sd, container_results ?st ?p r) =
      (if holder_violations (sd_containers sd) (touched_ids ?p) (dict_keys (gone_configlets m sd)) \<noteq> []
       then (Inl CVManifestError, ((after_plan ?p sd)\<lparr>sd_configlets := pushed_configlets m (sd_configlets sd)\<rparr>, r'))
       else (Inr (), (studio_after m sd, r')))"
      using sync_configlets_run [of m "sd_containers sd" "touched_ids ?p" "preserved_ids ?p" "after_plan ?p sd" "container_results ?st ?p r"]
      unfolding configlets gone_configlets_def [symmetric] studio_after_def [symmetric] by blast
    with True show ?thesis by (auto simp: deploy blocked_def seq_def sync_containers_run)
  qed
qed

section \<open>Forests\<close>

definition forest :: "studio \<Rightarrow> bool" where
  "forest sd \<longleftrightarrow> ids_distinct (sd_containers sd) \<and>
     (\<forall>p q y. y \<in> set (kids_in (cmap (sd_containers sd)) p) \<longrightarrow> y \<in> set (kids_in (cmap (sd_containers sd)) q) \<longrightarrow> p = q) \<and>
     (\<forall>y \<in> set (sd_roots sd). \<forall>p. y \<notin> set (kids_in (cmap (sd_containers sd)) p))"

lemma lost_parent:
  assumes "ids_distinct (sd_containers sd)" "x \<in> lost m (state_of sd)"
  obtains c where "c \<in> set (mf_containers m)" "x \<in> set (kids_in (cmap (sd_containers sd)) (cc_cid c))"
  using assms by (auto simp: lost_def lost_children_def existing_of_state kids_in_def split: option.splits if_splits)

text \<open>In a forest nothing that is preserved is deleted.\<close>

lemma forest_preserved:
  assumes "forest sd" "i \<in> set (to_delete (plan_for m sd))"
  shows "i \<notin> set (preserved_ids (plan_for m sd))"
proof -
  let ?st = "state_of sd" and ?P = "set (preserved_ids (plan_for m sd))"
  let ?S = "preserved_starts m ?st" and ?kids = "kids_in (cmap (sd_containers sd))"
  have ids: "ids_distinct (sd_containers sd)"
    and parent: "\<And>p q y. y \<in> set (?kids p) \<Longrightarrow> y \<in> set (?kids q) \<Longrightarrow> p = q"
    and roots: "\<And>y p. y \<in> set (sd_roots sd) \<Longrightarrow> y \<notin> set (?kids p)"
    using assms(1) by (auto simp: forest_def)
  have P: "?P = reach (\<lambda>x. x \<in> desired_ids m) ?kids (?S \<union> root_starts m ?st)"
    by (simp only: build_plan_facts(3) below_kept_def existing_state(2) [OF ids])
  have child: "y \<in> below_kept m ?st ?S \<or> (\<exists>p \<in> ?P. p \<notin> desired_ids m \<and> y \<in> set (?kids p))" if "y \<in> ?P" "\<exists>q. y \<in> set (?kids q)" for y
  proof -
    from that(1) have "y \<in> reach (\<lambda>x. x \<in> desired_ids m) ?kids (?S \<union> root_starts m ?st)" by (simp only: P)
    then show ?thesis
    proof (cases rule: reach.cases)
      case start
      with that(2) roots have "y \<in> ?S" by (auto simp: root_starts_def existing_state(5) [OF ids] split: if_splits)
      with start(2) show ?thesis by (auto simp: below_kept_def intro: reach.intros)
    next
      case (step x)
      with reach_not_stop [OF step(1)] show ?thesis by (auto simp only: P)
    qed
  qed
  consider "i \<in> reach (stays m ?st (below_kept m ?st ?S)) ?kids (lost m ?st)" | "\<not> stays m ?st ?P i"
    using assms(2) unfolding build_plan_facts(4) existing_state(2) [OF ids] by (auto dest: reach_not_stop)
  then show ?thesis
  proof cases
    case 1
    then show ?thesis
    proof (induction rule: reach.induct)
      case (start x)
      obtain c where c: "c \<in> set (mf_containers m)" "x \<in> set (?kids (cc_cid c))" by (rule lost_parent [OF ids start(1)])
      with child [of x] parent start(2) show ?case by (auto simp: stays_def desired_ids_def)
    next
      case (step x y)
      with child [of y] parent show ?case by (auto simp: stays_def)
    qed
  next
    case 2
    then show ?thesis by (simp add: stays_def)
  qed
qed

section \<open>What a deployment achieves\<close>

lemma planned_children:
  "set (cc_child_ids c) \<subseteq> set (pl_child_ids (planned st c))"
  "\<not> ac_preserve (cc_avd c) \<Longrightarrow> pl_child_ids (planned st c) = cc_child_ids c"
  by (auto simp: planned_def resolve_child_ids_def Let_def split: option.split)

lemma planned_roots:
  assumes "manifest_ok m"
  shows "desired_root_ids m \<subseteq> set (plan_root_ids m roots)"
  using assms by (auto simp: plan_root_ids_def desired_root_ids_def manifest_ok_def Let_def)

definition child_of :: "container list \<Rightarrow> (string \<times> string) set" where
  "child_of cs = {(p, i). i \<in> set (kids_in (cmap cs) p)}"

lemma reach_child_of:
  "x \<in> reach stop (kids_in (cmap cs)) S \<Longrightarrow> \<exists>s \<in> S. (s, x) \<in> (child_of cs)\<^sup>*"
proof (induction rule: reach.induct)
  case (step x y)
  then obtain s where "s \<in> S" "(s, x) \<in> (child_of cs)\<^sup>*" by blast
  moreover have "(x, y) \<in> child_of cs" using step.hyps(2) by (simp add: child_of_def)
  ultimately show ?case by (meson rtrancl.rtrancl_into_rtrancl)
qed auto

lemma to_delete_below_managed:
  assumes "manifest_ok m" "ids_distinct (sd_containers sd)" "i \<in> set (to_delete (plan_for m sd))"
  shows "\<exists>j. is_manifest_managed_id j \<and> cmap (sd_containers sd) j \<noteq> None \<and> (j, i) \<in> (child_of (sd_containers sd))\<^sup>*"
proof -
  let ?st = "state_of sd"
  from assms(3) consider s where "s \<in> lost m ?st" "(s, i) \<in> (child_of (sd_containers sd))\<^sup>*"
    | s where "s \<in> stale m ?st (set (preserved_ids (plan_for m sd)))" "(s, i) \<in> (child_of (sd_containers sd))\<^sup>*"
    unfolding build_plan_facts(4) existing_state(2) [OF assms(2)] using reach_child_of by blast
  then show ?thesis
  proof cases
    case 1
    obtain c where c: "c \<in> set (mf_containers m)" "s \<in> set (kids_in (cmap (sd_containers sd)) (cc_cid c))"
      by (rule lost_parent [OF assms(2) 1(1)])
    then have "(cc_cid c, i) \<in> (child_of (sd_containers sd))\<^sup>*" using 1(2) by (auto simp: child_of_def intro: converse_rtrancl_into_rtrancl)
    moreover have "cmap (sd_containers sd) (cc_cid c) \<noteq> None" using c(2) by (rule kids_in_exists)
    moreover have "is_manifest_managed_id (cc_cid c)" using assms(1) c(1) by (simp add: manifest_ok_def)
    ultimately show ?thesis by blast
  next
    case 2
    then show ?thesis by (auto simp: stale_def existing_state(3) [OF assms(2)])
  qed
qed

text \<open>Every managed container that is neither desired nor preserved is deleted.\<close>

lemma stale_deleted:
  assumes "ids_distinct (sd_containers sd)" "is_manifest_managed_id i" "cmap (sd_containers sd) i \<noteq> None" "i \<notin> desired_ids m"
    "i \<notin> set (preserved_ids (plan_for m sd))"
  shows "i \<in> set (to_delete (plan_for m sd))"
  using assms by (auto simp: build_plan_facts(4) stale_def stays_def existing_state intro: reach.start)

lemma concat_mapI: "y \<in> set (f x) \<Longrightarrow> x \<in> set xs \<Longrightarrow> y \<in> set (concat (map f xs))"
  by auto

text \<open>A configlet that is deleted is not declared, and every container that holds it is rewritten or deleted.\<close>

lemma gone_configlet:
  assumes "k \<in> set (dict_keys (gone_configlets m sd))"
  shows "k \<notin> cf_id ` set (mf_configlets m)"
    "\<not> blocked m sd \<Longrightarrow> a \<in> set (sd_containers sd) \<Longrightarrow> k \<in> set (cont_configlets a) \<Longrightarrow> cont_id a \<in> touched_ids (plan_for m sd)"
proof -
  show "k \<notin> cf_id ` set (mf_configlets m)"
    using assms unfolding gone_configlets_def configlets_to_delete_def Let_def dict_of_keys_set by auto
  assume a: "\<not> blocked m sd" "a \<in> set (sd_containers sd)" "k \<in> set (cont_configlets a)"
  show "cont_id a \<in> touched_ids (plan_for m sd)"
  proof (rule ccontr)
    let ?holders = "\<lambda>i. filter (\<lambda>a. i \<in> set (cont_configlets a) \<and> cont_id a \<notin> touched_ids (plan_for m sd)) (sd_containers sd)"
    assume "cont_id a \<notin> touched_ids (plan_for m sd)"
    with a have "a \<in> set (?holders k)" by simp
    then have "(k, cont_id a) \<in> set (map (\<lambda>a. (k, cont_id a)) (?holders k))" unfolding set_map by (rule imageI)
    then have "(k, cont_id a) \<in> set (holder_violations (sd_containers sd) (touched_ids (plan_for m sd)) (dict_keys (gone_configlets m sd)))"
      unfolding holder_violations_def by (rule concat_mapI) (rule assms)
    with a(1) show False by (auto simp: blocked_def)
  qed
qed

lemma no_dangling_configlet:
  assumes "manifest_ok m" "ids_distinct (sd_containers sd)" "\<not> blocked m sd"
    and "cmap (sd_containers (studio_after m sd)) i = Some a" "k \<in> set (cont_configlets a)" "k \<in> set (dict_keys (sd_configlets sd))"
  shows "k \<in> set (dict_keys (sd_configlets (studio_after m sd)))"
proof -
  have dist: "distinct (map cc_cid (mf_containers m))" using assms(1) by (simp add: manifest_ok_def)
  have "k \<notin> set (dict_keys (gone_configlets m sd))"
  proof
    assume k: "k \<in> set (dict_keys (gone_configlets m sd))"
    show False
    proof (cases "i \<in> desired_ids m")
      case True
      then obtain c where c: "c \<in> set (mf_containers m)" "i = cc_cid c" by (auto simp: desired_ids_def)
      have "a = container_of (planned (state_of sd) c)"
        using cmap_after(1) [OF assms(2) dist c(1)] assms(4) c(2) by (simp add: studio_after_def)
      then have "k \<in> set (cc_configlet_ids c)" using assms(5) by (simp add: container_of_def Let_def)
      then have "k \<in> cf_id ` set (mf_configlets m)" using assms(1) c(1) by (auto simp: manifest_ok_def)
      with gone_configlet(1) [OF k] show False by blast
    next
      case False
      with assms(4) have a: "i \<notin> set (to_delete (plan_for m sd))" "cmap (sd_containers sd) i = Some a"
        using cmap_after(2) [OF assms(2) dist False] by (auto simp: studio_after_def split: if_splits)
      then have "a \<in> set (sd_containers sd)" "cont_id a = i" using cmap_Some [OF assms(2)] by auto
      with gone_configlet(2) [OF k assms(3) _ assms(5)] a(1) False push_ids [of m sd] show False by (auto simp: touched_ids_def)
    qed
  qed
  moreover have "k \<in> set (dict_keys (pushed_configlets m (sd_configlets sd)))"
  proof -
    have mono: "set (dict_keys d) \<subseteq> set (dict_keys (fold (\<lambda>c. AList.update (cf_id c) (cf_name c)) cs d))" for cs :: "cv_configlet list" and d
    proof (induction cs arbitrary: d)
      case (Cons c cs)
      have "set (dict_keys d) \<subseteq> set (dict_keys (AList.update (cf_id c) (cf_name c) d))" by (simp add: dom_update subset_insertI)
      also note Cons.IH
      finally show ?case by simp
    qed simp
    show ?thesis unfolding pushed_configlets_def using mono assms(6) by (rule subsetD)
  qed
  ultimately show ?thesis by (force simp: studio_after_def)
qed

section \<open>A second deployment\<close>

lemma plan_root_ids_twice:
  assumes "manifest_ok m"
  shows "plan_root_ids m (plan_root_ids m roots) = plan_root_ids m roots"
proof -
  let ?desired = "map cc_cid (filter cc_is_root (mf_containers m))" and ?new = "plan_root_ids m roots"
  have "set ?desired - set ?new = {}" using planned_roots [OF assms, of roots] by (auto simp: desired_root_ids_def)
  then have "plan_root_ids m ?new = filter (\<lambda>i. mf_preserve m \<or> i \<in> set ?desired \<or> \<not> is_manifest_managed_id i) ?new"
    by (simp only: plan_root_ids_def [of m ?new] Let_def simp_thms if_False)
  also have "\<dots> = ?new"
    unfolding filter_id_conv by (auto simp: plan_root_ids_def Let_def split: if_splits)
  finally show ?thesis .
qed

lemma plan_root_ids_keeps: "mf_preserve m \<Longrightarrow> set roots \<subseteq> set (plan_root_ids m roots)"
  by (auto simp: plan_root_ids_def Let_def)

text \<open>What is kept as a child is there afterwards.\<close>

lemma kept_child_stays:
  assumes "ids_distinct (sd_containers sd)" "distinct (map cc_cid (mf_containers m))"
    and "c \<in> set (mf_containers m)" "i \<in> set (kept_children (state_of sd) c)"
  shows "cmap (sd_containers (after_plan (plan_for m sd) sd)) i \<noteq> None" "is_manifest_managed_id i"
proof -
  have i: "cmap (sd_containers sd) i \<noteq> None" "is_manifest_managed_id i"
    using assms(4) by (auto simp: kept_children_def resolve_child_ids_def existing_state [OF assms(1)] Let_def split: option.splits if_splits)
  then show "is_manifest_managed_id i" by simp
  show "cmap (sd_containers (after_plan (plan_for m sd) sd)) i \<noteq> None"
  proof (cases "i \<in> desired_ids m")
    case True
    then show ?thesis using cmap_after(1) [OF assms(1,2)] by (auto simp: desired_ids_def)
  next
    case False
    then have "i \<in> below_kept m (state_of sd) (preserved_starts m (state_of sd))"
      using assms(3,4) by (auto simp: below_kept_def preserved_starts_def intro: reach.start)
    then have "i \<notin> set (to_delete (plan_for m sd))" using to_delete_stays(3) [OF assms(1)] by blast
    then show ?thesis using cmap_after(2) [OF assms(1,2) False] i(1) by simp
  qed
qed

lemma planned_twice:
  fixes sd :: studio and m :: cv_manifest
  defines "sd' \<equiv> after_plan (plan_for m sd) sd"
  assumes ids: "ids_distinct (sd_containers sd)" and dist: "distinct (map cc_cid (mf_containers m))" and c: "c \<in> set (mf_containers m)"
  shows "planned (state_of sd') c = planned (state_of sd) c"
    and "set (kept_children (state_of sd) c) \<subseteq> set (kept_children (state_of sd') c)"
proof -
  define E where "E = pl_child_ids (planned (state_of sd) c)"
  have ids': "ids_distinct (sd_containers sd')" unfolding sd'_def by (rule cmap_after(3) [OF ids dist])
  have ex': "existing_of (state_of sd') c = Some (container_of (planned (state_of sd) c))"
    unfolding existing_of_state [OF ids'] unfolding sd'_def by (rule cmap_after(1) [OF ids dist c])
  have children: "cont_children (container_of (planned (state_of sd) c)) = E" by (simp add: container_of_def Let_def E_def)
  have kept: "kept_children (state_of sd') c = (if ac_preserve (cc_avd c)
      then filter (\<lambda>i. i \<in> set (st_managed (state_of sd')) \<and> i \<notin> set (cc_child_ids c)) E else [])"
    by (simp add: kept_children_def ex' resolve_child_ids_def children Let_def)
  have eff: "pl_child_ids (planned (state_of sd') c) = (if ac_preserve (cc_avd c)
      then filter (\<lambda>i. i \<in> set (cc_child_ids c) \<or> i \<in> set (kept_children (state_of sd') c)) E @ filter (\<lambda>i. i \<notin> set E) (cc_child_ids c)
      else cc_child_ids c)"
    unfolding kept by (simp add: planned_def [of "state_of sd'"] ex' resolve_child_ids_def children Let_def cong: filter_cong)
  have in_E: "i \<in> set (cc_child_ids c) \<or> i \<in> set (kept_children (state_of sd) c)" if "i \<in> set E" for i
    using that by (auto simp: E_def planned_def kept_children_def resolve_child_ids_def Let_def split: option.splits if_splits)
  have kept_E: "i \<in> set E \<and> i \<notin> set (cc_child_ids c) \<and> ac_preserve (cc_avd c)" if "i \<in> set (kept_children (state_of sd) c)" for i
    using that by (auto simp: E_def planned_def kept_children_def resolve_child_ids_def Let_def split: option.splits if_splits)
  have managed': "i \<in> set (st_managed (state_of sd'))" if "i \<in> set (kept_children (state_of sd) c)" for i
    using kept_child_stays [OF ids dist c that, folded sd'_def] by (simp add: existing_state(3) [OF ids'])
  show sub: "set (kept_children (state_of sd) c) \<subseteq> set (kept_children (state_of sd') c)"
    unfolding kept using kept_E managed' by auto
  have "pl_child_ids (planned (state_of sd') c) = E"
  proof (cases "ac_preserve (cc_avd c)")
    case True
    have "filter (\<lambda>i. i \<in> set (cc_child_ids c) \<or> i \<in> set (kept_children (state_of sd') c)) E = E"
      unfolding filter_id_conv using in_E sub by blast
    moreover have "filter (\<lambda>i. i \<notin> set E) (cc_child_ids c) = []" using planned_children(1) [of c "state_of sd"] by (auto simp: filter_empty_conv E_def)
    ultimately show ?thesis unfolding eff using True by simp
  next
    case False
    then show ?thesis unfolding eff by (simp add: planned_children(2) E_def)
  qed
  then show "planned (state_of sd') c = planned (state_of sd) c" by (simp add: planned_def E_def)
qed

lemma kids_after:
  assumes "forest sd" "distinct (map cc_cid (mf_containers m))" "x \<in> set (preserved_ids (plan_for m sd))"
  shows "cmap (sd_containers (after_plan (plan_for m sd) sd)) x = cmap (sd_containers sd) x"
proof -
  have ids: "ids_distinct (sd_containers sd)" using assms(1) by (simp add: forest_def)
  have "x \<notin> desired_ids m" using assms(3) unfolding build_plan_facts(3) below_kept_def by (rule reach_not_stop)
  moreover have "x \<notin> set (to_delete (plan_for m sd))" using forest_preserved [OF assms(1)] assms(3) by blast
  ultimately show ?thesis using cmap_after(2) [OF ids assms(2)] by simp
qed

lemma preserved_twice:
  fixes sd :: studio and m :: cv_manifest
  defines "sd' \<equiv> after_plan (plan_for m sd) sd"
  assumes "forest sd" "distinct (map cc_cid (mf_containers m))"
  shows "set (preserved_ids (plan_for m sd)) \<subseteq> set (preserved_ids (plan_for m sd'))"
proof -
  have ids: "ids_distinct (sd_containers sd)" using assms(2) by (simp add: forest_def)
  have ids': "ids_distinct (sd_containers sd')" unfolding sd'_def by (rule cmap_after(3) [OF ids assms(3)])
  let ?S = "preserved_starts m (state_of sd) \<union> root_starts m (state_of sd)"
  let ?stop = "\<lambda>x. x \<in> desired_ids m" and ?kids = "kids_in (cmap (sd_containers sd))" and ?kids' = "kids_in (cmap (sd_containers sd'))"
  have P: "set (preserved_ids (plan_for m sd)) = reach ?stop ?kids ?S"
    by (simp only: build_plan_facts(3) below_kept_def existing_state(2) [OF ids])
  have "?kids' x = ?kids x" if "x \<in> reach ?stop ?kids ?S" for x
    using kids_after [OF assms(2,3)] that unfolding P [symmetric] sd'_def by (simp add: kids_in_def)
  then have "reach ?stop ?kids ?S = reach ?stop ?kids' ?S" by (rule reach_kids_cong [symmetric])
  moreover have "?S \<subseteq> preserved_starts m (state_of sd') \<union> root_starts m (state_of sd')"
  proof -
    have "preserved_starts m (state_of sd) \<subseteq> preserved_starts m (state_of sd')"
      using planned_twice(2) [OF ids assms(3), folded sd'_def] by (fastforce simp: preserved_starts_def)
    moreover have "sd_roots sd' = plan_root_ids m (sd_roots sd)"
      by (simp add: sd'_def after_plan_def build_plan_facts(5) existing_state(5) [OF ids])
    then have "root_starts m (state_of sd) \<subseteq> root_starts m (state_of sd')"
      using plan_root_ids_keeps [of m "sd_roots sd"] by (auto simp: root_starts_def existing_state(5) [OF ids] existing_state(5) [OF ids'])
    ultimately show ?thesis by blast
  qed
  ultimately show ?thesis
    unfolding P using reach_mono by (simp add: build_plan_facts(3) below_kept_def existing_state(2) [OF ids'])
qed

text \<open>The second plan changes nothing.\<close>

lemma second_plan:
  fixes sd :: studio and m :: cv_manifest
  defines "sd' \<equiv> after_plan (plan_for m sd) sd"
  assumes "forest sd" "manifest_ok m"
  shows "to_push (plan_for m sd') = []" "to_delete (plan_for m sd') = []" "new_root_ids (plan_for m sd') = sd_roots sd'"
    "stale m (state_of sd') (set (preserved_ids (plan_for m sd'))) = {}"
proof -
  have dist: "distinct (map cc_cid (mf_containers m))" using assms(3) by (simp add: manifest_ok_def)
  have ids: "ids_distinct (sd_containers sd)" using assms(2) by (simp add: forest_def)
  have ids': "ids_distinct (sd_containers sd')" unfolding sd'_def by (rule cmap_after(3) [OF ids dist])
  have same: "unchanged (state_of sd') c" if "c \<in> set (mf_containers m)" for c
    using cmap_after(1) [OF ids dist that, folded sd'_def] planned_twice(1) [OF ids dist that, folded sd'_def]
    by (simp only: unchanged_iff existing_of_state [OF ids'])
  then show "to_push (plan_for m sd') = []" by (simp add: build_plan_facts(1) filter_empty_conv)
  have lost: "lost m (state_of sd') = {}" using same by (auto simp: lost_def lost_children_def split: option.split)
  show stale: "stale m (state_of sd') (set (preserved_ids (plan_for m sd'))) = {}"
  proof -
    have False if "i \<in> stale m (state_of sd') (set (preserved_ids (plan_for m sd')))" for i
    proof -
      from that have i: "i \<notin> desired_ids m" "i \<notin> set (preserved_ids (plan_for m sd))" "is_manifest_managed_id i" "cmap (sd_containers sd') i \<noteq> None"
        using preserved_twice [OF assms(2) dist, folded sd'_def] by (auto simp: stale_def existing_state(3) [OF ids'])
      then have "i \<notin> set (to_delete (plan_for m sd))" "cmap (sd_containers sd) i \<noteq> None"
        using cmap_after(2) [OF ids dist i(1), folded sd'_def] by (auto split: if_splits)
      with stale_deleted [OF ids i(3) _ i(1,2)] show False by blast
    qed
    then show ?thesis by blast
  qed
  have "set (to_delete (plan_for m sd')) = {}" by (simp add: build_plan_facts(4) lost stale)
  then show "to_delete (plan_for m sd') = []" by simp
  show "new_root_ids (plan_for m sd') = sd_roots sd'"
    using plan_root_ids_twice [OF assms(3)]
    by (simp add: build_plan_facts(5) existing_state(5) [OF ids'], simp add: sd'_def after_plan_def build_plan_facts(5) existing_state(5) [OF ids])
qed

lemma second_validation:
  fixes sd :: studio and m :: cv_manifest
  defines "sd' \<equiv> after_plan (plan_for m sd) sd"
  assumes "forest sd" "manifest_ok m" "\<And>a. a \<in> set (sd_containers sd) \<Longrightarrow> set (cont_children a) \<subseteq> cont_id ` set (sd_containers sd)"
    and "violations (state_of sd) (plan_for m sd) = []"
  shows "violations (state_of sd') (plan_for m sd') = []"
proof (rule ccontr)
  have dist: "distinct (map cc_cid (mf_containers m))" using assms(3) by (simp add: manifest_ok_def)
  have ids: "ids_distinct (sd_containers sd)" using assms(2) by (simp add: forest_def)
  have ids': "ids_distinct (sd_containers sd')" unfolding sd'_def by (rule cmap_after(3) [OF ids dist])
  have viol: "(i, q) \<in> set (violations (state_of t) p) \<longleftrightarrow>
      cmap (sd_containers t) i \<noteq> None \<and> is_manifest_managed_id i \<and> i \<notin> set (preserved_ids p) \<and>
      (\<exists>a. a \<in> set (sd_containers t) \<and> cont_id a = q \<and> i \<in> set (cont_children a)) \<and>
      q \<noteq> studio_root_parent \<and> \<not> is_manifest_managed_id q \<and> q \<notin> set (to_delete p)" if "ids_distinct (sd_containers t)" for i q t p
    by (auto simp: violations_def existing_state [OF that])
  assume "violations (state_of sd') (plan_for m sd') \<noteq> []"
  then obtain i q where "(i, q) \<in> set (violations (state_of sd') (plan_for m sd'))" by (metis list.set_intros(1) neq_Nil_conv surj_pair)
  then obtain a where i: "cmap (sd_containers sd') i \<noteq> None" "is_manifest_managed_id i" "i \<notin> set (preserved_ids (plan_for m sd'))"
    and a: "a \<in> set (sd_containers sd')" "cont_id a = q" "i \<in> set (cont_children a)"
    and q: "q \<noteq> studio_root_parent" "\<not> is_manifest_managed_id q"
    unfolding viol [OF ids'] by blast
  have "i \<in> desired_ids m" using second_plan(4) [OF assms(2,3), folded sd'_def] i by (auto simp: stale_def existing_state(3) [OF ids'])
  then have fresh: "i \<notin> set (preserved_ids (plan_for m sd))"
    unfolding build_plan_facts(3) below_kept_def using reach_not_stop by blast
  have "q \<notin> desired_ids m" using q(2) assms(3) by (auto simp: desired_ids_def manifest_ok_def)
  moreover have "cmap (sd_containers sd') q = Some a" using a cmap_Some [OF ids'] by blast
  ultimately have "q \<notin> set (to_delete (plan_for m sd))" "cmap (sd_containers sd) q = Some a"
    using cmap_after(2) [OF ids dist, folded sd'_def] by (auto split: if_splits)
  moreover from this have old: "a \<in> set (sd_containers sd)" using cmap_Some [OF ids] by blast
  moreover have "cmap (sd_containers sd) i \<noteq> None" using assms(4) [OF old] a(3) by (auto simp: cmap_None)
  ultimately have "(i, q) \<in> set (violations (state_of sd) (plan_for m sd))"
    using i(2) fresh a(2,3) q unfolding viol [OF ids] by blast
  with assms(5) show False by simp
qed

subsection \<open>Configlets of the second deployment\<close>

lemma map_of_filter_key: "map_of (filter (\<lambda>(i, _). P i) d) k = (if P k then map_of d k else None)"
  by (induction d) auto

lemma update_same: "map_of d k = Some v \<Longrightarrow> AList.update k v d = d"
  by (induction d) (auto split: if_splits)

lemma pushed_get:
  "distinct (map cf_id cs) \<Longrightarrow> map_of (fold (\<lambda>c. AList.update (cf_id c) (cf_name c)) cs d) k =
     (case find (\<lambda>c. cf_id c = k) cs of Some c \<Rightarrow> Some (cf_name c) | None \<Rightarrow> map_of d k)"
proof (induction cs arbitrary: d)
  case (Cons c cs)
  have "cf_id c \<notin> cf_id ` set cs" using Cons.prems by simp
  then have "find (\<lambda>x. cf_id x = cf_id c) cs = None" unfolding find_None_iff by (metis imageI)
  with Cons show ?case by (auto simp: update_conv' split: option.split)
qed simp

lemma pushed_again:
  assumes "manifest_ok m" "\<And>k. k \<in> cf_id ` set (mf_configlets m) \<Longrightarrow> P k"
  shows "pushed_configlets m (filter (\<lambda>(i, _). P i) (pushed_configlets m d)) = filter (\<lambda>(i, _). P i) (pushed_configlets m d)"
proof -
  let ?d = "filter (\<lambda>(i, _). P i) (pushed_configlets m d)"
  have dist: "distinct (map cf_id (mf_configlets m))" using assms(1) by (simp add: manifest_ok_def)
  have "map_of ?d (cf_id c) = Some (cf_name c)" if c: "c \<in> set (mf_configlets m)" for c
  proof -
    obtain x where x: "find (\<lambda>x. cf_id x = cf_id c) (mf_configlets m) = Some x"
      using c by (metis (mono_tags, lifting) find_None_iff not_None_eq)
    then have "x = c" using c dist by (auto simp: find_Some_iff distinct_map inj_on_def)
    with x assms(2) c show ?thesis by (simp add: map_of_filter_key pushed_configlets_def pushed_get [OF dist])
  qed
  then have "fold (\<lambda>c. AList.update (cf_id c) (cf_name c)) cs ?d = ?d" if "set cs \<subseteq> set (mf_configlets m)" for cs
    using that by (induction cs) (simp_all add: update_same)
  then show ?thesis unfolding pushed_configlets_def [of m ?d] by blast
qed

lemma gone_keys:
  "set (dict_keys (configlets_to_delete m existing preserved found)) =
     {k \<in> set (dict_keys found). is_manifest_managed_id k \<and> k \<notin> cf_id ` set (mf_configlets m) \<and>
        k \<notin> set (concat (map cont_configlets (filter (\<lambda>a. cont_id a \<in> set preserved) existing)))}"
proof -
  have "fst ` set (map (\<lambda>(i, n). (i, f i n)) (filter (\<lambda>(i, n). P i) d)) = {k \<in> set (dict_keys d). P k}"
    for f :: "string \<Rightarrow> string \<Rightarrow> string" and P d
    by (induction d) auto
  then show ?thesis unfolding configlets_to_delete_def Let_def dict_of_keys_set .
qed

lemma second_configlets:
  fixes sd :: studio and m :: cv_manifest
  defines "sd' \<equiv> studio_after m sd"
  assumes "forest sd" "manifest_ok m"
  shows "pushed_configlets m (sd_configlets sd') = sd_configlets sd'" "gone_configlets m sd' = []"
proof -
  have dist: "distinct (map cc_cid (mf_containers m))" using assms(3) by (simp add: manifest_ok_def)
  have ids: "ids_distinct (sd_containers sd)" using assms(2) by (simp add: forest_def)
  have state: "sd_containers sd' = sd_containers (after_plan (plan_for m sd) sd)" by (simp add: sd'_def studio_after_def)
  have plan: "plan_for m sd' = plan_for m (after_plan (plan_for m sd) sd)" by (simp add: sd'_def studio_after_def)
  show pushed: "pushed_configlets m (sd_configlets sd') = sd_configlets sd'"
    unfolding sd'_def studio_after_def using pushed_again [OF assms(3), of "\<lambda>i. i \<notin> set (dict_keys (gone_configlets m sd))"]
      gone_configlet(1) [of _ m sd] by simp blast
  let ?kept = "\<lambda>t. concat (map cont_configlets (filter (\<lambda>a. cont_id a \<in> set (preserved_ids (plan_for m t))) (sd_containers t)))"
  have kept: "set (?kept sd) \<subseteq> set (?kept sd')"
  proof
    fix k assume "k \<in> set (?kept sd)"
    then obtain a where a: "a \<in> set (sd_containers sd)" "cont_id a \<in> set (preserved_ids (plan_for m sd))" "k \<in> set (cont_configlets a)" by auto
    have "cmap (sd_containers sd') (cont_id a) = Some a"
      using kids_after [OF assms(2) dist a(2)] cmap_Some [OF ids] a(1) unfolding state by simp
    then have "a \<in> set (sd_containers sd')" using cmap_Some [OF cmap_after(3) [OF ids dist]] unfolding state by blast
    moreover have "cont_id a \<in> set (preserved_ids (plan_for m sd'))"
      using preserved_twice [OF assms(2) dist] a(2) unfolding plan by (rule subsetD)
    ultimately show "k \<in> set (?kept sd')" using a(3) by auto
  qed
  have keys: "set (dict_keys (gone_configlets m t)) =
      {k \<in> set (dict_keys (pushed_configlets m (sd_configlets t))). is_manifest_managed_id k \<and> k \<notin> cf_id ` set (mf_configlets m) \<and> k \<notin> set (?kept t)}" for t
    unfolding gone_configlets_def by (rule gone_keys)
  have "set (dict_keys (gone_configlets m sd')) = {}"
  proof -
    have "k \<in> set (dict_keys (pushed_configlets m (sd_configlets sd))) \<and> k \<notin> set (dict_keys (gone_configlets m sd))"
      if "k \<in> set (dict_keys (sd_configlets sd'))" for k
      using that by (force simp: sd'_def studio_after_def)
    then have "k \<in> cf_id ` set (mf_configlets m) \<or> \<not> is_manifest_managed_id k \<or> k \<in> set (?kept sd)"
      if "k \<in> set (dict_keys (sd_configlets sd'))" for k
      using that unfolding keys [of sd] by blast
    with kept show ?thesis unfolding keys [of sd'] pushed by blast
  qed
  then show "gone_configlets m sd' = []" by simp
qed

section \<open>Properties\<close>

lemma deploy_success:
  assumes "deploy_static_config_studio_manifest_to_cv uuid studio_client am (sd, r) = (Inr (), (sd', r'))"
    and "from_avd_manifest uuid am = Inr m" "nonempty m"
  shows "\<not> blocked m sd" "sd' = studio_after m sd"
  using deploy_run [OF assms(2,3), of sd r] assms(1) by (auto split: if_splits)


text \<open>
  C36. Deploying the same manifest again changes nothing, if the containers of the studio form a forest and no
  container has a child that does not exist: the second deployment succeeds and leaves the studio as it is.
\<close>

theorem manifest_redeploy_unchanged:
  assumes "deploy_static_config_studio_manifest_to_cv uuid studio_client am (sd, r) = (Inr (), (sd', r'))"
    and "from_avd_manifest uuid am = Inr m" "nonempty m"
    and "inj_on uuid (set (map fst (forest_paths [] (am_containers am))))" "inj_on uuid (set (map acf_name (am_configlets am)))"
    and "forest sd" "\<And>a. a \<in> set (sd_containers sd) \<Longrightarrow> set (cont_children a) \<subseteq> cont_id ` set (sd_containers sd)"
  shows "\<exists>r''. deploy_static_config_studio_manifest_to_cv uuid studio_client am (sd', q) = (Inr (), (sd', r''))"
proof -
  have ok: "manifest_ok m" by (rule from_avd_manifest_ok [OF assms(2,4,5)])
  note run = deploy_success [OF assms(1-3)]
  have plan: "plan_for m sd' = plan_for m (after_plan (plan_for m sd) sd)" "state_of sd' = state_of (after_plan (plan_for m sd) sd)"
    and state: "sd_containers sd' = sd_containers (after_plan (plan_for m sd) sd)" "sd_roots sd' = sd_roots (after_plan (plan_for m sd) sd)"
    by (simp_all add: run(2) studio_after_def)
  note second = second_plan(1-3) [OF assms(6) ok, folded plan(1), folded state(2)]
  note configlets = second_configlets [OF assms(6) ok, folded run(2)]
  have valid: "violations (state_of sd) (plan_for m sd) = []" using run(1) by (simp add: blocked_def)
  have "violations (state_of sd') (plan_for m sd') = []"
    unfolding plan by (rule second_validation [OF assms(6) ok]) (rule assms(7), assumption, rule valid)
  then have "\<not> blocked m sd'" by (simp add: blocked_def configlets(2) holder_violations_def)
  moreover have "studio_after m sd' = sd'"
    by (simp add: studio_after_def after_plan_def second configlets filter_True)
  ultimately show ?thesis using deploy_run [OF assms(2,3), of sd' q] by auto
qed

section \<open>An example\<close>

text \<open>The manifest declares a container with one sub-container; the studio has a stale sub-container and two manual
  containers, one of them below the declared container.\<close>

definition example_manifest :: avd_manifest where
  "example_manifest =
     \<lparr>am_configlets = [\<lparr>acf_name = ''b'', acf_file = ''f''\<rparr>],
      am_containers = [AvdContainer ''s'' ''*'' None MatchAll [''b''] [AvdContainer ''l'' ''*'' None MatchAll [] [] False] False],
      am_preserve = False\<rparr>"

definition example_container :: "string \<Rightarrow> string list \<Rightarrow> container" where
  "example_container i ks =
     \<lparr>cont_id = i, cont_name = i, cont_description = [], cont_query = ''*'', cont_configlets = [], cont_children = ks, cont_policy = Some MatchAll\<rparr>"

definition example_studio :: studio where
  "example_studio =
     \<lparr>sd_containers = [example_container ''avd_s'' [''avd_o'', ''m''], example_container ''avd_o'' [], example_container ''m'' [],
        example_container ''n'' []],
      sd_roots = [''avd_s'', ''n''], sd_configlets = [(''avd_c'', ''c'')]\<rparr>"

definition example_run :: manifest_run where
  "example_run =
     \<lparr>workspace = new_workspace \<lparr>ws_requested = ReqBuilt, ws_force = False, ws_build_warnings = quiet_warnings, ws_max_sync_retries = 0\<rparr>,
      warnings = [], device_store = (\<lambda>_. new_device \<lparr>avd_hostname = [], avd_serial_number = None, avd_system_mac_address = None\<rparr> None None),
      deployed_configs = [], skipped_configs = [], removed_configs = [], deployed_studio_inputs = [],
      deployed_containers = [], skipped_containers = [], removed_containers = [], deployed_configlets = [], removed_configlets = []\<rparr>"

definition example_cv :: cv_manifest where
  "example_cv = (case from_avd_manifest (\<lambda>s. s) example_manifest of Inr m \<Rightarrow> m | Inl _ \<Rightarrow> \<lparr>mf_configlets = [], mf_containers = [], mf_preserve = False\<rparr>)"

lemma example_hypotheses:
  "from_avd_manifest (\<lambda>s. s) example_manifest = Inr example_cv" "nonempty example_cv" "\<not> blocked example_cv example_studio"
  by code_simp+

lemma example_runs:
  "\<exists>r'. deploy_static_config_studio_manifest_to_cv (\<lambda>s. s) studio_client example_manifest (example_studio, example_run) =
     (Inr (), (studio_after example_cv example_studio, r'))"
  using deploy_run [OF example_hypotheses(1,2), of example_studio example_run] example_hypotheses(3) by auto


lemma manifest_redeploy_unchanged_witness:
  "\<exists>r' r''. deploy_static_config_studio_manifest_to_cv (\<lambda>s. s) studio_client example_manifest (example_studio, example_run) =
       (Inr (), (studio_after example_cv example_studio, r')) \<and>
     deploy_static_config_studio_manifest_to_cv (\<lambda>s. s) studio_client example_manifest (studio_after example_cv example_studio, example_run) =
       (Inr (), (studio_after example_cv example_studio, r''))"
proof -
  obtain r' where run: "deploy_static_config_studio_manifest_to_cv (\<lambda>s. s) studio_client example_manifest (example_studio, example_run) =
     (Inr (), (studio_after example_cv example_studio, r'))" using example_runs by blast
  have forest: "forest example_studio"
    by (auto simp: forest_def kids_in_def cmap_def example_studio_def example_container_def split: if_splits)
  have closed: "a \<in> set (sd_containers example_studio) \<Longrightarrow> set (cont_children a) \<subseteq> cont_id ` set (sd_containers example_studio)" for a
    by (auto simp: example_studio_def example_container_def)
  have inj: "inj_on (\<lambda>s :: string. s) A" for A by (simp add: inj_on_def)
  show ?thesis using manifest_redeploy_unchanged [OF run example_hypotheses(1,2) inj inj forest closed] run by blast
qed

text \<open>Outside of forests the plan can delete what it also preserves: a manual container that is a root of the studio and
  also a child of a declared container is unassigned and deleted, although existing roots are to be preserved and the
  list of roots keeps it.\<close>

lemma preserved_root_deleted:
  defines "m \<equiv> example_cv\<lparr>mf_preserve := True\<rparr>"
    and "sd \<equiv> example_studio\<lparr>sd_roots := [''avd_s'', ''m'']\<rparr>"
  shows "''m'' \<in> set (to_delete (plan_for m sd))" "''m'' \<in> set (preserved_ids (plan_for m sd))" "''m'' \<in> set (new_root_ids (plan_for m sd))"
  unfolding m_def sd_def by code_simp+

end
