(* ===== verification/CvMetadata.thy ===== *)
theory CvMetadata
  imports CvContainers
begin

text \<open>
  The CV Pathfinder metadata, \<open>pyavd/_cv/workflows/deploy_cv_pathfinder_metadata_to_cv.py\<close>: untyped dictionaries of the
  devices are translated to the inputs of a hidden studio, with one entry per device that is inserted or
  replaced. The general metadata is rewritten in place, so the dictionaries live in a store that is part of the
  state. The values of \<open>pv\<close> have no floats: the conversion \<open>float\<close> is an argument, as is the
  library function \<open>simple_7_decrypt\<close>. After an exception of a step the dictionaries are as before the step.
\<close>

section \<open>Untyped data\<close>

text \<open>\<open>d.get(k, default)\<close>, \<open>x[k]\<close> with a text, a use as a dictionary, and \<open>for y in x\<close>\<close>

definition pget_or :: "(string \<times> pv) list \<Rightarrow> string \<Rightarrow> pv \<Rightarrow> pv" where
  "pget_or d k dflt = (case map_of d k of None \<Rightarrow> dflt | Some v \<Rightarrow> v)"

fun subscript :: "pv \<Rightarrow> string \<Rightarrow> (py_exn, pv) result" where
  "subscript (PDict d) k = (case map_of d k of None \<Rightarrow> Inl KeyError | Some v \<Rightarrow> Inr v)"
| "subscript v k = Inl TypeError"

fun as_dict :: "pv \<Rightarrow> (py_exn, (string \<times> pv) list) result" where
  "as_dict (PDict d) = Inr d"
| "as_dict v = Inl AttributeError"

fun iterate :: "pv \<Rightarrow> (py_exn, pv list) result" where
  "iterate (PList xs) = Inr xs"
| "iterate (PDict d) = Inr (map (\<lambda>(k, _). PStr k) d)"
| "iterate (PStr s) = Inr (map (\<lambda>c. PStr [c]) s)"
| "iterate v = Inl TypeError"

text \<open>New keys for the values of old keys, which must be there\<close>

definition renamed :: "pv \<Rightarrow> (string \<times> string) list \<Rightarrow> (py_exn, (string \<times> pv) list) result" where
  "renamed v names = rmap (\<lambda>(new, old). rbind (subscript v old) (\<lambda>x. Inr (new, x))) names"

section \<open>What the studio supports\<close>

text \<open>\<open>get_v2\<close> without a default; the schema of the studio is a tree in which an object is the dictionary of
  its attributes that are set.\<close>

fun get_v2_path :: "string list \<Rightarrow> pv \<Rightarrow> pv" where
  "get_v2_path [] v = v"
| "get_v2_path (k # ks) v =
     (case v of PDict d \<Rightarrow> if pget d k = PNone then PNone else get_v2_path ks (pget d k) | _ \<Rightarrow> PNone)"

definition get_v2 :: "pv \<Rightarrow> string \<Rightarrow> pv" where
  "get_v2 v key = get_v2_path (split_on CHR ''.'' key) v"

definition is_pathfinder_location_supported :: "pv \<Rightarrow> bool" where
  "is_pathfinder_location_supported schema =
     (case get_v2 schema ''fields.values.pathfinderGroup.group_props.members.values'' of
        PDict d \<Rightarrow> {''pathfinderRegion'', ''pathfinderAddress'', ''pathfinderSite''} \<subseteq> set (dict_keys d)
      | _ \<Rightarrow> False)"

definition is_avt_hop_count_supported :: "pv \<Rightarrow> bool" where
  "is_avt_hop_count_supported schema = pv_truth (get_v2 schema ''fields.values.avtHopCount'')"

definition is_internet_exit_zscaler_supported :: "pv \<Rightarrow> bool" where
  "is_internet_exit_zscaler_supported schema = pv_truth (get_v2 schema ''fields.values.zscaler'')"

definition is_applications_supported :: "pv \<Rightarrow> bool" where
  "is_applications_supported schema = pv_truth (get_v2 schema ''fields.values.applications'')"

definition is_zscaler_tunnel_key_encryption_supported :: "pv \<Rightarrow> bool" where
  "is_zscaler_tunnel_key_encryption_supported schema = pv_truth (get_v2 schema ''fields.values.zscalerPresharedKeyRef'')"

definition is_zscaler_tunnel_endpoint_supported :: "pv \<Rightarrow> bool" where
  "is_zscaler_tunnel_endpoint_supported schema = pv_truth (get_v2 schema ''fields.values.serviceNodeEndpoint'')"

section \<open>General metadata\<close>

text \<open>Items of a list that are changed in place, each with warnings; anything else that is iterated over has
  no items that can be changed.\<close>

definition change_items :: "(pv \<Rightarrow> (py_exn, pv \<times> warning list) result) \<Rightarrow> pv \<Rightarrow> (py_exn, pv \<times> warning list) result" where
  "change_items f v =
     rbind (iterate v) (\<lambda>xs. rbind (rmap f xs) (\<lambda>ys.
       Inr (case v of PList _ \<Rightarrow> PList (map fst ys) | _ \<Rightarrow> v, concat (map snd ys))))"

definition update_constraints ::
  "(pv \<Rightarrow> (py_exn, pv) result) \<Rightarrow> pv \<Rightarrow> (string \<times> pv) list \<Rightarrow> (py_exn, (string \<times> pv) list \<times> warning list) result" where
  "update_constraints to_float schema c =
     (let c1 = (if map_of c ''latency'' = None then AList.update ''latency'' (PInt 4294967295) c else c);
          c2 = (if map_of c1 ''jitter'' = None then AList.update ''jitter'' (PInt 4294967295) c1 else c1)
      in rbind (to_float (pget_or c2 ''lossrate'' (PInt 99))) (\<lambda>x.
         let c3 = AList.update ''lossrate'' x c2; hops = pget_or c3 ''hop_count'' (PStr []); c4 = AList.delete ''hop_count'' c3
         in Inr (if is_avt_hop_count_supported schema then (AList.update ''hopCount'' hops c4, [])
                 else (c4, if pv_truth hops then [HopCountIgnored] else []))))"

definition update_avt ::
  "(pv \<Rightarrow> (py_exn, pv) result) \<Rightarrow> pv \<Rightarrow> pv \<Rightarrow> (py_exn, pv \<times> warning list) result" where
  "update_avt to_float schema avt =
     rbind (as_dict avt) (\<lambda>d.
     rbind (as_dict (pget_or d ''constraints'' (PDict []))) (\<lambda>c.
     rbind (update_constraints to_float schema c) (\<lambda>(c', ws).
       let d1 = AList.update ''constraints'' (PDict c') d;
           profiles = pget d1 ''application_profiles''; d2 = AList.delete ''application_profiles'' d1
       in Inr (if \<not> pv_truth profiles then (PDict d2, ws)
               else if is_applications_supported schema then (PDict (AList.update ''applicationProfiles'' profiles d2), ws)
               else (PDict d2, ws @ [AppProfilesIgnored])))))"

text \<open>The change of the value at a key, if there is one\<close>

definition change_at ::
  "string \<Rightarrow> (pv \<Rightarrow> (py_exn, pv \<times> warning list) result) \<Rightarrow> (string \<times> pv) list \<Rightarrow> (py_exn, (string \<times> pv) list \<times> warning list) result" where
  "change_at k f d =
     (if pget d k = PNone then Inr (d, [])
      else rbind (f (pget d k)) (\<lambda>(v, ws). Inr (AList.update k v d, ws)))"

definition update_vrf ::
  "(pv \<Rightarrow> (py_exn, pv) result) \<Rightarrow> pv \<Rightarrow> pv \<Rightarrow> (py_exn, pv \<times> warning list) result" where
  "update_vrf to_float schema vrf =
     rbind (as_dict vrf) (\<lambda>d.
     rbind (change_at ''avts'' (change_items (update_avt to_float schema)) d) (\<lambda>(d', ws). Inr (PDict d', ws)))"

text \<open>\<open>get(x, key, default=[])\<close> and \<open>get(x, key)\<close>, and the same for the items of a list\<close>

definition get_list :: "pv \<Rightarrow> string \<Rightarrow> (py_exn, pv) result" where
  "get_list v k = get_path [k] v (PList []) False k False"

definition get_none :: "pv \<Rightarrow> string \<Rightarrow> (py_exn, pv) result" where
  "get_none v k = get_path [k] v PNone False k False"

definition map_items :: "(pv \<Rightarrow> (py_exn, (string \<times> pv) list) result) \<Rightarrow> (py_exn, pv) result \<Rightarrow> (py_exn, pv) result" where
  "map_items f r =
     rbind r (\<lambda>v. rbind (iterate v) (\<lambda>xs. rbind (rmap f xs) (\<lambda>ds. Inr (PList (map PDict ds)))))"

definition pathgroup_inputs :: "pv \<Rightarrow> (py_exn, (string \<times> pv) list) result" where
  "pathgroup_inputs g =
     rbind (get_list g ''carriers'') (\<lambda>carriers.
     rbind (get_list g ''imported_carriers'') (\<lambda>imported.
     rbind (get_path [''name''] g PNone True ''name'' False) (\<lambda>name.
       Inr [(''carriers'', carriers), (''importedCarriers'', imported), (''name'', name)])))"

definition app_profile :: "pv \<Rightarrow> (py_exn, (string \<times> pv) list) result" where
  "app_profile p =
     rbind (subscript p ''name'') (\<lambda>name.
     rbind (rmap (\<lambda>(new, old). rbind (get_none p old) (\<lambda>x. Inr (new, x)))
       [(''builtinApps'', ''builtin_applications''), (''userDefinedApps'', ''user_defined_applications''),
        (''categories'', ''categories''), (''transportProtocols'', ''transport_protocols'')]) (\<lambda>others.
       Inr ((''name'', name) # others)))"

definition builtin_app :: "pv \<Rightarrow> (py_exn, (string \<times> pv) list) result" where
  "builtin_app a =
     rbind (renamed a [(''appName'', ''name''), (''category'', ''category'')]) (\<lambda>d.
     rbind (get_none a ''service'') (\<lambda>s. Inr (d @ [(''service'', s)])))"

definition generate_applications_metadata :: "(string \<times> pv) list \<Rightarrow> (py_exn, (string \<times> pv) list) result" where
  "generate_applications_metadata metadata =
     (let apps = pget metadata ''applications''
      in if apps = PNone then Inr []
         else
           rbind (map_items app_profile (get_list apps ''profiles'')) (\<lambda>profiles.
           rbind (map_items builtin_app (get_list apps ''builtin_applications'')) (\<lambda>builtin.
           rbind (map_items (\<lambda>a. renamed a [(''appName'', ''name''), (''category'', ''category'')])
               (get_list apps ''user_defined_applications'')) (\<lambda>user.
             Inr [(''appProfiles'', profiles), (''appCategories'', PDict [(''builtinApps'', builtin), (''userDefinedApps'', user)])]))))"

definition update_general_metadata ::
  "(pv \<Rightarrow> (py_exn, pv) result) \<Rightarrow> pv \<Rightarrow> (string \<times> pv) list \<Rightarrow> (string \<times> pv) list \<Rightarrow>
   (py_exn, (string \<times> pv) list \<times> (string \<times> pv) list \<times> warning list) result" where
  "update_general_metadata to_float schema metadata inputs =
     rbind (change_at ''vrfs'' (change_items (update_vrf to_float schema)) metadata) (\<lambda>(metadata', ws).
     rbind (map_items pathgroup_inputs (get_list (PDict metadata') ''pathgroups'')) (\<lambda>groups.
     rbind (get_list (PDict metadata') ''regions'') (\<lambda>regions.
     rbind (get_list (PDict metadata') ''vrfs'') (\<lambda>vrfs.
     rbind (generate_applications_metadata metadata') (\<lambda>apps.
       let inputs1 = AList.update ''vrfs'' vrfs (AList.update ''regions'' regions (AList.update ''pathgroups'' groups inputs))
       in Inr (if apps = [] then (metadata', inputs1, ws)
               else if \<not> is_applications_supported schema then (metadata', inputs1, ws @ [ApplicationsIgnored])
               else (metadata', AList.update ''applications'' (PDict apps) inputs1, ws)))))))"

section \<open>One entry per device\<close>

definition device_query :: "cv_device \<Rightarrow> string" where
  "device_query d = ''device:'' @ serial_str d"

definition query_tags :: "string \<Rightarrow> pv" where
  "query_tags q = PDict [(''query'', PStr q)]"

text \<open>The index of the first dictionary of the list with the given query\<close>

fun find_entry :: "string \<Rightarrow> nat \<Rightarrow> pv list \<Rightarrow> (py_exn, nat option) result" where
  "find_entry q n [] = Inr None"
| "find_entry q n (PDict d # rest) =
     rbind (get_path [''tags'', ''query''] (PDict d) PNone False ''tags.query'' False) (\<lambda>v.
       if py_eq v (PStr q) then Inr (Some n) else find_entry q (Suc n) rest)"
| "find_entry q n (_ # rest) = find_entry q (Suc n) rest"

definition upsert_entry :: "string \<Rightarrow> string \<Rightarrow> pv \<Rightarrow> (string \<times> pv) list \<Rightarrow> (py_exn, (string \<times> pv) list) result" where
  "upsert_entry key q entry inputs =
     (let entries = (case pget_or inputs key (PList []) of PList xs \<Rightarrow> xs | _ \<Rightarrow> [])
      in rbind (find_entry q 0 entries) (\<lambda>found.
         Inr (AList.update key (PList (case found of None \<Rightarrow> entries @ [entry] | Some i \<Rightarrow> entries[i := entry])) inputs)))"

definition wan_interface :: "cv_device \<Rightarrow> (string \<times> string) list \<Rightarrow> pv \<Rightarrow> (py_exn, (string \<times> pv) list) result" where
  "wan_interface dev names v =
     rbind (as_dict v) (\<lambda>i.
       Inr [(''inputs'', PDict [(''details'', PDict (map (\<lambda>(new, old). (new, pget_or i old (PStr []))) names))]),
            (''tags'', query_tags (''interface:'' @ pv_str (pget_or i ''name'' (PStr [])) @ ''@'' @ serial_str dev))])"

definition wan_interfaces :: "cv_device \<Rightarrow> (string \<times> string) list \<Rightarrow> (string \<times> pv) list \<Rightarrow> (py_exn, pv) result" where
  "wan_interfaces dev names metadata = map_items (wan_interface dev names) (Inr (pget_or metadata ''interfaces'' (PList [])))"

definition pathfinder_entry :: "pv \<Rightarrow> (string \<times> pv) list \<Rightarrow> cv_device \<Rightarrow> (py_exn, pv \<times> warning list) result" where
  "pathfinder_entry schema metadata dev =
     rbind (wan_interfaces dev [(''carrier'', ''carrier''), (''circuitId'', ''circuit_id''), (''pathgroup'', ''pathgroup''),
         (''publicIp'', ''public_ip'')] metadata) (\<lambda>ifs.
       let location = map (\<lambda>k. (k, pget metadata k)) [''region'', ''site'', ''address''];
           located = list_ex (\<lambda>(_, v). pv_truth v) location; supported = is_pathfinder_location_supported schema;
           v = [(''sslProfileName'', pget_or metadata ''ssl_profile'' (PStr [])), (''vtepIp'', pget_or metadata ''vtep_ip'' (PStr [])),
             (''wanInterfaces'', ifs)] @ (if located \<and> supported then location else [])
       in Inr (PDict [(''inputs'', PDict [(''value'', PDict v)]), (''tags'', query_tags (device_query dev))],
               if located \<and> \<not> supported then [LocationIgnored] else []))"

text \<open>The entry of a device in one of the two lists of the inputs\<close>

definition upsert_device ::
  "string \<Rightarrow> (py_exn, pv \<times> warning list) result \<Rightarrow> cv_device \<Rightarrow> (string \<times> pv) list \<Rightarrow> (py_exn, (string \<times> pv) list \<times> warning list) result" where
  "upsert_device key entry dev inputs =
     rbind entry (\<lambda>(e, ws). rbind (upsert_entry key (device_query dev) e inputs) (\<lambda>inputs'. Inr (inputs', ws)))"

definition upsert_pathfinder ::
  "pv \<Rightarrow> (string \<times> pv) list \<Rightarrow> cv_device \<Rightarrow> (string \<times> pv) list \<Rightarrow> (py_exn, (string \<times> pv) list \<times> warning list) result" where
  "upsert_pathfinder schema metadata dev = upsert_device ''pathfinders'' (pathfinder_entry schema metadata dev) dev"

section \<open>Internet exit policies\<close>

definition vpn_credential ::
  "(pv \<Rightarrow> (py_exn, pv) result) \<Rightarrow> pv \<Rightarrow> cv_device \<Rightarrow> string \<Rightarrow> pv \<Rightarrow> (py_exn, (string \<times> pv) list) result" where
  "vpn_credential decrypt schema dev policy c =
     rbind (subscript c ''fqdn'') (\<lambda>fqdn.
     rbind (subscript c ''vpn_type'') (\<lambda>ty.
     rbind (subscript c ''pre_shared_key'') (\<lambda>key.
       let d = [(''fqdn'', fqdn), (''comments'', PStr (''Credential for '' @ hostname dev @ '' internet-exit policy '' @ policy)), (''vpnType'', ty)]
       in if is_zscaler_tunnel_key_encryption_supported schema
          then Inr (d @ [(''presharedKey'', key), (''secretServiceRef'', PStr ''encrypted'')])
          else rbind (decrypt key) (\<lambda>clear. Inr (d @ [(''presharedKey'', clear)])))))"

definition zscaler_location ::
  "(pv \<Rightarrow> (py_exn, pv) result) \<Rightarrow> pv \<Rightarrow> cv_device \<Rightarrow> string \<Rightarrow> (string \<times> pv) list \<Rightarrow> (py_exn, (string \<times> pv) list) result" where
  "zscaler_location decrypt schema dev policy p =
     rbind (renamed (PDict p) [(''city'', ''city''), (''country'', ''country'')]) (\<lambda>place.
     rbind (renamed (PDict p) [(''firewallEnabled'', ''firewall''), (''ipsControl'', ''ips_control''), (''aupEnabled'', ''acceptable_use_policy'')]) (\<lambda>flags.
     rbind (map_items (vpn_credential decrypt schema dev policy) (subscript (PDict p) ''vpn_credentials'')) (\<lambda>credentials.
       Inr ([(''name'', PStr (hostname dev @ ''_'' @ policy)),
             (''description'', PStr (''Location corresponding to '' @ hostname dev @ '' for internet-exit policy '' @ policy @ ''.''))] @
            place @ [(''uploadBandwidth'', pget p ''upload_bandwidth''), (''downloadBandwidth'', pget p ''download_bandwidth'')] @
            flags @ [(''vpnCredentials'', credentials)]))))"

definition zscaler_tunnel :: "(pv \<Rightarrow> (py_exn, pv) result) \<Rightarrow> pv \<Rightarrow> pv \<Rightarrow> (py_exn, (string \<times> pv) list) result" where
  "zscaler_tunnel to_float schema t =
     rbind (renamed t [(''name'', ''name''), (''preference'', ''preference'')]) (\<lambda>d.
       if \<not> is_zscaler_tunnel_endpoint_supported schema then Inr d
       else rbind (subscript t ''endpoint'') (\<lambda>e.
         rbind (renamed e [(''ipAddress'', ''ip_address''), (''dcName'', ''datacenter''), (''city'', ''city''), (''country'', ''country''),
             (''region'', ''region'')]) (\<lambda>texts.
         rbind (rmap (\<lambda>k. rbind (subscript e k) (\<lambda>x. rbind (to_float x) (\<lambda>y. Inr (k, y)))) [''latitude'', ''longitude'']) (\<lambda>floats.
           Inr (d @ [(''endpoint'', PDict (texts @ floats))])))))"

text \<open>One policy: the services so far are None, or the locations and the tunnels.\<close>

definition internet_exit_policy ::
  "(pv \<Rightarrow> (py_exn, pv) result) \<Rightarrow> (pv \<Rightarrow> (py_exn, pv) result) \<Rightarrow> pv \<Rightarrow> cv_device \<Rightarrow> pv \<Rightarrow>
   (pv list \<times> pv list) option \<times> warning list \<Rightarrow> (py_exn, (pv list \<times> pv list) option \<times> warning list) result" where
  "internet_exit_policy to_float decrypt schema dev policy = (\<lambda>(services, ws).
     rbind (as_dict policy) (\<lambda>p.
       if pget p ''type'' = PStr ''direct'' then Inr (services, ws)
       else if pget p ''type'' \<noteq> PStr ''zscaler''
       then Inr (services, ws @ [UnsupportedExitPolicy (pv_str (pget p ''name'')) (pv_str (pget p ''type'')) (hostname dev)])
       else if \<not> is_internet_exit_zscaler_supported schema then Inr (services, ws @ [ZscalerIgnored])
       else
         rbind (subscript policy ''name'') (\<lambda>name.
         rbind (zscaler_location decrypt schema dev (pv_str name) p) (\<lambda>location.
         rbind (subscript policy ''tunnels'') (\<lambda>ts.
         rbind (iterate ts) (\<lambda>ts.
         rbind (rmap (zscaler_tunnel to_float schema) ts) (\<lambda>tunnels.
           case (case services of None \<Rightarrow> ([], []) | Some s \<Rightarrow> s) of (locs, tuns) \<Rightarrow>
             Inr (Some (locs @ [PDict location], tuns @ map PDict tunnels), ws))))))))"

fun internet_exit_policies ::
  "(pv \<Rightarrow> (py_exn, pv) result) \<Rightarrow> (pv \<Rightarrow> (py_exn, pv) result) \<Rightarrow> pv \<Rightarrow> cv_device \<Rightarrow> pv list \<Rightarrow>
   (pv list \<times> pv list) option \<times> warning list \<Rightarrow> (py_exn, (pv list \<times> pv list) option \<times> warning list) result" where
  "internet_exit_policies to_float decrypt schema dev [] acc = Inr acc"
| "internet_exit_policies to_float decrypt schema dev (p # ps) acc =
     rbind (internet_exit_policy to_float decrypt schema dev p acc) (internet_exit_policies to_float decrypt schema dev ps)"

text \<open>\<open>len(policies)\<close> fails on what cannot be iterated over either.\<close>

definition generate_internet_exit_metadata ::
  "(pv \<Rightarrow> (py_exn, pv) result) \<Rightarrow> (pv \<Rightarrow> (py_exn, pv) result) \<Rightarrow> pv \<Rightarrow> (string \<times> pv) list \<Rightarrow> cv_device \<Rightarrow>
   (py_exn, (string \<times> pv) list \<times> warning list) result" where
  "generate_internet_exit_metadata to_float decrypt schema metadata dev =
     (if pget metadata ''internet_exit_policies'' = PNone then Inr ([], [])
      else rbind (iterate (pget metadata ''internet_exit_policies'')) (\<lambda>policies.
        rbind (internet_exit_policies to_float decrypt schema dev policies (None, [])) (\<lambda>(services, ws).
          Inr (case services of None \<Rightarrow> []
               | Some (locs, tuns) \<Rightarrow> [(''zscaler'', PDict [(''locations'', PList locs), (''tunnels'', PList tuns)])], ws))))"

definition edge_entry ::
  "(pv \<Rightarrow> (py_exn, pv) result) \<Rightarrow> (pv \<Rightarrow> (py_exn, pv) result) \<Rightarrow> pv \<Rightarrow> (string \<times> pv) list \<Rightarrow> cv_device \<Rightarrow>
   (py_exn, pv \<times> warning list) result" where
  "edge_entry to_float decrypt schema metadata dev =
     rbind (map_items (\<lambda>p. renamed p [(''vtepIp'', ''vtep_ip'')]) (Inr (pget_or metadata ''pathfinders'' (PList [])))) (\<lambda>pathfinders.
     rbind (wan_interfaces dev [(''carrier'', ''carrier''), (''circuitId'', ''circuit_id''), (''pathgroup'', ''pathgroup'')] metadata) (\<lambda>ifs.
     rbind (generate_internet_exit_metadata to_float decrypt schema metadata dev) (\<lambda>(services, ws).
       let or_blank = (\<lambda>k. pget_or metadata k (PStr []));
           router = [(''sslProfileName'', or_blank ''ssl_profile''), (''pathfinders'', pathfinders), (''region'', or_blank ''region''),
             (''role'', or_blank ''role''), (''site'', or_blank ''site''), (''vtepIp'', or_blank ''vtep_ip''), (''wanInterfaces'', ifs),
             (''zone'', or_blank ''zone'')] @ (if services = [] then [] else [(''services'', PDict services)])
       in Inr (PDict [(''inputs'', PDict [(''router'', PDict router)]), (''tags'', query_tags (device_query dev))], ws))))"

definition upsert_edge ::
  "(pv \<Rightarrow> (py_exn, pv) result) \<Rightarrow> (pv \<Rightarrow> (py_exn, pv) result) \<Rightarrow> pv \<Rightarrow> (string \<times> pv) list \<Rightarrow> cv_device \<Rightarrow> (string \<times> pv) list \<Rightarrow>
   (py_exn, (string \<times> pv) list \<times> warning list) result" where
  "upsert_edge to_float decrypt schema metadata dev = upsert_device ''routers'' (edge_entry to_float decrypt schema metadata dev) dev"

section \<open>The workflow\<close>

record pathfinder_metadata =
  meta_object :: nat
  meta_device :: "dev_ref option"

record metadata_run = manifest_run +
  metadata_store :: "nat \<Rightarrow> (string \<times> pv) list"
  deployed_metadata :: "pathfinder_metadata list"
  skipped_metadata :: "pathfinder_metadata list"

text \<open>The schema of a studio, its inputs with a default, and a change of all of them\<close>

record 's metadata_client =
  get_studio :: "string \<Rightarrow> ('s, pv) op"
  get_studio_inputs :: "string \<Rightarrow> pv \<Rightarrow> ('s, pv) op"
  replace_studio_inputs :: "string \<Rightarrow> pv \<Rightarrow> ('s, unit) op"

definition metadata_studio_id :: string where
  "metadata_studio_id = ''studio-avd-pathfinder-metadata''"

definition default_studio_inputs :: pv where
  "default_studio_inputs = PDict (map (\<lambda>k. (k, PList [])) [''pathfinders'', ''pathgroups'', ''regions'', ''routers'', ''vrfs''])"

definition get_metadata_studio_schema :: "'s metadata_client \<Rightarrow> ('s \<times> 'x run_scheme, pv option) op" where
  "get_metadata_studio_schema c =
     handle (on_client (get_studio c metadata_studio_id)) (\<lambda>schema. ret (Some schema))
       (\<lambda>e. if e = CVResourceNotFound then seq (warn [MetadataStudioMissing]) (\<lambda>_. ret None) else fail e)"

definition of_py :: "(py_exn, 'a) result \<Rightarrow> ('s, 'a) op" where
  "of_py r = (case r of Inl e \<Rightarrow> fail (PyExn e) | Inr x \<Rightarrow> ret x)"

definition the_metadata :: "pathfinder_metadata \<Rightarrow> ('s \<times> 'x metadata_run_scheme, (string \<times> pv) list) op" where
  "the_metadata m = seq get_state (\<lambda>s. ret (metadata_store (snd s) (meta_object m)))"

definition skip_metadata :: "pathfinder_metadata \<Rightarrow> ('s \<times> 'x metadata_run_scheme, unit) op" where
  "skip_metadata m = on_lists (\<lambda>r. r\<lparr>skipped_metadata := skipped_metadata r @ [m]\<rparr>)"

text \<open>The edges and the pathfinders, with their devices; what is not on CloudVision or has another role is skipped.\<close>

fun sort_metadata ::
  "pathfinder_metadata list \<Rightarrow>
   ('s \<times> 'x metadata_run_scheme, (pathfinder_metadata \<times> dev_ref) list \<times> (pathfinder_metadata \<times> dev_ref) list) op" where
  "sort_metadata [] = ret ([], [])"
| "sort_metadata (m # ms) =
     (case meta_device m of
        None \<Rightarrow> fail (PyExn AttributeError)
      | Some d \<Rightarrow>
          seq the_devices (\<lambda>devs. seq (the_metadata m) (\<lambda>metadata.
            let role = pget metadata ''role''
            in if exists_on_cv (devs d) \<noteq> Some True then seq (skip_metadata m) (\<lambda>_. sort_metadata ms)
               else if role = PStr ''edge'' \<or> role = PStr ''transit region''
               then seq (sort_metadata ms) (\<lambda>(es, ps). ret ((m, d) # es, ps))
               else if role = PStr ''pathfinder'' then seq (sort_metadata ms) (\<lambda>(es, ps). ret (es, (m, d) # ps))
               else seq (skip_metadata m) (\<lambda>_. sort_metadata ms))))"

definition general_metadata ::
  "(pv \<Rightarrow> (py_exn, pv) result) \<Rightarrow> pv \<Rightarrow> (pathfinder_metadata \<times> dev_ref) list \<Rightarrow> (string \<times> pv) list \<Rightarrow>
   ('s \<times> 'x metadata_run_scheme, (string \<times> pv) list) op" where
  "general_metadata to_float schema ps inputs =
     (case ps of
        [] \<Rightarrow> ret inputs
      | (m, _) # _ \<Rightarrow>
          seq (the_metadata m) (\<lambda>metadata.
          seq (of_py (update_general_metadata to_float schema metadata inputs)) (\<lambda>(metadata', inputs', ws).
          seq (on_lists (\<lambda>r. r\<lparr>metadata_store := (metadata_store r)(meta_object m := metadata')\<rparr>)) (\<lambda>_.
          seq (warn ws) (\<lambda>_. ret inputs')))))"

fun upsert_all ::
  "((string \<times> pv) list \<Rightarrow> cv_device \<Rightarrow> (string \<times> pv) list \<Rightarrow> (py_exn, (string \<times> pv) list \<times> warning list) result) \<Rightarrow>
   (pathfinder_metadata \<times> dev_ref) list \<Rightarrow> (string \<times> pv) list \<Rightarrow> ('s \<times> 'x metadata_run_scheme, (string \<times> pv) list) op" where
  "upsert_all upsert [] inputs = ret inputs"
| "upsert_all upsert ((m, d) # ms) inputs =
     seq the_devices (\<lambda>devs. seq (the_metadata m) (\<lambda>metadata.
     seq (of_py (upsert metadata (devs d) inputs)) (\<lambda>(inputs', ws).
     seq (warn ws) (\<lambda>_. upsert_all upsert ms inputs'))))"

definition deploy_cv_pathfinder_metadata_to_cv ::
  "(pv \<Rightarrow> (py_exn, pv) result) \<Rightarrow> (pv \<Rightarrow> (py_exn, pv) result) \<Rightarrow> 's metadata_client \<Rightarrow> pathfinder_metadata list \<Rightarrow>
   ('s \<times> 'x metadata_run_scheme, unit) op" where
  "deploy_cv_pathfinder_metadata_to_cv to_float decrypt c ms =
     (if ms = [] then ret ()
      else seq (get_metadata_studio_schema c) (\<lambda>found.
        case found of
          None \<Rightarrow> ret ()
        | Some schema \<Rightarrow>
            seq (on_client (get_studio_inputs c metadata_studio_id default_studio_inputs)) (\<lambda>existing.
            seq (sort_metadata ms) (\<lambda>(edges, pathfinders).
            seq (general_metadata to_float schema pathfinders (case existing of PDict d \<Rightarrow> d | _ \<Rightarrow> [])) (\<lambda>inputs.
            seq (upsert_all (upsert_pathfinder schema) pathfinders inputs) (\<lambda>inputs.
            seq (upsert_all (upsert_edge to_float decrypt schema) edges inputs) (\<lambda>inputs.
            seq (if \<not> py_eq (PDict inputs) existing then on_client (replace_studio_inputs c metadata_studio_id (PDict inputs)) else ret ()) (\<lambda>_.
              on_lists (\<lambda>r. r\<lparr>deployed_metadata := deployed_metadata r @ map fst (pathfinders @ edges)\<rparr>)))))))))"

end
