(* ===== verification/CvPathfinder.thy ===== *)
theory CvPathfinder
  imports CvMetadata
begin

text \<open>
  Properties of the CV Pathfinder metadata: the lists of entries behave like a map from devices to entries, the in-place
  change of the general metadata loses hop counts when it is repeated, and a deployment puts
  the entries of its devices into the studio, changes no others, and does nothing the second time.
\<close>

section \<open>The list of the entries\<close>

definition has_query :: "string \<Rightarrow> pv \<Rightarrow> bool" where
  "has_query q x \<longleftrightarrow> (case x of PDict _ \<Rightarrow> get_path [''tags'', ''query''] x PNone False ''tags.query'' False = Inr (PStr q) | _ \<Rightarrow> False)"

definition malformed :: "pv \<Rightarrow> bool" where
  "malformed x \<longleftrightarrow> (case x of PDict _ \<Rightarrow> \<exists>e. get_path [''tags'', ''query''] x PNone False ''tags.query'' False = Inl e | _ \<Rightarrow> False)"

fun put :: "string \<Rightarrow> pv \<Rightarrow> pv list \<Rightarrow> pv list option" where
  "put q e [] = Some [e]"
| "put q e (x # xs) =
     (if malformed x then None else if has_query q x then Some (e # xs) else map_option ((#) x) (put q e xs))"

definition entries :: "string \<Rightarrow> (string \<times> pv) list \<Rightarrow> pv list" where
  "entries key inputs = (case pget_or inputs key (PList []) of PList xs \<Rightarrow> xs | _ \<Rightarrow> [])"

lemma py_eq_str: "py_eq v (PStr q) \<longleftrightarrow> v = PStr q"
  by (cases v) auto

lemma update_shifted: "Suc n \<le> a \<Longrightarrow> (x # xs)[a - n := e] = x # xs[a - Suc n := e]"
  by (simp add: Suc_diff_le [of "Suc n" a, simplified])

lemma find_entry_put:
  "case find_entry q n xs of
     Inl _ \<Rightarrow> put q e xs = None
   | Inr None \<Rightarrow> put q e xs = Some (xs @ [e])
   | Inr (Some i) \<Rightarrow> n \<le> i \<and> put q e xs = Some (xs[i - n := e])"
proof (induction q n xs rule: find_entry.induct)
  case (2 q n d rest)
  show ?case
  proof (cases "get_path [''tags'', ''query''] (PDict d) PNone False ''tags.query'' False")
    case (Inl a)
    then show ?thesis by (simp add: malformed_def)
  next
    case (Inr v)
    show ?thesis
    proof (cases "v = PStr q")
      case True
      with Inr show ?thesis by (simp add: malformed_def has_query_def py_eq_str)
    next
      case False
      with False 2 [OF Inr] Inr show ?thesis
        by (auto simp: malformed_def has_query_def py_eq_str update_shifted simp del: get_path.simps list_update.simps
          split: sum.splits option.splits)
    qed
  qed
qed (auto simp: malformed_def has_query_def update_shifted simp del: list_update.simps split: sum.splits option.splits)

lemma upsert_entry_put:
  "upsert_entry key q e inputs = Inr inputs' \<longleftrightarrow>
     (\<exists>ys. put q e (entries key inputs) = Some ys \<and> inputs' = AList.update key (PList ys) inputs)"
  using find_entry_put [where q = q and n = 0 and xs = "entries key inputs" and e = e]
  by (auto simp: upsert_entry_def entries_def [symmetric] Let_def split: sum.splits option.splits)

lemma entries_update [simp]:
  "entries k (AList.update k' (PList ys) d) = (if k = k' then ys else entries k d)"
  by (simp add: entries_def pget_or_def update_conv')

text \<open>The entry of a device is what was put, other devices keep theirs, and putting again changes nothing.\<close>

abbreviation entry_of :: "string \<Rightarrow> pv list \<Rightarrow> pv option" where
  "entry_of q \<equiv> find (has_query q)"

lemma has_query_fun: "has_query q x \<Longrightarrow> has_query q' x \<longleftrightarrow> q = q'"
  by (auto simp: has_query_def split: pv.splits)

lemma has_query_ok: "has_query q x \<Longrightarrow> \<not> malformed x"
  by (auto simp: has_query_def malformed_def split: pv.splits)

lemma put_entry: "put q e xs = Some ys \<Longrightarrow> has_query q e \<Longrightarrow> entry_of q ys = Some e"
  by (induction xs arbitrary: ys) (auto split: if_splits)

lemma put_other: "put q e xs = Some ys \<Longrightarrow> has_query q e \<Longrightarrow> q' \<noteq> q \<Longrightarrow> entry_of q' ys = entry_of q' xs"
  by (induction xs arbitrary: ys) (auto simp: has_query_fun split: if_splits)

lemma put_others:
  "put q e xs = Some ys \<Longrightarrow> has_query q e \<Longrightarrow> q \<in> Q \<Longrightarrow>
     filter (\<lambda>x. \<forall>p \<in> Q. \<not> has_query p x) ys = filter (\<lambda>x. \<forall>p \<in> Q. \<not> has_query p x) xs"
  by (induction xs arbitrary: ys) (auto split: if_splits)

lemma put_again: "put q e xs = Some ys \<Longrightarrow> has_query q e \<Longrightarrow> put q e ys = Some ys"
  by (induction xs arbitrary: ys) (auto simp: has_query_ok split: if_splits)

lemma put_fixed:
  "put q e xs = Some xs \<Longrightarrow> put q' e' xs = Some ys \<Longrightarrow> has_query q e \<Longrightarrow> has_query q' e' \<Longrightarrow> q' \<noteq> q \<Longrightarrow> put q e ys = Some ys"
  by (induction xs arbitrary: ys) (auto simp: has_query_fun has_query_ok split: if_splits)

section \<open>Sorting\<close>

definition role_of :: "devices \<Rightarrow> (nat \<Rightarrow> (string \<times> pv) list) \<Rightarrow> pathfinder_metadata \<Rightarrow> pv" where
  "role_of devs store m =
     (case meta_device m of None \<Rightarrow> PNone
      | Some d \<Rightarrow> if exists_on_cv (devs d) = Some True then pget (store (meta_object m)) ''role'' else PNone)"

definition is_edge :: "devices \<Rightarrow> (nat \<Rightarrow> (string \<times> pv) list) \<Rightarrow> pathfinder_metadata \<Rightarrow> bool" where
  "is_edge devs store m \<longleftrightarrow> role_of devs store m \<in> {PStr ''edge'', PStr ''transit region''}"

definition is_pathfinder :: "devices \<Rightarrow> (nat \<Rightarrow> (string \<times> pv) list) \<Rightarrow> pathfinder_metadata \<Rightarrow> bool" where
  "is_pathfinder devs store m \<longleftrightarrow> role_of devs store m = PStr ''pathfinder''"

definition with_device :: "pathfinder_metadata \<Rightarrow> pathfinder_metadata \<times> dev_ref" where
  "with_device m = (m, the (meta_device m))"

lemma fst_with_device [simp]: "fst (with_device m) = m"
  by (simp add: with_device_def)

lemma sort_metadata_run:
  fixes r :: "'x metadata_run_scheme"
  shows "(\<forall>m \<in> set ms. meta_device m \<noteq> None) \<Longrightarrow> device_store r = devs \<Longrightarrow> metadata_store r = store \<Longrightarrow>
     sort_metadata ms (s, r) =
       (Inr (map with_device (filter (is_edge devs store) ms), map with_device (filter (is_pathfinder devs store) ms)),
        (s, r\<lparr>skipped_metadata := skipped_metadata r @ filter (\<lambda>m. \<not> is_edge devs store m \<and> \<not> is_pathfinder devs store m) ms\<rparr>))"
proof (induction ms arbitrary: r)
  case (Cons m ms)
  obtain d where d: "meta_device m = Some d" using Cons.prems by auto
  show ?case
    using Cons.IH [of r] Cons.IH [of "r\<lparr>skipped_metadata := skipped_metadata r @ [m]\<rparr>"] Cons.prems
    by (auto simp: d the_devices_def the_metadata_def skip_metadata_def on_lists_def seq_def Let_def
      is_edge_def is_pathfinder_def role_of_def with_device_def)
qed simp

lemma sort_metadata_devices: "sort_metadata ms (s, r) = (Inr x, t) \<Longrightarrow> \<forall>m \<in> set ms. meta_device m \<noteq> None"
proof (induction ms arbitrary: r x)
  case (Cons m ms)
  from Cons.prems obtain d where d: "meta_device m = Some d" by (cases "meta_device m") auto
  obtain es ps where x: "x = (es, ps)" by (cases x)
  have "\<exists>r' x'. sort_metadata ms (s, r') = (Inr x', t)"
    using Cons.prems unfolding x by (auto 0 3 simp: d the_devices_def the_metadata_def skip_metadata_def on_lists_def seq_def Let_def
      split: if_splits prod.splits sum.splits)
  then show ?case using Cons.IH d by auto
qed simp

section \<open>Sequences of entries\<close>

type_synonym upsert = "(string \<times> pv) list \<Rightarrow> cv_device \<Rightarrow> (string \<times> pv) list \<Rightarrow> (py_exn, (string \<times> pv) list \<times> warning list) result"

fun upserts ::
  "upsert \<Rightarrow> devices \<Rightarrow> (nat \<Rightarrow> (string \<times> pv) list) \<Rightarrow> (pathfinder_metadata \<times> dev_ref) list \<Rightarrow> (string \<times> pv) list \<Rightarrow>
   (py_exn, (string \<times> pv) list \<times> warning list) result" where
  "upserts up devs store [] inputs = Inr (inputs, [])"
| "upserts up devs store ((m, d) # ms) inputs =
     rbind (up (store (meta_object m)) (devs d) inputs) (\<lambda>(i, ws).
     rbind (upserts up devs store ms i) (\<lambda>(i', ws'). Inr (i', ws @ ws')))"

lemma upsert_all_run:
  fixes r :: "'x metadata_run_scheme"
  shows "upserts up (device_store r) (metadata_store r) ms inputs = Inr (i', ws) \<Longrightarrow>
    upsert_all up ms inputs (s, r) = (Inr i', (s, r\<lparr>warnings := warnings r @ ws\<rparr>))"
proof (induction ms arbitrary: r inputs ws)
  case (Cons p ms)
  obtain m d where p: "p = (m, d)" by (cases p)
  from Cons.prems obtain i ws1 ws2 where *: "up (metadata_store r (meta_object m)) (device_store r d) inputs = Inr (i, ws1)"
      "upserts up (device_store r) (metadata_store r) ms i = Inr (i', ws2)" "ws = ws1 @ ws2"
    by (auto simp: p split: prod.splits)
  show ?case
    using Cons.IH [of "r\<lparr>warnings := warnings r @ ws1\<rparr>" i ws2] *
    by (simp add: p the_devices_def the_metadata_def of_py_def warn_def on_lists_def seq_def)
qed simp

lemma upsert_all_Inr:
  "upsert_all up ms inputs (s, r) = (Inr i', t) \<Longrightarrow> \<exists>ws. upserts up (device_store r) (metadata_store r) ms inputs = Inr (i', ws)"
proof (induction ms arbitrary: r inputs)
  case (Cons p ms)
  obtain m d where p: "p = (m, d)" by (cases p)
  from Cons.prems obtain i ws1 where *: "up (metadata_store r (meta_object m)) (device_store r d) inputs = Inr (i, ws1)"
      "upsert_all up ms i (s, r\<lparr>warnings := warnings r @ ws1\<rparr>) = (Inr i', t)"
    by (auto simp: p the_devices_def the_metadata_def of_py_def warn_def on_lists_def seq_def split: sum.splits prod.splits)
  show ?case using Cons.IH [OF *(2)] * by (auto simp: p)
qed simp

text \<open>Entries that are built with the query of their device\<close>

definition tagged :: "((string \<times> pv) list \<Rightarrow> cv_device \<Rightarrow> (py_exn, pv \<times> warning list) result) \<Rightarrow> bool" where
  "tagged build \<longleftrightarrow> (\<forall>metadata dev e ws. build metadata dev = Inr (e, ws) \<longrightarrow> has_query (device_query dev) e)"

lemma has_query_entry [simp]: "has_query q (PDict [(''inputs'', v), (''tags'', query_tags q)])"
  by (simp add: has_query_def query_tags_def pget_def)

lemma tagged_entries: "tagged (pathfinder_entry schema)" "tagged (edge_entry to_float decrypt schema)"
  by (auto simp: tagged_def pathfinder_entry_def edge_entry_def Let_def split: prod.splits)

definition upsert_with ::
  "string \<Rightarrow> ((string \<times> pv) list \<Rightarrow> cv_device \<Rightarrow> (py_exn, pv \<times> warning list) result) \<Rightarrow> upsert" where
  "upsert_with key build metadata dev = upsert_device key (build metadata dev) dev"

lemma upsert_with_simps:
  "upsert_pathfinder schema = upsert_with ''pathfinders'' (pathfinder_entry schema)"
  "upsert_edge to_float decrypt schema = upsert_with ''routers'' (edge_entry to_float decrypt schema)"
  by (simp_all add: fun_eq_iff upsert_with_def upsert_pathfinder_def upsert_edge_def)

lemma upsert_with_put:
  "upsert_with key build metadata dev inputs = Inr (i, ws) \<longleftrightarrow>
     (\<exists>e ys. build metadata dev = Inr (e, ws) \<and> put (device_query dev) e (entries key inputs) = Some ys \<and>
        i = AList.update key (PList ys) inputs)"
  by (auto simp: upsert_with_def upsert_device_def upsert_entry_put split: prod.splits)

abbreviation queries :: "devices \<Rightarrow> (pathfinder_metadata \<times> dev_ref) list \<Rightarrow> string list" where
  "queries devs ms \<equiv> map (\<lambda>(m, d). device_query (devs d)) ms"

definition built where
  "built build devs store = (\<lambda>(m, d) e. \<exists>ws. build (store (meta_object m)) (devs d) = Inr (e, ws))"

text \<open>The other keys are left alone, as are the entries of other devices.\<close>

lemma upserts_other_keys:
  "upserts (upsert_with key build) devs store ms inputs = Inr (i', ws) \<Longrightarrow> k \<noteq> key \<Longrightarrow> map_of i' k = map_of inputs k"
  by (induction ms arbitrary: inputs ws) (auto simp: upsert_with_put update_conv' split: prod.splits)

lemma upserts_list:
  "upserts (upsert_with key build) devs store ms inputs = Inr (i', ws) \<Longrightarrow> ms \<noteq> [] \<Longrightarrow> map_of i' key = Some (PList (entries key i'))"
proof (induction ms arbitrary: inputs ws)
  case (Cons p ms)
  then show ?case by (cases p; cases "ms = []") (auto simp: upsert_with_put update_conv')
qed simp

lemma upserts_others:
  assumes "tagged build"
  shows "upserts (upsert_with key build) devs store ms inputs = Inr (i', ws) \<Longrightarrow> set (queries devs ms) \<subseteq> Q \<Longrightarrow>
    filter (\<lambda>x. \<forall>p \<in> Q. \<not> has_query p x) (entries key i') = filter (\<lambda>x. \<forall>p \<in> Q. \<not> has_query p x) (entries key inputs)"
proof (induction ms arbitrary: inputs ws)
  case (Cons p ms)
  obtain m d where p: "p = (m, d)" by (cases p)
  from Cons.prems(1) obtain e ys ws1 ws2 where *: "build (store (meta_object m)) (devs d) = Inr (e, ws1)"
      "put (device_query (devs d)) e (entries key inputs) = Some ys"
      "upserts (upsert_with key build) devs store ms (AList.update key (PList ys) inputs) = Inr (i', ws2)"
    by (auto simp: p upsert_with_put split: prod.splits)
  have "has_query (device_query (devs d)) e" using assms *(1) by (auto simp: tagged_def)
  then show ?case
    using Cons.IH [OF *(3)] Cons.prems(2) put_others [OF *(2), of Q] by (simp add: p)
qed simp

text \<open>What was put before stays, and putting it again changes nothing.\<close>

lemma upserts_keep:
  assumes "tagged build" "has_query q e"
  shows "upserts (upsert_with key build) devs store ms inputs = Inr (i', ws) \<Longrightarrow> q \<notin> set (queries devs ms) \<Longrightarrow>
    put q e (entries key inputs) = Some (entries key inputs) \<and> entry_of q (entries key inputs) = Some e \<Longrightarrow>
    put q e (entries key i') = Some (entries key i') \<and> entry_of q (entries key i') = Some e"
proof (induction ms arbitrary: inputs ws)
  case (Cons p ms)
  obtain m d where p: "p = (m, d)" by (cases p)
  from Cons.prems(1) obtain e1 ys ws1 ws2 where *: "build (store (meta_object m)) (devs d) = Inr (e1, ws1)"
      "put (device_query (devs d)) e1 (entries key inputs) = Some ys"
      "upserts (upsert_with key build) devs store ms (AList.update key (PList ys) inputs) = Inr (i', ws2)"
    by (auto simp: p upsert_with_put split: prod.splits)
  have q: "has_query (device_query (devs d)) e1" "q \<noteq> device_query (devs d)"
    using assms *(1) Cons.prems(2) by (auto simp: tagged_def p)
  have "put q e ys = Some ys" "entry_of q ys = Some e"
    using put_fixed [OF _ *(2) assms(2) q(1)] put_other [OF *(2) q(1,2)] Cons.prems(3) q(2) by auto
  then show ?case using Cons.IH [OF *(3)] Cons.prems(2) by (simp add: p)
qed simp

lemma upserts_entries:
  assumes "tagged build"
  shows "upserts (upsert_with key build) devs store ms inputs = Inr (i', ws) \<Longrightarrow> distinct (queries devs ms) \<Longrightarrow> (m, d) \<in> set ms \<Longrightarrow>
    \<exists>e. built build devs store (m, d) e \<and> put (device_query (devs d)) e (entries key i') = Some (entries key i') \<and>
      entry_of (device_query (devs d)) (entries key i') = Some e"
proof (induction ms arbitrary: inputs ws)
  case (Cons p ms)
  obtain m1 d1 where p: "p = (m1, d1)" by (cases p)
  from Cons.prems(1) obtain e1 ys ws1 ws2 where *: "build (store (meta_object m1)) (devs d1) = Inr (e1, ws1)"
      "put (device_query (devs d1)) e1 (entries key inputs) = Some ys"
      "upserts (upsert_with key build) devs store ms (AList.update key (PList ys) inputs) = Inr (i', ws2)"
    by (auto simp: p upsert_with_put split: prod.splits)
  show ?case
  proof (cases "(m, d) \<in> set ms")
    case True
    then show ?thesis using Cons.IH [OF *(3)] Cons.prems(2) by (simp add: p)
  next
    case False
    then have m: "m = m1" "d = d1" using Cons.prems(3) by (auto simp: p)
    have q: "has_query (device_query (devs d1)) e1" using assms *(1) by (auto simp: tagged_def)
    have "put (device_query (devs d1)) e1 (entries key i') = Some (entries key i') \<and> entry_of (device_query (devs d1)) (entries key i') = Some e1"
      by (rule upserts_keep [OF assms q *(3)]) (use Cons.prems(2) put_again [OF *(2) q] put_entry [OF *(2) q] in \<open>auto simp: p\<close>)
    then show ?thesis using *(1) by (auto simp: m built_def)
  qed
qed simp

lemma entry_update_same: "map_of d k = Some v \<Longrightarrow> AList.update k v d = d"
  by (induction d) auto

lemma upserts_again:
  assumes "map_of i key = Some (PList (entries key i))"
  shows "(\<And>m d. (m, d) \<in> set ms \<Longrightarrow> \<exists>e. built build devs store (m, d) e \<and> put (device_query (devs d)) e (entries key i) = Some (entries key i)) \<Longrightarrow>
    \<exists>ws. upserts (upsert_with key build) devs store ms i = Inr (i, ws)"
proof (induction ms)
  case (Cons p ms)
  obtain m d where p: "p = (m, d)" by (cases p)
  obtain e ws1 where e: "build (store (meta_object m)) (devs d) = Inr (e, ws1)" "put (device_query (devs d)) e (entries key i) = Some (entries key i)"
    using Cons.prems [of m d] by (auto simp: p built_def)
  then have "upsert_with key build (store (meta_object m)) (devs d) i = Inr (i, ws1)"
    by (auto simp: upsert_with_put entry_update_same [OF assms])
  moreover obtain ws2 where "upserts (upsert_with key build) devs store ms i = Inr (i, ws2)" using Cons by (auto simp: p)
  ultimately show ?case by (simp add: p)
qed simp

section \<open>The general metadata\<close>

definition assign_all :: "(string \<times> pv) list \<Rightarrow> (string \<times> pv) list \<Rightarrow> (string \<times> pv) list" where
  "assign_all kvs inputs = fold (\<lambda>(k, v). AList.update k v) kvs inputs"

lemma assign_all_get: "map_of (assign_all kvs inputs) k = (case map_of (rev kvs) k of None \<Rightarrow> map_of inputs k | Some v \<Rightarrow> Some v)"
  unfolding assign_all_def
proof (induction kvs arbitrary: inputs)
  case (Cons p kvs)
  then show ?case by (cases p) (auto simp: update_conv' map_add_def split: option.splits)
qed simp

lemma map_of_rev_distinct: "distinct (map fst kvs) \<Longrightarrow> map_of (rev kvs) k = map_of kvs k"
  using dict_of_id [of kvs] dict_of_get [of kvs k] by simp

lemma assign_all_same: "(\<And>k v. (k, v) \<in> set kvs \<Longrightarrow> map_of inputs k = Some v) \<Longrightarrow> assign_all kvs inputs = inputs"
  unfolding assign_all_def by (induction kvs) (auto simp: entry_update_same)

definition general_keys :: "string set" where
  "general_keys = {''pathgroups'', ''regions'', ''vrfs'', ''applications''}"

definition vrfs_of :: "(string \<times> pv) list \<Rightarrow> pv" where
  "vrfs_of metadata = (if pget metadata ''vrfs'' = PNone then PList [] else pget metadata ''vrfs'')"

lemma general_assigns:
  assumes "update_general_metadata to_float schema md inputs = Inr (md', i1, ws)"
  obtains kvs ws1 where "distinct (map fst kvs)" "fst ` set kvs \<subseteq> general_keys" "map_of kvs ''vrfs'' = Some (vrfs_of md')"
    "change_at ''vrfs'' (change_items (update_vrf to_float schema)) md = Inr (md', ws1)"
    "\<And>i. update_general_metadata to_float schema md i = Inr (md', assign_all kvs i, ws)"
proof -
  obtain ws1 groups regions vrfs apps where parts:
      "change_at ''vrfs'' (change_items (update_vrf to_float schema)) md = Inr (md', ws1)"
      "map_items pathgroup_inputs (get_list (PDict md') ''pathgroups'') = Inr groups"
      "get_list (PDict md') ''regions'' = Inr regions" "get_list (PDict md') ''vrfs'' = Inr vrfs"
      "generate_applications_metadata md' = Inr apps"
    using assms unfolding update_general_metadata_def Let_def by (auto split: prod.splits if_splits)
  have vrfs: "vrfs = vrfs_of md'" using parts(4) by (auto simp: get_list_def vrfs_of_def split: if_splits)
  let ?kvs = "[(''pathgroups'', groups), (''regions'', regions), (''vrfs'', vrfs)] @
    (if apps = [] \<or> \<not> is_applications_supported schema then [] else [(''applications'', PDict apps)])"
  have "update_general_metadata to_float schema md i = Inr (md', assign_all ?kvs i, ws)" for i
    using assms by (auto simp: update_general_metadata_def parts Let_def assign_all_def split: if_splits)
  then show ?thesis by (intro that [of ?kvs ws1]) (auto simp: general_keys_def vrfs parts)
qed

section \<open>The AVTs\<close>

text \<open>All AVTs of all VRFs, and the hop count of an AVT as it is declared and as the studio gets it\<close>

definition items_at :: "string \<Rightarrow> pv \<Rightarrow> pv list" where
  "items_at k v = (case v of PDict d \<Rightarrow> (case pget d k of PList xs \<Rightarrow> xs | _ \<Rightarrow> []) | _ \<Rightarrow> [])"

definition avts_of :: "(string \<times> pv) list \<Rightarrow> pv list" where
  "avts_of d = concat (map (items_at ''avts'') (items_at ''vrfs'' (PDict d)))"

definition constraint_of :: "string \<Rightarrow> pv \<Rightarrow> pv" where
  "constraint_of k avt =
     (case avt of PDict d \<Rightarrow> (case pget d ''constraints'' of PDict c \<Rightarrow> pget_or c k (PStr []) | _ \<Rightarrow> PStr []) | _ \<Rightarrow> PStr [])"

lemma update_constraints_hops:
  assumes "update_constraints to_float schema c = Inr (c', ws)" "is_avt_hop_count_supported schema"
  shows "pget_or c' ''hopCount'' (PStr []) = pget_or c ''hop_count'' (PStr [])" "pget_or c' ''hop_count'' (PStr []) = PStr []"
  using assms by (auto simp: update_constraints_def Let_def pget_or_def update_conv' delete_conv')

lemma update_avt_hops:
  assumes "update_avt to_float schema avt = Inr (avt', ws)" "is_avt_hop_count_supported schema"
  shows "constraint_of ''hopCount'' avt' = constraint_of ''hop_count'' avt \<and> constraint_of ''hop_count'' avt' = PStr []"
proof -
  obtain d where d: "avt = PDict d" using assms(1) by (cases avt) (auto simp: update_avt_def)
  obtain c where c: "pget_or d ''constraints'' (PDict []) = PDict c"
    using assms(1) by (cases "pget_or d ''constraints'' (PDict [])") (auto simp: update_avt_def d)
  obtain c' ws1 where c': "update_constraints to_float schema c = Inr (c', ws1)"
      "\<exists>d'. avt' = PDict d' \<and> map_of d' ''constraints'' = Some (PDict c')"
    using assms(1) by (auto simp: update_avt_def d c Let_def update_conv' delete_conv' split: if_splits)
  have "constraint_of ''hop_count'' avt = pget_or c ''hop_count'' (PStr [])"
    using c by (auto simp: constraint_of_def d pget_or_def pget_def split: option.splits)
  then show ?thesis
    using c'(2) update_constraints_hops [OF c'(1) assms(2)] by (auto simp: constraint_of_def pget_def)
qed

lemma change_items_list:
  "change_items f v = Inr (v', ws) \<Longrightarrow>
     (case v of PList xs \<Rightarrow> \<exists>ys. v' = PList (map fst ys) \<and> rmap f xs = Inr ys | _ \<Rightarrow> v' = v)"
  by (cases v) (auto simp: change_items_def)

lemma rmap_all2: "rmap f xs = Inr ys \<longleftrightarrow> list_all2 (\<lambda>x y. f x = Inr y) xs ys"
proof (induction xs arbitrary: ys)
  case (Cons x xs)
  then show ?case by (cases ys) auto
qed auto

lemma change_at_items:
  assumes "change_at k (change_items f) d = Inr (d', ws)"
  shows "list_all2 (\<lambda>x y. \<exists>ws. f x = Inr (y, ws)) (items_at k (PDict d)) (items_at k (PDict d'))"
proof (cases "pget d k = PNone")
  case True
  with assms show ?thesis by (simp add: change_at_def items_at_def)
next
  case False
  then obtain v where v: "change_items f (pget d k) = Inr (v, ws)" "d' = AList.update k v d"
    using assms by (auto simp: change_at_def)
  then have "pget d' k = v" by (simp add: pget_def update_conv')
  with change_items_list [OF v(1)] show ?thesis
    by (cases "pget d k") (auto simp: items_at_def rmap_all2 list_all2_map2 elim!: list_all2_mono)
qed

lemma update_vrf_avts:
  assumes "update_vrf to_float schema vrf = Inr (vrf', ws)" "is_avt_hop_count_supported schema"
  shows "map (constraint_of ''hopCount'') (items_at ''avts'' vrf') = map (constraint_of ''hop_count'') (items_at ''avts'' vrf) \<and>
    map (constraint_of ''hop_count'') (items_at ''avts'' vrf') = map (\<lambda>_. PStr []) (items_at ''avts'' vrf)"
proof -
  obtain d d' where d: "vrf = PDict d" "vrf' = PDict d'" "change_at ''avts'' (change_items (update_avt to_float schema)) d = Inr (d', ws)"
    using assms(1) by (cases vrf) (auto simp: update_vrf_def)
  have "list_all2 (\<lambda>x y. constraint_of ''hopCount'' y = constraint_of ''hop_count'' x \<and> constraint_of ''hop_count'' y = PStr [])
      (items_at ''avts'' vrf) (items_at ''avts'' vrf')"
    using change_at_items [OF d(3)] unfolding d(1,2)
    by (rule list_all2_mono) (use update_avt_hops [OF _ assms(2)] in blast)
  then show ?thesis by (induction rule: list_all2_induct) auto
qed

lemma update_avts:
  assumes "change_at ''vrfs'' (change_items (update_vrf to_float schema)) d = Inr (d', ws)" "is_avt_hop_count_supported schema"
  shows "map (constraint_of ''hopCount'') (avts_of d') = map (constraint_of ''hop_count'') (avts_of d) \<and>
    map (constraint_of ''hop_count'') (avts_of d') = map (\<lambda>_. PStr []) (avts_of d)"
  using change_at_items [OF assms(1)] unfolding avts_of_def
  by (induction rule: list_all2_induct) (use update_vrf_avts [OF _ assms(2)] in fastforce)+


section \<open>The studio\<close>

text \<open>An ideal studio: its inputs, and the changes it was asked for\<close>

type_synonym studio_state = "pv option \<times> pv list"

definition metadata_studio :: "pv \<Rightarrow> studio_state metadata_client" where
  "metadata_studio schema =
     \<lparr>get_studio = (\<lambda>i s. (if i = metadata_studio_id then Inr schema else Inl CVResourceNotFound, s)),
      get_studio_inputs = (\<lambda>i dflt s. (Inr (case fst s of None \<Rightarrow> dflt | Some v \<Rightarrow> v), s)),
      replace_studio_inputs = (\<lambda>i v s. (Inr (), (Some v, snd s @ [v])))\<rparr>"

definition current_inputs :: "studio_state \<Rightarrow> pv" where
  "current_inputs s = (case fst s of None \<Rightarrow> default_studio_inputs | Some v \<Rightarrow> v)"

definition as_inputs :: "pv \<Rightarrow> (string \<times> pv) list" where
  "as_inputs v = (case v of PDict d \<Rightarrow> d | _ \<Rightarrow> [])"

text \<open>The general metadata without the state, with the dictionaries after it\<close>

definition general_step ::
  "(pv \<Rightarrow> (py_exn, pv) result) \<Rightarrow> pv \<Rightarrow> (nat \<Rightarrow> (string \<times> pv) list) \<Rightarrow> (pathfinder_metadata \<times> dev_ref) list \<Rightarrow>
   (string \<times> pv) list \<Rightarrow> (py_exn, (nat \<Rightarrow> (string \<times> pv) list) \<times> (string \<times> pv) list \<times> warning list) result" where
  "general_step to_float schema store ps inputs =
     (case ps of
        [] \<Rightarrow> Inr (store, inputs, [])
      | (m, _) # _ \<Rightarrow> rbind (update_general_metadata to_float schema (store (meta_object m)) inputs) (\<lambda>(md, i, ws).
          Inr (store(meta_object m := md), i, ws)))"

lemma general_metadata_run:
  fixes r :: "'x metadata_run_scheme"
  shows "general_step to_float schema (metadata_store r) ps inputs = Inr (store, i, ws) \<Longrightarrow>
    general_metadata to_float schema ps inputs (s, r) = (Inr i, (s, r\<lparr>metadata_store := store, warnings := warnings r @ ws\<rparr>))"
  by (auto simp: general_step_def general_metadata_def the_metadata_def of_py_def warn_def on_lists_def seq_def split: list.splits prod.splits)

lemma general_metadata_Inr:
  "general_metadata to_float schema ps inputs (s, r) = (Inr i, t) \<Longrightarrow>
    \<exists>store ws. general_step to_float schema (metadata_store r) ps inputs = Inr (store, i, ws)"
  by (auto simp: general_step_def general_metadata_def the_metadata_def of_py_def warn_def on_lists_def seq_def
    split: list.splits prod.splits sum.splits)

text \<open>The new inputs: the general metadata, the pathfinders and the edges\<close>

definition planned_inputs where
  "planned_inputs to_float decrypt schema devs store store' ms inputs D \<longleftrightarrow>
     (\<exists>i1 ws1 i2 ws2 ws3.
        general_step to_float schema store (map with_device (filter (is_pathfinder devs store) ms)) inputs = Inr (store', i1, ws1) \<and>
        upserts (upsert_with ''pathfinders'' (pathfinder_entry schema)) devs store' (map with_device (filter (is_pathfinder devs store) ms)) i1 = Inr (i2, ws2) \<and>
        upserts (upsert_with ''routers'' (edge_entry to_float decrypt schema)) devs store' (map with_device (filter (is_edge devs store) ms)) i2 = Inr (D, ws3))"

definition deployed_of where
  "deployed_of devs store ms = filter (is_pathfinder devs store) ms @ filter (is_edge devs store) ms"

lemma not_deployed:
  "filter (\<lambda>m. m \<notin> set (deployed_of devs store ms)) ms = filter (\<lambda>m. \<not> is_edge devs store m \<and> \<not> is_pathfinder devs store m) ms"
  by (rule filter_cong) (auto simp: deployed_of_def)

lemma seq_step: "m s = (Inr x, t) \<Longrightarrow> seq m f s = f x t"
  by (simp add: seq_def)

lemma deploy_metadata_start:
  fixes r :: "'x metadata_run_scheme"
  assumes "ms \<noteq> []"
  shows "deploy_cv_pathfinder_metadata_to_cv to_float decrypt (metadata_studio schema) ms (s, r) =
    seq (sort_metadata ms) (\<lambda>(edges, pathfinders).
            seq (general_metadata to_float schema pathfinders (as_inputs (current_inputs s))) (\<lambda>inputs.
            seq (upsert_all (upsert_with ''pathfinders'' (pathfinder_entry schema)) pathfinders inputs) (\<lambda>inputs.
            seq (upsert_all (upsert_with ''routers'' (edge_entry to_float decrypt schema)) edges inputs) (\<lambda>inputs.
            seq (if \<not> py_eq (PDict inputs) (current_inputs s)
                 then on_client (replace_studio_inputs (metadata_studio schema) metadata_studio_id (PDict inputs)) else ret ()) (\<lambda>_.
              on_lists (\<lambda>r. r\<lparr>deployed_metadata := deployed_metadata r @ map fst (pathfinders @ edges)\<rparr>)))))) (s, r)"
proof -
  have found: "get_metadata_studio_schema (metadata_studio schema) (s, r) = (Inr (Some schema), (s, r))"
    by (simp add: get_metadata_studio_schema_def handle_def on_client_def metadata_studio_def)
  have existing: "on_client (get_studio_inputs (metadata_studio schema) metadata_studio_id default_studio_inputs) (s, r) =
      (Inr (current_inputs s), (s, r))"
    by (simp add: on_client_def metadata_studio_def current_inputs_def)
  show ?thesis
    unfolding deploy_cv_pathfinder_metadata_to_cv_def if_not_P [OF assms] seq_step [of "get_metadata_studio_schema (metadata_studio schema)", OF found] option.case seq_step [of "on_client _", OF existing]
      upsert_with_simps as_inputs_def ..
qed

lemma deploy_metadata_run:
  fixes r :: "'x metadata_run_scheme"
  assumes "planned_inputs to_float decrypt schema (device_store r) (metadata_store r) store' ms (as_inputs (current_inputs s)) D"
    and "\<forall>m \<in> set ms. meta_device m \<noteq> None" "ms \<noteq> []"
  shows "\<exists>r'. deploy_cv_pathfinder_metadata_to_cv to_float decrypt (metadata_studio schema) ms (s, r) =
      (Inr (), (if py_eq (PDict D) (current_inputs s) then s else (Some (PDict D), snd s @ [PDict D]), r')) \<and>
    metadata_store r' = store' \<and> deployed_metadata r' = deployed_metadata r @ deployed_of (device_store r) (metadata_store r) ms \<and>
    skipped_metadata r' = skipped_metadata r @ filter (\<lambda>m. m \<notin> set (deployed_of (device_store r) (metadata_store r) ms)) ms"
proof -
  let ?ps = "map with_device (filter (is_pathfinder (device_store r) (metadata_store r)) ms)"
  let ?es = "map with_device (filter (is_edge (device_store r) (metadata_store r)) ms)"
  obtain i1 ws1 i2 ws2 ws3 where steps:
      "general_step to_float schema (metadata_store r) ?ps (as_inputs (current_inputs s)) = Inr (store', i1, ws1)"
      "upserts (upsert_with ''pathfinders'' (pathfinder_entry schema)) (device_store r) store' ?ps i1 = Inr (i2, ws2)"
      "upserts (upsert_with ''routers'' (edge_entry to_float decrypt schema)) (device_store r) store' ?es i2 = Inr (D, ws3)"
    using assms(1) unfolding planned_inputs_def by blast
  define r1 where "r1 = r\<lparr>skipped_metadata := skipped_metadata r @
    filter (\<lambda>m. \<not> is_edge (device_store r) (metadata_store r) m \<and> \<not> is_pathfinder (device_store r) (metadata_store r) m) ms\<rparr>"
  define r2 where "r2 = r1\<lparr>metadata_store := store', warnings := warnings r1 @ ws1\<rparr>"
  define r3 where "r3 = r2\<lparr>warnings := warnings r2 @ ws2\<rparr>"
  define r4 where "r4 = r3\<lparr>warnings := warnings r3 @ ws3\<rparr>"
  have 1: "sort_metadata ms (s, r) = (Inr (?es, ?ps), (s, r1))"
    unfolding r1_def by (rule sort_metadata_run [OF assms(2)]) simp_all
  have 2: "general_metadata to_float schema ?ps (as_inputs (current_inputs s)) (s, r1) = (Inr i1, (s, r2))"
    unfolding r2_def by (rule general_metadata_run) (simp add: r1_def steps(1))
  have 3: "upsert_all (upsert_with ''pathfinders'' (pathfinder_entry schema)) ?ps i1 (s, r2) = (Inr i2, (s, r3))"
    unfolding r3_def by (rule upsert_all_run) (simp add: r2_def r1_def steps(2))
  have 4: "upsert_all (upsert_with ''routers'' (edge_entry to_float decrypt schema)) ?es i2 (s, r3) = (Inr D, (s, r4))"
    unfolding r4_def by (rule upsert_all_run) (simp add: r3_def r2_def r1_def steps(3))
  have r4: "metadata_store r4 = store'" "deployed_metadata r4 = deployed_metadata r" "skipped_metadata r4 = skipped_metadata r @
      filter (\<lambda>m. \<not> is_edge (device_store r) (metadata_store r) m \<and> \<not> is_pathfinder (device_store r) (metadata_store r) m) ms"
    by (simp_all add: r4_def r3_def r2_def r1_def)
  show ?thesis
    unfolding deploy_metadata_start [OF assms(3)] seq_step [of "sort_metadata ms", OF 1] prod.case
      seq_step [of "general_metadata _ _ _ _", OF 2] seq_step [of "upsert_all _ _ _", OF 3] seq_step [of "upsert_all _ _ _", OF 4]
    by (simp add: seq_def on_client_def on_lists_def metadata_studio_def r4 not_deployed comp_def) (simp add: deployed_of_def)
qed

lemma deploy_metadata_Inr:
  fixes r :: "'x metadata_run_scheme"
  assumes "deploy_cv_pathfinder_metadata_to_cv to_float decrypt (metadata_studio schema) ms (s, r) = (Inr (), t)" "ms \<noteq> []"
  shows "\<exists>store' D. planned_inputs to_float decrypt schema (device_store r) (metadata_store r) store' ms (as_inputs (current_inputs s)) D"
    and "\<forall>m \<in> set ms. meta_device m \<noteq> None"
proof -
  let ?ps = "map with_device (filter (is_pathfinder (device_store r) (metadata_store r)) ms)"
  let ?es = "map with_device (filter (is_edge (device_store r) (metadata_store r)) ms)"
  note run = assms(1) [unfolded deploy_metadata_start [OF assms(2)]]
  from run obtain x t0 where "sort_metadata ms (s, r) = (Inr x, t0)" unfolding seq_Inr by blast
  then show devices: "\<forall>m \<in> set ms. meta_device m \<noteq> None" by (rule sort_metadata_devices)
  define r1 where "r1 = r\<lparr>skipped_metadata := skipped_metadata r @
    filter (\<lambda>m. \<not> is_edge (device_store r) (metadata_store r) m \<and> \<not> is_pathfinder (device_store r) (metadata_store r) m) ms\<rparr>"
  have sorted: "sort_metadata ms (s, r) = (Inr (?es, ?ps), (s, r1))"
    unfolding r1_def by (rule sort_metadata_run [OF devices]) simp_all
  from run obtain i1 t1 i2 t2 D t3 where steps:
      "general_metadata to_float schema ?ps (as_inputs (current_inputs s)) (s, r1) = (Inr i1, t1)"
      "upsert_all (upsert_with ''pathfinders'' (pathfinder_entry schema)) ?ps i1 t1 = (Inr i2, t2)"
      "upsert_all (upsert_with ''routers'' (edge_entry to_float decrypt schema)) ?es i2 t2 = (Inr D, t3)"
    unfolding seq_step [of "sort_metadata ms", OF sorted] prod.case seq_Inr by blast
  have r1: "device_store r1 = device_store r" "metadata_store r1 = metadata_store r" by (simp_all add: r1_def)
  obtain store' ws1 where 1: "general_step to_float schema (metadata_store r) ?ps (as_inputs (current_inputs s)) = Inr (store', i1, ws1)"
    using general_metadata_Inr [OF steps(1)] by (auto simp: r1)
  define r2 where "r2 = r1\<lparr>metadata_store := store', warnings := warnings r1 @ ws1\<rparr>"
  have t1: "t1 = (s, r2)" using general_metadata_run [where s = s and r = r1 and to_float = to_float and schema = schema, unfolded r1, OF 1] steps(1) by (simp add: r2_def)
  obtain ws2 where 2: "upserts (upsert_with ''pathfinders'' (pathfinder_entry schema)) (device_store r) store' ?ps i1 = Inr (i2, ws2)"
    using upsert_all_Inr [OF steps(2) [unfolded t1]] by (auto simp: r2_def r1)
  have t2: "t2 = (s, r2\<lparr>warnings := warnings r2 @ ws2\<rparr>)"
    using upsert_all_run [of _ r2, where inputs = i1 and i' = i2 and ws = ws2 and s = s] 2 steps(2) by (simp add: t1 r2_def r1)
  have "\<exists>ws3. upserts (upsert_with ''routers'' (edge_entry to_float decrypt schema)) (device_store r) store' ?es i2 = Inr (D, ws3)"
    using upsert_all_Inr [OF steps(3) [unfolded t2]] by (auto simp: r2_def r1)
  with 1 2 show "\<exists>store' D. planned_inputs to_float decrypt schema (device_store r) (metadata_store r) store' ms (as_inputs (current_inputs s)) D"
    unfolding planned_inputs_def by blast
qed

section \<open>What the studio contains afterwards\<close>

definition device_of where
  "device_of r m = device_store r (the (meta_device m))"

lemma queries_of: "queries (device_store r) (map with_device xs) = map (\<lambda>m. device_query (device_of r m)) xs"
  by (simp add: with_device_def device_of_def)

lemma general_step_keys:
  assumes "general_step to_float schema store ps inputs = Inr (store', i, ws)" "k \<notin> general_keys"
  shows "map_of i k = map_of inputs k"
proof (cases ps)
  case Nil
  with assms show ?thesis by (simp add: general_step_def)
next
  case (Cons p rest)
  obtain m d where p: "p = (m, d)" by (cases p)
  obtain md where u: "update_general_metadata to_float schema (store (meta_object m)) inputs = Inr (md, i, ws)"
    using assms(1) by (auto simp: Cons p general_step_def)
  obtain kvs where "fst ` set kvs \<subseteq> general_keys" "i = assign_all kvs inputs"
    using general_assigns [OF u] u by (metis Inr_inject prod.inject)
  moreover from this(1) have "map_of (rev kvs) k = None" using assms(2) by (auto simp: dict_get_None)
  ultimately show ?thesis by (simp add: assign_all_get)
qed

lemma general_step_again:
  assumes "general_step to_float schema store ps inputs = Inr (store', i, ws)"
    and keys: "\<And>k. k \<notin> {''pathfinders'', ''routers''} \<Longrightarrow> map_of D k = map_of i k"
  shows "general_step to_float schema store ps D = Inr (store', D, ws)"
proof (cases ps)
  case Nil
  with assms(1) show ?thesis by (simp add: general_step_def)
next
  case (Cons p rest)
  obtain m d where p: "p = (m, d)" by (cases p)
  obtain md where u: "update_general_metadata to_float schema (store (meta_object m)) inputs = Inr (md, i, ws)" "store' = store(meta_object m := md)"
    using assms(1) by (auto simp: Cons p general_step_def)
  obtain kvs where kvs: "distinct (map fst kvs)" "fst ` set kvs \<subseteq> general_keys" "i = assign_all kvs inputs"
      "\<And>j. update_general_metadata to_float schema (store (meta_object m)) j = Inr (md, assign_all kvs j, ws)"
    using general_assigns [OF u(1)] u(1) by (metis Inr_inject prod.inject)
  have "assign_all kvs D = D"
  proof (rule assign_all_same)
    fix k v assume kv: "(k, v) \<in> set kvs"
    with kvs(2) have "k \<in> general_keys" by (metis image_subset_iff fst_conv)
    then have "map_of D k = map_of i k" by (intro keys) (auto simp: general_keys_def)
    also have "\<dots> = Some v"
      using kv kvs(1) by (simp add: kvs(3) assign_all_get map_of_rev_distinct)
    finally show "map_of D k = Some v" .
  qed
  then show ?thesis by (simp add: general_step_def Cons p kvs(4) u(2))
qed

lemma entries_cong: "map_of i k = map_of j k \<Longrightarrow> entries k i = entries k j"
  by (simp add: entries_def pget_or_def)

lemma planned_facts:
  assumes "planned_inputs to_float decrypt schema (device_store r) (metadata_store r) store' ms inputs D"
    and "distinct (map (\<lambda>m. device_query (device_of r m)) (deployed_of (device_store r) (metadata_store r) ms))"
  defines "ps \<equiv> filter (is_pathfinder (device_store r) (metadata_store r)) ms" and "es \<equiv> filter (is_edge (device_store r) (metadata_store r)) ms"
  obtains i1 ws1 where "general_step to_float schema (metadata_store r) (map with_device ps) inputs = Inr (store', i1, ws1)"
    "\<And>m. m \<in> set ps \<Longrightarrow> \<exists>e. built (pathfinder_entry schema) (device_store r) store' (with_device m) e \<and>
       put (device_query (device_of r m)) e (entries ''pathfinders'' D) = Some (entries ''pathfinders'' D) \<and>
       entry_of (device_query (device_of r m)) (entries ''pathfinders'' D) = Some e"
    "\<And>m. m \<in> set es \<Longrightarrow> \<exists>e. built (edge_entry to_float decrypt schema) (device_store r) store' (with_device m) e \<and>
       put (device_query (device_of r m)) e (entries ''routers'' D) = Some (entries ''routers'' D) \<and>
       entry_of (device_query (device_of r m)) (entries ''routers'' D) = Some e"
    "filter (\<lambda>x. \<forall>m \<in> set ps. \<not> has_query (device_query (device_of r m)) x) (entries ''pathfinders'' D) =
       filter (\<lambda>x. \<forall>m \<in> set ps. \<not> has_query (device_query (device_of r m)) x) (entries ''pathfinders'' inputs)"
    "filter (\<lambda>x. \<forall>m \<in> set es. \<not> has_query (device_query (device_of r m)) x) (entries ''routers'' D) =
       filter (\<lambda>x. \<forall>m \<in> set es. \<not> has_query (device_query (device_of r m)) x) (entries ''routers'' inputs)"
    "ps \<noteq> [] \<Longrightarrow> map_of D ''pathfinders'' = Some (PList (entries ''pathfinders'' D))"
    "es \<noteq> [] \<Longrightarrow> map_of D ''routers'' = Some (PList (entries ''routers'' D))"
    "\<And>k. k \<notin> {''pathfinders'', ''routers''} \<Longrightarrow> map_of D k = map_of i1 k"
proof -
  obtain i1 ws1 i2 ws2 ws3 where g: "general_step to_float schema (metadata_store r) (map with_device ps) inputs = Inr (store', i1, ws1)"
    and p: "upserts (upsert_with ''pathfinders'' (pathfinder_entry schema)) (device_store r) store' (map with_device ps) i1 = Inr (i2, ws2)"
    and e: "upserts (upsert_with ''routers'' (edge_entry to_float decrypt schema)) (device_store r) store' (map with_device es) i2 = Inr (D, ws3)"
    using assms(1) unfolding planned_inputs_def ps_def es_def by blast
  have dist: "distinct (queries (device_store r) (map with_device ps))" "distinct (queries (device_store r) (map with_device es))"
    using assms(2) unfolding queries_of ps_def es_def deployed_of_def by simp_all
  have D: "map_of D k = map_of i2 k" if "k \<noteq> ''routers''" for k by (rule upserts_other_keys [OF e that])
  have i2: "map_of i2 k = map_of i1 k" if "k \<noteq> ''pathfinders''" for k by (rule upserts_other_keys [OF p that])
  have i1: "map_of i1 k = map_of inputs k" if "k \<notin> general_keys" for k by (rule general_step_keys [OF g that])
  have keys: "''pathfinders'' \<notin> general_keys" "''routers'' \<notin> general_keys" by (simp_all add: general_keys_def)
  have dp: "entries ''pathfinders'' D = entries ''pathfinders'' i2" by (rule entries_cong) (simp add: D)
  have others: "(\<forall>q \<in> set (queries (device_store r) (map with_device xs)). \<not> has_query q x) \<longleftrightarrow>
      (\<forall>m \<in> set xs. \<not> has_query (device_query (device_of r m)) x)" for xs x
    unfolding queries_of by simp
  show ?thesis
  proof (rule that [OF g])
    fix m assume "m \<in> set ps"
    then have "(m, the (meta_device m)) \<in> set (map with_device ps)" by (force simp: with_device_def)
    from upserts_entries [OF tagged_entries(1) p dist(1) this]
    show "\<exists>e. built (pathfinder_entry schema) (device_store r) store' (with_device m) e \<and>
       put (device_query (device_of r m)) e (entries ''pathfinders'' D) = Some (entries ''pathfinders'' D) \<and>
       entry_of (device_query (device_of r m)) (entries ''pathfinders'' D) = Some e"
      unfolding dp by (simp add: with_device_def device_of_def)
  next
    fix m assume "m \<in> set es"
    then have "(m, the (meta_device m)) \<in> set (map with_device es)" by (force simp: with_device_def)
    from upserts_entries [OF tagged_entries(2) e dist(2) this]
    show "\<exists>e. built (edge_entry to_float decrypt schema) (device_store r) store' (with_device m) e \<and>
       put (device_query (device_of r m)) e (entries ''routers'' D) = Some (entries ''routers'' D) \<and>
       entry_of (device_query (device_of r m)) (entries ''routers'' D) = Some e"
      by (simp add: with_device_def device_of_def)
  next
    have "entries ''pathfinders'' i1 = entries ''pathfinders'' inputs" by (rule entries_cong) (rule i1 [OF keys(1)])
    then show "filter (\<lambda>x. \<forall>m \<in> set ps. \<not> has_query (device_query (device_of r m)) x) (entries ''pathfinders'' D) =
       filter (\<lambda>x. \<forall>m \<in> set ps. \<not> has_query (device_query (device_of r m)) x) (entries ''pathfinders'' inputs)"
      unfolding others [symmetric] dp upserts_others [OF tagged_entries(1) p subset_refl] by (rule arg_cong)
  next
    have "entries ''routers'' i2 = entries ''routers'' inputs" by (rule entries_cong) (simp add: i2 i1 keys)
    then show "filter (\<lambda>x. \<forall>m \<in> set es. \<not> has_query (device_query (device_of r m)) x) (entries ''routers'' D) =
       filter (\<lambda>x. \<forall>m \<in> set es. \<not> has_query (device_query (device_of r m)) x) (entries ''routers'' inputs)"
      unfolding others [symmetric] upserts_others [OF tagged_entries(2) e subset_refl] by (rule arg_cong)
  next
    assume "ps \<noteq> []"
    with upserts_list [OF p] show "map_of D ''pathfinders'' = Some (PList (entries ''pathfinders'' D))" by (simp add: dp D)
  next
    assume "es \<noteq> []"
    with upserts_list [OF e] show "map_of D ''routers'' = Some (PList (entries ''routers'' D))" by simp
  qed (auto simp: D i2)
qed

text \<open>
  C37. A deployment of metadata that ends without an exception has deployed the metadata of the pathfinders and edges on
  CloudVision and skipped the rest. The studio is asked at most once, and only for a change; in the new inputs every
  deployed device has the entry that is built from its metadata, the entries of other devices are as before and in the same
  order, and only the keys of the general metadata change otherwise.
\<close>

theorem metadata_deployed:
  fixes r :: metadata_run
  assumes "deploy_cv_pathfinder_metadata_to_cv to_float decrypt (metadata_studio schema) ms (s, r) = (Inr (), (s1, r1))"
    and "ms \<noteq> []" "deployed_metadata r = []" "distinct (map (\<lambda>m. device_query (device_of r m)) (deployed_metadata r1))"
  defines "ps \<equiv> filter (is_pathfinder (device_store r) (metadata_store r)) ms" and "es \<equiv> filter (is_edge (device_store r) (metadata_store r)) ms"
  shows "deployed_metadata r1 = ps @ es \<and> skipped_metadata r1 = skipped_metadata r @ filter (\<lambda>m. m \<notin> set (ps @ es)) ms \<and>
    (\<exists>D. s1 = (if py_eq (PDict D) (current_inputs s) then s else (Some (PDict D), snd s @ [PDict D])) \<and>
      (\<forall>m \<in> set ps. \<exists>e ws. pathfinder_entry schema (metadata_store r1 (meta_object m)) (device_of r m) = Inr (e, ws) \<and>
         entry_of (device_query (device_of r m)) (entries ''pathfinders'' D) = Some e) \<and>
      (\<forall>m \<in> set es. \<exists>e ws. edge_entry to_float decrypt schema (metadata_store r1 (meta_object m)) (device_of r m) = Inr (e, ws) \<and>
         entry_of (device_query (device_of r m)) (entries ''routers'' D) = Some e) \<and>
      filter (\<lambda>x. \<forall>m \<in> set ps. \<not> has_query (device_query (device_of r m)) x) (entries ''pathfinders'' D) =
        filter (\<lambda>x. \<forall>m \<in> set ps. \<not> has_query (device_query (device_of r m)) x) (entries ''pathfinders'' (as_inputs (current_inputs s))) \<and>
      filter (\<lambda>x. \<forall>m \<in> set es. \<not> has_query (device_query (device_of r m)) x) (entries ''routers'' D) =
        filter (\<lambda>x. \<forall>m \<in> set es. \<not> has_query (device_query (device_of r m)) x) (entries ''routers'' (as_inputs (current_inputs s))) \<and>
      (\<forall>k. k \<in> general_keys \<or> k \<in> {''pathfinders'', ''routers''} \<or> map_of D k = map_of (as_inputs (current_inputs s)) k))"
proof -
  obtain store' D where plan: "planned_inputs to_float decrypt schema (device_store r) (metadata_store r) store' ms (as_inputs (current_inputs s)) D"
    and devices: "\<forall>m \<in> set ms. meta_device m \<noteq> None"
    using deploy_metadata_Inr [OF assms(1,2)] by blast
  have run: "s1 = (if py_eq (PDict D) (current_inputs s) then s else (Some (PDict D), snd s @ [PDict D]))" "metadata_store r1 = store'"
    "deployed_metadata r1 = ps @ es" "skipped_metadata r1 = skipped_metadata r @ filter (\<lambda>m. m \<notin> set (ps @ es)) ms"
    using deploy_metadata_run [OF plan devices assms(2)] assms(1,3) by (simp_all add: deployed_of_def ps_def es_def del: py_eq.simps)
  have dist: "distinct (map (\<lambda>m. device_query (device_of r m)) (deployed_of (device_store r) (metadata_store r) ms))"
    using assms(4) by (simp add: run(3) deployed_of_def ps_def es_def)
  show ?thesis
  proof (rule planned_facts [OF plan dist], goal_cases)
    case (1 i1 ws1)
    note facts = 1 [folded ps_def es_def]
    have pathfinders: "\<forall>m \<in> set ps. \<exists>e ws. pathfinder_entry schema (metadata_store r1 (meta_object m)) (device_of r m) = Inr (e, ws) \<and>
           entry_of (device_query (device_of r m)) (entries ''pathfinders'' D) = Some e"
      using facts(2) by (fastforce simp: built_def with_device_def device_of_def run(2))
    have edges: "\<forall>m \<in> set es. \<exists>e ws. edge_entry to_float decrypt schema (metadata_store r1 (meta_object m)) (device_of r m) = Inr (e, ws) \<and>
           entry_of (device_query (device_of r m)) (entries ''routers'' D) = Some e"
      using facts(3) by (fastforce simp: built_def with_device_def device_of_def run(2))
    have "\<forall>k. k \<in> general_keys \<or> k \<in> {''pathfinders'', ''routers''} \<or> map_of D k = map_of (as_inputs (current_inputs s)) k"
      using facts(8) general_step_keys [OF facts(1)] by metis
    then show ?case by (intro conjI exI [of _ D] run(1,3,4) pathfinders edges facts(4,5))
  qed
qed

text \<open>
  C38. Deploying the same metadata again, from dictionaries as they were before the first deployment, asks the studio for
  nothing and reports the same devices as deployed.
\<close>

theorem metadata_redeploy_unchanged:
  fixes r r2 :: metadata_run
  assumes "deploy_cv_pathfinder_metadata_to_cv to_float decrypt (metadata_studio schema) ms (s, r) = (Inr (), (s1, r1))"
    and "ms \<noteq> []" "deployed_metadata r = []" "distinct (map (\<lambda>m. device_query (device_of r m)) (deployed_metadata r1))"
    and "pv_wf (current_inputs s1)" "device_store r2 = device_store r" "metadata_store r2 = metadata_store r"
  shows "\<exists>r3. deploy_cv_pathfinder_metadata_to_cv to_float decrypt (metadata_studio schema) ms (s1, r2) = (Inr (), (s1, r3)) \<and>
    deployed_metadata r3 = deployed_metadata r2 @ deployed_metadata r1"
proof -
  let ?ps = "filter (is_pathfinder (device_store r) (metadata_store r)) ms"
  let ?es = "filter (is_edge (device_store r) (metadata_store r)) ms"
  obtain store' D where plan: "planned_inputs to_float decrypt schema (device_store r) (metadata_store r) store' ms (as_inputs (current_inputs s)) D"
    and devices: "\<forall>m \<in> set ms. meta_device m \<noteq> None"
    using deploy_metadata_Inr [OF assms(1,2)] by blast
  have run: "s1 = (if py_eq (PDict D) (current_inputs s) then s else (Some (PDict D), snd s @ [PDict D]))"
    "deployed_metadata r1 = deployed_of (device_store r) (metadata_store r) ms"
    using deploy_metadata_run [OF plan devices assms(2)] assms(1,3) by (simp_all del: py_eq.simps)
  have again: ?thesis if "planned_inputs to_float decrypt schema (device_store r) (metadata_store r) store' ms (as_inputs (current_inputs s1)) D"
    "py_eq (PDict D) (current_inputs s1)"
    using deploy_metadata_run [where r = r2 and s = s1, unfolded assms(6,7), OF that(1) devices assms(2)] that(2) run(2) by (auto simp del: py_eq.simps)
  show ?thesis
  proof (cases "py_eq (PDict D) (current_inputs s)")
    case True
    with run(1) plan show ?thesis by (intro again) (simp_all del: py_eq.simps)
  next
    case False
    then have s1: "current_inputs s1 = PDict D" using run(1) by (simp add: current_inputs_def del: py_eq.simps)
    have dist: "distinct (map (\<lambda>m. device_query (device_of r m)) (deployed_of (device_store r) (metadata_store r) ms))"
      using assms(4) by (simp add: run(2))
    show ?thesis
    proof (rule planned_facts [OF plan dist], goal_cases)
      case (1 i1 ws1)
      have same: "general_step to_float schema (metadata_store r) (map with_device ?ps) D = Inr (store', D, ws1)"
        by (rule general_step_again [OF 1(1) 1(8)])
      have pathfinders: "\<exists>ws. upserts (upsert_with ''pathfinders'' (pathfinder_entry schema)) (device_store r) store' (map with_device ?ps) D = Inr (D, ws)"
      proof (cases "?ps = []")
        case False
        then show ?thesis
          by (intro upserts_again 1(6)) (use 1(2) in \<open>auto simp: with_device_def device_of_def\<close>)
      qed simp
      have edges: "\<exists>ws. upserts (upsert_with ''routers'' (edge_entry to_float decrypt schema)) (device_store r) store' (map with_device ?es) D = Inr (D, ws)"
      proof (cases "?es = []")
        case False
        then show ?thesis
          by (intro upserts_again 1(7)) (use 1(3) in \<open>auto simp: with_device_def device_of_def\<close>)
      qed simp
      have "planned_inputs to_float decrypt schema (device_store r) (metadata_store r) store' ms (as_inputs (current_inputs s1)) D"
        unfolding planned_inputs_def s1 using same pathfinders edges by (simp add: as_inputs_def) blast
      moreover have "py_eq (PDict D) (current_inputs s1)" using assms(5) unfolding s1 by (rule py_eq_refl)
      ultimately show ?case by (rule again)
    qed
  qed
qed

section \<open>An example\<close>

definition example_schema :: pv where
  "example_schema = PDict [(''fields'', PDict [(''values'', PDict [(''avtHopCount'', PStr ''string'')])])]"

definition example_metadata :: "(string \<times> pv) list" where
  "example_metadata =
     [(''role'', PStr ''pathfinder''), (''vrfs'', PList [PDict [(''avts'', PList [PDict [(''constraints'', PDict [(''hop_count'', PStr ''3'')])]])]])]"


definition example_run :: metadata_run where
  "example_run =
     \<lparr>workspace = new_workspace \<lparr>ws_requested = ReqBuilt, ws_force = False,
        ws_build_warnings = \<lparr>warnings_enabled = True, suppress_patterns = [], suppress_portfast = False\<rparr>, ws_max_sync_retries = 0\<rparr>,
      warnings = [],
      device_store = (\<lambda>x. (new_device \<lparr>avd_hostname = ''wan'', avd_serial_number = None, avd_system_mac_address = None\<rparr>
        (Some (if x = 0 then ''S0'' else ''S1'')) None)\<lparr>exists_on_cv := Some (x < 2)\<rparr>),
      deployed_configs = [], skipped_configs = [], removed_configs = [], deployed_studio_inputs = [],
      deployed_containers = [], skipped_containers = [], removed_containers = [], deployed_configlets = [], removed_configlets = [],
      metadata_store = (\<lambda>x. if x = 0 then [(''role'', PStr ''edge'')] else example_metadata), deployed_metadata = [], skipped_metadata = []\<rparr>"

definition example_deployment :: "pathfinder_metadata list" where
  "example_deployment = map (\<lambda>x. \<lparr>meta_object = x, meta_device = Some x\<rparr>) [0, 1, 2]"

abbreviation deploy_example where
  "deploy_example \<equiv> deploy_cv_pathfinder_metadata_to_cv Inr Inr (metadata_studio example_schema) example_deployment"

lemma metadata_example_runs:
  "case deploy_example ((None, []), example_run) of
     (Inr (), ((Some v, [w]), r1)) \<Rightarrow> v = w \<and> pv_wf v \<and> map meta_object (deployed_metadata r1) = [1, 0] \<and>
       distinct (map (\<lambda>m. device_query (device_of example_run m)) (deployed_metadata r1))
   | _ \<Rightarrow> False"
  by code_simp

lemma metadata_deployed_witness:
  "\<exists>D r1. deploy_example ((None, []), example_run) = (Inr (), ((Some (PDict D), [PDict D]), r1)) \<and>
     map meta_object (deployed_metadata r1) = [1, 0] \<and> map meta_object (skipped_metadata r1) = [2] \<and>
     entry_of ''device:S0'' (entries ''routers'' D) \<noteq> None \<and> entry_of ''device:S1'' (entries ''pathfinders'' D) \<noteq> None"
proof -
  obtain v r1 where run: "deploy_example ((None, []), example_run) = (Inr (), ((Some v, [v]), r1))"
    "map meta_object (deployed_metadata r1) = [1, 0]" "distinct (map (\<lambda>m. device_query (device_of example_run m)) (deployed_metadata r1))"
    using metadata_example_runs by (auto split: prod.splits sum.splits option.splits list.splits unit.splits)
  have ps: "filter (is_pathfinder (device_store example_run) (metadata_store example_run)) example_deployment = [\<lparr>meta_object = 1, meta_device = Some 1\<rparr>]"
    and es: "filter (is_edge (device_store example_run) (metadata_store example_run)) example_deployment = [\<lparr>meta_object = 0, meta_device = Some 0\<rparr>]"
    by code_simp+
  have queries: "device_query (device_of example_run \<lparr>meta_object = 1, meta_device = Some 1\<rparr>) = ''device:S1''"
    "device_query (device_of example_run \<lparr>meta_object = 0, meta_device = Some 0\<rparr>) = ''device:S0''" by code_simp+
  have start: "example_deployment \<noteq> []" "deployed_metadata example_run = []" by (simp_all add: example_deployment_def example_run_def)
  note facts = metadata_deployed [OF run(1) start run(3), unfolded ps es snd_conv append_Nil]
  then obtain D where D: "(Some v, [v]) = (if py_eq (PDict D) (current_inputs (None, [])) then (None, []) else (Some (PDict D), [PDict D]))"
    and p: "\<forall>m \<in> set [\<lparr>meta_object = 1, meta_device = Some 1\<rparr>].
       \<exists>e ws. pathfinder_entry example_schema (metadata_store r1 (meta_object m)) (device_of example_run m) = Inr (e, ws) \<and>
         entry_of (device_query (device_of example_run m)) (entries ''pathfinders'' D) = Some e"
    and e: "\<forall>m \<in> set [\<lparr>meta_object = 0, meta_device = Some 0\<rparr>].
       \<exists>e ws. edge_entry Inr Inr example_schema (metadata_store r1 (meta_object m)) (device_of example_run m) = Inr (e, ws) \<and>
         entry_of (device_query (device_of example_run m)) (entries ''routers'' D) = Some e"
    by (elim conjE exE) (rule that)
  have "entry_of ''device:S1'' (entries ''pathfinders'' D) \<noteq> None" using bspec [OF p list.set_intros(1)] unfolding queries by auto
  moreover have "entry_of ''device:S0'' (entries ''routers'' D) \<noteq> None" using bspec [OF e list.set_intros(1)] unfolding queries by auto
  moreover have "v = PDict D" using D by (auto split: if_splits)
  moreover have "map meta_object (skipped_metadata r1) = [2]"
    using facts by (simp add: example_deployment_def) (simp add: example_run_def)
  ultimately show ?thesis using run(1,2) by (intro exI [of _ D] exI [of _ r1] conjI) (simp_all only: not_False_eq_True)
qed

lemma metadata_redeploy_unchanged_witness:
  "\<exists>v r1 r3. deploy_example ((None, []), example_run) = (Inr (), ((Some v, [v]), r1)) \<and>
     deploy_example ((Some v, [v]), example_run) = (Inr (), ((Some v, [v]), r3)) \<and> map meta_object (deployed_metadata r3) = [1, 0]"
proof -
  obtain v r1 where run: "deploy_example ((None, []), example_run) = (Inr (), ((Some v, [v]), r1))" "pv_wf v"
    "map meta_object (deployed_metadata r1) = [1, 0]" "distinct (map (\<lambda>m. device_query (device_of example_run m)) (deployed_metadata r1))"
    using metadata_example_runs by (auto split: prod.splits sum.splits option.splits list.splits unit.splits)
  have start: "example_deployment \<noteq> []" "deployed_metadata example_run = []" by (simp_all add: example_deployment_def example_run_def)
  have "pv_wf (current_inputs (Some v, [v]))" using run(2) by (simp add: current_inputs_def)
  from metadata_redeploy_unchanged [OF run(1) start run(4) this refl refl] run(1,3) start(2) show ?thesis by auto
qed

end
