(* ===== verification/CvDeploy.thy ===== *)
theory CvDeploy
  imports CvTags CvWorkspace CvInputs CvMetadata CvChangeControl
begin

text \<open>
  The whole deployment: \<open>deploy_to_cv\<close> of \<open>pyavd/_cv/workflows/deploy_to_cv.py\<close> with its result
  (\<open>DeployToCvResult\<close> of \<open>models.py\<close>), the retry loop over synchronizations of the workspace, and the
  extraction of the inputs (\<open>workflows/utils.py\<close>). Library functions are arguments: \<open>re.compile\<close>, \<open>uuid5\<close>, \<open>float\<close> and
  \<open>simple_7_decrypt\<close>.
\<close>

section \<open>Result and clients\<close>

record deploy_result = metadata_run +
  failed :: bool
  errors :: "cv_exn list"
  change_control :: "cv_change_control option"
  device_tag_lists :: tag_lists
  interface_tag_lists :: tag_lists

text \<open>\<open>DeployToCvResult.reset\<close>: the warnings and the change control are kept, and so are the dictionaries of the
  metadata, which are no part of the result.\<close>

definition result_reset :: "deploy_result \<Rightarrow> deploy_result" where
  "result_reset r =
     r\<lparr>failed := False, errors := [], workspace := workspace_reset (workspace r),
       deployed_configs := [], skipped_configs := [], removed_configs := [], deployed_studio_inputs := [],
       deployed_containers := [], skipped_containers := [], removed_containers := [], deployed_configlets := [], removed_configlets := [],
       deployed_metadata := [], skipped_metadata := [],
       device_tag_lists := no_lists, interface_tag_lists := no_lists\<rparr>"

definition new_result ::
  "cv_workspace \<Rightarrow> cv_change_control option \<Rightarrow> devices \<Rightarrow> (nat \<Rightarrow> (string \<times> pv) list) \<Rightarrow> deploy_result" where
  "new_result w cc devs store =
     \<lparr>workspace = w, warnings = [], device_store = devs, deployed_configs = [], skipped_configs = [], removed_configs = [],
      deployed_studio_inputs = [],
      deployed_containers = [], skipped_containers = [], removed_containers = [], deployed_configlets = [], removed_configlets = [],
      metadata_store = store, deployed_metadata = [], skipped_metadata = [], failed = False, errors = [], change_control = cc,
      device_tag_lists = no_lists, interface_tag_lists = no_lists\<rparr>"

record 's cv_client =
  connect :: "('s, unit) op"
  workspaces :: "'s ws_client"
  change_controls :: "'s cc_client"
  tags_api :: "'s tag_client"
  inventory :: "'s inventory_client"
  configs_api :: "'s config_client"
  metadata_api :: "'s metadata_client"

type_synonym 's deployment = "'s \<times> deploy_result"

section \<open>Inputs\<close>

record device_deployment =
  dep_device :: dev_ref
  use_manifest :: bool
  dep_config :: "eos_config option"
  dep_device_tags :: "workflow_tag list"
  dep_interface_tags :: "workflow_tag list"
  dep_metadata :: "pathfinder_metadata option"

definition extract_from_device_deployments ::
  "device_deployment list \<Rightarrow> eos_config list \<times> workflow_tag list \<times> workflow_tag list \<times> pathfinder_metadata list" where
  "extract_from_device_deployments deps =
     (List.map_filter dep_config deps, concat (map dep_device_tags deps), concat (map dep_interface_tags deps),
      List.map_filter dep_metadata deps)"

text \<open>What the steps need: the deployments, the studio inputs, the flags, the manifest, and library functions\<close>

record deploy_inputs =
  deployments :: "device_deployment list"
  studio_inputs :: "studio_input list"
  strict_tags :: bool
  skip_missing_devices :: bool
  strict_system_mac_address :: bool
  manifest :: "avd_manifest option"
  uuid5 :: "string \<Rightarrow> string"
  float_of :: "pv \<Rightarrow> (py_exn, pv) result"
  simple_7_decrypt :: "pv \<Rightarrow> (py_exn, pv) result"

section \<open>Steps\<close>

definition on_device_tags :: "('s \<times> tag_lists, unit) op \<Rightarrow> ('s deployment, unit) op" where
  "on_device_tags m s =
     (case m (fst s, device_tag_lists (snd s)) of (x, (c, l)) \<Rightarrow> (x, (c, (snd s)\<lparr>device_tag_lists := l\<rparr>)))"

definition on_interface_tags :: "('s \<times> tag_lists, unit) op \<Rightarrow> ('s deployment, unit) op" where
  "on_interface_tags m s =
     (case m (fst s, interface_tag_lists (snd s)) of (x, (c, l)) \<Rightarrow> (x, (c, (snd s)\<lparr>interface_tag_lists := l\<rparr>)))"

definition add_error :: "cv_exn \<Rightarrow> ('s deployment, unit) op" where
  "add_error e = on_lists (\<lambda>r. r\<lparr>errors := errors r @ [e], failed := True\<rparr>)"

definition deployment_steps :: "'s cv_client \<Rightarrow> deploy_inputs \<Rightarrow> ('s deployment, unit) op" where
  "deployment_steps c inp =
     (case extract_from_device_deployments (deployments inp) of (cfgs, dtags, itags, metadata) \<Rightarrow>
        seq the_devices (\<lambda>devs.
        seq (on_device_tags (deploy_tags_to_cv (tags_api c) devs (strict_tags inp) dtags)) (\<lambda>_.
        seq (on_interface_tags (deploy_tags_to_cv (tags_api c) devs (strict_tags inp) itags)) (\<lambda>_.
        seq (deploy_configs_to_cv (configs_api c) cfgs) (\<lambda>_.
        seq (case manifest inp of None \<Rightarrow> ret ()
             | Some am \<Rightarrow> deploy_static_config_studio_manifest_to_cv (uuid5 inp) (configs_api c) am) (\<lambda>_.
        seq (deploy_studio_inputs_to_cv (configs_api c) (studio_inputs inp)) (\<lambda>_.
        seq (deploy_cv_pathfinder_metadata_to_cv (float_of inp) (simple_7_decrypt inp) (metadata_api c) metadata) (\<lambda>_.
          delete_configs_from_cv (configs_api c) (map (\<lambda>d. (dep_device d, use_manifest d)) (deployments inp))))))))))"

definition execute_deployment_steps :: "'s cv_client \<Rightarrow> deploy_inputs \<Rightarrow> ('s deployment, unit) op" where
  "execute_deployment_steps c inp = catch_client (deployment_steps c inp) add_error"

section \<open>The loop over synchronizations\<close>

definition abandon :: "'s cv_client \<Rightarrow> ('s deployment, unit) op" where
  "abandon c = seq (on_client (abandon_workspace (workspaces c))) (\<lambda>_. set_ws (\<lambda>w. w\<lparr>ws_state := Some Abandoned\<rparr>))"

definition rebase_or_raise :: "'s cv_client \<Rightarrow> nat \<Rightarrow> ('s deployment, unit) op" where
  "rebase_or_raise c attempt =
     seq the_ws (\<lambda>w. let retries = ws_max_sync_retries (avd_ws w) in
       if retries \<le> attempt then fail (CVWorkspaceSynchronizationAttemptsExhausted retries)
       else rebase_workspace_on_cv (workspaces c))"

text \<open>Whether the function returned from within the loop, or the loop ended\<close>

datatype loop_end = Returned | Ended

fun sync_loop ::
  "'s cv_client \<Rightarrow> (string \<Rightarrow> pattern option) \<Rightarrow> deploy_inputs \<Rightarrow> nat list \<Rightarrow> ('s deployment, loop_end) op" where
  "sync_loop c compile inp [] = ret Ended"
| "sync_loop c compile inp (attempt # rest) =
     seq (if 0 < attempt then on_lists result_reset else ret ()) (\<lambda>_.
     seq get_state (\<lambda>start.
     seq (execute_deployment_steps c inp) (\<lambda>_.
     seq get_state (\<lambda>s.
       if failed (snd s) then seq (abandon c) (\<lambda>_. ret Returned)
       else
         seq (finalize_workspace_on_cv (workspaces c) compile (device_store (snd s)) (map dep_device (deployments inp))) (\<lambda>_.
         seq the_ws (\<lambda>w.
           if synchronization_required w
           then seq (rebase_or_raise c attempt) (\<lambda>_.
                seq (on_lists (\<lambda>r. r\<lparr>warnings := take (length (warnings (snd start))) (warnings r)\<rparr>)) (\<lambda>_.
                  sync_loop c compile inp rest))
           else ret Ended))))))"

definition finalize_change_control :: "'s cv_client \<Rightarrow> ('s deployment, unit) op" where
  "finalize_change_control c =
     seq (on_lists (\<lambda>r. case change_control_id (workspace r) of
            None \<Rightarrow> r
          | Some i \<Rightarrow> r\<lparr>change_control := Some ((case change_control r of Some cc \<Rightarrow> cc
                | None \<Rightarrow> new_change_control default_avd_change_control None None None)\<lparr>cc_id := Some i\<rparr>)\<rparr>)) (\<lambda>_ s.
       case change_control (snd s) of
         None \<Rightarrow> ret () s
       | Some cc \<Rightarrow>
           (case cc_id cc of
              None \<Rightarrow> ret () s
            | Some i \<Rightarrow>
                (case finalize_change_control_on_cv (change_controls c) i (fst s, cc) of
                   (x, (t, cc')) \<Rightarrow> (x, (t, (snd s)\<lparr>change_control := Some cc'\<rparr>)))))"

section \<open>The deployment\<close>

definition manifest_warning :: "deploy_inputs \<Rightarrow> warning list" where
  "manifest_warning inp =
     (let n = length (filter use_manifest (deployments inp))
      in if manifest inp = None \<and> 0 < n then [ManifestMissing n] else [])"

definition deploy_body :: "'s cv_client \<Rightarrow> (string \<Rightarrow> pattern option) \<Rightarrow> deploy_inputs \<Rightarrow> ('s deployment, unit) op" where
  "deploy_body c compile inp =
     (let refs = map dep_device (deployments inp)
      in seq (on_client (connect c)) (\<lambda>_.
         seq (create_workspace_on_cv (workspaces c)) (\<lambda>_.
         seq the_devices (\<lambda>devs.
         seq (of_result (verify_device_inputs devs refs (strict_system_mac_address inp))) (\<lambda>ws.
         seq (warn ws) (\<lambda>_.
         seq (catch_client (verify_devices_on_cv (inventory c) refs (skip_missing_devices inp)) add_error) (\<lambda>_.
         seq get_state (\<lambda>s.
           if failed (snd s) then abandon c
           else
             seq (sync_loop c compile inp [0 ..< Suc (ws_max_sync_retries (avd_ws (workspace (snd s))))]) (\<lambda>e.
               case e of Returned \<Rightarrow> ret () | Ended \<Rightarrow> finalize_change_control c)))))))))"

definition deploy_to_cv :: "'s cv_client \<Rightarrow> (string \<Rightarrow> pattern option) \<Rightarrow> deploy_inputs \<Rightarrow> ('s deployment, unit) op" where
  "deploy_to_cv c compile inp =
     seq (warn (manifest_warning inp)) (\<lambda>_. catch_client (deploy_body c compile inp) add_error)"

section \<open>The client with a log of the requests for the workspace\<close>

definition lift_tags :: "'s tag_client \<Rightarrow> ('s \<times> 'l) tag_client" where
  "lift_tags c =
     \<lparr>client_get_tags = (\<lambda>ty cr. on_client (client_get_tags c ty cr)), client_set_tags = (\<lambda>ts. on_client (client_set_tags c ts)),
      client_get_assignments = (\<lambda>ty cr. on_client (client_get_assignments c ty cr)),
      client_set_assignments = (\<lambda>as. on_client (client_set_assignments c as)),
      client_delete_assignments = (\<lambda>as. on_client (client_delete_assignments c as))\<rparr>"

definition lift_inventory :: "'s inventory_client \<Rightarrow> ('s \<times> 'l) inventory_client" where
  "lift_inventory c =
     \<lparr>get_inventory_devices = (\<lambda>q. on_client (get_inventory_devices c q)),
      get_topology_studio_inputs = (\<lambda>q. on_client (get_topology_studio_inputs c q)),
      set_topology_studio_inputs = (\<lambda>q. on_client (set_topology_studio_inputs c q))\<rparr>"

definition lift_ccs :: "'s cc_client \<Rightarrow> ('s \<times> 'l) cc_client" where
  "lift_ccs c =
     \<lparr>get_change_control = (\<lambda>i. on_client (get_change_control c i)),
      set_change_control = (\<lambda>i n d. on_client (set_change_control c i n d)),
      approve_change_control = (\<lambda>i t. on_client (approve_change_control c i t)),
      start_change_control = (\<lambda>i. on_client (start_change_control c i)),
      subscribe_change_control = (\<lambda>i. on_client (subscribe_change_control c i))\<rparr>"

definition lift_configs :: "'s config_client \<Rightarrow> ('s \<times> 'l) config_client" where
  "lift_configs c =
     \<lparr>set_configlets_from_files = (\<lambda>x. on_client (set_configlets_from_files c x)),
      get_configlets = (\<lambda>x. on_client (get_configlets c x)), delete_configlets = (\<lambda>x. on_client (delete_configlets c x)),
      get_configlet_containers = (\<lambda>x. on_client (get_configlet_containers c x)),
      set_configlet_containers = (\<lambda>x. on_client (set_configlet_containers c x)),
      create_configlet_container = (\<lambda>i n d q. on_client (create_configlet_container c i n d q)),
      set_container_children = (\<lambda>i x. on_client (set_container_children c i x)),
      delete_configlet_container = (\<lambda>i. on_client (delete_configlet_container c i)),
      get_assignment_roots = on_client (get_assignment_roots c),
      set_assignment_roots = (\<lambda>x. on_client (set_assignment_roots c x)),
      set_studio_inputs = (\<lambda>x. on_client (set_studio_inputs c x))\<rparr>"

definition lift_metadata :: "'s metadata_client \<Rightarrow> ('s \<times> 'l) metadata_client" where
  "lift_metadata c =
     \<lparr>get_studio = (\<lambda>i. on_client (get_studio c i)), get_studio_inputs = (\<lambda>i v. on_client (get_studio_inputs c i v)),
      replace_studio_inputs = (\<lambda>i v. on_client (replace_studio_inputs c i v))\<rparr>"

definition with_log :: "'s cv_client \<Rightarrow> ('s \<times> ws_event list) cv_client" where
  "with_log c =
     \<lparr>connect = on_client (connect c), workspaces = logged (workspaces c), change_controls = lift_ccs (change_controls c),
      tags_api = lift_tags (tags_api c), inventory = lift_inventory (inventory c), configs_api = lift_configs (configs_api c),
      metadata_api = lift_metadata (metadata_api c)\<rparr>"

section \<open>What the steps leave alone\<close>

text \<open>The log, the workspace and the errors are as given.\<close>

definition same :: "'l \<Rightarrow> cv_workspace \<Rightarrow> bool \<Rightarrow> cv_exn list \<Rightarrow> ('s \<times> 'l) deployment \<Rightarrow> bool" where
  "same l w f es s \<longleftrightarrow> snd (fst s) = l \<and> workspace (snd s) = w \<and> failed (snd s) = f \<and> errors (snd s) = es"

definition same_log :: "'l \<Rightarrow> 's \<times> 'l \<Rightarrow> bool" where
  "same_log l s \<longleftrightarrow> snd s = l"

lemma keeps_lifted [keeps_intros]: "keeps (same_log l) (on_client f)"
  by (rule keeps_on_client) (simp add: same_log_def)

lemma keeps_same_client [keeps_intros]: "keeps (same_log l) m \<Longrightarrow> keeps (same l w f es) (on_client m)"
  by (rule keepsI) (auto simp: same_def same_log_def on_client_def split: prod.splits dest: keepsD)

lemma keeps_tags_client [keeps_intros]: "keeps (same_log l) m \<Longrightarrow> keeps (\<lambda>s. same_log l (fst s)) (on_client m)"
  by (rule keepsI) (auto simp: on_client_def split: prod.splits dest: keepsD)

lemma keeps_tags_lists [keeps_intros]: "keeps (\<lambda>s. same_log l (fst s)) (on_lists g)"
  by (rule keeps_on_lists) simp

lemma keeps_same_lists:
  "(\<And>r. workspace (g r) = workspace r \<and> failed (g r) = failed r \<and> errors (g r) = errors r) \<Longrightarrow> keeps (same l w f es) (on_lists g)"
  by (rule keeps_on_lists) (simp add: same_def)

lemma keeps_of_result [keeps_intros]: "keeps I (of_result r)"
  by (cases r) (simp_all add: of_result_def keeps_basic)

lemma keeps_deploy_tags: "keeps (\<lambda>s. same_log l (fst s)) (deploy_tags_to_cv (lift_tags c) devs strict tags)"
  unfolding deploy_tags_to_cv_def add_tags_def add_assignments_def remove_assignments_def lift_tags_def tag_client.simps Let_def
  by (intro keeps_intros)

lemma keeps_on_device_tags:
  "keeps (\<lambda>s. same_log l (fst s)) m \<Longrightarrow> keeps (same l w f es) (on_device_tags m)"
  "keeps (\<lambda>s. same_log l (fst s)) m \<Longrightarrow> keeps (same l w f es) (on_interface_tags m)"
  by (rule keepsI, auto simp: on_device_tags_def on_interface_tags_def same_def same_log_def split: prod.splits dest: keepsD)+

lemma keeps_gather [keeps_intros]: "(\<And>m. m \<in> set ms \<Longrightarrow> keeps I m) \<Longrightarrow> keeps I (gather ms)"
proof (induction ms)
  case (Cons m ms)
  have "I (snd (gather (m # ms) s))" if "I s" for s
  proof -
    obtain r t where m: "m s = (r, t)" by (cases "m s")
    then have "I t" using Cons.prems [of m] that by (auto simp: keeps_def)
    moreover have "keeps I (gather ms)" using Cons by simp
    ultimately have "I (snd (gather ms t))" by (simp add: keeps_def)
    then show ?thesis by (cases r) (auto simp: m split: prod.splits)
  qed
  then show ?case by (simp add: keeps_def)
qed (simp add: keeps_def)

lemma keeps_both [keeps_intros]: "keeps I m \<Longrightarrow> keeps I n \<Longrightarrow> keeps I (both m n)"
  by (rule keepsI) (auto simp: both_def split: prod.splits dest: keepsD)

lemma keeps_in_batches:
  "(\<And>b m. b \<in> set bs \<Longrightarrow> m \<in> set b \<Longrightarrow> keeps I m) \<Longrightarrow> keeps I (in_batches bs)"
proof (induction bs)
  case (Cons b bs)
  then show ?case by (auto intro!: keeps_intros)
qed (simp add: keeps_basic)

lemma keeps_the_devices [keeps_intros]: "keeps I the_devices"
  unfolding the_devices_def by (intro keeps_intros)

lemma keeps_deploy_configs: "keeps (same l w f es) (deploy_configs_to_cv (lift_configs c) cfgs)"
  unfolding deploy_configs_to_cv_def deploy_configlets_to_cv_def deploy_configlet_containers_to_cv_def deploy_configlet_containers_def
    get_existing_container_ids_def lift_configs_def config_client.simps Let_def
  by (intro keeps_intros keeps_same_lists) simp_all

lemma keeps_delete_configs: "keeps (same l w f es) (delete_configs_from_cv (lift_configs c) deps)"
  unfolding delete_configs_from_cv_def delete_found_def reconcile_root_def remove_root_def lift_configs_def config_client.simps Let_def
  by (intro keeps_intros keeps_same_lists) (auto intro: keeps_lifted split: if_splits)

lemma keeps_studio_inputs:
  fixes c :: "'a config_client" and l :: 'b
  shows "keeps (same l w f es) (deploy_studio_inputs_to_cv (lift_configs c) inputs)"
proof -
  have "keeps (same_log l) (in_batches (batch_from 20 (map (set_studio_inputs (lift_configs c)) inputs)))"
  proof (rule keeps_in_batches)
    fix b and m :: "('a \<times> 'b, unit) op"
    assume "b \<in> set (batch_from 20 (map (set_studio_inputs (lift_configs c)) inputs))" "m \<in> set b"
    then have "m \<in> set (concat (batch_from 20 (map (set_studio_inputs (lift_configs c)) inputs)))" by auto
    then obtain i where "m = set_studio_inputs (lift_configs c) i"
      using batch_from_props [of 20 "map (set_studio_inputs (lift_configs c)) inputs"] by (metis ex_map_conv zero_less_numeral)
    then show "keeps (same_log l) m" by (simp add: lift_configs_def keeps_lifted)
  qed
  then show ?thesis
    unfolding deploy_studio_inputs_to_cv_def by (intro keeps_intros keeps_same_lists) simp_all
qed

lemma keeps_manifest: "keeps (same l w f es) (deploy_static_config_studio_manifest_to_cv uuid (lift_configs c) am)"
  unfolding deploy_static_config_studio_manifest_to_cv_def sync_containers_def apply_container_plan_def push_containers_def
    delete_containers_def sync_configlets_def lift_configs_def config_client.simps Let_def
  by (intro keeps_intros keeps_same_lists) (auto intro: keeps_lifted)

lemma keeps_warn: "keeps (same l w f es) (warn ws)"
  unfolding warn_def by (rule keeps_same_lists) simp

lemma keeps_of_py [keeps_intros]: "keeps I (of_py r)"
  by (cases r) (simp_all add: of_py_def keeps_basic)

lemma keeps_handle [keeps_intros]: "keeps I m \<Longrightarrow> (\<And>x. keeps I (g x)) \<Longrightarrow> (\<And>e. keeps I (h e)) \<Longrightarrow> keeps I (handle m g h)"
  unfolding keeps_def handle_def by (auto split: prod.splits sum.splits)

lemma keeps_the_metadata [keeps_intros]: "keeps I (the_metadata m)"
  unfolding the_metadata_def by (intro keeps_intros)

lemma keeps_sort_metadata: "keeps (same l w f es) (sort_metadata ms)"
proof (induction ms)
  case (Cons m ms)
  show ?case
    unfolding sort_metadata.simps skip_metadata_def Let_def by (intro keeps_intros keeps_same_lists Cons.IH) simp_all
qed (simp add: keeps_def)

lemma keeps_upsert_all: "keeps (same l w f es) (upsert_all up ms inputs)"
proof (induction ms arbitrary: inputs)
  case (Cons p ms)
  obtain m d where "p = (m, d)" by (cases p)
  then show ?case by (auto intro!: keeps_intros keeps_warn Cons.IH)
qed (simp add: keeps_def)

lemma keeps_metadata: "keeps (same l w f es) (deploy_cv_pathfinder_metadata_to_cv to_float decrypt (lift_metadata c) ms)"
  unfolding deploy_cv_pathfinder_metadata_to_cv_def get_metadata_studio_schema_def general_metadata_def lift_metadata_def metadata_client.simps
  by (intro keeps_intros keeps_same_lists keeps_warn keeps_sort_metadata keeps_upsert_all) simp_all

lemma keeps_deployment_steps: "keeps (same l w f es) (deployment_steps (with_log c) inp)"
  unfolding deployment_steps_def with_log_def cv_client.simps extract_from_device_deployments_def prod.case
  by (intro keeps_intros keeps_on_device_tags keeps_deploy_tags keeps_deploy_configs keeps_studio_inputs keeps_delete_configs
    keeps_manifest keeps_metadata)

lemma after_execute_steps:
  assumes "snd (fst s) = l" "workspace (snd s) = w" "failed (snd s) = f" "errors (snd s) = es"
    and "\<And>t. snd (fst t) = l \<Longrightarrow> workspace (snd t) = w \<Longrightarrow>
      failed (snd t) = f \<and> errors (snd t) = es \<or> failed (snd t) \<and> errors (snd t) \<noteq> [] \<Longrightarrow> Q () t"
    and "\<And>e t. snd (fst t) = l \<Longrightarrow> E e t"
  shows "after (execute_deployment_steps (with_log c) inp) Q E s"
proof -
  have "after (deployment_steps (with_log c) inp) (\<lambda>_. same l w f es) (\<lambda>_. same l w f es) s"
    by (rule keeps_after [OF keeps_deployment_steps]) (simp add: same_def assms(1-4))
  then show ?thesis
    unfolding execute_deployment_steps_def after_catch_client
    by (rule after_mono) (use assms(5,6) in \<open>auto simp: same_def add_error_def after_def on_lists_def\<close>)
qed

lemma keeps_verify_devices: "keeps (same l w f es) (verify_devices_on_cv (lift_inventory c) refs skip)"
  unfolding verify_devices_on_cv_def verify_devices_in_inventory_def verify_devices_in_topology_studio_def lift_inventory_def
    inventory_client.simps Let_def set_devices_def warn_def
  by (intro keeps_intros keeps_same_lists) simp_all

lemma keeps_finalize_cc: "keeps (\<lambda>s. same_log l (fst s)) (finalize_change_control_on_cv (lift_ccs c) i)"
  unfolding finalize_change_control_on_cv_def read_change_control_def update_change_control_def finish_change_control_def
    approve_if_needed_def start_and_wait_def wait_for_change_control_state_def the_cc_def set_cc_def set_cc_state_def lift_ccs_def
    cc_client.simps Let_def
  by (intro keeps_intros) (auto split: sum.split intro!: keeps_intros)

lemma keeps_finalize_change_control: "keeps (same l w f es) (finalize_change_control (with_log c))"
  unfolding finalize_change_control_def
proof (rule keeps_seq, rule keeps_same_lists)
  fix x
  show "keeps (same l w f es) (\<lambda>s. case change_control (snd s) of None \<Rightarrow> ret () s
       | Some cc \<Rightarrow> (case cc_id cc of None \<Rightarrow> ret () s
          | Some i \<Rightarrow> (case finalize_change_control_on_cv (change_controls (with_log c)) i (fst s, cc) of
                   (x, (t, cc')) \<Rightarrow> (x, (t, (snd s)\<lparr>change_control := Some cc'\<rparr>)))))"
    by (rule keepsI)
      (auto simp: same_def same_log_def with_log_def split: option.splits prod.splits dest: keepsD [OF keeps_finalize_cc])
qed (auto split: option.splits)

section \<open>The requests of a deployment\<close>

text \<open>Events that change nothing for good; a deployment is a sequence of at most \<open>n\<close> finalizations and of such events.\<close>

definition harmless :: "ws_event list \<Rightarrow> bool" where
  "harmless evs \<longleftrightarrow> (\<forall>e \<in> set evs. (\<forall>i. e \<noteq> AskedBuild i) \<and> (\<forall>f. e \<noteq> AskedSubmit f) \<and> e \<noteq> AskedDelete)"

definition deploy_events :: "avd_workspace \<Rightarrow> nat \<Rightarrow> ws_event list \<Rightarrow> bool" where
  "deploy_events a n evs \<longleftrightarrow>
     (\<exists>chunks. evs = concat chunks \<and> (\<forall>x \<in> set chunks. harmless x \<or> finalize_log_ok a x) \<and>
        length (filter (\<lambda>x. \<not> harmless x) chunks) \<le> n)"

lemma deploy_events_append: "deploy_events a m xs \<Longrightarrow> deploy_events a n ys \<Longrightarrow> deploy_events a (m + n) (xs @ ys)"
  unfolding deploy_events_def
proof (elim exE conjE)
  fix cs ds
  assume "xs = concat cs" "\<forall>x \<in> set cs. harmless x \<or> finalize_log_ok a x" "length (filter (\<lambda>x. \<not> harmless x) cs) \<le> m"
    "ys = concat ds" "\<forall>x \<in> set ds. harmless x \<or> finalize_log_ok a x" "length (filter (\<lambda>x. \<not> harmless x) ds) \<le> n"
  then show "\<exists>chunks. xs @ ys = concat chunks \<and> (\<forall>x \<in> set chunks. harmless x \<or> finalize_log_ok a x) \<and>
      length (filter (\<lambda>x. \<not> harmless x) chunks) \<le> m + n"
    by (intro exI [of _ "cs @ ds"]) auto
qed

lemma deploy_events_harmless: "harmless evs \<Longrightarrow> deploy_events a 0 evs"
  unfolding deploy_events_def by (intro exI [of _ "[evs]"]) simp

lemma deploy_events_one: "finalize_log_ok a evs \<Longrightarrow> deploy_events a 1 evs"
  unfolding deploy_events_def by (intro exI [of _ "[evs]"]) simp

lemma deploy_events_mono: "deploy_events a m evs \<Longrightarrow> m \<le> n \<Longrightarrow> deploy_events a n evs"
  unfolding deploy_events_def by (elim exE conjE, intro exI conjI, assumption, assumption) simp

text \<open>The state so far: the log is \<open>l\<close> and the events of a deployment.\<close>

definition progress :: "avd_workspace \<Rightarrow> ws_event list \<Rightarrow> nat \<Rightarrow> ('s \<times> ws_event list) deployment \<Rightarrow> bool" where
  "progress a l n s \<longleftrightarrow> (\<exists>evs. snd (fst s) = l @ evs \<and> deploy_events a n evs)"

lemma progress_add:
  "progress a l m ((t, l1), r) \<Longrightarrow> deploy_events a k evs \<Longrightarrow> m + k \<le> n \<Longrightarrow> progress a l n ((t', l1 @ evs), r')"
  unfolding progress_def by (metis append_assoc deploy_events_append deploy_events_mono fst_conv snd_conv)

lemma progress_same: "progress a l m s \<Longrightarrow> snd (fst t) = snd (fst s) \<Longrightarrow> m \<le> n \<Longrightarrow> progress a l n t"
  unfolding progress_def by (metis deploy_events_mono)

definition reached :: "avd_workspace \<Rightarrow> cv_workspace \<Rightarrow> bool" where
  "reached a w \<longleftrightarrow>
     (ws_requested a = ReqPending \<or> ws_state w = Some (as_state (ws_requested a))) \<and> \<not> synchronization_required w"

section \<open>The loop\<close>

definition error_state :: "bool \<Rightarrow> cv_exn list \<Rightarrow> 's deployment \<Rightarrow> bool" where
  "error_state f es s \<longleftrightarrow> failed (snd s) = f \<and> errors (snd s) = es"

lemma keeps_error_client: "keeps (error_state f es) (on_client m)"
  by (rule keeps_on_client) (simp add: error_state_def)

lemma keeps_error_ws: "keeps (error_state f es) (set_ws g)" "keeps (error_state f es) (warn ws)" "keeps (error_state f es) the_ws"
  unfolding set_ws_def warn_def the_ws_def by (auto simp: error_state_def intro!: keeps_intros keeps_on_lists)

lemma keeps_finalize_workspace: "keeps (error_state f es) (finalize_workspace_on_cv c compile devs refs)"
proof -
  have details: "keeps (error_state f es) (process_workspace_build_details c compile devs refs)"
    unfolding process_workspace_build_details_def Let_def
    by (intro keeps_intros keeps_error_ws keeps_error_client)
  show ?thesis
    unfolding finalize_workspace_on_cv_def finish_build_def build_failed_def finalize_built_def submit_and_wait_def Let_def
    by (intro keeps_intros keeps_error_ws details keeps_error_client)
      (auto split: requested_state.split response_code.split list.split intro!: keeps_intros keeps_error_ws keeps_error_client)
qed

lemma after_rebase:
  assumes "\<And>t evs. harmless evs \<Longrightarrow> Q () ((t, l @ evs), r\<lparr>workspace := (workspace r)\<lparr>synchronization_required := False\<rparr>\<rparr>)"
    and "\<And>e t evs r'. harmless evs \<Longrightarrow> E e ((t, l @ evs), r')"
  shows "after (rebase_workspace_on_cv (logged c)) Q E ((s, l), r)"
  unfolding rebase_workspace_on_cv_def after_simps
  using assms by (auto simp: after_simps harmless_def split: option.splits prod.splits intro!: after_log_call)

lemma after_abandon:
  assumes "\<And>t. Q () ((t, l @ [AskedAbandon]), r\<lparr>workspace := (workspace r)\<lparr>ws_state := Some Abandoned\<rparr>\<rparr>)"
    and "\<And>e t. E e ((t, l @ [AskedAbandon]), r)"
  shows "after (abandon (with_log c)) Q E ((s, l), r)"
  unfolding abandon_def after_simps with_log_def
  using assms by (auto simp: after_simps intro!: after_log_call)

definition loop_post :: "avd_workspace \<Rightarrow> ws_event list \<Rightarrow> nat \<Rightarrow> loop_end \<Rightarrow> ('s \<times> ws_event list) deployment \<Rightarrow> bool" where
  "loop_post a l n x s \<longleftrightarrow> progress a l n s \<and>
     (case x of Returned \<Rightarrow> failed (snd s) \<and> errors (snd s) \<noteq> []
      | Ended \<Rightarrow> \<not> failed (snd s) \<and> errors (snd s) = [] \<and> reached a (workspace (snd s)))"

text \<open>Finalization within the loop\<close>

definition finalize_post ::
  "avd_workspace \<Rightarrow> ws_event list \<Rightarrow> nat \<Rightarrow> ('s \<times> ws_event list) deployment \<Rightarrow> bool" where
  "finalize_post a l n s \<longleftrightarrow> progress a l n s \<and> avd_ws (workspace (snd s)) = a \<and> \<not> failed (snd s) \<and> errors (snd s) = [] \<and>
     (ws_requested a = ReqPending \<or> ws_state (workspace (snd s)) = Some (as_state (ws_requested a)) \<or>
      synchronization_required (workspace (snd s)))"

lemma after_finalize_in_loop:
  assumes "progress a l k s" "avd_ws (workspace (snd s)) = a" "\<not> failed (snd s)" "errors (snd s) = []"
  shows "after (finalize_workspace_on_cv (workspaces (with_log c)) compile devs refs)
    (\<lambda>_. finalize_post a l (Suc k)) (\<lambda>_. progress a l (Suc k)) s"
proof -
  obtain t l1 r where s: "s = ((t, l1), r)" by (metis prod.collapse)
  have "after (finalize_workspace_on_cv (logged (workspaces c)) compile devs refs) (finalized a l1) (not_finalized a l1) s"
    unfolding s by (rule finalize_workspace_sends_core) (use assms(2) s in simp)
  moreover have "after (finalize_workspace_on_cv (logged (workspaces c)) compile devs refs)
      (\<lambda>_. error_state False []) (\<lambda>_. error_state False []) s"
    by (rule keeps_after [OF keeps_finalize_workspace]) (use assms(3,4) in \<open>simp add: error_state_def\<close>)
  ultimately have both: "after (finalize_workspace_on_cv (logged (workspaces c)) compile devs refs)
      (\<lambda>x s. finalized a l1 x s \<and> error_state False [] s) (\<lambda>e s. not_finalized a l1 e s \<and> error_state False [] s) s"
    by (rule after_conj)
  have sent: "progress a l (Suc k) s'" if ok: "sent a l1 (snd (fst s'))" for s'
  proof -
    obtain evs where "snd (fst s') = l1 @ evs" "finalize_log_ok a evs" using ok unfolding sent_def by blast
    then show ?thesis
      using progress_add [where t' = "fst (fst s')" and r' = "snd s'", OF assms(1) [unfolded s] deploy_events_one, of evs "Suc k"]
      by (metis One_nat_def add.right_neutral add_Suc_right le_refl prod.collapse)
  qed
  show ?thesis
    unfolding with_log_def cv_client.simps
    by (rule after_mono [OF both]) (use sent in \<open>auto simp: finalized_def not_finalized_def finalize_post_def error_state_def\<close>)
qed

lemma progress_harmless: "progress a l n ((t, l1), r) \<Longrightarrow> harmless evs \<Longrightarrow> progress a l n ((t', l1 @ evs), r')"
  by (rule progress_add [where m = n and k = 0, OF _ deploy_events_harmless]) simp_all

text \<open>After the finalization: the loop ends, or the workspace is rebased for another round.\<close>

lemma after_decision:
  fixes s :: "('s \<times> ws_event list) deployment"
  assumes post: "finalize_post a l (Suc k) s" and le: "k \<le> ws_max_sync_retries a"
    and again: "\<And>s'. progress a l (Suc k) s' \<Longrightarrow> avd_ws (workspace (snd s')) = a \<Longrightarrow> k < ws_max_sync_retries a \<Longrightarrow>
      after next_round (loop_post a l (Suc (ws_max_sync_retries a))) (\<lambda>_. progress a l (Suc (ws_max_sync_retries a))) s'"
  shows "after (seq the_ws (\<lambda>w.
      if synchronization_required w
      then seq (rebase_or_raise (with_log c) k) (\<lambda>_. seq (on_lists (\<lambda>r. r\<lparr>warnings := take n (warnings r)\<rparr>)) (\<lambda>_. next_round))
      else ret Ended)) (loop_post a l (Suc (ws_max_sync_retries a))) (\<lambda>_. progress a l (Suc (ws_max_sync_retries a))) s"
proof -
  let ?M = "ws_max_sync_retries a"
  obtain t l1 r where s: "s = ((t, l1), r)" by (metis prod.collapse)
  have prog: "progress a l (Suc k) ((t, l1), r)" "progress a l (Suc ?M) ((t, l1), r)" and ws: "avd_ws (workspace r) = a"
    using post le progress_same [of a l "Suc k" s s "Suc ?M"] by (simp_all add: finalize_post_def s)
  show ?thesis
  proof (cases "synchronization_required (workspace r)")
    case False
    with post prog show ?thesis
      by (auto simp: s after_simps loop_post_def finalize_post_def reached_def)
  next
    case sync: True
    show ?thesis
    proof (cases "?M \<le> k")
      case True
      with sync ws prog(2) show ?thesis by (simp add: s after_simps rebase_or_raise_def Let_def)
    next
      case more: False
      have "after (rebase_workspace_on_cv (logged (workspaces c)))
          (\<lambda>_. after (seq (on_lists (\<lambda>r. r\<lparr>warnings := take n (warnings r)\<rparr>)) (\<lambda>_. next_round))
            (loop_post a l (Suc ?M)) (\<lambda>_. progress a l (Suc ?M))) (\<lambda>_. progress a l (Suc ?M)) ((t, l1), r)"
      proof (rule after_rebase)
        fix t' :: 's and evs
        assume "harmless evs"
        then have "progress a l (Suc k) ((t', l1 @ evs), r\<lparr>workspace := (workspace r)\<lparr>synchronization_required := False\<rparr>,
            warnings := take n (warnings r)\<rparr>)"
          by (rule progress_harmless [OF prog(1)])
        then show "after (seq (on_lists (\<lambda>r. r\<lparr>warnings := take n (warnings r)\<rparr>)) (\<lambda>_. next_round))
            (loop_post a l (Suc ?M)) (\<lambda>_. progress a l (Suc ?M))
            ((t', l1 @ evs), r\<lparr>workspace := (workspace r)\<lparr>synchronization_required := False\<rparr>\<rparr>)"
          using again ws more by (simp add: after_simps)
      qed (rule progress_harmless [OF prog(2)])
      with sync ws more show ?thesis
        by (simp add: s after_seq after_the_ws rebase_or_raise_def Let_def with_log_def)
    qed
  qed
qed

lemma after_sync_loop:
  fixes s :: "('s \<times> ws_event list) deployment"
  shows "k \<le> ws_max_sync_retries a \<Longrightarrow> progress a l k s \<Longrightarrow> avd_ws (workspace (snd s)) = a \<Longrightarrow>
    (k = 0 \<Longrightarrow> \<not> failed (snd s) \<and> errors (snd s) = []) \<Longrightarrow>
    after (sync_loop (with_log c) compile inp [k ..< Suc (ws_max_sync_retries a)])
      (loop_post a l (Suc (ws_max_sync_retries a))) (\<lambda>_. progress a l (Suc (ws_max_sync_retries a))) s"
proof (induction "ws_max_sync_retries a - k" arbitrary: k s rule: less_induct)
  case (less k s)
  let ?M = "ws_max_sync_retries a"
  let ?Q = "loop_post a l (Suc ?M)" and ?E = "\<lambda>_. progress a l (Suc ?M)"
  define s0 where "s0 = (fst s, if 0 < k then result_reset (snd s) else snd s)"
  have s0: "progress a l k s0" "avd_ws (workspace (snd s0)) = a" "\<not> failed (snd s0)" "errors (snd s0) = []"
    using less.prems progress_same [OF less.prems(2), of s0 k]
    by (auto simp: s0_def result_reset_def workspace_reset_def)
  have split: "[k ..< Suc ?M] = k # [Suc k ..< Suc ?M]" using less.prems(1) by (simp add: upt_conv_Cons del: upt_Suc)
  have reset: "after (if 0 < k then on_lists result_reset else ret ()) Q E s = Q () s0" for Q E
    unfolding s0_def by (cases s) (simp add: after_simps)
  have again: "after (sync_loop (with_log c) compile inp [Suc k ..< Suc ?M]) ?Q ?E s'"
    if "progress a l (Suc k) s'" "avd_ws (workspace (snd s')) = a" "k < ?M" for s'
    by (rule less.hyps) (use that in auto)
  have le: "k \<le> Suc ?M" using less.prems(1) by simp
  show ?case
    unfolding split sync_loop.simps
    unfolding after_seq reset after_get_state
  proof (rule after_execute_steps [OF refl refl refl refl])
    fix t :: "('s \<times> ws_event list) deployment"
    assume t: "snd (fst t) = snd (fst s0)" "workspace (snd t) = workspace (snd s0)"
      "failed (snd t) = failed (snd s0) \<and> errors (snd t) = errors (snd s0) \<or> failed (snd t) \<and> errors (snd t) \<noteq> []"
    have prog: "progress a l k t" "progress a l (Suc ?M) t" using progress_same [OF s0(1) t(1)] le by simp_all
    obtain t1 l1 r1 where tt: "t = ((t1, l1), r1)" by (metis prod.collapse)
    show "after (if failed (snd t) then seq (abandon (with_log c)) (\<lambda>_. ret Returned)
       else seq (finalize_workspace_on_cv (workspaces (with_log c)) compile (device_store (snd t)) (map dep_device (deployments inp))) (\<lambda>_.
         seq the_ws (\<lambda>w. if synchronization_required w
           then seq (rebase_or_raise (with_log c) k) (\<lambda>_.
                seq (on_lists (\<lambda>r. r\<lparr>warnings := take (length (warnings (snd s0))) (warnings r)\<rparr>)) (\<lambda>_.
                  sync_loop (with_log c) compile inp [Suc k ..< Suc ?M]))
           else ret Ended))) ?Q ?E t"
    proof (cases "failed (snd t)")
      case True
      have "after (abandon (with_log c)) (\<lambda>_. after (ret Returned) ?Q ?E) ?E t"
        unfolding tt
        by (rule after_abandon)
          (use True t(3) s0(3) prog(2) progress_harmless [of a l "Suc ?M" t1 l1 r1 "[AskedAbandon]"] in
            \<open>auto simp: tt after_ret loop_post_def harmless_def\<close>)
      with True show ?thesis by (simp add: after_seq)
    next
      case False
      with t(3) s0(4) have none: "errors (snd t) = []" by auto
      have "after (finalize_workspace_on_cv (workspaces (with_log c)) compile (device_store (snd t)) (map dep_device (deployments inp)))
          (\<lambda>_. finalize_post a l (Suc k)) (\<lambda>_. progress a l (Suc k)) t"
        by (rule after_finalize_in_loop [OF prog(1) _ False none]) (simp add: t(2) s0(2))
      then have "after (finalize_workspace_on_cv (workspaces (with_log c)) compile (device_store (snd t)) (map dep_device (deployments inp)))
          (\<lambda>_. after (seq the_ws (\<lambda>w. if synchronization_required w
            then seq (rebase_or_raise (with_log c) k) (\<lambda>_.
                 seq (on_lists (\<lambda>r. r\<lparr>warnings := take (length (warnings (snd s0))) (warnings r)\<rparr>)) (\<lambda>_.
                   sync_loop (with_log c) compile inp [Suc k ..< Suc ?M]))
            else ret Ended)) ?Q ?E) ?E t"
      proof (rule after_mono, goal_cases)
        case (1 x t')
        then show ?case by (rule after_decision [OF _ less.prems(1) again])
      next
        case (2 e t')
        from progress_same [OF this refl] less.prems(1) show ?case by simp
      qed
      with False show ?thesis by (simp add: after_seq)
    qed
  next
    fix e and t :: "('s \<times> ws_event list) deployment"
    assume "snd (fst t) = snd (fst s0)"
    then show "progress a l (Suc ?M) t" by (rule progress_same [OF s0(1) _ le])
  qed
qed

section \<open>The whole deployment\<close>

lemma after_create:
  assumes "\<And>t evs. harmless evs \<Longrightarrow> Q () ((t, l @ evs), r\<lparr>workspace := (workspace r)\<lparr>ws_state := Some Pending\<rparr>\<rparr>)"
    and "\<And>e t evs. harmless evs \<Longrightarrow> E e ((t, l @ evs), r)"
  shows "after (create_workspace_on_cv (logged c)) Q E ((s, l), r)"
  unfolding create_workspace_on_cv_def after_simps wait_for_workspace_state_def
  using assms by (auto simp: after_simps harmless_def split: option.splits prod.splits intro!: after_log_call)

definition deploy_post :: "avd_workspace \<Rightarrow> ws_event list \<Rightarrow> ('s \<times> ws_event list) deployment \<Rightarrow> bool" where
  "deploy_post a l s \<longleftrightarrow> progress a l (Suc (ws_max_sync_retries a)) s \<and> (failed (snd s) \<longleftrightarrow> errors (snd s) \<noteq> []) \<and>
     (\<not> failed (snd s) \<longrightarrow> reached a (workspace (snd s)))"

lemma after_finalize_cc:
  assumes "deploy_post a l s"
  shows "after (finalize_change_control (with_log c)) (\<lambda>_. deploy_post a l) (\<lambda>_. progress a l (Suc (ws_max_sync_retries a))) s"
proof -
  have "after (finalize_change_control (with_log c))
      (\<lambda>_. same (snd (fst s)) (workspace (snd s)) (failed (snd s)) (errors (snd s)))
      (\<lambda>_. same (snd (fst s)) (workspace (snd s)) (failed (snd s)) (errors (snd s))) s"
    by (rule keeps_after [OF keeps_finalize_change_control]) (simp add: same_def)
  then show ?thesis
    by (rule after_mono)
      (use assms progress_same in \<open>fastforce simp: same_def deploy_post_def\<close>)+
qed

lemma after_rounds:
  fixes s :: "('s \<times> ws_event list) deployment"
  assumes "progress a l 0 s" "avd_ws (workspace (snd s)) = a" "failed (snd s) \<longleftrightarrow> errors (snd s) \<noteq> []"
  shows "after (if failed (snd s) then abandon (with_log c)
           else seq (sync_loop (with_log c) compile inp [0 ..< Suc (ws_max_sync_retries (avd_ws (workspace (snd s))))]) (\<lambda>e.
               case e of Returned \<Rightarrow> ret () | Ended \<Rightarrow> finalize_change_control (with_log c)))
    (\<lambda>_. deploy_post a l) (\<lambda>_. progress a l (Suc (ws_max_sync_retries a))) s"
proof (cases "failed (snd s)")
  case True
  obtain t l1 r where s: "s = ((t, l1), r)" by (metis prod.collapse)
  have "progress a l (Suc (ws_max_sync_retries a)) s" using progress_same [OF assms(1) refl] by simp
  then show ?thesis
    using True assms(3) progress_harmless [of a l _ t l1 r "[AskedAbandon]"] unfolding s
    by (auto simp: deploy_post_def harmless_def intro!: after_abandon)
next
  case False
  have "after (sync_loop (with_log c) compile inp [0 ..< Suc (ws_max_sync_retries a)])
      (loop_post a l (Suc (ws_max_sync_retries a))) (\<lambda>_. progress a l (Suc (ws_max_sync_retries a))) s"
    by (rule after_sync_loop [OF _ assms(1,2)]) (use False assms(3) in auto)
  then have "after (sync_loop (with_log c) compile inp [0 ..< Suc (ws_max_sync_retries a)])
      (\<lambda>e. after (case e of Returned \<Rightarrow> ret () | Ended \<Rightarrow> finalize_change_control (with_log c))
        (\<lambda>_. deploy_post a l) (\<lambda>_. progress a l (Suc (ws_max_sync_retries a))))
      (\<lambda>_. progress a l (Suc (ws_max_sync_retries a))) s"
  proof (rule after_mono)
    fix e and t :: "('s \<times> ws_event list) deployment"
    assume "loop_post a l (Suc (ws_max_sync_retries a)) e t"
    then show "after (case e of Returned \<Rightarrow> ret () | Ended \<Rightarrow> finalize_change_control (with_log c))
        (\<lambda>_. deploy_post a l) (\<lambda>_. progress a l (Suc (ws_max_sync_retries a))) t"
      using after_finalize_cc [of a l t] by (cases e) (auto simp: loop_post_def deploy_post_def after_ret)
  qed
  with False assms(2) show ?thesis by (simp add: after_seq del: upt_Suc)
qed

lemma after_deploy_body:
  fixes c :: "'s cv_client"
  assumes a: "avd_ws (workspace r) = a" and ok: "\<not> failed r" "errors r = []"
  shows "after (deploy_body (with_log c) compile inp)
    (\<lambda>_. deploy_post a l) (\<lambda>e t. progress a l (Suc (ws_max_sync_retries a)) t) ((s, l), r)"
proof -
  let ?M = "Suc (ws_max_sync_retries a)"
  let ?E = "\<lambda>e :: cv_exn. progress a l ?M :: ('s \<times> ws_event list) deployment \<Rightarrow> bool"
  let ?refs = "map dep_device (deployments inp)"
  define rounds where "rounds = seq get_state (\<lambda>s :: ('s \<times> ws_event list) deployment.
           if failed (snd s) then abandon (with_log c)
           else seq (sync_loop (with_log c) compile inp [0 ..< Suc (ws_max_sync_retries (avd_ws (workspace (snd s))))]) (\<lambda>e.
               case e of Returned \<Rightarrow> ret () | Ended \<Rightarrow> finalize_change_control (with_log c)))"
  have rounds: "after rounds (\<lambda>_. deploy_post a l) ?E t"
    if "progress a l 0 t" "avd_ws (workspace (snd t)) = a" "failed (snd t) \<longleftrightarrow> errors (snd t) \<noteq> []" for t
    unfolding rounds_def after_seq after_get_state by (rule after_rounds [OF that])
  have verify: "after (seq (catch_client (verify_devices_on_cv (inventory (with_log c)) ?refs (skip_missing_devices inp)) add_error) (\<lambda>_. rounds))
      (\<lambda>_. deploy_post a l) ?E t"
    if t: "progress a l 0 t" "avd_ws (workspace (snd t)) = a" "\<not> failed (snd t)" "errors (snd t) = []"
    for t :: "('s \<times> ws_event list) deployment"
  proof -
    have "after (verify_devices_on_cv (lift_inventory (inventory c)) ?refs (skip_missing_devices inp))
        (\<lambda>_. same (snd (fst t)) (workspace (snd t)) False []) (\<lambda>_. same (snd (fst t)) (workspace (snd t)) False []) t"
      by (rule keeps_after [OF keeps_verify_devices]) (simp add: same_def t)
    then have "after (verify_devices_on_cv (lift_inventory (inventory c)) ?refs (skip_missing_devices inp))
        (\<lambda>_. after rounds (\<lambda>_. deploy_post a l) ?E)
        (\<lambda>e u. if is_client_exception e then after (add_error e) (\<lambda>_. after rounds (\<lambda>_. deploy_post a l) ?E) ?E u else ?E e u) t"
    proof (rule after_mono, goal_cases)
      case (1 x u)
      then have u: "snd (fst u) = snd (fst t)" "workspace (snd u) = workspace (snd t)" "\<not> failed (snd u)" "errors (snd u) = []"
        by (simp_all add: same_def)
      show ?case by (rule rounds [OF progress_same [OF t(1) u(1) order.refl]]) (simp_all add: u t(2))
    next
      case (2 e u)
      obtain u1 u2 where u: "u = (u1, u2)" by (cases u)
      have u': "snd u1 = snd (fst t)" "workspace u2 = workspace (snd t)" using 2 by (simp_all add: same_def u)
      have "after rounds (\<lambda>_. deploy_post a l) ?E (u1, u2\<lparr>errors := errors u2 @ [e], failed := True\<rparr>)"
        by (rule rounds [OF progress_same [OF t(1)]]) (simp_all add: u' t(2))
      moreover have "?E e u" using 2 progress_same [OF t(1), of u ?M] by (simp add: same_def)
      ultimately show ?case by (simp add: u add_error_def after_seq after_on_lists)
    qed
    then show ?thesis by (simp only: after_seq after_catch_client with_log_def cv_client.simps)
  qed
  have inputs: "after (seq the_devices (\<lambda>devs.
         seq (of_result (verify_device_inputs devs ?refs (strict_system_mac_address inp))) (\<lambda>ws.
         seq (warn ws) (\<lambda>_.
         seq (catch_client (verify_devices_on_cv (inventory (with_log c)) ?refs (skip_missing_devices inp)) add_error) (\<lambda>_. rounds)))))
      (\<lambda>_. deploy_post a l) ?E (t, r1)"
    if t: "progress a l 0 (t, r1)" "avd_ws (workspace r1) = a" "\<not> failed r1" "errors r1 = []" for t r1
  proof (cases "verify_device_inputs (device_store r1) ?refs (strict_system_mac_address inp)")
    case (Inl e)
    then show ?thesis using progress_same [OF t(1) refl, of ?M]
      by (simp add: after_seq the_devices_def after_get_state after_ret of_result_def after_fail)
  next
    case (Inr ws)
    have "progress a l 0 (t, r1\<lparr>warnings := warnings r1 @ ws\<rparr>)" by (rule progress_same [OF t(1)]) simp_all
    with verify [of "(t, r1\<lparr>warnings := warnings r1 @ ws\<rparr>)"] t(2-4) Inr show ?thesis
      by (simp add: after_seq the_devices_def after_get_state after_ret of_result_def after_warn)
  qed
  have start: "progress a l 0 ((t, l @ evs), r')" if "harmless evs" for t evs r'
    unfolding progress_def using deploy_events_harmless [OF that] by auto
  have late: "progress a l ?M ((t, l @ evs), r')" if "harmless evs" for t evs r'
    using progress_same [OF start [OF that] refl, of ?M] by simp
  have created: "after (create_workspace_on_cv (logged (workspaces c)))
      (\<lambda>_. after (seq the_devices (\<lambda>devs.
         seq (of_result (verify_device_inputs devs ?refs (strict_system_mac_address inp))) (\<lambda>ws.
         seq (warn ws) (\<lambda>_.
         seq (catch_client (verify_devices_on_cv (inventory (with_log c)) ?refs (skip_missing_devices inp)) add_error) (\<lambda>_. rounds)))))
        (\<lambda>_. deploy_post a l) ?E) ?E ((t, l), r)" for t
  proof (rule after_create, goal_cases)
    case (1 u evs)
    show ?case by (rule inputs [OF start [OF 1]]) (simp_all add: a ok)
  next
    case (2 e u evs)
    show ?case by (rule late [OF 2])
  qed
  have "?E e ((t, l), r)" for e t using late [of "[]" t r] by (simp add: harmless_def)
  with created show ?thesis
    unfolding deploy_body_def Let_def rounds_def [symmetric]
    by (subst after_seq, simp only: with_log_def cv_client.simps after_on_client)
      (rule after_any; simp only: after_seq)
qed

section \<open>What a deployment asks for and where it ends\<close>

lemma deploy_events_counts:
  assumes "deploy_events a n evs"
  shows "length (filter (\<lambda>e. \<exists>i. e = AskedBuild i) evs) \<le> n \<and> length (filter (\<lambda>e. \<exists>f. e = AskedSubmit f) evs) \<le> n"
proof -
  from assms obtain chunks where evs: "evs = concat chunks" "\<forall>x \<in> set chunks. harmless x \<or> finalize_log_ok a x"
      "length (filter (\<lambda>x. \<not> harmless x) chunks) \<le> n" by (auto simp: deploy_events_def)
  have count: "length (filter p (concat cs)) \<le> length (filter (\<lambda>x. \<not> harmless x) cs)"
    if "\<forall>x \<in> set cs. harmless x \<or> finalize_log_ok a x" "\<And>x. harmless x \<Longrightarrow> filter p x = []"
      "\<And>x. finalize_log_ok a x \<Longrightarrow> length (filter p x) \<le> 1" for p and cs :: "ws_event list list"
    using that(1) by (induction cs) (auto simp: filter_concat dest: that(2,3))
  have "length (filter p evs) \<le> n" if "\<And>x. harmless x \<Longrightarrow> filter p x = []" "\<And>x. finalize_log_ok a x \<Longrightarrow> length (filter p x) \<le> 1" for p
    using count [OF evs(2) that] evs(1,3) by simp
  note this [of "\<lambda>e. \<exists>i. e = AskedBuild i"] this [of "\<lambda>e. \<exists>f. e = AskedSubmit f"]
  then show ?thesis by (auto simp: harmless_def finalize_log_ok_def filter_empty_conv)
qed

lemma deploy_events_submit:
  assumes "deploy_events a n evs" "AskedSubmit f \<in> set evs"
  shows "ws_requested a = ReqSubmitted \<and> f = ws_force a"
proof -
  from assms obtain x where "AskedSubmit f \<in> set x" "harmless x \<or> finalize_log_ok a x"
    by (auto simp: deploy_events_def)
  then show ?thesis by (auto simp only: harmless_def finalize_log_ok_def)
qed

lemma after_deploy:
  shows "after (deploy_to_cv (with_log c) compile inp) (\<lambda>_. deploy_post a []) (\<lambda>_. progress a [] (Suc (ws_max_sync_retries a)))
    ((s, []), new_result (new_workspace a) cc devs store)"
proof -
  have "after (deploy_body (with_log c) compile inp) (\<lambda>_. deploy_post a []) (\<lambda>_. progress a [] (Suc (ws_max_sync_retries a)))
      ((s, []), (new_result (new_workspace a) cc devs store)\<lparr>warnings := manifest_warning inp\<rparr>)"
    by (rule after_deploy_body) (simp_all add: new_result_def new_workspace_def)
  then have "after (deploy_body (with_log c) compile inp) (\<lambda>_. deploy_post a [])
      (\<lambda>e t. if is_client_exception e then after (add_error e) (\<lambda>_. deploy_post a []) (\<lambda>_. progress a [] (Suc (ws_max_sync_retries a))) t
        else progress a [] (Suc (ws_max_sync_retries a)) t)
      ((s, []), (new_result (new_workspace a) cc devs store)\<lparr>warnings := manifest_warning inp\<rparr>)"
  proof (rule after_mono, goal_cases)
    case (2 e t)
    obtain t1 r1 where t: "t = (t1, r1)" by (cases t)
    with 2 have "progress a [] (Suc (ws_max_sync_retries a)) (t1, r1\<lparr>errors := errors r1 @ [e], failed := True\<rparr>)"
      by (intro progress_same [OF 2]) simp_all
    with 2 show ?case by (simp add: t add_error_def after_on_lists deploy_post_def)
  qed
  then show ?thesis
    unfolding deploy_to_cv_def by (simp add: after_seq after_warn after_catch_client new_result_def)
qed

text \<open>
  C29. A deployment always comes to an end, whatever the server answers, and asks for few things: at most one build and one
  submission per attempt, and there are at most \<open>max_synchronization_retries + 1\<close> attempts; it submits only if
  submission was requested, with the requested \<open>force\<close>, and each attempt only after a successful build of its own.
  When it returns, \<open>failed\<close> is set exactly if errors were collected, and if it is not set then the workspace has reached
  the requested state and needs no further synchronization.
\<close>

theorem deploy_to_cv_outcome:
  assumes "deploy_to_cv (with_log c) compile inp ((s, []), new_result (new_workspace a) cc devs store) = (res, ((s', log), r'))"
  shows "(\<exists>rounds. log = concat rounds \<and> (\<forall>x \<in> set rounds. harmless x \<or> finalize_log_ok a x) \<and>
        length (filter (\<lambda>x. \<not> harmless x) rounds) \<le> Suc (ws_max_sync_retries a)) \<and>
    length (filter (\<lambda>e. \<exists>i. e = AskedBuild i) log) \<le> Suc (ws_max_sync_retries a) \<and>
    length (filter (\<lambda>e. \<exists>f. e = AskedSubmit f) log) \<le> Suc (ws_max_sync_retries a) \<and>
    (\<forall>f. AskedSubmit f \<in> set log \<longrightarrow> ws_requested a = ReqSubmitted \<and> f = ws_force a) \<and>
    (res = Inr () \<longrightarrow> (failed r' \<longleftrightarrow> errors r' \<noteq> []) \<and>
       (\<not> failed r' \<longrightarrow> (ws_requested a = ReqPending \<or> ws_state (workspace r') = Some (as_state (ws_requested a))) \<and>
          \<not> synchronization_required (workspace r')))"
proof -
  have "deploy_events a (Suc (ws_max_sync_retries a)) log"
    using assms(1) after_deploy [of c compile inp a s cc devs store, THEN afterD(1)]
      after_deploy [of c compile inp a s cc devs store, THEN afterD(2)]
    by (cases res) (fastforce simp: deploy_post_def progress_def)+
  moreover have "deploy_post a [] ((s', log), r')" if "res = Inr ()"
    using after_deploy [of c compile inp a s cc devs store, THEN afterD(1)] assms(1) that by blast
  ultimately show ?thesis
    using deploy_events_counts deploy_events_submit
    by (simp add: deploy_events_def [symmetric] deploy_post_def reached_def)
qed

text \<open>A client for examples: everything is accepted, and nothing is found.\<close>

definition empty_cloud :: "unit cv_client" where
  "empty_cloud =
     \<lparr>connect = ret (), workspaces = agreeable,
      change_controls = \<lparr>get_change_control = (\<lambda>_. fail CVResourceNotFound), set_change_control = (\<lambda>_ _ _. ret ()),
        approve_change_control = (\<lambda>_ _. ret ()), start_change_control = (\<lambda>_. ret ()), subscribe_change_control = (\<lambda>_. ret ([], None))\<rparr>,
      tags_api = \<lparr>client_get_tags = (\<lambda>_ _. ret (Some [])), client_set_tags = (\<lambda>ts. ret (Some ts)),
        client_get_assignments = (\<lambda>_ _. ret (Some [])), client_set_assignments = (\<lambda>as. ret (Some as)),
        client_delete_assignments = (\<lambda>as. ret (Some as))\<rparr>,
      inventory = \<lparr>get_inventory_devices = (\<lambda>_. ret []), get_topology_studio_inputs = (\<lambda>_. ret []),
        set_topology_studio_inputs = (\<lambda>_. ret ())\<rparr>,
      configs_api = \<lparr>set_configlets_from_files = (\<lambda>_. ret ()), get_configlets = (\<lambda>_. ret []), delete_configlets = (\<lambda>_. ret ()),
        get_configlet_containers = (\<lambda>_. ret []), set_configlet_containers = (\<lambda>_. ret ()),
        create_configlet_container = (\<lambda>_ _ _ _. ret ()), set_container_children = (\<lambda>_ _. ret ()),
        delete_configlet_container = (\<lambda>_. ret ()), get_assignment_roots = ret [], set_assignment_roots = (\<lambda>_. ret ()),
        set_studio_inputs = (\<lambda>_. ret ())\<rparr>,
      metadata_api = \<lparr>get_studio = (\<lambda>_. fail CVResourceNotFound), get_studio_inputs = (\<lambda>_ v. ret v), replace_studio_inputs = (\<lambda>_ _. ret ())\<rparr>\<rparr>"

definition no_inputs :: "deploy_inputs" where
  "no_inputs =
     \<lparr>deployments = [], studio_inputs = [], strict_tags = True, skip_missing_devices = False, strict_system_mac_address = False,
      manifest = None, uuid5 = id, float_of = Inr, simple_7_decrypt = Inr\<rparr>"

lemma deploy_to_cv_outcome_witness:
  "\<exists>log r'. deploy_to_cv (with_log empty_cloud) (\<lambda>_. None) no_inputs
      (((), []), new_result (new_workspace
        \<lparr>ws_requested = ReqBuilt, ws_force = False, ws_build_warnings = quiet_warnings, ws_max_sync_retries = 0\<rparr>) None
        (\<lambda>_. new_device \<lparr>avd_hostname = ''leaf1'', avd_serial_number = None, avd_system_mac_address = None\<rparr> None None) (\<lambda>_. [])) =
      (Inr (), (((), log), r')) \<and>
    length (filter (\<lambda>e. \<exists>i. e = AskedBuild i) log) \<le> 1 \<and> errors r' = [] \<and> ws_state (workspace r') = Some Built"
proof -
  let ?r = "new_result (new_workspace
        \<lparr>ws_requested = ReqBuilt, ws_force = False, ws_build_warnings = quiet_warnings, ws_max_sync_retries = 0\<rparr>) None
        (\<lambda>_. new_device \<lparr>avd_hostname = ''leaf1'', avd_serial_number = None, avd_system_mac_address = None\<rparr> None None) (\<lambda>_. [])"
  obtain res s' log r' where run: "deploy_to_cv (with_log empty_cloud) (\<lambda>_. None) no_inputs (((), []), ?r) = (res, ((s', log), r'))"
    by (metis prod.collapse)
  have "fst (deploy_to_cv (with_log empty_cloud) (\<lambda>_. None) no_inputs (((), []), ?r)) = Inr ()"
    "\<not> failed (snd (snd (deploy_to_cv (with_log empty_cloud) (\<lambda>_. None) no_inputs (((), []), ?r))))"
    by code_simp+
  with run have "res = Inr ()" "\<not> failed r'" by simp_all
  with deploy_to_cv_outcome [OF run] run show ?thesis by (cases s') auto
qed

end
