(* ===== verification/Passwords.thy ===== *)
theory Passwords
  imports PyData
begin

text \<open>
  The filters for secrets: \<open>pyavd/_utils/password_utils\<close> with the filters \<open>encrypt\<close> and \<open>decrypt\<close>,
  \<open>hide_passwords\<close>, and the keys of SNMP users, \<open>j2filters/snmp_hash.py\<close>. The ciphers are those of the
  package \<open>pyavd_utils\<close> and the hashes those of \<open>hashlib\<close>: both are arguments.
\<close>

section \<open>Ciphers and checks\<close>

text \<open>Encryption and decryption with a key text, and the reversible encoding of type 7 with a salt\<close>

record cipher =
  cbc_encrypt :: "string \<Rightarrow> string \<Rightarrow> (py_exn, string) result"
  cbc_decrypt :: "string \<Rightarrow> string \<Rightarrow> (py_exn, string) result"
  type_7_encrypt :: "string \<Rightarrow> pv \<Rightarrow> (py_exn, string) result"
  type_7_decrypt :: "string \<Rightarrow> (py_exn, string) result"

fun is_str :: "pv \<Rightarrow> bool" where
  "is_str (PStr s) = True"
| "is_str v = False"

definition validate_password_and_key :: "pv \<Rightarrow> pv \<Rightarrow> (py_exn, unit) result" where
  "validate_password_and_key password key =
     (if \<not> pv_truth key then Inl ValueError
      else if \<not> pv_truth password then Inl ValueError
      else if \<not> is_str password then Inl TypeError else Inr ())"

text \<open>An exception of the cipher becomes a \<open>ValueError\<close>.\<close>

definition or_value_error :: "(py_exn, 'a) result \<Rightarrow> (py_exn, 'a) result" where
  "or_value_error r = (case r of Inl e \<Rightarrow> Inl ValueError | Inr x \<Rightarrow> Inr x)"

section \<open>Routing protocols\<close>

definition ospf_simple_encrypt :: "cipher \<Rightarrow> pv \<Rightarrow> pv \<Rightarrow> (py_exn, string) result" where
  "ospf_simple_encrypt c password key =
     rbind (validate_password_and_key password key) (\<lambda>_. cbc_encrypt c (pv_str key @ ''_passwd'') (pv_str password))"

definition ospf_simple_decrypt :: "cipher \<Rightarrow> pv \<Rightarrow> pv \<Rightarrow> (py_exn, string) result" where
  "ospf_simple_decrypt c password key =
     rbind (validate_password_and_key password key) (\<lambda>_. or_value_error (cbc_decrypt c (pv_str key @ ''_passwd'') (pv_str password)))"

definition hash_algorithms :: "pv list" where
  "hash_algorithms = map PStr [''md5'', ''sha1'', ''sha256'', ''sha384'', ''sha512'']"

definition message_digest_key :: "pv \<Rightarrow> pv \<Rightarrow> pv \<Rightarrow> pv \<Rightarrow> (py_exn, string) result" where
  "message_digest_key password key algorithm key_id =
     rbind (validate_password_and_key password key) (\<lambda>_.
       if algorithm = PNone \<or> key_id = PNone then Inl ValueError
       else if \<not> py_in algorithm hash_algorithms then Inl ValueError
       else Inr (pv_str key @ ''_'' @ pv_str algorithm @ ''Key_'' @ pv_str key_id))"

definition ospf_message_digest_encrypt :: "cipher \<Rightarrow> pv \<Rightarrow> pv \<Rightarrow> pv \<Rightarrow> pv \<Rightarrow> (py_exn, string) result" where
  "ospf_message_digest_encrypt c password key algorithm key_id =
     rbind (message_digest_key password key algorithm key_id) (\<lambda>k. cbc_encrypt c k (pv_str password))"

definition ospf_message_digest_decrypt :: "cipher \<Rightarrow> pv \<Rightarrow> pv \<Rightarrow> pv \<Rightarrow> pv \<Rightarrow> (py_exn, string) result" where
  "ospf_message_digest_decrypt c password key algorithm key_id =
     rbind (message_digest_key password key algorithm key_id) (\<lambda>k. or_value_error (cbc_decrypt c k (pv_str password)))"

definition bgp_encrypt :: "cipher \<Rightarrow> pv \<Rightarrow> pv \<Rightarrow> (py_exn, string) result" where
  "bgp_encrypt c password key =
     rbind (validate_password_and_key password key) (\<lambda>_. cbc_encrypt c (pv_str key @ ''_passwd'') (pv_str password))"

definition bgp_decrypt :: "cipher \<Rightarrow> pv \<Rightarrow> pv \<Rightarrow> (py_exn, string) result" where
  "bgp_decrypt c password key =
     rbind (validate_password_and_key password key) (\<lambda>_. or_value_error (cbc_decrypt c (pv_str key @ ''_passwd'') (pv_str password)))"

definition isis_mode_map :: "(string, string) dict" where
  "isis_mode_map =
     [(''none'', ''noAuth''), (''text'', ''clearText''), (''md5'', ''md5''), (''sha'', ''sha''), (''sha-1'', ''sha_1''),
      (''sha-224'', ''sha_224''), (''sha-256'', ''sha_256''), (''sha-384'', ''sha_384''), (''sha-512'', ''sha_512'')]"

definition validate_isis_args :: "pv \<Rightarrow> pv \<Rightarrow> pv \<Rightarrow> (py_exn, unit) result" where
  "validate_isis_args password key mode =
     (if \<not> pv_truth password then Inl ValueError
      else if \<not> is_str password then Inl TypeError
      else if \<not> is_str key then Inl TypeError
      else if \<not> is_str mode then Inl TypeError
      else if \<not> pv_truth mode then Inl ValueError else Inr ())"

definition isis_key :: "pv \<Rightarrow> pv \<Rightarrow> (py_exn, string) result" where
  "isis_key key mode =
     (case map_of isis_mode_map (pv_str mode) of None \<Rightarrow> Inl KeyError | Some m \<Rightarrow> Inr (pv_str key @ ''_'' @ m))"

definition isis_encrypt :: "cipher \<Rightarrow> pv \<Rightarrow> pv \<Rightarrow> pv \<Rightarrow> (py_exn, string) result" where
  "isis_encrypt c password key mode =
     rbind (validate_isis_args password key mode) (\<lambda>_. rbind (isis_key key mode) (\<lambda>k. cbc_encrypt c k (pv_str password)))"

definition isis_decrypt :: "cipher \<Rightarrow> pv \<Rightarrow> pv \<Rightarrow> pv \<Rightarrow> (py_exn, string) result" where
  "isis_decrypt c password key mode =
     rbind (validate_isis_args password key mode) (\<lambda>_.
       or_value_error (rbind (isis_key key mode) (\<lambda>k. cbc_decrypt c k (pv_str password))))"

section \<open>The filters\<close>

text \<open>A function called with keyword arguments: the required and the optional ones, which are None if they are not given\<close>

type_synonym filter_method = "pv \<Rightarrow> (string \<times> pv) list \<Rightarrow> (py_exn, string) result"

definition with_kwargs :: "string list \<Rightarrow> string list \<Rightarrow> (pv \<Rightarrow> pv list \<Rightarrow> (py_exn, string) result) \<Rightarrow> filter_method" where
  "with_kwargs required optional f password kwargs =
     (if set required \<subseteq> set (dict_keys kwargs) \<and> set (dict_keys kwargs) \<subseteq> set (required @ optional)
      then f password (map (pget kwargs) (required @ optional)) else Inl TypeError)"

definition keyed :: "(pv \<Rightarrow> pv \<Rightarrow> (py_exn, string) result) \<Rightarrow> filter_method" where
  "keyed f = with_kwargs [''key''] [] (\<lambda>p args. f p (args ! 0))"

definition salted :: "cipher \<Rightarrow> filter_method \<times> filter_method" where
  "salted c = (with_kwargs [''salt''] [] (\<lambda>p args. type_7_encrypt c (pv_str p) (args ! 0)),
     with_kwargs [] [] (\<lambda>p _. type_7_decrypt c (pv_str p)))"

definition methods_dir :: "cipher \<Rightarrow> (string, filter_method \<times> filter_method) dict" where
  "methods_dir c =
     [(''bgp'', keyed (bgp_encrypt c), keyed (bgp_decrypt c)),
      (''isis'', with_kwargs [''key'', ''mode''] [] (\<lambda>p args. isis_encrypt c p (args ! 0) (args ! 1)),
         with_kwargs [''key'', ''mode''] [] (\<lambda>p args. isis_decrypt c p (args ! 0) (args ! 1))),
      (''ospf_message_digest'',
         with_kwargs [''key''] [''hash_algorithm'', ''key_id''] (\<lambda>p args. ospf_message_digest_encrypt c p (args ! 0) (args ! 1) (args ! 2)),
         with_kwargs [''key''] [''hash_algorithm'', ''key_id''] (\<lambda>p args. ospf_message_digest_decrypt c p (args ! 0) (args ! 1) (args ! 2))),
      (''ospf_simple'', keyed (ospf_simple_encrypt c), keyed (ospf_simple_decrypt c)),
      (''ntp'', salted c), (''tacacs'', salted c), (''radius'', salted c)]"

definition crypt_filter ::
  "(filter_method \<times> filter_method \<Rightarrow> filter_method) \<Rightarrow> cipher \<Rightarrow> pv \<Rightarrow> string option \<Rightarrow> pv \<Rightarrow> (string \<times> pv) list \<Rightarrow> (py_exn, string) result" where
  "crypt_filter pick c v ty key kwargs =
     (case ty of
        None \<Rightarrow> Inl TypeError
      | Some t \<Rightarrow>
          (if t = [] then Inl TypeError
           else case map_of (methods_dir c) t of
             None \<Rightarrow> Inl KeyError
           | Some m \<Rightarrow> pick m (PStr (pv_str v)) (if key = PNone then kwargs else AList.update ''key'' key kwargs)))"

definition encrypt :: "cipher \<Rightarrow> pv \<Rightarrow> string option \<Rightarrow> pv \<Rightarrow> (string \<times> pv) list \<Rightarrow> (py_exn, string) result" where
  "encrypt = crypt_filter fst"

definition decrypt :: "cipher \<Rightarrow> pv \<Rightarrow> string option \<Rightarrow> pv \<Rightarrow> (string \<times> pv) list \<Rightarrow> (py_exn, string) result" where
  "decrypt = crypt_filter snd"

definition hide_passwords :: "pv \<Rightarrow> pv \<Rightarrow> (py_exn, pv) result" where
  "hide_passwords v hide = (case hide of PBool b \<Rightarrow> Inr (if b then PStr ''<removed>'' else v) | _ \<Rightarrow> Inl TypeError)"

section \<open>Round trips\<close>

text \<open>The ciphers undo what they did, and an encrypted text is not empty.\<close>

definition reversible :: "cipher \<Rightarrow> bool" where
  "reversible c \<longleftrightarrow>
     (\<forall>k p s. cbc_encrypt c k p = Inr s \<longrightarrow> s \<noteq> [] \<and> cbc_decrypt c k s = Inr p) \<and>
     (\<forall>p salt s. type_7_encrypt c p salt = Inr s \<longrightarrow> type_7_decrypt c s = Inr p)"

lemma pv_str_text [simp]: "pv_str (PStr s) = s"
  by (simp add: pv_str_def)

definition undone_by :: "(pv \<Rightarrow> 'a \<Rightarrow> (py_exn, string) result) \<Rightarrow> (pv \<Rightarrow> 'a \<Rightarrow> (py_exn, string) result) \<Rightarrow> bool" where
  "undone_by f g \<longleftrightarrow> (\<forall>p x s. f (PStr p) x = Inr s \<longrightarrow> g (PStr s) x = Inr p)"

lemma protocols_undone:
  assumes "reversible c"
  shows "undone_by (bgp_encrypt c) (bgp_decrypt c)" "undone_by (ospf_simple_encrypt c) (ospf_simple_decrypt c)"
    "undone_by (\<lambda>p (k, m). isis_encrypt c p k m) (\<lambda>p (k, m). isis_decrypt c p k m)"
    "undone_by (\<lambda>p (k, a, i). ospf_message_digest_encrypt c p k a i) (\<lambda>p (k, a, i). ospf_message_digest_decrypt c p k a i)"
  using assms
  by (auto simp: undone_by_def reversible_def bgp_encrypt_def bgp_decrypt_def ospf_simple_encrypt_def ospf_simple_decrypt_def
    isis_encrypt_def isis_decrypt_def ospf_message_digest_encrypt_def ospf_message_digest_decrypt_def message_digest_key_def
    validate_password_and_key_def validate_isis_args_def or_value_error_def split: if_splits)

text \<open>The salt is an argument of the encryption only.\<close>

definition for_decryption :: "string \<Rightarrow> (string \<times> pv) list \<Rightarrow> (string \<times> pv) list" where
  "for_decryption t kwargs = (if t \<in> {''ntp'', ''tacacs'', ''radius''} then AList.delete ''salt'' kwargs else kwargs)"

lemma delete_only: "fst ` set d \<subseteq> {k} \<Longrightarrow> AList.delete k d = []"
  by (induction d) auto

lemma delete_update_other: "k \<noteq> k' \<Longrightarrow> AList.delete k (AList.update k' v d) = AList.update k' v (AList.delete k d)"
  by (induction d) auto

lemma methods_undone:
  assumes "reversible c" "map_of (methods_dir c) t = Some (enc, dec)" "enc (PStr p) kwargs = Inr s"
  shows "dec (PStr s) (for_decryption t kwargs) = Inr p"
proof -
  note undone = protocols_undone [OF assms(1), unfolded undone_by_def]
  have "type_7_encrypt c p salt = Inr s \<Longrightarrow> type_7_decrypt c s = Inr p" for salt
    using assms(1) by (auto simp: reversible_def)
  then show ?thesis
    using assms(2,3) undone(1,2)
      undone(3) [rule_format, of p "(pget kwargs ''key'', pget kwargs ''mode'')" s]
      undone(4) [rule_format, of p "(pget kwargs ''key'', pget kwargs ''hash_algorithm'', pget kwargs ''key_id'')" s]
    by (auto simp: methods_dir_def keyed_def salted_def with_kwargs_def for_decryption_def delete_only split: if_splits)
qed

text \<open>
  Every kind of password is recovered: what the filter \<open>encrypt\<close> makes of a value, with a type, a key and
  other arguments, the filter \<open>decrypt\<close> with the same arguments but the salt turns back into the text of
  the value. The ciphers are assumed to be reversible.
\<close>

theorem encrypt_decrypt:
  assumes "reversible c" "encrypt c v (Some t) key kwargs = Inr s"
  shows "decrypt c (PStr s) (Some t) key (for_decryption t kwargs) = Inr (pv_str v)"
proof -
  let ?kw = "if key = PNone then kwargs else AList.update ''key'' key kwargs"
  obtain enc dec where m: "map_of (methods_dir c) t = Some (enc, dec)" "enc (PStr (pv_str v)) ?kw = Inr s" "t \<noteq> []"
    using assms(2) by (auto simp: encrypt_def crypt_filter_def split: if_splits option.splits)
  have "for_decryption t ?kw = (if key = PNone then for_decryption t kwargs else AList.update ''key'' key (for_decryption t kwargs))"
    by (simp add: for_decryption_def delete_update_other)
  with methods_undone [OF assms(1) m(1,2)] m(1,3) show ?thesis
    by (simp add: decrypt_def crypt_filter_def)
qed

text \<open>A cipher for examples: the key in front of the text\<close>

definition plain_cipher :: cipher where
  "plain_cipher =
     \<lparr>cbc_encrypt = (\<lambda>k p. Inr (k @ '':'' @ p)),
      cbc_decrypt = (\<lambda>k s. if startswith s (k @ '':'') then Inr (drop (length k + 1) s) else Inl ValueError),
      type_7_encrypt = (\<lambda>p salt. Inr p), type_7_decrypt = Inr\<rparr>"

lemma encrypt_decrypt_witness:
  "reversible plain_cipher \<and>
   (let s = ''ISIS_sha_256:secret'' in
     encrypt plain_cipher (PStr ''secret'') (Some ''isis'') (PStr ''ISIS'') [(''mode'', PStr ''sha-256'')] = Inr s \<and>
     decrypt plain_cipher (PStr s) (Some ''isis'') (PStr ''ISIS'') [(''mode'', PStr ''sha-256'')] = Inr ''secret'')"
proof -
  have ok: "reversible plain_cipher" by (simp add: reversible_def plain_cipher_def startswith_def)
  have "encrypt plain_cipher (PStr ''secret'') (Some ''isis'') (PStr ''ISIS'') [(''mode'', PStr ''sha-256'')] = Inr ''ISIS_sha_256:secret''"
    by code_simp
  from encrypt_decrypt [OF ok this] ok this show ?thesis by (simp add: for_decryption_def)
qed

text \<open>A mode of ISIS that is not in the map is a \<open>KeyError\<close>, or a \<open>ValueError\<close> when decrypting.\<close>

lemma isis_unknown_mode:
  assumes "p \<noteq> []" "mode \<noteq> []" "map_of isis_mode_map mode = None"
  shows "isis_encrypt c (PStr p) (PStr key) (PStr mode) = Inl KeyError" "isis_decrypt c (PStr p) (PStr key) (PStr mode) = Inl ValueError"
  using assms by (simp_all add: isis_encrypt_def isis_decrypt_def validate_isis_args_def isis_key_def or_value_error_def)

end
