(* ===== verification/SnmpKeys.thy ===== *)
theory SnmpKeys
  imports PyData "HOL-Library.Word"
begin

text \<open>
  The keys of SNMP users, \<open>pyavd/j2filters/snmp_hash.py\<close>: the key of a passphrase (RFC 2574, A.2) is the hash of one
  megabyte of its repetitions, localized with the id of the engine and stretched to the length of the privacy
  algorithm. The hashes of \<open>hashlib\<close> are an argument, None for an unknown name; texts are ASCII. The loop
  that stretches the key ends only if digests are not empty: not returning is the value None.
\<close>

section \<open>Bytes and their texts\<close>

type_synonym bytes = "8 word list"

definition encode :: "string \<Rightarrow> bytes" where
  "encode s = map (\<lambda>c. word_of_nat (of_char c)) s"

definition hexdigest :: "bytes \<Rightarrow> string" where
  "hexdigest bs = concat (map (\<lambda>b. [hex_digit (unat b div 16), hex_digit (unat b mod 16)]) bs)"

definition hex_value :: "char \<Rightarrow> nat option" where
  "hex_value c =
     (let n = of_char c :: nat
      in if 48 \<le> n \<and> n \<le> 57 then Some (n - 48)
         else if 97 \<le> n \<and> n \<le> 102 then Some (n - 87)
         else if 65 \<le> n \<and> n \<le> 70 then Some (n - 55) else None)"

definition is_white :: "char \<Rightarrow> bool" where
  "is_white c \<longleftrightarrow> (of_char c :: nat) \<in> {9, 10, 11, 12, 13, 32}"

text \<open>\<open>bytes.fromhex\<close>: white space is skipped between bytes.\<close>

fun fromhex :: "string \<Rightarrow> (py_exn, bytes) result" where
  "fromhex [] = Inr []"
| "fromhex [c] = (if is_white c then Inr [] else Inl ValueError)"
| "fromhex (c # d # cs) =
     (if is_white c then fromhex (d # cs)
      else case (hex_value c, hex_value d) of
        (Some x, Some y) \<Rightarrow> rbind (fromhex cs) (\<lambda>bs. Inr (word_of_nat (16 * x + y) # bs))
      | _ \<Rightarrow> Inl ValueError)"

section \<open>Keys\<close>

type_synonym hashes = "string \<Rightarrow> (bytes \<Rightarrow> bytes) option"

definition priv_key_length :: "(string, nat) dict" where
  "priv_key_length = [(''des'', 128), (''aes'', 128), (''aes192'', 192), (''aes256'', 256)]"

definition get_hash_object :: "hashes \<Rightarrow> string \<Rightarrow> (py_exn, bytes \<Rightarrow> bytes) result" where
  "get_hash_object hash auth_type =
     (case hash (if auth_type = ''sha'' then ''sha1'' else auth_type) of None \<Rightarrow> Inl ValueError | Some h \<Rightarrow> Inr h)"

text \<open>Blocks of 64 bytes of the repeated passphrase, until there is a megabyte; an empty passphrase is a division by zero.\<close>

fun next_block :: "bytes \<Rightarrow> nat \<Rightarrow> nat \<Rightarrow> (py_exn, bytes \<times> nat) result" where
  "next_block pw 0 index = Inr ([], index)"
| "next_block pw (Suc n) index =
     (if pw = [] then Inl ZeroDivisionError
      else rbind (next_block pw n (Suc index)) (\<lambda>(cp, i). Inr (pw ! (index mod length pw) # cp, i)))"

function feed :: "bytes \<Rightarrow> nat \<Rightarrow> nat \<Rightarrow> bytes \<Rightarrow> (py_exn, bytes) result" where
  "feed pw count index fed =
     (if count < 1048576 then rbind (next_block pw 64 index) (\<lambda>(cp, i). feed pw (count + 64) i (fed @ cp)) else Inr fed)"
  by pat_completeness auto

termination by (relation "measure (\<lambda>(pw, count, index, fed). 1048576 - count)") auto

declare feed.simps [simp del]

definition key_from_passphrase :: "hashes \<Rightarrow> string \<Rightarrow> string \<Rightarrow> (py_exn, string) result" where
  "key_from_passphrase hash passphrase auth_type =
     rbind (get_hash_object hash auth_type) (\<lambda>h. rbind (feed (encode passphrase) 0 0 []) (\<lambda>fed. Inr (hexdigest (h fed))))"

partial_function (option) stretch :: "(bytes \<Rightarrow> bytes) \<Rightarrow> nat \<Rightarrow> string \<Rightarrow> (py_exn, string) result option" where
  "stretch h bits key =
     (if length key * 4 < bits
      then (case fromhex key of Inl e \<Rightarrow> Some (Inl e) | Inr bs \<Rightarrow> stretch h bits (key @ hexdigest (h bs)))
      else Some (Inr key))"

definition localize_passphrase ::
  "hashes \<Rightarrow> string \<Rightarrow> string \<Rightarrow> string \<Rightarrow> string option \<Rightarrow> (py_exn, string) result option" where
  "localize_passphrase hash passphrase auth_type engine_id priv_type =
     (case rbind (key_from_passphrase hash passphrase auth_type) (\<lambda>k.
           rbind (fromhex k) (\<lambda>key.
           rbind (get_hash_object hash auth_type) (\<lambda>h.
           rbind (fromhex engine_id) (\<lambda>engine. Inr (h, hexdigest (h (key @ engine @ key))))))) of
        Inl e \<Rightarrow> Some (Inl e)
      | Inr (h, localized) \<Rightarrow>
          (case priv_type of
             None \<Rightarrow> Some (Inr localized)
           | Some t \<Rightarrow>
               (case map_of priv_key_length t of
                  None \<Rightarrow> Some (Inl ValueError)
                | Some bits \<Rightarrow> map_option (map_sum id (take (bits div 4))) (stretch h bits localized))))"

definition snmp_hash :: "hashes \<Rightarrow> (string, string) dict \<Rightarrow> (py_exn, string) result option" where
  "snmp_hash hash d =
     (case (map_of d ''passphrase'', map_of d ''auth'', map_of d ''engine_id'') of
        (Some passphrase, Some auth_type, Some engine_id) \<Rightarrow>
          localize_passphrase hash passphrase auth_type engine_id (map_of d ''priv'')
      | _ \<Rightarrow> Some (Inl KeyError))"

section \<open>Hexadecimal texts\<close>

lemma of_char_hex_digit: "d < 16 \<Longrightarrow> (of_char (hex_digit d) :: nat) = (if d < 10 then 48 + d else 87 + d)"
  by (simp add: hex_digit_def)

lemma hex_value_digit: "d < 16 \<Longrightarrow> hex_value (hex_digit d) = Some d"
  by (simp add: hex_value_def of_char_hex_digit Let_def)

lemma hex_digit_not_white: "d < 16 \<Longrightarrow> \<not> is_white (hex_digit d)"
  by (auto simp: is_white_def of_char_hex_digit)

lemma byte_halves: "unat (b :: 8 word) div 16 < 16" "word_of_nat (16 * (unat b div 16) + unat b mod 16) = b"
proof -
  have "unat b < 2 ^ LENGTH(8)" by (rule unsigned_less)
  then have "unat b < 256" by simp
  then show "unat b div 16 < 16" by simp
  show "word_of_nat (16 * (unat b div 16) + unat b mod 16) = b" by (simp del: of_nat_add of_nat_mult)
qed

lemma fromhex_hexdigest: "fromhex (hexdigest bs) = Inr bs"
  by (induction bs) (simp_all add: hexdigest_def hex_digit_not_white hex_value_digit byte_halves)

lemma hexdigest_append: "hexdigest (xs @ ys) = hexdigest xs @ hexdigest ys"
  by (simp add: hexdigest_def)

lemma length_hexdigest: "length (hexdigest bs) = 2 * length bs"
  by (induction bs) (simp_all add: hexdigest_def)

section \<open>The repeated passphrase\<close>

definition repeated :: "bytes \<Rightarrow> nat \<Rightarrow> nat \<Rightarrow> bytes" where
  "repeated pw i j = map (\<lambda>n. pw ! (n mod length pw)) [i ..< j]"

lemma next_block_repeated: "pw \<noteq> [] \<Longrightarrow> next_block pw n i = Inr (repeated pw i (i + n), i + n)"
  by (induction n arbitrary: i) (simp_all add: repeated_def upt_conv_Cons del: upt_Suc)

lemma feed_repeated:
  assumes "pw \<noteq> []"
  shows "count = 64 * k \<Longrightarrow> k \<le> 16384 \<Longrightarrow> feed pw count count (repeated pw 0 count) = Inr (repeated pw 0 1048576)"
proof (induction "16384 - k" arbitrary: k count)
  case 0
  then show ?case by (simp add: feed.simps)
next
  case (Suc n)
  then have more: "count < 1048576" "n = 16384 - Suc k" "Suc k \<le> 16384" by simp_all
  have "repeated pw 0 count @ repeated pw count (count + 64) = repeated pw 0 (count + 64)"
    unfolding repeated_def map_append [symmetric] by (subst upt_add_eq_append) simp_all
  then have "feed pw count count (repeated pw 0 count) = feed pw (count + 64) (count + 64) (repeated pw 0 (count + 64))"
    using more(1) by (subst feed.simps) (simp add: next_block_repeated [OF assms])
  also have "\<dots> = Inr (repeated pw 0 1048576)" by (rule Suc.hyps(1) [OF more(2)]) (use Suc.prems(1) more(3) in simp_all)
  finally show ?case .
qed

lemma feed_all: "pw \<noteq> [] \<Longrightarrow> feed pw 0 0 [] = Inr (repeated pw 0 1048576)"
  using feed_repeated [of pw 0 0] by (simp add: repeated_def)

lemma feed_empty: "feed [] 0 0 [] = Inl ZeroDivisionError"
proof -
  have "next_block [] 64 0 = Inl ZeroDivisionError" by (simp add: eval_nat_numeral)
  then show ?thesis by (subst feed.simps) simp
qed

section \<open>The stretched key\<close>

lemma stretch_done:
  assumes "\<And>b. h b \<noteq> []"
  shows "\<exists>more. stretch h bits (hexdigest key) = Some (Inr (hexdigest (key @ more))) \<and> bits \<le> 8 * length (key @ more)"
proof (induction "bits - 8 * length key" arbitrary: key rule: less_induct)
  case less
  show ?case
  proof (cases "8 * length key < bits")
    case True
    have "0 < length (h key)" using assms by simp
    then have "bits - 8 * length (key @ h key) < bits - 8 * length key"
      using True unfolding length_append by arith
    from less [OF this] obtain more where
        more: "stretch h bits (hexdigest (key @ h key)) = Some (Inr (hexdigest ((key @ h key) @ more)))"
        "bits \<le> 8 * length ((key @ h key) @ more)" by blast
    have "stretch h bits (hexdigest key) = stretch h bits (hexdigest (key @ h key))"
      using True by (subst stretch.simps) (simp add: length_hexdigest fromhex_hexdigest hexdigest_append)
    with more show ?thesis by (intro exI [of _ "h key @ more"]) simp
  next
    case False
    then have "stretch h bits (hexdigest key) = Some (Inr (hexdigest key))"
      by (subst stretch.simps) (simp add: length_hexdigest)
    with False show ?thesis by (intro exI [of _ "[]"]) simp
  qed
qed

text \<open>
  C40. If digests are not empty, the key of an SNMP user is computed for every passphrase that is not empty, known hash and
  engine id: it is the digest of the digest of a megabyte of the repeated passphrase around the engine id, or,
  for a privacy algorithm, begins with it or is cut off it, and has exactly the length of the algorithm. An empty passphrase
  is a division by zero, an unknown privacy algorithm a \<open>ValueError\<close>.
\<close>

theorem snmp_key:
  assumes "\<And>b. h b \<noteq> []" "hash (if auth = ''sha'' then ''sha1'' else auth) = Some h" "fromhex engine_id = Inr engine"
    and "map_of d ''passphrase'' = Some passphrase" "map_of d ''auth'' = Some auth" "map_of d ''engine_id'' = Some engine_id"
  defines "key \<equiv> h (map (\<lambda>n. encode passphrase ! (n mod length passphrase)) [0 ..< 1048576])"
  shows "if passphrase = [] then snmp_hash hash d = Some (Inl ZeroDivisionError)
    else (case map_of d ''priv'' of
        None \<Rightarrow> snmp_hash hash d = Some (Inr (hexdigest (h (key @ engine @ key))))
      | Some priv \<Rightarrow> (case map_of priv_key_length priv of
          None \<Rightarrow> snmp_hash hash d = Some (Inl ValueError)
        | Some bits \<Rightarrow> \<exists>more. snmp_hash hash d = Some (Inr (take (bits div 4) (hexdigest (h (key @ engine @ key) @ more)))) \<and>
            length (take (bits div 4) (hexdigest (h (key @ engine @ key) @ more))) = bits div 4))"
proof -
  have hash: "get_hash_object hash auth = Inr h" using assms(2) by (simp add: get_hash_object_def)
  show ?thesis
  proof (cases "passphrase = []")
    case True
    then show ?thesis
      using assms(4-6) hash by (simp add: snmp_hash_def localize_passphrase_def key_from_passphrase_def encode_def feed_empty)
  next
    case False
    have "key_from_passphrase hash passphrase auth = Inr (hexdigest key)"
      using False by (simp add: key_from_passphrase_def hash feed_all key_def repeated_def encode_def)
    then have run: "snmp_hash hash d = (case map_of d ''priv'' of
             None \<Rightarrow> Some (Inr (hexdigest (h (key @ engine @ key))))
           | Some t \<Rightarrow> (case map_of priv_key_length t of
                  None \<Rightarrow> Some (Inl ValueError)
                | Some bits \<Rightarrow> map_option (map_sum id (take (bits div 4))) (stretch h bits (hexdigest (h (key @ engine @ key))))))"
      using assms(3-6) hash by (simp add: snmp_hash_def localize_passphrase_def fromhex_hexdigest)
    have "\<exists>more. map_option (map_sum id (take (bits div 4))) (stretch h bits (hexdigest (h (key @ engine @ key)))) =
        Some (Inr (take (bits div 4) (hexdigest (h (key @ engine @ key) @ more)))) \<and>
        length (take (bits div 4) (hexdigest (h (key @ engine @ key) @ more))) = bits div 4" for bits
      using stretch_done [of h bits "h (key @ engine @ key)", OF assms(1)] by (auto simp: length_hexdigest)
    with run False show ?thesis by (simp split: option.split)
  qed
qed

text \<open>A hash for examples\<close>

definition toy_hash :: hashes where
  "toy_hash name = (if name = ''sha1'' then Some (\<lambda>b. [171, 205]) else None)"

lemma snmp_key_witness:
  "snmp_hash toy_hash [(''passphrase'', ''secret''), (''auth'', ''sha''), (''engine_id'', ''ff00''), (''priv'', ''blowfish'')] =
    Some (Inl ValueError) \<and>
   (\<exists>k. snmp_hash toy_hash [(''passphrase'', ''secret''), (''auth'', ''sha''), (''engine_id'', ''ff00''), (''priv'', ''aes'')] = Some (Inr k) \<and>
     length k = 32)"
proof -
  have engine: "fromhex ''ff00'' = Inr [255, 0]" by code_simp
  let ?d = "\<lambda>priv. [(''passphrase'', ''secret''), (''auth'', ''sha''), (''engine_id'', ''ff00''), (''priv'', priv)]"
  note key = snmp_key [where h = "\<lambda>b. [171, 205]" and hash = toy_hash and auth = "''sha''" and engine_id = "''ff00''"
    and engine = "[255, 0]" and passphrase = "''secret''", OF _ _ engine]
  show ?thesis
    using key [of "?d ''blowfish''"] key [of "?d ''aes''"] by (auto simp: priv_key_length_def toy_hash_def)
qed

end
