(* ===== verification/Spec2Isabelle.thy ===== *)
theory Spec2Isabelle
  imports Prelude PyData NaturalSort FormatString PoolManager Regex RangeExpand IpPool IpAddressing
    Merge SchemaModel SchemaMerge SchemaTypes Profiles RunOnce CvErrors CvVersion CvRequest
    CvModels CvTags CvWorkspace CvInputs CvChangeControl CvConfigs CvContainers CvStudio CvMetadata CvPathfinder CvDeploy Passwords SnmpKeys
begin

text \<open>
  Verification library of pyavd, the Python core of Arista AVD (\<open>src/python-avd/pyavd\<close>).
\<close>

end
